(* ===== verification/Alfie_Prelude.thy ===== *)
theory Alfie_Prelude
  imports Main "HOL-Library.Word" "HOL-Library.Monad_Syntax"
begin

text \<open>
  Shared vocabulary of the development: the C integer types at their width, the errno values,
  the result convention for code that can fault, byte-level memory access, little-endian
  coding, the counting loop, and splitting a message into chunks.

  A C function that can perform an out-of-bounds access, dereference a null pointer or trip a
  kernel assertion has a result of type \<open>'r option\<close>: \<open>None\<close> is such a fault (or a wait that
  never ends), and it is never a value the function returns.
\<close>

section \<open>Integer types and error codes\<close>

type_synonym u8 = "8 word"
type_synonym u16 = "16 word"
type_synonym u32 = "32 word"

text \<open>Values of \<open>errno.h\<close> in the C library the firmware is built with.\<close>

abbreviation (input) EAGAIN :: int where "EAGAIN \<equiv> 11"
abbreviation (input) ENOMEM :: int where "ENOMEM \<equiv> 12"
abbreviation (input) ENODEV :: int where "ENODEV \<equiv> 19"
abbreviation (input) EINVAL :: int where "EINVAL \<equiv> 22"
abbreviation (input) ENOLINK :: int where "ENOLINK \<equiv> 67"
abbreviation (input) ENETDOWN :: int where "ENETDOWN \<equiv> 115"
abbreviation (input) EALREADY :: int where "EALREADY \<equiv> 120"
abbreviation (input) ENOTCONN :: int where "ENOTCONN \<equiv> 128"
abbreviation (input) ECANCELED :: int where "ECANCELED \<equiv> 140"

named_theorems wire "encoding and decoding of packed structs"
named_theorems frames "which part of the state an operation leaves alone"

section \<open>Options as faults\<close>

lemma bind_Some_iff: "Option.bind m f = Some y \<longleftrightarrow> (\<exists>x. m = Some x \<and> f x = Some y)"
  by (cases m) auto

lemma bind_None_iff: "Option.bind m f = None \<longleftrightarrow> m = None \<or> (\<exists>x. m = Some x \<and> f x = None)"
  by (cases m) auto

text \<open>Searching a list.\<close>

lemma find_SomeD: "find P xs = Some x \<Longrightarrow> x \<in> set xs \<and> P x"
  by (metis find_Some_iff nth_mem)

lemma find_NoneI: "(\<And>y. y \<in> set xs \<Longrightarrow> \<not> P y) \<Longrightarrow> find P xs = None"
  by (simp add: find_None_iff)

lemma find_unique:
  assumes "x \<in> set xs" and "P x" and "\<And>y. y \<in> set xs \<Longrightarrow> P y \<Longrightarrow> y = x"
  shows "find P xs = Some x"
proof (cases "find P xs")
  case None
  with assms(1,2) show ?thesis by (simp add: find_None_iff)
next
  case (Some y)
  with assms(3) find_SomeD[OF Some] show ?thesis by blast
qed

section \<open>Byte memory\<close>

text \<open>
  A pointer into an object is the list of the bytes from the pointer to the end of the object.
  Reading \<open>n\<close> bytes past that end is a fault.
\<close>

definition mem_read :: "u8 list \<Rightarrow> nat \<Rightarrow> u8 list option" where
  "mem_read p n = (if n \<le> length p then Some (take n p) else None)"

text \<open>\<open>memcpy\<close> into the front of an object that is at least as long as the source.\<close>

definition overwrite :: "'a list \<Rightarrow> 'a list \<Rightarrow> 'a list" where
  "overwrite src dst = src @ drop (length src) dst"

lemma mem_read_Some [simp]: "n \<le> length p \<Longrightarrow> mem_read p n = Some (take n p)"
  by (simp add: mem_read_def)

lemma mem_read_eq_Some: "mem_read p n = Some d \<longleftrightarrow> n \<le> length p \<and> d = take n p"
  by (auto simp: mem_read_def)

lemma mem_read_eq_None: "mem_read p n = None \<longleftrightarrow> length p < n"
  by (auto simp: mem_read_def)

lemma length_overwrite [simp]: "length src \<le> length dst \<Longrightarrow> length (overwrite src dst) = length dst"
  by (simp add: overwrite_def)

lemma take_overwrite [simp]: "take (length src) (overwrite src dst) = src"
  by (simp add: overwrite_def)

lemma overwrite_all: "length src = length dst \<Longrightarrow> overwrite src dst = src"
  by (simp add: overwrite_def)

text \<open>\<open>memcpy\<close> to an offset in an array.\<close>

definition overwrite_at :: "nat \<Rightarrow> 'a list \<Rightarrow> 'a list \<Rightarrow> 'a list" where
  "overwrite_at off src dst = take off dst @ overwrite src (drop off dst)"

lemma length_overwrite_at [simp]:
  "off + length src \<le> length dst \<Longrightarrow> length (overwrite_at off src dst) = length dst"
  by (simp add: overwrite_at_def)

lemma take_overwrite_at [simp]:
  "off \<le> length dst \<Longrightarrow> take (off + length src) (overwrite_at off src dst) = take off dst @ src"
  by (simp add: overwrite_at_def overwrite_def)

section \<open>Little-endian coding\<close>

unbundle bit_operations_syntax

text \<open>The bytes of a \<open>uint16_t\<close> and a \<open>uint32_t\<close> in the order a little-endian CPU stores them.\<close>

definition lo8 :: "u16 \<Rightarrow> u8" where "lo8 x = ucast x"
definition hi8 :: "u16 \<Rightarrow> u8" where "hi8 x = ucast (drop_bit 8 x)"
definition mk16 :: "u8 \<Rightarrow> u8 \<Rightarrow> u16" where "mk16 l h = ucast l OR push_bit 8 (ucast h)"

definition byte32 :: "nat \<Rightarrow> u32 \<Rightarrow> u8" where "byte32 i x = ucast (drop_bit (8 * i) x)"
definition mk32 :: "u8 \<Rightarrow> u8 \<Rightarrow> u8 \<Rightarrow> u8 \<Rightarrow> u32" where
  "mk32 b0 b1 b2 b3 =
     ucast b0 OR push_bit 8 (ucast b1) OR push_bit 16 (ucast b2) OR push_bit 24 (ucast b3)"

definition le16 :: "u16 \<Rightarrow> u8 list" where "le16 x = [lo8 x, hi8 x]"
definition le32 :: "u32 \<Rightarrow> u8 list" where "le32 x = [byte32 0 x, byte32 1 x, byte32 2 x, byte32 3 x]"

lemma length_le16 [simp]: "length (le16 x) = 2"
  by (simp add: le16_def)

lemma length_le32 [simp]: "length (le32 x) = 4"
  by (simp add: le32_def)

lemma mk16_bytes [simp]: "mk16 (lo8 x) (hi8 x) = x"
  unfolding mk16_def lo8_def hi8_def
  by (rule bit_word_eqI) (auto simp: bit_simps)

lemma lo8_mk16 [simp]: "lo8 (mk16 l h) = l"
  unfolding mk16_def lo8_def
  by (rule bit_word_eqI) (auto simp: bit_simps)

lemma hi8_mk16 [simp]: "hi8 (mk16 l h) = h"
  unfolding mk16_def hi8_def
  by (rule bit_word_eqI) (auto simp: bit_simps dest: bit_imp_le_length)

lemma mk32_bytes [simp]: "mk32 (byte32 0 x) (byte32 1 x) (byte32 2 x) (byte32 3 x) = x"
proof (rule bit_word_eqI)
  fix n assume n: "n < LENGTH(32)"
  consider "n < 8" | "8 \<le> n" "n < 16" | "16 \<le> n" "n < 24" | "24 \<le> n" by linarith
  then show "bit (mk32 (byte32 0 x) (byte32 1 x) (byte32 2 x) (byte32 3 x)) n = bit x n"
    using n by cases (auto simp: mk32_def byte32_def bit_simps)
qed

lemma mk32_bytes_Suc [simp]:
  "mk32 (byte32 0 x) (byte32 (Suc 0) x) (byte32 2 x) (byte32 3 x) = x"
  using mk32_bytes[of x] by simp

lemma byte32_mk32 [simp]:
  "byte32 0 (mk32 b0 b1 b2 b3) = b0" "byte32 (Suc 0) (mk32 b0 b1 b2 b3) = b1"
  "byte32 1 (mk32 b0 b1 b2 b3) = b1"
  "byte32 2 (mk32 b0 b1 b2 b3) = b2" "byte32 3 (mk32 b0 b1 b2 b3) = b3"
  unfolding byte32_def mk32_def
  by ((rule bit_word_eqI, auto simp: bit_simps dest: bit_imp_le_length)[1])+

text \<open>The range of the integer types.\<close>

lemma unat_u8_less: "unat (x :: u8) < 256"
  using unsigned_less[of x, where 'a = nat] by simp

lemma unat_u16_less: "unat (x :: u16) < 65536"
  using unsigned_less[of x, where 'a = nat] by simp

lemma unat_of_nat_u8: "k < 256 \<Longrightarrow> unat (of_nat k :: u8) = k"
  by (simp add: unat_of_nat)

lemma unat_of_nat_u16: "k < 65536 \<Longrightarrow> unat (of_nat k :: u16) = k"
  by (simp add: unat_of_nat)

section \<open>Loops\<close>

text \<open>The counting loop of the source over the index values it takes, stopping at a fault.\<close>

primrec for_each :: "'i list \<Rightarrow> ('i \<Rightarrow> 's \<Rightarrow> 's option) \<Rightarrow> 's \<Rightarrow> 's option" where
  "for_each [] f s = Some s"
| "for_each (i # is) f s = do { s' \<leftarrow> f i s; for_each is f s' }"

lemma for_each_append:
  "for_each (is @ js) f s = do { s' \<leftarrow> for_each is f s; for_each js f s' }"
  by (induction "is" arbitrary: s) (auto split: Option.bind_split)

lemma for_each_total:
  assumes "P s" and "\<And>i s. i \<in> set is \<Longrightarrow> P s \<Longrightarrow> \<exists>s'. f i s = Some s' \<and> P s'"
  shows "\<exists>s'. for_each is f s = Some s' \<and> P s'"
  using assms
proof (induction "is" arbitrary: s)
  case Nil
  then show ?case by simp
next
  case (Cons i "is")
  from Cons.prems(2)[of i s] Cons.prems(1) obtain s1 where "f i s = Some s1" and "P s1"
    by auto
  with Cons.IH[of s1] Cons.prems(2) show ?case by simp
qed

lemma for_each_invariant:
  assumes "for_each is f s = Some s'" and "P s"
    and "\<And>i s s'. i \<in> set is \<Longrightarrow> P s \<Longrightarrow> f i s = Some s' \<Longrightarrow> P s'"
  shows "P s'"
  using assms
proof (induction "is" arbitrary: s)
  case Nil
  then show ?case by simp
next
  case (Cons i "is")
  from Cons.prems(1) obtain s1 where "f i s = Some s1" and "for_each is f s1 = Some s'"
    by (auto simp: bind_Some_iff)
  moreover from this(1) have "P s1" using Cons.prems(2,3) by auto
  ultimately show ?case using Cons.IH[of s1] Cons.prems(3) by (meson list.set_intros(2))
qed

section \<open>Splitting a message into chunks\<close>

text \<open>Chunk \<open>i\<close> of a message for fragments of at most \<open>m\<close> bytes, and how many there are.\<close>

definition chunk :: "nat \<Rightarrow> nat \<Rightarrow> 'a list \<Rightarrow> 'a list" where
  "chunk m i xs = take m (drop (i * m) xs)"

definition n_chunks :: "nat \<Rightarrow> nat \<Rightarrow> nat" where
  "n_chunks m len = (len + m - 1) div m"

lemma take_chunk: "take (i * m) xs @ chunk m i xs = take (Suc i * m) xs"
  by (simp only: chunk_def mult_Suc add.commute[of m] take_add)

lemma concat_chunks: "concat (map (\<lambda>i. chunk m i xs) [0..<n]) = take (n * m) xs"
  by (induction n) (simp_all add: take_chunk del: mult_Suc)

lemma n_chunks_pos: "0 < m \<Longrightarrow> 0 < len \<Longrightarrow> 0 < n_chunks m len"
  by (simp add: n_chunks_def div_greater_zero_iff)

lemma n_chunks_covers:
  assumes "0 < m"
  shows "len \<le> n_chunks m len * m"
proof -
  have "len + m - 1 = (len + m - 1) div m * m + (len + m - 1) mod m" by simp
  moreover have "(len + m - 1) mod m \<le> m - 1"
    using assms by (simp add: less_Suc_eq_le[symmetric])
  ultimately show ?thesis using assms unfolding n_chunks_def by linarith
qed

lemma n_chunks_tight:
  assumes "0 < m" and "i < n_chunks m len"
  shows "i * m < len"
proof -
  have "Suc i * m \<le> n_chunks m len * m"
    using assms(2) by (intro mult_le_mono1) simp
  also have "\<dots> \<le> len + m - 1" by (simp add: n_chunks_def)
  finally show ?thesis using assms(1) by simp
qed

lemma length_chunk: "length (chunk m i xs) = min (length xs - i * m) m"
  by (simp add: chunk_def min.commute)

lemma length_chunk_pos: "0 < m \<Longrightarrow> i < n_chunks m (length xs) \<Longrightarrow> 0 < length (chunk m i xs)"
  by (simp add: length_chunk n_chunks_tight)

lemma length_chunk_le: "length (chunk m i xs) \<le> m"
  by (simp add: length_chunk)

lemma concat_all_chunks:
  "0 < m \<Longrightarrow> concat (map (\<lambda>i. chunk m i xs) [0..<n_chunks m (length xs)]) = xs"
  by (simp add: concat_chunks n_chunks_covers)

lemma n_chunks_le_255:
  assumes "0 < m" and "len \<le> 255 * m"
  shows "n_chunks m len \<le> 255"
proof -
  have "len + m - 1 < 256 * m" using assms by simp
  then have "(len + m - 1) div m < 256" by (simp add: div_less_iff_less_mult assms(1))
  then show ?thesis by (simp add: n_chunks_def)
qed

end
