(* ===== verification/Wire_Formats.thy ===== *)
theory Wire_Formats
  imports Alfie_Prelude
begin

text \<open>
  The packed structs of the firmware's protocols, as records, with the bytes a little-endian
  CPU keeps for them: the DECT link layer header and frame
  (\<^verbatim>\<open>alfie/app/src/dect/dect_link_layer_private.h\<close>), the frames of the DECT transport layer
  (\<^verbatim>\<open>dect_transport_layer_private.h\<close>), the frames of the BLE service
  (\<^verbatim>\<open>alfie_ble_service_protocol.h\<close>), the Alfie protocol header (\<^verbatim>\<open>alfie_protocol.h\<close>) and the
  messaging endpoint's frames (\<^verbatim>\<open>alfie_messaging_proto.h\<close>).

  For each struct, \<open>put_\<dots>\<close> is its memory image and \<open>get_\<dots>\<close> reads it through a pointer cast:
  \<open>None\<close> is a read past the end of the object. The \<open>put_get\<close> and \<open>get_put\<close> lemmas say the
  two are inverse, so no field overlaps another and none is lost.
\<close>

section \<open>DECT link layer\<close>

record dect_link_layer_header_t =
  ll_magic :: u32
  ll_version :: u8
  ll_src_id :: u32
  ll_dst_id :: u32
  ll_payload_size :: u16

record dect_link_layer_frame_t =
  lf_header :: dect_link_layer_header_t
  lf_payload :: "u8 list"

definition DECT_LINK_LAYER_HEADER_VERSION :: u8 where
  "DECT_LINK_LAYER_HEADER_VERSION = 1"
definition DECT_LINK_LAYER_HEADER_SIZE_BYTES :: nat where
  "DECT_LINK_LAYER_HEADER_SIZE_BYTES = 4 + 1 + 4 + 4 + 2"
definition DECT_LINK_LAYER_MTU_SIZE_BYTES :: nat where
  "DECT_LINK_LAYER_MTU_SIZE_BYTES = 37"
definition DECT_LINK_LAYER_MAX_PAYLOAD_SIZE_BYTES :: nat where
  "DECT_LINK_LAYER_MAX_PAYLOAD_SIZE_BYTES =
     DECT_LINK_LAYER_MTU_SIZE_BYTES - DECT_LINK_LAYER_HEADER_SIZE_BYTES"
definition DECT_LINK_LAYER_HEADER_MAGIC :: u32 where
  "DECT_LINK_LAYER_HEADER_MAGIC = 0xDEC7DA7A"

lemma link_sizes [simp]:
  "DECT_LINK_LAYER_HEADER_SIZE_BYTES = 15"
  "DECT_LINK_LAYER_MTU_SIZE_BYTES = 37"
  "DECT_LINK_LAYER_MAX_PAYLOAD_SIZE_BYTES = 22"
  by (simp_all add: DECT_LINK_LAYER_HEADER_SIZE_BYTES_def DECT_LINK_LAYER_MTU_SIZE_BYTES_def
        DECT_LINK_LAYER_MAX_PAYLOAD_SIZE_BYTES_def)

definition put_link_header :: "dect_link_layer_header_t \<Rightarrow> u8 list" where
  "put_link_header h = le32 (ll_magic h) @ [ll_version h] @ le32 (ll_src_id h) @
     le32 (ll_dst_id h) @ le16 (ll_payload_size h)"

fun get_link_header :: "u8 list \<Rightarrow> dect_link_layer_header_t option" where
  "get_link_header (m0 # m1 # m2 # m3 # v # s0 # s1 # s2 # s3 # d0 # d1 # d2 # d3 # p0 # p1 # r) =
     Some \<lparr>ll_magic = mk32 m0 m1 m2 m3, ll_version = v, ll_src_id = mk32 s0 s1 s2 s3,
           ll_dst_id = mk32 d0 d1 d2 d3, ll_payload_size = mk16 p0 p1\<rparr>"
| "get_link_header _ = None"

definition put_link_frame :: "dect_link_layer_frame_t \<Rightarrow> u8 list" where
  "put_link_frame f = put_link_header (lf_header f) @ lf_payload f"

text \<open>\<open>sizeof(dect_link_layer_frame_t)\<close>: the header and the payload array fill the MTU.\<close>

definition sizeof_link_frame :: nat where
  "sizeof_link_frame = DECT_LINK_LAYER_HEADER_SIZE_BYTES + DECT_LINK_LAYER_MAX_PAYLOAD_SIZE_BYTES"

lemma sizeof_link_frame [simp]: "sizeof_link_frame = 37"
  by (simp add: sizeof_link_frame_def)

lemma length_put_link_header [simp]: "length (put_link_header h) = 15"
  by (simp add: put_link_header_def)

lemma get_put_link_header [wire]: "get_link_header (put_link_header h @ r) = Some h"
  by (simp add: put_link_header_def le32_def le16_def)

lemma get_link_header_None: "get_link_header bs = None \<longleftrightarrow> length bs < 15"
  by (cases bs rule: get_link_header.cases) auto

lemma put_get_link_header:
  "get_link_header bs = Some h \<Longrightarrow> put_link_header h @ drop 15 bs = bs"
  by (cases bs rule: get_link_header.cases) (auto simp: put_link_header_def le32_def le16_def)

section \<open>DECT transport layer\<close>

definition DECT_TRANSPORT_LAYER_FRAME_TYPE_DATA :: u8 where
  [wire]: "DECT_TRANSPORT_LAYER_FRAME_TYPE_DATA = 0"
definition DECT_TRANSPORT_LAYER_FRAME_TYPE_DATA_ACK :: u8 where
  [wire]: "DECT_TRANSPORT_LAYER_FRAME_TYPE_DATA_ACK = 1"

record dect_transport_layer_frame_header_t =
  dh_version :: u8
  dh_frame_type :: u8

record dect_transport_layer_data_frame_ack_t =
  da_header :: dect_transport_layer_frame_header_t
  da_seq_id :: u16
  da_frag_idx :: u8

record dect_transport_layer_data_frame_t =
  dd_header :: dect_transport_layer_frame_header_t
  dd_seq_id :: u16
  dd_frag_total :: u8
  dd_frag_idx :: u8
  dd_total_size_bytes :: u16
  dd_payload :: "u8 list"

definition sizeof_dect_frame_header :: nat where "sizeof_dect_frame_header = 1 + 1"
definition sizeof_dect_data_frame :: nat where
  "sizeof_dect_data_frame = sizeof_dect_frame_header + 2 + 1 + 1 + 2"
definition sizeof_dect_data_frame_ack :: nat where
  "sizeof_dect_data_frame_ack = sizeof_dect_frame_header + 2 + 1"

lemma dect_frame_sizes [simp]:
  "sizeof_dect_frame_header = 2" "sizeof_dect_data_frame = 8" "sizeof_dect_data_frame_ack = 5"
  by (simp_all add: sizeof_dect_frame_header_def sizeof_dect_data_frame_def
        sizeof_dect_data_frame_ack_def)

fun get_dect_frame_header :: "u8 list \<Rightarrow> dect_transport_layer_frame_header_t option" where
  "get_dect_frame_header (v # t # r) = Some \<lparr>dh_version = v, dh_frame_type = t\<rparr>"
| "get_dect_frame_header _ = None"

definition put_dect_data_frame :: "dect_transport_layer_data_frame_t \<Rightarrow> u8 list" where
  "put_dect_data_frame f = [dh_version (dd_header f), dh_frame_type (dd_header f)] @
     le16 (dd_seq_id f) @ [dd_frag_total f, dd_frag_idx f] @ le16 (dd_total_size_bytes f) @
     dd_payload f"

fun get_dect_data_frame :: "u8 list \<Rightarrow> dect_transport_layer_data_frame_t option" where
  "get_dect_data_frame (v # t # s0 # s1 # ft # fi # z0 # z1 # p) =
     Some \<lparr>dd_header = \<lparr>dh_version = v, dh_frame_type = t\<rparr>, dd_seq_id = mk16 s0 s1,
           dd_frag_total = ft, dd_frag_idx = fi, dd_total_size_bytes = mk16 z0 z1, dd_payload = p\<rparr>"
| "get_dect_data_frame _ = None"

definition put_dect_data_frame_ack :: "dect_transport_layer_data_frame_ack_t \<Rightarrow> u8 list" where
  "put_dect_data_frame_ack f = [dh_version (da_header f), dh_frame_type (da_header f)] @
     le16 (da_seq_id f) @ [da_frag_idx f]"

lemma length_put_dect [simp]:
  "length (put_dect_data_frame f) = 8 + length (dd_payload f)"
  "length (put_dect_data_frame_ack a) = 5"
  by (simp_all add: put_dect_data_frame_def put_dect_data_frame_ack_def)

lemma get_put_dect_data_frame [wire]: "get_dect_data_frame (put_dect_data_frame f) = Some f"
  by (simp add: put_dect_data_frame_def le16_def)

lemma put_get_dect_data_frame: "get_dect_data_frame bs = Some f \<Longrightarrow> put_dect_data_frame f = bs"
  by (cases bs rule: get_dect_data_frame.cases) (auto simp: put_dect_data_frame_def le16_def)

lemma get_dect_data_frame_None: "get_dect_data_frame bs = None \<longleftrightarrow> length bs < 8"
  by (cases bs rule: get_dect_data_frame.cases) auto

lemma get_dect_frame_header_put [wire]:
  "get_dect_frame_header (put_dect_data_frame f) = Some (dd_header f)"
  "get_dect_frame_header (put_dect_data_frame_ack a) = Some (da_header a)"
  by (simp_all add: put_dect_data_frame_def put_dect_data_frame_ack_def)

lemma get_dect_frame_header_None: "get_dect_frame_header bs = None \<longleftrightarrow> length bs < 2"
  by (cases bs rule: get_dect_frame_header.cases) auto

section \<open>BLE service\<close>

definition CONFIG_BT_L2CAP_TX_MTU :: nat where "CONFIG_BT_L2CAP_TX_MTU = 251"

definition ALFIE_BLE_SERVICE_PROTO_FRAME_TYPE_DATA :: u8 where
  [wire]: "ALFIE_BLE_SERVICE_PROTO_FRAME_TYPE_DATA = 0"
definition ALFIE_BLE_SERVICE_PROTO_FRAME_TYPE_DATA_ACK :: u8 where
  [wire]: "ALFIE_BLE_SERVICE_PROTO_FRAME_TYPE_DATA_ACK = 1"

record alfie_ble_service_proto_frame_header_t =
  bh_version :: u8
  bh_frame_type :: u8

record alfie_ble_service_proto_data_frame_t =
  bd_header :: alfie_ble_service_proto_frame_header_t
  bd_seq_id :: u16
  bd_total_size_bytes :: u16
  bd_frag_idx :: u8
  bd_frag_total :: u8
  bd_payload :: "u8 list"

record alfie_ble_service_proto_data_ack_frame_t =
  ba_header :: alfie_ble_service_proto_frame_header_t
  ba_seq_id :: u16
  ba_frag_idx :: u8

definition sizeof_ble_frame_header :: nat where "sizeof_ble_frame_header = 1 + 1"
definition sizeof_ble_data_frame :: nat where
  "sizeof_ble_data_frame = sizeof_ble_frame_header + 2 + 2 + 1 + 1"
definition sizeof_ble_data_ack_frame :: nat where
  "sizeof_ble_data_ack_frame = sizeof_ble_frame_header + 2 + 1"
definition ALFIE_BLE_SERVICE_PROTO_MAX_DATA_FRAME_PAYLOAD_SIZE_BYTES :: nat where
  "ALFIE_BLE_SERVICE_PROTO_MAX_DATA_FRAME_PAYLOAD_SIZE_BYTES =
     CONFIG_BT_L2CAP_TX_MTU - sizeof_ble_data_frame"

lemma ble_frame_sizes [simp]:
  "sizeof_ble_frame_header = 2" "sizeof_ble_data_frame = 8" "sizeof_ble_data_ack_frame = 5"
  "ALFIE_BLE_SERVICE_PROTO_MAX_DATA_FRAME_PAYLOAD_SIZE_BYTES = 243"
  by (simp_all add: sizeof_ble_frame_header_def sizeof_ble_data_frame_def
        sizeof_ble_data_ack_frame_def CONFIG_BT_L2CAP_TX_MTU_def
        ALFIE_BLE_SERVICE_PROTO_MAX_DATA_FRAME_PAYLOAD_SIZE_BYTES_def)

fun get_ble_frame_header :: "u8 list \<Rightarrow> alfie_ble_service_proto_frame_header_t option" where
  "get_ble_frame_header (v # t # r) = Some \<lparr>bh_version = v, bh_frame_type = t\<rparr>"
| "get_ble_frame_header _ = None"

definition put_ble_data_frame :: "alfie_ble_service_proto_data_frame_t \<Rightarrow> u8 list" where
  "put_ble_data_frame f = [bh_version (bd_header f), bh_frame_type (bd_header f)] @
     le16 (bd_seq_id f) @ le16 (bd_total_size_bytes f) @ [bd_frag_idx f, bd_frag_total f] @
     bd_payload f"

fun get_ble_data_frame :: "u8 list \<Rightarrow> alfie_ble_service_proto_data_frame_t option" where
  "get_ble_data_frame (v # t # s0 # s1 # z0 # z1 # fi # ft # p) =
     Some \<lparr>bd_header = \<lparr>bh_version = v, bh_frame_type = t\<rparr>, bd_seq_id = mk16 s0 s1,
           bd_total_size_bytes = mk16 z0 z1, bd_frag_idx = fi, bd_frag_total = ft, bd_payload = p\<rparr>"
| "get_ble_data_frame _ = None"

definition put_ble_data_ack_frame :: "alfie_ble_service_proto_data_ack_frame_t \<Rightarrow> u8 list" where
  "put_ble_data_ack_frame f = [bh_version (ba_header f), bh_frame_type (ba_header f)] @
     le16 (ba_seq_id f) @ [ba_frag_idx f]"

lemma length_put_ble [simp]:
  "length (put_ble_data_frame f) = 8 + length (bd_payload f)"
  "length (put_ble_data_ack_frame a) = 5"
  by (simp_all add: put_ble_data_frame_def put_ble_data_ack_frame_def)

lemma get_put_ble_data_frame [wire]: "get_ble_data_frame (put_ble_data_frame f) = Some f"
  by (simp add: put_ble_data_frame_def le16_def)

lemma put_get_ble_data_frame: "get_ble_data_frame bs = Some f \<Longrightarrow> put_ble_data_frame f = bs"
  by (cases bs rule: get_ble_data_frame.cases) (auto simp: put_ble_data_frame_def le16_def)

lemma get_ble_data_frame_None: "get_ble_data_frame bs = None \<longleftrightarrow> length bs < 8"
  by (cases bs rule: get_ble_data_frame.cases) auto

lemma get_ble_frame_header_put [wire]:
  "get_ble_frame_header (put_ble_data_frame f) = Some (bd_header f)"
  "get_ble_frame_header (put_ble_data_ack_frame a) = Some (ba_header a)"
  by (simp_all add: put_ble_data_frame_def put_ble_data_ack_frame_def)

section \<open>Alfie protocol and messaging endpoint\<close>

record alfie_proto_header_t =
  ap_version :: u8
  ap_endpoint_id :: u8
  ap_src_id :: u32
  ap_dst_id :: u32

definition sizeof_alfie_proto_header :: nat where "sizeof_alfie_proto_header = 1 + 1 + 4 + 4"

definition put_alfie_header :: "alfie_proto_header_t \<Rightarrow> u8 list" where
  "put_alfie_header h = [ap_version h, ap_endpoint_id h] @ le32 (ap_src_id h) @ le32 (ap_dst_id h)"

fun get_alfie_header :: "u8 list \<Rightarrow> alfie_proto_header_t option" where
  "get_alfie_header (v # e # s0 # s1 # s2 # s3 # d0 # d1 # d2 # d3 # r) =
     Some \<lparr>ap_version = v, ap_endpoint_id = e, ap_src_id = mk32 s0 s1 s2 s3,
           ap_dst_id = mk32 d0 d1 d2 d3\<rparr>"
| "get_alfie_header _ = None"

definition ALFIE_MESSAGE_UUID_SIZE_BYTES :: nat where "ALFIE_MESSAGE_UUID_SIZE_BYTES = 16"
definition ALFIE_MESSAGING_ENDPOINT_ENDPOINT_ID :: u8 where
  "ALFIE_MESSAGING_ENDPOINT_ENDPOINT_ID = 0"
definition ALFIE_MESSAGING_PROTO_FRAME_TYPE_TEXT :: u8 where
  [wire]: "ALFIE_MESSAGING_PROTO_FRAME_TYPE_TEXT = 0"

record alfie_messaging_proto_header_t =
  am_alfie_header :: alfie_proto_header_t
  am_frame_type :: u8

record alfie_messaging_proto_text_frame_t =
  at_header :: alfie_messaging_proto_header_t
  at_uuid :: "u8 list"
  at_message :: "u8 list"

definition sizeof_messaging_header :: nat where
  "sizeof_messaging_header = sizeof_alfie_proto_header + 1"
definition sizeof_text_frame :: nat where
  "sizeof_text_frame = sizeof_messaging_header + ALFIE_MESSAGE_UUID_SIZE_BYTES"

lemma alfie_sizes [simp]:
  "sizeof_alfie_proto_header = 10" "sizeof_messaging_header = 11" "sizeof_text_frame = 27"
  by (simp_all add: sizeof_alfie_proto_header_def sizeof_messaging_header_def
        sizeof_text_frame_def ALFIE_MESSAGE_UUID_SIZE_BYTES_def)

definition get_messaging_header :: "u8 list \<Rightarrow> alfie_messaging_proto_header_t option" where
  "get_messaging_header bs =
     do { a \<leftarrow> get_alfie_header bs;
          if length bs < sizeof_messaging_header then None
          else Some \<lparr>am_alfie_header = a, am_frame_type = bs ! sizeof_alfie_proto_header\<rparr> }"

definition get_text_frame :: "u8 list \<Rightarrow> alfie_messaging_proto_text_frame_t option" where
  "get_text_frame bs =
     do { h \<leftarrow> get_messaging_header bs;
          if length bs < sizeof_text_frame then None
          else Some \<lparr>at_header = h,
                 at_uuid = take ALFIE_MESSAGE_UUID_SIZE_BYTES (drop sizeof_messaging_header bs),
                 at_message = drop sizeof_text_frame bs\<rparr> }"

definition put_text_frame :: "alfie_messaging_proto_text_frame_t \<Rightarrow> u8 list" where
  "put_text_frame f = put_alfie_header (am_alfie_header (at_header f)) @
     [am_frame_type (at_header f)] @ at_uuid f @ at_message f"

lemma length_put_alfie_header [simp]: "length (put_alfie_header h) = 10"
  by (simp add: put_alfie_header_def)

lemma get_put_alfie_header [wire]: "get_alfie_header (put_alfie_header h @ r) = Some h"
  by (simp add: put_alfie_header_def le32_def)

lemma get_alfie_header_None: "get_alfie_header bs = None \<longleftrightarrow> length bs < 10"
  by (cases bs rule: get_alfie_header.cases) auto

lemma get_put_text_frame [wire]:
  assumes "length (at_uuid f) = ALFIE_MESSAGE_UUID_SIZE_BYTES"
  shows "get_text_frame (put_text_frame f) = Some f"
  using assms
  by (simp add: get_text_frame_def get_messaging_header_def put_text_frame_def wire
        ALFIE_MESSAGE_UUID_SIZE_BYTES_def nth_append)

end
