(* ===== verification/Zephyr.thy ===== *)
theory Zephyr
  imports Wire_Formats
begin

text \<open>
  The code the firmware calls but does not contain: the Zephyr kernel, its network buffers, the
  nRF modem library and the Bluetooth host. None of it is defined here. It is one record
  \<open>'k zephyr\<close> of functions over an unknown kernel state \<open>'k\<close>, which every definition of the
  development takes as an argument \<open>Z\<close>.

  \<open>kview Z k\<close> is what the firmware can see of the kernel objects in state \<open>k\<close>: the
  \<open>struct net_buf\<close> behind each pointer (the source reads its \<open>data\<close>, \<open>len\<close> and \<open>ref\<close>
  fields), the semaphore counts, and the contents of the message queue, the FIFOs and the lists.
  \<open>ktime Z k\<close> is the time since boot in milliseconds, which no counter of the program holds in
  full. \<open>kv_put\<close> and \<open>kv_notified\<close> are histories: every frame that was ever put into the message
  queue, and every notification the firmware asked the Bluetooth host for, with its answer. The \<open>\<dots>_laws\<close> predicates state the documented behaviour of these functions on that
  view; a lemma takes exactly the laws it relies on.
\<close>

section \<open>Static kernel objects of the firmware\<close>

text \<open>The two pools of network buffers and the objects of the kernel, named by their owner.\<close>

datatype pool_id = DectRxPool | BleRxPool
datatype sem_id = LinkOpSem | DectAckSem | BleAckSem
datatype fifo_id = FromUpstreamFifo | FromDownstreamFifo
datatype slist_id = EndpointsList | TransportsList

text \<open>Objects linked into a \<open>sys_slist_t\<close> by their first member.\<close>

datatype node_ptr = DectTransport | BleTransport | MessagingEndpoint | OtherNode nat

text \<open>
  A pointer to a transport buffer is the array it points into and the byte offset there: the
  source finds elements by multiplying an index with a size given at run time.
\<close>

datatype tb_ptr = Tb_ptr (pt_base: pool_id) (pt_offset: nat)

text \<open>Functions whose address the firmware stores.\<close>

datatype fn_ptr = Prv_on_data_layer_rx | Prv_handle_transport_rx | Prv_handle_incoming_frame
  | Dect_transport_layer_write | Dect_transport_layer_register_rx_callback
  | Alfie_ble_service_write | Alfie_ble_service_register_rx_callback
  | Prv_link_layer_thread | Prv_router_thread | Prv_advertising_work_handler | Other_fn nat

datatype timeout = K_NO_WAIT | K_MSEC nat | K_FOREVER

record net_buf =
  nb_pool :: pool_id
  nb_ref :: nat
  nb_data :: "u8 list"

record kview =
  kv_bufs :: "nat \<Rightarrow> net_buf option"
  kv_sem :: "sem_id \<Rightarrow> nat"
  kv_txq :: "dect_link_layer_frame_t list"
  kv_put :: "dect_link_layer_frame_t list"
  kv_fifo :: "fifo_id \<Rightarrow> tb_ptr list"
  kv_slist :: "slist_id \<Rightarrow> node_ptr list"
  kv_notified :: "(nat option \<times> u8 list \<times> int) list"

text \<open>
  The parameters of the modem calls the source sets to values of its own. Those it sets to
  constants of the modem's headers (the reception mode, the listen-before-talk period) are left
  out, and so is the factor from milliseconds to modem time.
\<close>

record phy_config_params =
  cfg_band_group_index :: nat
  cfg_harq_rx_process_count :: nat
  cfg_harq_rx_expiry_time_us :: nat

record phy_tx_params =
  tx_start_time :: nat
  tx_handle :: nat
  tx_network_id :: u32
  tx_phy_type :: nat
  tx_lbt_rssi_threshold_max :: int
  tx_carrier :: nat
  tx_phy_header :: "u8 list"
  tx_data :: "u8 list"
  tx_data_size :: nat

record phy_rx_params =
  rx_start_time :: nat
  rx_handle :: nat
  rx_network_id :: u32
  rx_rssi_level :: int
  rx_carrier :: nat
  rx_duration_ms :: nat
  rx_short_network_id :: u8
  rx_is_short_network_id_used :: bool
  rx_receiver_identity :: nat

text \<open>Advertising data: a type and its bytes.\<close>

datatype bt_data_type = BT_DATA_FLAGS | BT_DATA_NAME_COMPLETE | BT_DATA_UUID128_ALL | BT_DATA_NONE

record bt_data =
  bd_type :: bt_data_type
  bd_data :: "u8 list"

section \<open>The functions\<close>

record 'k zephyr =
  kview :: "'k \<Rightarrow> kview"
  ktime :: "'k \<Rightarrow> nat"
  k_uptime_get_32 :: "'k \<Rightarrow> u32 \<times> 'k"
  sys_rand16_get :: "'k \<Rightarrow> u16 \<times> 'k"
  hwinfo_get_device_id :: "nat \<Rightarrow> 'k \<Rightarrow> (int \<times> u8 list) \<times> 'k"
  sizeof_transport_buffer_t :: nat
  sizeof_dect_transport_buffer_t :: nat
  net_buf_alloc :: "pool_id \<Rightarrow> 'k \<Rightarrow> nat option \<times> 'k"
  net_buf_add_mem :: "nat \<Rightarrow> u8 list \<Rightarrow> 'k \<Rightarrow> 'k option"
  net_buf_ref :: "nat \<Rightarrow> 'k \<Rightarrow> 'k"
  net_buf_unref :: "nat \<Rightarrow> 'k \<Rightarrow> 'k"
  net_buf_destroy :: "nat \<Rightarrow> 'k \<Rightarrow> 'k"
  k_sem_init :: "sem_id \<Rightarrow> nat \<Rightarrow> nat \<Rightarrow> 'k \<Rightarrow> 'k"
  k_sem_reset :: "sem_id \<Rightarrow> 'k \<Rightarrow> 'k"
  k_sem_give :: "sem_id \<Rightarrow> 'k \<Rightarrow> 'k"
  k_sem_take :: "sem_id \<Rightarrow> timeout \<Rightarrow> 'k \<Rightarrow> int \<times> 'k"
  k_msgq_init :: "'k \<Rightarrow> 'k"
  k_msgq_put :: "dect_link_layer_frame_t \<Rightarrow> 'k \<Rightarrow> (int \<times> 'k) option"
  k_msgq_get :: "'k \<Rightarrow> (int \<times> dect_link_layer_frame_t option) \<times> 'k"
  k_fifo_init :: "fifo_id \<Rightarrow> 'k \<Rightarrow> 'k"
  k_fifo_put :: "fifo_id \<Rightarrow> tb_ptr \<Rightarrow> 'k \<Rightarrow> 'k"
  k_fifo_get :: "fifo_id \<Rightarrow> 'k \<Rightarrow> tb_ptr option \<times> 'k"
  sys_slist_init :: "slist_id \<Rightarrow> 'k \<Rightarrow> 'k"
  sys_slist_append :: "slist_id \<Rightarrow> node_ptr \<Rightarrow> 'k \<Rightarrow> 'k"
  k_thread_create :: "fn_ptr \<Rightarrow> 'k \<Rightarrow> 'k"
  nrf_modem_lib_init :: "'k \<Rightarrow> int \<times> 'k"
  nrf_modem_dect_phy_event_handler_set :: "'k \<Rightarrow> int \<times> 'k"
  nrf_modem_dect_phy_init :: "'k \<Rightarrow> int \<times> 'k"
  nrf_modem_dect_phy_configure :: "phy_config_params \<Rightarrow> 'k \<Rightarrow> int \<times> 'k"
  nrf_modem_dect_phy_activate :: "'k \<Rightarrow> int \<times> 'k"
  nrf_modem_dect_phy_rx :: "phy_rx_params \<Rightarrow> 'k \<Rightarrow> int \<times> 'k"
  nrf_modem_dect_phy_tx :: "phy_tx_params \<Rightarrow> 'k \<Rightarrow> int \<times> 'k"
  bt_conn_ref :: "nat \<Rightarrow> 'k \<Rightarrow> nat option \<times> 'k"
  bt_conn_unref :: "nat \<Rightarrow> 'k \<Rightarrow> 'k"
  bt_gatt_notify :: "nat option \<Rightarrow> u8 list \<Rightarrow> 'k \<Rightarrow> int \<times> 'k"
  bt_gatt_attr_read :: "nat \<Rightarrow> nat \<Rightarrow> u8 list \<Rightarrow> 'k \<Rightarrow> (int \<times> u8 list) \<times> 'k"
  bt_enable :: "'k \<Rightarrow> int \<times> 'k"
  bt_le_adv_start :: "bt_data list \<Rightarrow> bt_data list \<Rightarrow> 'k \<Rightarrow> int \<times> 'k"
  gpio_is_ready_dt :: "'k \<Rightarrow> bool"
  gpio_pin_configure_dt :: "'k \<Rightarrow> int \<times> 'k"
  gpio_pin_set_dt :: "nat \<Rightarrow> 'k \<Rightarrow> 'k"
  k_sleep :: "nat \<Rightarrow> 'k \<Rightarrow> 'k"
  k_work_init :: "fn_ptr \<Rightarrow> 'k \<Rightarrow> 'k"
  k_work_submit :: "'k \<Rightarrow> 'k"
  k_poll :: "fifo_id list \<Rightarrow> 'k \<Rightarrow> (bool list \<times> 'k) option"

abbreviation bufs :: "'k zephyr \<Rightarrow> 'k \<Rightarrow> nat \<Rightarrow> net_buf option" where
  "bufs Z k \<equiv> kv_bufs (kview Z k)"

text \<open>The buffers of a pool that are allocated in a kernel state.\<close>

definition live_bufs :: "pool_id \<Rightarrow> kview \<Rightarrow> nat set" where
  "live_bufs p v = {h. \<exists>b. kv_bufs v h = Some b \<and> nb_pool b = p}"

section \<open>Documented behaviour\<close>

text \<open>The clock is the low 32 bits of the time since boot, and reading it changes nothing.\<close>

definition clock_laws :: "'k zephyr \<Rightarrow> bool" where
  "clock_laws Z \<longleftrightarrow> (\<forall>k now k'. k_uptime_get_32 Z k = (now, k') \<longrightarrow>
     now = of_nat (ktime Z k') \<and> ktime Z k \<le> ktime Z k' \<and> kview Z k' = kview Z k)"

text \<open>
  Network buffers, for pools that hold \<open>cnt p\<close> buffers of \<open>cap p\<close> bytes. An allocation fails
  only when the whole pool is allocated; the buffer starts empty with one reference. Adding data
  beyond the tailroom trips the buffer's assertion. Dropping the last reference, or destroying,
  gives the buffer back.
\<close>

definition net_buf_alloc_law :: "'k zephyr \<Rightarrow> (pool_id \<Rightarrow> nat) \<Rightarrow> bool" where
  "net_buf_alloc_law Z cnt \<longleftrightarrow> (\<forall>p k h k'. net_buf_alloc Z p k = (h, k') \<longrightarrow>
     ktime Z k \<le> ktime Z k' \<and>
     (case h of
        None \<Rightarrow> kview Z k' = kview Z k \<and> cnt p \<le> card (live_bufs p (kview Z k))
      | Some h \<Rightarrow> bufs Z k h = None \<and>
          kview Z k' = (kview Z k)\<lparr>kv_bufs :=
            (bufs Z k)(h \<mapsto> \<lparr>nb_pool = p, nb_ref = 1, nb_data = []\<rparr>)\<rparr>))"

definition net_buf_add_law :: "'k zephyr \<Rightarrow> (pool_id \<Rightarrow> nat) \<Rightarrow> bool" where
  "net_buf_add_law Z cap \<longleftrightarrow> (\<forall>h d k b. bufs Z k h = Some b \<longrightarrow>
     (case net_buf_add_mem Z h d k of
        None \<Rightarrow> cap (nb_pool b) < length (nb_data b) + length d
      | Some k' \<Rightarrow> length (nb_data b) + length d \<le> cap (nb_pool b) \<and> ktime Z k \<le> ktime Z k' \<and>
          kview Z k' = (kview Z k)\<lparr>kv_bufs :=
            (bufs Z k)(h \<mapsto> b\<lparr>nb_data := nb_data b @ d\<rparr>)\<rparr>))"

definition net_buf_count_law :: "'k zephyr \<Rightarrow> bool" where
  "net_buf_count_law Z \<longleftrightarrow> (\<forall>h k b. bufs Z k h = Some b \<longrightarrow>
     kview Z (net_buf_ref Z h k) =
       (kview Z k)\<lparr>kv_bufs := (bufs Z k)(h \<mapsto> b\<lparr>nb_ref := nb_ref b + 1\<rparr>)\<rparr> \<and>
     kview Z (net_buf_unref Z h k) = (kview Z k)\<lparr>kv_bufs :=
       (if nb_ref b = 1 then (bufs Z k)(h := None)
        else (bufs Z k)(h \<mapsto> b\<lparr>nb_ref := nb_ref b - 1\<rparr>))\<rparr> \<and>
     kview Z (net_buf_destroy Z h k) = (kview Z k)\<lparr>kv_bufs := (bufs Z k)(h := None)\<rparr> \<and>
     ktime Z k \<le> ktime Z (net_buf_ref Z h k) \<and> ktime Z k \<le> ktime Z (net_buf_unref Z h k) \<and>
     ktime Z k \<le> ktime Z (net_buf_destroy Z h k))"

definition net_buf_laws :: "'k zephyr \<Rightarrow> (pool_id \<Rightarrow> nat) \<Rightarrow> (pool_id \<Rightarrow> nat) \<Rightarrow> bool" where
  "net_buf_laws Z cnt cap \<longleftrightarrow>
     net_buf_alloc_law Z cnt \<and> net_buf_add_law Z cap \<and> net_buf_count_law Z"

text \<open>Binary semaphores (all three of the firmware have the limit 1).\<close>

definition sem_laws :: "'k zephyr \<Rightarrow> bool" where
  "sem_laws Z \<longleftrightarrow> (\<forall>q k.
     kview Z (k_sem_init Z q 0 1 k) = (kview Z k)\<lparr>kv_sem := (kv_sem (kview Z k))(q := 0)\<rparr> \<and>
     kview Z (k_sem_reset Z q k) = (kview Z k)\<lparr>kv_sem := (kv_sem (kview Z k))(q := 0)\<rparr> \<and>
     kview Z (k_sem_give Z q k) = (kview Z k)\<lparr>kv_sem := (kv_sem (kview Z k))(q := 1)\<rparr> \<and>
     ktime Z k \<le> ktime Z (k_sem_give Z q k) \<and>
     (\<forall>t r k'. k_sem_take Z q t k = (r, k') \<longrightarrow> ktime Z k \<le> ktime Z k' \<and>
        (if 0 < kv_sem (kview Z k) q
         then r = 0 \<and> kview Z k' = (kview Z k)\<lparr>kv_sem :=
                (kv_sem (kview Z k))(q := kv_sem (kview Z k) q - 1)\<rparr>
         else t \<noteq> K_FOREVER \<longrightarrow> r = - EAGAIN \<and> kview Z k' = kview Z k)))"

text \<open>
  The message queue of the link layer, \<open>depth\<close> messages deep: putting into a queue with room
  succeeds at once and appends; getting takes the oldest message.
\<close>

definition msgq_laws :: "'k zephyr \<Rightarrow> nat \<Rightarrow> bool" where
  "msgq_laws Z depth \<longleftrightarrow>
     (\<forall>k. kview Z (k_msgq_init Z k) = (kview Z k)\<lparr>kv_txq := []\<rparr>) \<and>
     (\<forall>x k. length (kv_txq (kview Z k)) < depth \<longrightarrow>
        (\<exists>k'. k_msgq_put Z x k = Some (0, k') \<and>
           kview Z k' = (kview Z k)\<lparr>kv_txq := kv_txq (kview Z k) @ [x],
             kv_put := kv_put (kview Z k) @ [x]\<rparr> \<and>
           ktime Z k \<le> ktime Z k')) \<and>
     (\<forall>k r k'. k_msgq_get Z k = (r, k') \<longrightarrow> ktime Z k \<le> ktime Z k' \<and>
        (case kv_txq (kview Z k) of
           [] \<Rightarrow> fst r \<noteq> 0 \<and> snd r = None \<and> kview Z k' = kview Z k
         | x # q \<Rightarrow> r = (0, Some x) \<and> kview Z k' = (kview Z k)\<lparr>kv_txq := q\<rparr>))"

definition fifo_laws :: "'k zephyr \<Rightarrow> bool" where
  "fifo_laws Z \<longleftrightarrow>
     (\<forall>q k. kview Z (k_fifo_init Z q k) =
        (kview Z k)\<lparr>kv_fifo := (kv_fifo (kview Z k))(q := [])\<rparr>) \<and>
     (\<forall>q x k. kview Z (k_fifo_put Z q x k) =
        (kview Z k)\<lparr>kv_fifo := (kv_fifo (kview Z k))(q := kv_fifo (kview Z k) q @ [x])\<rparr> \<and>
        ktime Z k \<le> ktime Z (k_fifo_put Z q x k)) \<and>
     (\<forall>q k r k'. k_fifo_get Z q k = (r, k') \<longrightarrow>
        (case kv_fifo (kview Z k) q of
           [] \<Rightarrow> r = None \<and> kview Z k' = kview Z k
         | x # xs \<Rightarrow> r = Some x \<and>
             kview Z k' = (kview Z k)\<lparr>kv_fifo := (kv_fifo (kview Z k))(q := xs)\<rparr>))"

text \<open>
  Polling FIFOs: when one of them holds data it returns at once and marks, of the FIFOs that hold
  data, at least one. (With nothing to report it waits.)
\<close>

definition poll_laws :: "'k zephyr \<Rightarrow> bool" where
  "poll_laws Z \<longleftrightarrow> (\<forall>qs k.
     (\<exists>q \<in> set qs. kv_fifo (kview Z k) q \<noteq> []) \<longrightarrow>
     (\<exists>flags k'. k_poll Z qs k = Some (flags, k') \<and> length flags = length qs \<and>
        True \<in> set flags \<and> kview Z k' = kview Z k \<and>
        (\<forall>i < length qs. flags ! i \<longrightarrow> kv_fifo (kview Z k) (qs ! i) \<noteq> [])))"

definition slist_laws :: "'k zephyr \<Rightarrow> bool" where
  "slist_laws Z \<longleftrightarrow>
     (\<forall>l k. kview Z (sys_slist_init Z l k) =
        (kview Z k)\<lparr>kv_slist := (kv_slist (kview Z k))(l := [])\<rparr>) \<and>
     (\<forall>l n k. n \<notin> set (kv_slist (kview Z k) l) \<longrightarrow> kview Z (sys_slist_append Z l n k) =
        (kview Z k)\<lparr>kv_slist := (kv_slist (kview Z k))(l := kv_slist (kview Z k) l @ [n])\<rparr>)"

text \<open>The layout of the buffer structs: the augmented one extends the base one.\<close>

definition layout_laws :: "'k zephyr \<Rightarrow> bool" where
  "layout_laws Z \<longleftrightarrow> 0 < sizeof_transport_buffer_t Z \<and>
     sizeof_transport_buffer_t Z < sizeof_dect_transport_buffer_t Z"

text \<open>Reading the hardware id writes at most the bytes asked for and touches no kernel object.\<close>

definition hwinfo_laws :: "'k zephyr \<Rightarrow> bool" where
  "hwinfo_laws Z \<longleftrightarrow> (\<forall>n k r bs k'. hwinfo_get_device_id Z n k = ((r, bs), k') \<longrightarrow>
     length bs \<le> n \<and> kview Z k' = kview Z k \<and> ktime Z k \<le> ktime Z k')"

text \<open>
  The calls into the modem start an operation and touch no kernel object of the firmware; what
  becomes of the operation is reported by events.
\<close>

definition phy_laws :: "'k zephyr \<Rightarrow> bool" where
  "phy_laws Z \<longleftrightarrow> (\<forall>k r k' cfg rxp txp.
     (nrf_modem_lib_init Z k = (r, k') \<or> nrf_modem_dect_phy_event_handler_set Z k = (r, k') \<or>
      nrf_modem_dect_phy_init Z k = (r, k') \<or> nrf_modem_dect_phy_configure Z cfg k = (r, k') \<or>
      nrf_modem_dect_phy_activate Z k = (r, k') \<or> nrf_modem_dect_phy_rx Z rxp k = (r, k') \<or>
      nrf_modem_dect_phy_tx Z txp k = (r, k')) \<longrightarrow> kview Z k' = kview Z k \<and> ktime Z k \<le> ktime Z k')"

text \<open>The Bluetooth host, the work queue and the reset line touch no kernel object of the firmware.\<close>

definition host_laws :: "'k zephyr \<Rightarrow> bool" where
  "host_laws Z \<longleftrightarrow> (\<forall>k k' c r n ads sds f.
     (bt_conn_ref Z n k = (c, k') \<or> bt_conn_unref Z n k = k' \<or>
      bt_enable Z k = (r, k') \<or> bt_le_adv_start Z ads sds k = (r, k') \<or>
      gpio_pin_configure_dt Z k = (r, k') \<or> gpio_pin_set_dt Z n k = k' \<or> k_sleep Z n k = k' \<or>
      k_work_init Z f k = k' \<or> k_work_submit Z k = k' \<or> k_thread_create Z f k = k') \<longrightarrow>
     kview Z k' = kview Z k \<and> ktime Z k \<le> ktime Z k')"

text \<open>
  A notification is accepted, with result 0, or refused; to whom it goes is the first argument. It touches
  no object of the firmware; the history \<open>kv_notified\<close> records the call.
\<close>

definition notify_laws :: "'k zephyr \<Rightarrow> bool" where
  "notify_laws Z \<longleftrightarrow> (\<forall>c d k r k'. bt_gatt_notify Z c d k = (r, k') \<longrightarrow>
     ktime Z k \<le> ktime Z k' \<and>
     kview Z k' = (kview Z k)\<lparr>kv_notified := kv_notified (kview Z k) @ [(c, d, r)]\<rparr>)"

definition rand_laws :: "'k zephyr \<Rightarrow> bool" where
  "rand_laws Z \<longleftrightarrow> (\<forall>k r k'. sys_rand16_get Z k = (r, k') \<longrightarrow>
     kview Z k' = kview Z k \<and> ktime Z k \<le> ktime Z k')"

section \<open>The laws as rules\<close>

lemma uptime_view:
  assumes "clock_laws Z" and "k_uptime_get_32 Z k = (now, k')"
  shows "now = of_nat (ktime Z k')" and "ktime Z k \<le> ktime Z k'" and "kview Z k' = kview Z k"
  using assms unfolding clock_laws_def by blast+

lemma alloc_Some_view:
  assumes "net_buf_laws Z cnt cap" and "net_buf_alloc Z p k = (Some h, k')"
  shows "bufs Z k h = None" and "ktime Z k \<le> ktime Z k'"
    and "kview Z k' = (kview Z k)\<lparr>kv_bufs :=
           (bufs Z k)(h \<mapsto> \<lparr>nb_pool = p, nb_ref = 1, nb_data = []\<rparr>)\<rparr>"
  using assms unfolding net_buf_laws_def net_buf_alloc_law_def by fastforce+

lemma alloc_None_view:
  assumes "net_buf_laws Z cnt cap" and "net_buf_alloc Z p k = (None, k')"
  shows "kview Z k' = kview Z k" and "ktime Z k \<le> ktime Z k'"
    and "cnt p \<le> card (live_bufs p (kview Z k))"
  using assms unfolding net_buf_laws_def net_buf_alloc_law_def by fastforce+

lemma net_buf_addD:
  assumes "net_buf_laws Z cnt cap" and "bufs Z k h = Some b"
  shows "case net_buf_add_mem Z h d k of
      None \<Rightarrow> cap (nb_pool b) < length (nb_data b) + length d
    | Some k' \<Rightarrow> length (nb_data b) + length d \<le> cap (nb_pool b) \<and> ktime Z k \<le> ktime Z k' \<and>
        kview Z k' = (kview Z k)\<lparr>kv_bufs := (bufs Z k)(h \<mapsto> b\<lparr>nb_data := nb_data b @ d\<rparr>)\<rparr>"
  using assms by (simp only: net_buf_laws_def net_buf_add_law_def)

lemma add_mem_Some_view:
  assumes "net_buf_laws Z cnt cap" and "bufs Z k h = Some b" and "net_buf_add_mem Z h d k = Some k'"
  shows "length (nb_data b) + length d \<le> cap (nb_pool b)" and "ktime Z k \<le> ktime Z k'"
    and "kview Z k' = (kview Z k)\<lparr>kv_bufs := (bufs Z k)(h \<mapsto> b\<lparr>nb_data := nb_data b @ d\<rparr>)\<rparr>"
  using net_buf_addD[OF assms(1,2), of d] assms(3) by simp_all

lemma add_mem_None_iff:
  assumes "net_buf_laws Z cnt cap" and "bufs Z k h = Some b"
  shows "net_buf_add_mem Z h d k = None \<longleftrightarrow> cap (nb_pool b) < length (nb_data b) + length d"
  using net_buf_addD[OF assms, of d] by (auto split: option.splits)

lemma count_view:
  assumes "net_buf_laws Z cnt cap" and "bufs Z k h = Some b"
  shows "kview Z (net_buf_ref Z h k) =
           (kview Z k)\<lparr>kv_bufs := (bufs Z k)(h \<mapsto> b\<lparr>nb_ref := nb_ref b + 1\<rparr>)\<rparr>"
    and "kview Z (net_buf_unref Z h k) = (kview Z k)\<lparr>kv_bufs :=
           (if nb_ref b = 1 then (bufs Z k)(h := None)
            else (bufs Z k)(h \<mapsto> b\<lparr>nb_ref := nb_ref b - 1\<rparr>))\<rparr>"
    and "kview Z (net_buf_destroy Z h k) = (kview Z k)\<lparr>kv_bufs := (bufs Z k)(h := None)\<rparr>"
    and "ktime Z k \<le> ktime Z (net_buf_destroy Z h k)"
    and "ktime Z k \<le> ktime Z (net_buf_unref Z h k)"
    and "ktime Z k \<le> ktime Z (net_buf_ref Z h k)"
  using assms unfolding net_buf_laws_def net_buf_count_law_def by blast+

lemma sem_view:
  assumes "sem_laws Z"
  shows "kview Z (k_sem_init Z q 0 1 k) = (kview Z k)\<lparr>kv_sem := (kv_sem (kview Z k))(q := 0)\<rparr>"
    and "kview Z (k_sem_reset Z q k) = (kview Z k)\<lparr>kv_sem := (kv_sem (kview Z k))(q := 0)\<rparr>"
    and "kview Z (k_sem_give Z q k) = (kview Z k)\<lparr>kv_sem := (kv_sem (kview Z k))(q := 1)\<rparr>"
    and "ktime Z k \<le> ktime Z (k_sem_give Z q k)"
  using assms unfolding sem_laws_def by blast+

lemma sem_take_available:
  assumes "sem_laws Z" and "k_sem_take Z q t k = (r, k')" and "0 < kv_sem (kview Z k) q"
  shows "r = 0" and "kview Z k' = (kview Z k)\<lparr>kv_sem :=
           (kv_sem (kview Z k))(q := kv_sem (kview Z k) q - 1)\<rparr>"
  using assms unfolding sem_laws_def by (metis (no_types))+

lemma sem_take_timeout:
  assumes "sem_laws Z" and "k_sem_take Z q t k = (r, k')" and "kv_sem (kview Z k) q = 0"
    and "t \<noteq> K_FOREVER"
  shows "r = - EAGAIN" and "kview Z k' = kview Z k"
  using assms unfolding sem_laws_def by (metis (no_types) less_irrefl)+

lemma sem_take_time: "sem_laws Z \<Longrightarrow> ktime Z k \<le> ktime Z (snd (k_sem_take Z q t k))"
  unfolding sem_laws_def by (metis prod.collapse)

lemma msgq_get_time: "msgq_laws Z depth \<Longrightarrow> ktime Z k \<le> ktime Z (snd (k_msgq_get Z k))"
  unfolding msgq_laws_def by (metis prod.collapse)

lemma msgq_put_room:
  assumes "msgq_laws Z depth" and "length (kv_txq (kview Z k)) < depth"
  obtains k' where "k_msgq_put Z x k = Some (0, k')"
    and "kview Z k' = (kview Z k)\<lparr>kv_txq := kv_txq (kview Z k) @ [x],
           kv_put := kv_put (kview Z k) @ [x]\<rparr>"
    and "ktime Z k \<le> ktime Z k'"
  using assms unfolding msgq_laws_def by blast

lemma msgq_get_view:
  assumes "msgq_laws Z depth" and "k_msgq_get Z k = (r, k')"
  shows "kv_txq (kview Z k) = [] \<Longrightarrow> fst r \<noteq> 0 \<and> snd r = None \<and> kview Z k' = kview Z k"
    and "kv_txq (kview Z k) = x # q \<Longrightarrow>
           r = (0, Some x) \<and> kview Z k' = (kview Z k)\<lparr>kv_txq := q\<rparr>"
  using assms unfolding msgq_laws_def by fastforce+

lemma fifo_view:
  assumes "fifo_laws Z"
  shows "kview Z (k_fifo_init Z q k) = (kview Z k)\<lparr>kv_fifo := (kv_fifo (kview Z k))(q := [])\<rparr>"
    and "kview Z (k_fifo_put Z q x k) =
           (kview Z k)\<lparr>kv_fifo := (kv_fifo (kview Z k))(q := kv_fifo (kview Z k) q @ [x])\<rparr>"
  using assms unfolding fifo_laws_def by blast+

lemma fifo_get_view:
  assumes "fifo_laws Z" and "k_fifo_get Z q k = (r, k')"
  shows "kv_fifo (kview Z k) q = [] \<Longrightarrow> r = None \<and> kview Z k' = kview Z k"
    and "kv_fifo (kview Z k) q = x # xs \<Longrightarrow> r = Some x \<and>
           kview Z k' = (kview Z k)\<lparr>kv_fifo := (kv_fifo (kview Z k))(q := xs)\<rparr>"
  using assms unfolding fifo_laws_def by fastforce+

lemma hwinfo_view:
  assumes "hwinfo_laws Z" and "hwinfo_get_device_id Z n k = ((r, bs), k')"
  shows "length bs \<le> n" and "kview Z k' = kview Z k" and "ktime Z k \<le> ktime Z k'"
  using assms unfolding hwinfo_laws_def by blast+

lemma rand_view:
  assumes "rand_laws Z" and "sys_rand16_get Z k = (r, k')"
  shows "kview Z k' = kview Z k" and "ktime Z k \<le> ktime Z k'"
  using assms unfolding rand_laws_def by blast+

lemma phy_view:
  assumes "phy_laws Z"
  shows "kview Z (snd (nrf_modem_lib_init Z k)) = kview Z k"
    and "kview Z (snd (nrf_modem_dect_phy_event_handler_set Z k)) = kview Z k"
    and "kview Z (snd (nrf_modem_dect_phy_init Z k)) = kview Z k"
    and "kview Z (snd (nrf_modem_dect_phy_configure Z cfg k)) = kview Z k"
    and "kview Z (snd (nrf_modem_dect_phy_activate Z k)) = kview Z k"
    and "kview Z (snd (nrf_modem_dect_phy_rx Z rxp k)) = kview Z k"
    and "kview Z (snd (nrf_modem_dect_phy_tx Z txp k)) = kview Z k"
    and "ktime Z k \<le> ktime Z (snd (nrf_modem_dect_phy_rx Z rxp k))"
    and "ktime Z k \<le> ktime Z (snd (nrf_modem_dect_phy_tx Z txp k))"
  using assms unfolding phy_laws_def by (metis prod.collapse)+

lemma slist_view:
  assumes "slist_laws Z"
  shows "kview Z (sys_slist_init Z l k) =
           (kview Z k)\<lparr>kv_slist := (kv_slist (kview Z k))(l := [])\<rparr>"
    and "n \<notin> set (kv_slist (kview Z k) l) \<Longrightarrow> kview Z (sys_slist_append Z l n k) =
           (kview Z k)\<lparr>kv_slist := (kv_slist (kview Z k))(l := kv_slist (kview Z k) l @ [n])\<rparr>"
  using assms unfolding slist_laws_def by blast+

lemma fifo_put_time: "fifo_laws Z \<Longrightarrow> ktime Z k \<le> ktime Z (k_fifo_put Z q x k)"
  unfolding fifo_laws_def by blast

lemma notify_view:
  assumes "notify_laws Z" and "bt_gatt_notify Z c d k = (r, k')"
  shows "kview Z k' = (kview Z k)\<lparr>kv_notified := kv_notified (kview Z k) @ [(c, d, r)]\<rparr>"
    and "ktime Z k \<le> ktime Z k'"
  using assms unfolding notify_laws_def by blast+

lemma host_view:
  assumes "host_laws Z"
  shows "kview Z (snd (bt_conn_ref Z n k)) = kview Z k" and "kview Z (bt_conn_unref Z n k) = kview Z k"
    and "kview Z (snd (bt_enable Z k)) = kview Z k" and "kview Z (snd (bt_le_adv_start Z ads sds k)) = kview Z k"
    and "kview Z (snd (gpio_pin_configure_dt Z k)) = kview Z k" and "kview Z (gpio_pin_set_dt Z n k) = kview Z k"
    and "kview Z (k_sleep Z n k) = kview Z k" and "kview Z (k_work_init Z f k) = kview Z k"
    and "kview Z (k_work_submit Z k) = kview Z k" and "kview Z (k_thread_create Z f k) = kview Z k"
  using assms unfolding host_laws_def by (metis prod.collapse)+

lemma poll_view:
  assumes "poll_laws Z" and "\<exists>q \<in> set qs. kv_fifo (kview Z k) q \<noteq> []"
  obtains flags k' where "k_poll Z qs k = Some (flags, k')" and "length flags = length qs"
    and "True \<in> set flags" and "kview Z k' = kview Z k"
    and "\<And>i. i < length qs \<Longrightarrow> flags ! i \<Longrightarrow> kv_fifo (kview Z k) (qs ! i) \<noteq> []"
proof -
  from assms(1)[unfolded poll_laws_def, rule_format, OF assms(2)] obtain flags k' where
    "k_poll Z qs k = Some (flags, k')" "length flags = length qs" "True \<in> set flags"
    "kview Z k' = kview Z k" "\<forall>i < length qs. flags ! i \<longrightarrow> kv_fifo (kview Z k) (qs ! i) \<noteq> []"
    by (elim exE conjE)
  then show thesis by (intro that[of flags k']) simp_all
qed

end
