(* ===== verification/Reference_Kernel.thy ===== *)
theory Reference_Kernel
  imports Zephyr "HOL-Library.AList"
begin

text \<open>
  One concrete kernel that satisfies all the laws of \<open>Zephyr\<close>. It models no code of the
  firmware: it shows that the laws can hold together, and it is the kernel on which the
  witnesses of the theorems run. Its state has fields a run can be observed through: the frames
  given to the modem and the values notified over Bluetooth.
\<close>

record kworld =
  rk_time :: nat
  rk_bufs :: "(nat \<times> net_buf) list"
  rk_sem :: "sem_id \<Rightarrow> nat"
  rk_txq :: "dect_link_layer_frame_t list"
  rk_put :: "dect_link_layer_frame_t list"
  rk_fifo :: "fifo_id \<Rightarrow> tb_ptr list"
  rk_slist :: "slist_id \<Rightarrow> node_ptr list"
  rk_rand :: u16
  rk_id :: "u8 list"
  rk_air :: "u8 list list"
  rk_notified :: "(nat option \<times> u8 list \<times> int) list"

definition rk_init :: kworld where
  "rk_init = \<lparr>rk_time = 0, rk_bufs = [], rk_sem = (\<lambda>_. 0), rk_txq = [], rk_put = [], rk_fifo = (\<lambda>_. []),
     rk_slist = (\<lambda>_. []), rk_rand = 0x1234, rk_id = [1, 2, 3, 4], rk_air = [],
     rk_notified = []\<rparr>"

definition rk_view :: "kworld \<Rightarrow> kview" where
  "rk_view k = \<lparr>kv_bufs = map_of (rk_bufs k), kv_sem = rk_sem k, kv_txq = rk_txq k,
     kv_put = rk_put k,
     kv_fifo = rk_fifo k, kv_slist = rk_slist k, kv_notified = rk_notified k\<rparr>"

definition rk_live :: "pool_id \<Rightarrow> kworld \<Rightarrow> nat list" where
  "rk_live p k = filter (\<lambda>h. case map_of (rk_bufs k) h of None \<Rightarrow> False | Some b \<Rightarrow> nb_pool b = p)
     (remdups (map fst (rk_bufs k)))"

definition rk_fresh :: "kworld \<Rightarrow> nat" where
  "rk_fresh k = Suc (fold max (map fst (rk_bufs k)) 0)"

definition rk_set_buf :: "nat \<Rightarrow> net_buf \<Rightarrow> kworld \<Rightarrow> kworld" where
  "rk_set_buf h b k = k\<lparr>rk_bufs := AList.update h b (rk_bufs k)\<rparr>"

definition rk_alloc :: "pool_id \<Rightarrow> kworld \<Rightarrow> nat option \<times> kworld" where
  "rk_alloc p k = (if 4 \<le> length (rk_live p k) then (None, k)
     else (Some (rk_fresh k), rk_set_buf (rk_fresh k) \<lparr>nb_pool = p, nb_ref = 1, nb_data = []\<rparr> k))"

definition rk_del_buf :: "nat \<Rightarrow> kworld \<Rightarrow> kworld" where
  "rk_del_buf h k = k\<lparr>rk_bufs := AList.delete h (rk_bufs k)\<rparr>"

definition rk_add_mem :: "nat \<Rightarrow> u8 list \<Rightarrow> kworld \<Rightarrow> kworld option" where
  "rk_add_mem h d k = (case map_of (rk_bufs k) h of None \<Rightarrow> None
     | Some b \<Rightarrow> if length (nb_data b) + length d \<le> 512
                 then Some (rk_set_buf h (b\<lparr>nb_data := nb_data b @ d\<rparr>) k) else None)"

definition rk_count_up :: "nat \<Rightarrow> kworld \<Rightarrow> kworld" where
  "rk_count_up h k = (case map_of (rk_bufs k) h of None \<Rightarrow> k
     | Some b \<Rightarrow> rk_set_buf h (b\<lparr>nb_ref := nb_ref b + 1\<rparr>) k)"

definition rk_count_down :: "nat \<Rightarrow> kworld \<Rightarrow> kworld" where
  "rk_count_down h k = (case map_of (rk_bufs k) h of None \<Rightarrow> k
     | Some b \<Rightarrow> if nb_ref b = 1 then rk_del_buf h k
                 else rk_set_buf h (b\<lparr>nb_ref := nb_ref b - 1\<rparr>) k)"

definition rk_take :: "sem_id \<Rightarrow> timeout \<Rightarrow> kworld \<Rightarrow> int \<times> kworld" where
  "rk_take q t k = (if 0 < rk_sem k q then (0, k\<lparr>rk_sem := (rk_sem k)(q := rk_sem k q - 1)\<rparr>)
     else (- EAGAIN, k))"

definition ref_zephyr :: "kworld zephyr" where
  "ref_zephyr = \<lparr>
     kview = rk_view,
     ktime = rk_time,
     k_uptime_get_32 = (\<lambda>k. (of_nat (rk_time k + 1), k\<lparr>rk_time := rk_time k + 1\<rparr>)),
     sys_rand16_get = (\<lambda>k. (rk_rand k, k)),
     hwinfo_get_device_id = (\<lambda>n k. ((int n, take n (rk_id k)), k)),
     sizeof_transport_buffer_t = 20,
     sizeof_dect_transport_buffer_t = 24,
     net_buf_alloc = rk_alloc,
     net_buf_add_mem = rk_add_mem,
     net_buf_ref = rk_count_up,
     net_buf_unref = rk_count_down,
     net_buf_destroy = rk_del_buf,
     k_sem_init = (\<lambda>q n l k. k\<lparr>rk_sem := (rk_sem k)(q := n)\<rparr>),
     k_sem_reset = (\<lambda>q k. k\<lparr>rk_sem := (rk_sem k)(q := 0)\<rparr>),
     k_sem_give = (\<lambda>q k. k\<lparr>rk_sem := (rk_sem k)(q := 1)\<rparr>),
     k_sem_take = rk_take,
     k_msgq_init = (\<lambda>k. k\<lparr>rk_txq := []\<rparr>),
     k_msgq_put = (\<lambda>x k. if length (rk_txq k) < 8
                    then Some (0, k\<lparr>rk_txq := rk_txq k @ [x], rk_put := rk_put k @ [x]\<rparr>) else None),
     k_msgq_get = (\<lambda>k. case rk_txq k of [] \<Rightarrow> ((- 35, None), k)
                    | x # q \<Rightarrow> ((0, Some x), k\<lparr>rk_txq := q\<rparr>)),
     k_fifo_init = (\<lambda>f k. k\<lparr>rk_fifo := (rk_fifo k)(f := [])\<rparr>),
     k_fifo_put = (\<lambda>f x k. k\<lparr>rk_fifo := (rk_fifo k)(f := rk_fifo k f @ [x])\<rparr>),
     k_fifo_get = (\<lambda>f k. case rk_fifo k f of [] \<Rightarrow> (None, k)
                    | x # q \<Rightarrow> (Some x, k\<lparr>rk_fifo := (rk_fifo k)(f := q)\<rparr>)),
     sys_slist_init = (\<lambda>l k. k\<lparr>rk_slist := (rk_slist k)(l := [])\<rparr>),
     sys_slist_append = (\<lambda>l n k. k\<lparr>rk_slist := (rk_slist k)(l := rk_slist k l @ [n])\<rparr>),
     k_thread_create = (\<lambda>f k. k),
     nrf_modem_lib_init = (\<lambda>k. (0, k)),
     nrf_modem_dect_phy_event_handler_set = (\<lambda>k. (0, k)),
     nrf_modem_dect_phy_init = (\<lambda>k. (0, k)),
     nrf_modem_dect_phy_configure = (\<lambda>b k. (0, k)),
     nrf_modem_dect_phy_activate = (\<lambda>k. (0, k)),
     nrf_modem_dect_phy_rx = (\<lambda>p k. (0, k)),
     nrf_modem_dect_phy_tx = (\<lambda>p k. (0, k\<lparr>rk_air := rk_air k @ [tx_data p]\<rparr>)),
     bt_conn_ref = (\<lambda>c k. (Some c, k)),
     bt_conn_unref = (\<lambda>c k. k),
     bt_gatt_notify = (\<lambda>c d k.
       let r = (if c = None then - 128 else if length d \<le> CONFIG_BT_L2CAP_TX_MTU - 3 then 0 else - 12)
       in (r, k\<lparr>rk_notified := rk_notified k @ [(c, d, r)]\<rparr>)),
     bt_gatt_attr_read = (\<lambda>len off v k. if off > length v then ((- 7, []), k)
                        else let d = take len (drop off v) in ((int (length d), d), k)),
     bt_enable = (\<lambda>k. (0, k)),
     bt_le_adv_start = (\<lambda>ad sd k. (0, k)),
     gpio_is_ready_dt = (\<lambda>k. True),
     gpio_pin_configure_dt = (\<lambda>k. (0, k)),
     gpio_pin_set_dt = (\<lambda>n k. k),
     k_sleep = (\<lambda>n k. k\<lparr>rk_time := rk_time k + n\<rparr>),
     k_work_init = (\<lambda>f k. k),
     k_work_submit = (\<lambda>k. k),
     k_poll = (\<lambda>qs k. if \<exists>q \<in> set qs. rk_fifo k q \<noteq> []
                 then Some (map (\<lambda>q. rk_fifo k q \<noteq> []) qs, k) else None)\<rparr>"

definition ref_cnt :: "pool_id \<Rightarrow> nat" where "ref_cnt p = 4"
definition ref_cap :: "pool_id \<Rightarrow> nat" where "ref_cap p = 512"

lemma ref_zephyr_sel [simp]:
  "kview ref_zephyr = rk_view" "ktime ref_zephyr = rk_time"
  "k_uptime_get_32 ref_zephyr k = (of_nat (rk_time k + 1), k\<lparr>rk_time := rk_time k + 1\<rparr>)"
  "sys_rand16_get ref_zephyr k = (rk_rand k, k)"
  "net_buf_alloc ref_zephyr = rk_alloc" "net_buf_add_mem ref_zephyr = rk_add_mem"
  "net_buf_ref ref_zephyr = rk_count_up" "net_buf_unref ref_zephyr = rk_count_down"
  "net_buf_destroy ref_zephyr = rk_del_buf"
  "sizeof_transport_buffer_t ref_zephyr = 20" "sizeof_dect_transport_buffer_t ref_zephyr = 24"
  by (simp_all add: ref_zephyr_def)

lemma ref_clock_laws: "clock_laws ref_zephyr"
  by (auto simp: clock_laws_def rk_view_def)

lemma rk_fresh_new: "map_of (rk_bufs k) (rk_fresh k) = None"
proof -
  have "h \<le> fold max (map fst (rk_bufs k)) 0" if "h \<in> set (map fst (rk_bufs k))" for h
    using that Max_ge[of "set (0 # map fst (rk_bufs k))" h]
    by (simp only: Max.set_eq_fold) simp
  then have "\<forall>h \<in> set (map fst (rk_bufs k)). h < rk_fresh k"
    by (simp add: rk_fresh_def less_Suc_eq_le)
  then show ?thesis by (auto simp: map_of_eq_None_iff)
qed

lemma rk_live_card: "card (live_bufs p (rk_view k)) = length (rk_live p k)"
proof -
  have "live_bufs p (rk_view k) = set (rk_live p k)"
    by (auto simp: live_bufs_def rk_view_def rk_live_def split: option.splits
        dest: map_of_SomeD intro: rev_image_eqI)
  moreover have "distinct (rk_live p k)" by (simp add: rk_live_def)
  ultimately show ?thesis by (simp add: distinct_card)
qed

lemma rk_view_bufs [simp]:
  "kv_bufs (rk_view k) = map_of (rk_bufs k)"
  by (simp add: rk_view_def)

lemma rk_view_set_buf [simp]:
  "rk_view (rk_set_buf h b k) = (rk_view k)\<lparr>kv_bufs := (map_of (rk_bufs k))(h \<mapsto> b)\<rparr>"
  "rk_view (rk_del_buf h k) = (rk_view k)\<lparr>kv_bufs := (map_of (rk_bufs k))(h := None)\<rparr>"
  by (simp_all add: rk_view_def rk_set_buf_def rk_del_buf_def update_conv' delete_conv')

lemma rk_time_set_buf [simp]:
  "rk_time (rk_set_buf h b k) = rk_time k" "rk_time (rk_del_buf h k) = rk_time k"
  by (simp_all add: rk_set_buf_def rk_del_buf_def)

lemma ref_net_buf_laws: "net_buf_laws ref_zephyr ref_cnt ref_cap"
  unfolding net_buf_laws_def
proof (intro conjI)
  show "net_buf_alloc_law ref_zephyr ref_cnt"
    by (auto simp: net_buf_alloc_law_def rk_alloc_def rk_live_card ref_cnt_def rk_fresh_new)
  show "net_buf_add_law ref_zephyr ref_cap"
    by (auto simp: net_buf_add_law_def rk_add_mem_def ref_cap_def)
  show "net_buf_count_law ref_zephyr"
    by (auto simp: net_buf_count_law_def rk_count_up_def rk_count_down_def)
qed

lemma ref_sem_laws: "sem_laws ref_zephyr"
  by (auto simp: sem_laws_def ref_zephyr_def rk_view_def rk_take_def split: if_splits)

lemma ref_msgq_laws: "msgq_laws ref_zephyr 8"
  by (auto simp: msgq_laws_def ref_zephyr_def rk_view_def split: list.splits)

lemma ref_fifo_laws: "fifo_laws ref_zephyr"
  by (auto simp: fifo_laws_def ref_zephyr_def rk_view_def split: list.splits)

lemma ref_poll_laws: "poll_laws ref_zephyr"
  by (auto simp: poll_laws_def ref_zephyr_def rk_view_def)

lemma ref_host_laws: "host_laws ref_zephyr"
  unfolding host_laws_def by (intro allI impI, elim disjE) (auto simp: ref_zephyr_def rk_view_def split: if_splits)

lemma ref_notify_laws: "notify_laws ref_zephyr"
  by (auto simp: notify_laws_def ref_zephyr_def rk_view_def)

lemma ref_slist_laws: "slist_laws ref_zephyr"
  by (auto simp: slist_laws_def ref_zephyr_def rk_view_def)

lemma ref_hwinfo_laws: "hwinfo_laws ref_zephyr"
  by (auto simp: hwinfo_laws_def ref_zephyr_def)

lemma ref_phy_laws: "phy_laws ref_zephyr"
  by (auto simp: phy_laws_def ref_zephyr_def rk_view_def)

lemma ref_rand_laws: "rand_laws ref_zephyr"
  by (auto simp: rand_laws_def ref_zephyr_def)

lemma ref_layout_laws: "layout_laws ref_zephyr"
  by (simp add: layout_laws_def)

end
