(* ===== verification/Transport_Buffer.thy ===== *)
theory Transport_Buffer
  imports Reference_Kernel
begin

text \<open>
  \<^verbatim>\<open>alfie/app/src/utils/transport_buffer.{h,c}\<close>: the pool of reassembly contexts both
  transports receive into. A context is free, receiving the fragments of one message, or
  referenced (its message is complete and the upper layers hold it).

  The state is the machine memory: the contexts behind each pointer (\<open>tbs\<close>), the field
  \<open>src_id\<close> that the DECT layer appends to them (\<open>src_ids\<close>), and the kernel (\<open>kern\<close>). Later
  theories extend the record by their own static variables. \<open>pool_inv\<close> is the invariant of a
  pool: what the state of a context says about its network buffer, that no two contexts share
  one, and that every allocated buffer of the pool belongs to a context.
\<close>

section \<open>Data\<close>

datatype transport_buffer_write_ret_t =
    TRANSPORT_BUFFER_WRITE_RET_SUCCESS
  | TRANSPORT_BUFFER_WRITE_RET_DUPLICATE
  | TRANSPORT_BUFFER_WRITE_RET_COMPLETE
  | TRANSPORT_BUFFER_WRITE_RET_OVERRUN
  | TRANSPORT_BUFFER_WRITE_RET_INVALID_FINAL_SIZE
  | TRANSPORT_BUFFER_WRITE_RET_OUT_OF_ORDER_FRAGMENT
  | TRANSPORT_BUFFER_WRITE_RET_INVALID_ARGS

datatype transport_buffer_state_t =
    TRANSPORT_BUFFER_STATE_FREE
  | TRANSPORT_BUFFER_STATE_RECEIVING
  | TRANSPORT_BUFFER_STATE_REFERENCED

text \<open>The word reserved for the kernel's FIFOs is the kernel's, and has no field here.\<close>

record transport_buffer_t =
  tb_buffer :: "nat option"
  tb_state :: transport_buffer_state_t
  tb_seq_id :: u16
  tb_total_size_bytes :: u16
  tb_frag_total :: u8
  tb_frag_idx :: u8
  tb_last_rx_time_ms :: u32

record buffer_mem =
  tbs :: "tb_ptr \<Rightarrow> transport_buffer_t"
  src_ids :: "tb_ptr \<Rightarrow> u32"

text \<open>
  The query callback gets the buffer and the caller's parameters; both transports pass a
  pointer to a device id, or \<open>NULL\<close>.
\<close>

record transport_buffer_pool_api_t =
  additional_query_cb :: "(buffer_mem \<Rightarrow> tb_ptr \<Rightarrow> u32 option \<Rightarrow> bool option) option"

record transport_buffer_pool_t =
  pl_buffer_pool :: pool_id
  pl_num_buffers :: nat
  pl_buffer_size_bytes :: nat
  pl_context_size_bytes :: nat
  pl_rx_timeout_ms :: u32
  pl_contexts :: pool_id
  pl_api :: "transport_buffer_pool_api_t option"

record 'k machine =
  kern :: 'k
  mem :: buffer_mem

definition tb_at :: "('k, 'a) machine_scheme \<Rightarrow> tb_ptr \<Rightarrow> transport_buffer_t" where
  "tb_at s p = tbs (mem s) p"

definition set_tb ::
  "tb_ptr \<Rightarrow> transport_buffer_t \<Rightarrow> ('k, 'a) machine_scheme \<Rightarrow> ('k, 'a) machine_scheme" where
  "set_tb p b s = s\<lparr>mem := (mem s)\<lparr>tbs := (tbs (mem s))(p := b)\<rparr>\<rparr>"

text \<open>Static memory at boot is zero.\<close>

definition boot_mem :: buffer_mem where
  "boot_mem = \<lparr>tbs = (\<lambda>_. \<lparr>tb_buffer = None, tb_state = TRANSPORT_BUFFER_STATE_FREE, tb_seq_id = 0,
     tb_total_size_bytes = 0, tb_frag_total = 0, tb_frag_idx = 0, tb_last_rx_time_ms = 0\<rparr>),
     src_ids = (\<lambda>_. 0)\<rparr>"

text \<open>Dereferencing a \<open>struct net_buf\<close> pointer.\<close>

definition nb_at :: "'k zephyr \<Rightarrow> ('k, 'a) machine_scheme \<Rightarrow> nat \<Rightarrow> net_buf option" where
  "nb_at Z s h = bufs Z (kern s) h"

section \<open>Operations\<close>

definition prv_buffer_for_index :: "transport_buffer_pool_t \<Rightarrow> nat \<Rightarrow> tb_ptr option" where
  "prv_buffer_for_index inst idx =
     (if idx \<ge> pl_num_buffers inst then None
      else Some (Tb_ptr (pl_contexts inst) (idx * pl_context_size_bytes inst)))"

definition transport_buffer_pool_init ::
  "'k zephyr \<Rightarrow> transport_buffer_pool_t option \<Rightarrow> pool_id option \<Rightarrow> nat \<Rightarrow> nat \<Rightarrow>
   pool_id option \<Rightarrow> nat \<Rightarrow> u32 \<Rightarrow> transport_buffer_pool_api_t option \<Rightarrow>
   int \<times> transport_buffer_pool_t option" where
  "transport_buffer_pool_init Z inst pool num_buffers buffer_size_bytes contexts
     context_size_bytes rx_timeout_ms api =
     (if inst = None \<or> pool = None \<or> contexts = None \<or> num_buffers = 0 then (- EINVAL, inst)
      else if context_size_bytes < sizeof_transport_buffer_t Z then (- EINVAL, inst)
      else (0, Some \<lparr>pl_buffer_pool = the pool, pl_num_buffers = num_buffers,
              pl_buffer_size_bytes = buffer_size_bytes,
              pl_context_size_bytes = context_size_bytes, pl_rx_timeout_ms = rx_timeout_ms,
              pl_contexts = the contexts, pl_api = api\<rparr>))"

text \<open>The callback the pool was registered with, if any.\<close>

definition query_callback ::
  "transport_buffer_pool_t \<Rightarrow> (buffer_mem \<Rightarrow> tb_ptr \<Rightarrow> u32 option \<Rightarrow> bool option) option" where
  "query_callback inst = do { api \<leftarrow> pl_api inst; additional_query_cb api }"

text \<open>The three loops of \<open>transport_buffer_pool_get\<close>, over the indices they visit.\<close>

definition expire_context ::
  "'k zephyr \<Rightarrow> transport_buffer_pool_t \<Rightarrow> nat \<Rightarrow> ('k, 'a) machine_scheme \<Rightarrow>
   ('k, 'a) machine_scheme option" where
  "expire_context Z inst i s =
     do { p \<leftarrow> prv_buffer_for_index inst i;
          if tb_state (tb_at s p) \<noteq> TRANSPORT_BUFFER_STATE_RECEIVING then Some s
          else
            let (now, k) = k_uptime_get_32 Z (kern s);
                delta = now - tb_last_rx_time_ms (tb_at s p)
            in if delta \<ge> pl_rx_timeout_ms inst
               then do { h \<leftarrow> tb_buffer (tb_at s p);
                         Some (set_tb p ((tb_at s p)\<lparr>tb_buffer := None,
                                            tb_state := TRANSPORT_BUFFER_STATE_FREE\<rparr>)
                                 (s\<lparr>kern := net_buf_destroy Z h k\<rparr>)) }
               else Some (s\<lparr>kern := k\<rparr>) }"

fun find_receiving ::
  "transport_buffer_pool_t \<Rightarrow> u16 \<Rightarrow> nat \<Rightarrow> u8 \<Rightarrow> u32 option \<Rightarrow> ('k, 'a) machine_scheme \<Rightarrow>
   nat list \<Rightarrow> tb_ptr option option" where
  "find_receiving inst seq_id total_size_bytes frag_total params s [] = Some None"
| "find_receiving inst seq_id total_size_bytes frag_total params s (i # is) =
     do { p \<leftarrow> prv_buffer_for_index inst i;
          let b = tb_at s p;
          if tb_state b \<noteq> TRANSPORT_BUFFER_STATE_RECEIVING
          then find_receiving inst seq_id total_size_bytes frag_total params s is
          else if seq_id \<noteq> tb_seq_id b \<or> frag_total \<noteq> tb_frag_total b \<or>
                  total_size_bytes \<noteq> unat (tb_total_size_bytes b)
          then find_receiving inst seq_id total_size_bytes frag_total params s is
          else (case query_callback inst of
                  None \<Rightarrow> Some (Some p)
                | Some cb \<Rightarrow>
                    do { m \<leftarrow> cb (mem s) p params;
                         if m = False
                         then find_receiving inst seq_id total_size_bytes frag_total params s is
                         else Some (Some p) }) }"

fun alloc_context ::
  "'k zephyr \<Rightarrow> transport_buffer_pool_t \<Rightarrow> u16 \<Rightarrow> nat \<Rightarrow> u8 \<Rightarrow> nat list \<Rightarrow>
   ('k, 'a) machine_scheme \<Rightarrow> (tb_ptr option \<times> ('k, 'a) machine_scheme) option" where
  "alloc_context Z inst seq_id total_size_bytes frag_total [] s = Some (None, s)"
| "alloc_context Z inst seq_id total_size_bytes frag_total (i # is) s =
     do { p \<leftarrow> prv_buffer_for_index inst i;
          if tb_state (tb_at s p) = TRANSPORT_BUFFER_STATE_FREE
          then (case net_buf_alloc Z (pl_buffer_pool inst) (kern s) of
                  (None, k) \<Rightarrow> Some (None, set_tb p ((tb_at s p)\<lparr>tb_buffer := None\<rparr>) (s\<lparr>kern := k\<rparr>))
                | (Some h, k) \<Rightarrow>
                    let (now, k') = k_uptime_get_32 Z k
                    in Some (Some p, set_tb p ((tb_at s p)\<lparr>tb_buffer := Some h,
                         tb_total_size_bytes := of_nat total_size_bytes, tb_seq_id := seq_id,
                         tb_frag_idx := 0, tb_frag_total := frag_total, tb_last_rx_time_ms := now,
                         tb_state := TRANSPORT_BUFFER_STATE_RECEIVING\<rparr>) (s\<lparr>kern := k'\<rparr>)))
          else alloc_context Z inst seq_id total_size_bytes frag_total is s }"

definition transport_buffer_pool_get ::
  "'k zephyr \<Rightarrow> transport_buffer_pool_t option \<Rightarrow> u16 \<Rightarrow> nat \<Rightarrow> u8 \<Rightarrow> u8 \<Rightarrow> u32 option \<Rightarrow>
   ('k, 'a) machine_scheme \<Rightarrow> (tb_ptr option \<times> ('k, 'a) machine_scheme) option" where
  "transport_buffer_pool_get Z pool seq_id total_size_bytes frag_idx frag_total params s =
     (case pool of None \<Rightarrow> Some (None, s)
      | Some inst \<Rightarrow>
          if params \<noteq> None \<and> query_callback inst = None then Some (None, s)
          else do {
            s1 \<leftarrow> for_each [0..<pl_num_buffers inst] (expire_context Z inst) s;
            found \<leftarrow> find_receiving inst seq_id total_size_bytes frag_total params s1
                      [0..<pl_num_buffers inst];
            case found of
              Some p \<Rightarrow> Some (Some p, s1)
            | None \<Rightarrow>
                if frag_idx \<noteq> 0 then Some (None, s1)
                else alloc_context Z inst seq_id total_size_bytes frag_total
                       [0..<pl_num_buffers inst] s1 })"

text \<open>
  \<open>buf->buffer->len + len_bytes\<close> is computed in a 32-bit \<open>size_t\<close>. The data pointer is the
  bytes from it to the end of its object.
\<close>

definition transport_buffer_write ::
  "'k zephyr \<Rightarrow> tb_ptr option \<Rightarrow> u8 \<Rightarrow> u8 list option \<Rightarrow> nat \<Rightarrow> ('k, 'a) machine_scheme \<Rightarrow>
   (transport_buffer_write_ret_t \<times> ('k, 'a) machine_scheme) option" where
  "transport_buffer_write Z buf frag_idx data len_bytes s =
     (case (buf, data) of
        (Some p, Some d) \<Rightarrow>
          if len_bytes = 0 then Some (TRANSPORT_BUFFER_WRITE_RET_INVALID_ARGS, s)
          else if frag_idx > tb_frag_idx (tb_at s p)
          then Some (TRANSPORT_BUFFER_WRITE_RET_OUT_OF_ORDER_FRAGMENT, s)
          else if frag_idx < tb_frag_idx (tb_at s p)
          then Some (TRANSPORT_BUFFER_WRITE_RET_DUPLICATE, s)
          else do {
            h \<leftarrow> tb_buffer (tb_at s p);
            nb \<leftarrow> nb_at Z s h;
            if (length (nb_data nb) + len_bytes) mod 2 ^ 32 > unat (tb_total_size_bytes (tb_at s p))
            then Some (TRANSPORT_BUFFER_WRITE_RET_OVERRUN, s)
            else do {
              bytes \<leftarrow> mem_read d len_bytes;
              k1 \<leftarrow> net_buf_add_mem Z h bytes (kern s);
              let (now, k2) = k_uptime_get_32 Z k1;
              let b = (tb_at s p)\<lparr>tb_last_rx_time_ms := now,
                                  tb_frag_idx := tb_frag_idx (tb_at s p) + 1\<rparr>;
              let s2 = set_tb p b (s\<lparr>kern := k2\<rparr>);
              if tb_frag_idx b = tb_frag_total b
              then do {
                nb' \<leftarrow> nb_at Z s2 h;
                if length (nb_data nb') \<noteq> unat (tb_total_size_bytes b)
                then Some (TRANSPORT_BUFFER_WRITE_RET_INVALID_FINAL_SIZE, s2)
                else Some (TRANSPORT_BUFFER_WRITE_RET_COMPLETE,
                       set_tb p (b\<lparr>tb_state := TRANSPORT_BUFFER_STATE_REFERENCED\<rparr>) s2) }
              else Some (TRANSPORT_BUFFER_WRITE_RET_SUCCESS, s2) } }
      | _ \<Rightarrow> Some (TRANSPORT_BUFFER_WRITE_RET_INVALID_ARGS, s))"

definition transport_buffer_ref ::
  "'k zephyr \<Rightarrow> tb_ptr option \<Rightarrow> ('k, 'a) machine_scheme \<Rightarrow>
   tb_ptr option \<times> ('k, 'a) machine_scheme" where
  "transport_buffer_ref Z buf s =
     (case buf of None \<Rightarrow> (None, s)
      | Some p \<Rightarrow> (case tb_buffer (tb_at s p) of None \<Rightarrow> (None, s)
          | Some h \<Rightarrow> (Some p, s\<lparr>kern := net_buf_ref Z h (kern s)\<rparr>)))"

text \<open>
  \<open>transport_buffer_unref\<close> reads the reference count first and drops the reference after; the
  two halves are kept apart because another thread can run in between.
\<close>

definition unref_read_last ::
  "'k zephyr \<Rightarrow> tb_ptr \<Rightarrow> ('k, 'a) machine_scheme \<Rightarrow> bool option" where
  "unref_read_last Z p s =
     do { h \<leftarrow> tb_buffer (tb_at s p); nb \<leftarrow> nb_at Z s h; Some (nb_ref nb = 1) }"

definition unref_drop ::
  "'k zephyr \<Rightarrow> tb_ptr \<Rightarrow> bool \<Rightarrow> ('k, 'a) machine_scheme \<Rightarrow> ('k, 'a) machine_scheme option" where
  "unref_drop Z p last_reference s =
     do { h \<leftarrow> tb_buffer (tb_at s p);
          let s1 = s\<lparr>kern := net_buf_unref Z h (kern s)\<rparr>;
          Some (if last_reference
                then set_tb p ((tb_at s1 p)\<lparr>tb_state := TRANSPORT_BUFFER_STATE_FREE,
                                            tb_buffer := None\<rparr>) s1
                else s1) }"

definition transport_buffer_unref ::
  "'k zephyr \<Rightarrow> tb_ptr option \<Rightarrow> ('k, 'a) machine_scheme \<Rightarrow> ('k, 'a) machine_scheme option" where
  "transport_buffer_unref Z buf s =
     (case buf of None \<Rightarrow> Some s
      | Some p \<Rightarrow>
          if tb_buffer (tb_at s p) = None then Some s
          else do { last_reference \<leftarrow> unref_read_last Z p s; unref_drop Z p last_reference s })"

section \<open>State and memory lemmas\<close>

lemma tb_at_set_tb [simp]: "tb_at (set_tb p b s) q = (if q = p then b else tb_at s q)"
  by (simp add: tb_at_def set_tb_def)

lemma tb_at_kern [simp]: "tb_at (s\<lparr>kern := k\<rparr>) p = tb_at s p"
  by (simp add: tb_at_def)

lemma kern_set_tb [simp]: "kern (set_tb p b s) = kern s"
  by (simp add: set_tb_def)

lemma src_ids_set_tb [simp]: "src_ids (mem (set_tb p b s)) = src_ids (mem s)"
  by (simp add: set_tb_def)

lemma nb_at_set_tb [simp]: "nb_at Z (set_tb p b s) h = nb_at Z s h"
  by (simp add: nb_at_def)

text \<open>Two states that differ only in the kernel and the buffer memory.\<close>

definition only_buffers :: "('k, 'a) machine_scheme \<Rightarrow> ('k, 'a) machine_scheme \<Rightarrow> bool" where
  "only_buffers s s' \<longleftrightarrow> s' = s\<lparr>kern := kern s', mem := mem s'\<rparr> \<and>
     src_ids (mem s') = src_ids (mem s)"

lemma only_buffers_refl [simp]: "only_buffers s s"
  by (simp add: only_buffers_def)

lemma only_buffers_kern [simp]: "only_buffers s (s\<lparr>kern := k\<rparr>)"
  by (simp add: only_buffers_def)

lemma only_buffers_set_tb [simp]: "only_buffers s (set_tb p b s)"
  by (simp add: only_buffers_def set_tb_def)

lemma only_buffers_trans: "only_buffers s t \<Longrightarrow> only_buffers t u \<Longrightarrow> only_buffers s u"
  unfolding only_buffers_def by (cases s; cases t; cases u) simp

lemma only_buffers_step [simp]:
  "only_buffers s t \<Longrightarrow> only_buffers s (set_tb p b t)"
  "only_buffers s t \<Longrightarrow> only_buffers s (t\<lparr>kern := k\<rparr>)"
  by (blast intro: only_buffers_trans only_buffers_set_tb only_buffers_kern)+

section \<open>The invariant of a pool\<close>

text \<open>The contexts of a pool, in the order of their indices.\<close>

definition pool_ptrs :: "transport_buffer_pool_t \<Rightarrow> tb_ptr list" where
  "pool_ptrs inst =
     map (\<lambda>i. Tb_ptr (pl_contexts inst) (i * pl_context_size_bytes inst)) [0..<pl_num_buffers inst]"

lemma buffer_for_index_ptrs:
  "i < pl_num_buffers inst \<Longrightarrow> prv_buffer_for_index inst i = Some (pool_ptrs inst ! i)"
  by (simp add: prv_buffer_for_index_def pool_ptrs_def)

lemma length_pool_ptrs [simp]: "length (pool_ptrs inst) = pl_num_buffers inst"
  by (simp add: pool_ptrs_def)

lemma distinct_pool_ptrs: "0 < pl_context_size_bytes inst \<Longrightarrow> distinct (pool_ptrs inst)"
  by (auto simp: pool_ptrs_def distinct_map inj_on_def)

text \<open>What the state of a context says about its buffer.\<close>

definition ctx_ok :: "pool_id \<Rightarrow> (nat \<Rightarrow> net_buf option) \<Rightarrow> transport_buffer_t \<Rightarrow> bool" where
  "ctx_ok pool B b = (case tb_state b of
     TRANSPORT_BUFFER_STATE_FREE \<Rightarrow> tb_buffer b = None
   | TRANSPORT_BUFFER_STATE_RECEIVING \<Rightarrow>
       (case tb_buffer b of None \<Rightarrow> False
        | Some h \<Rightarrow> (case B h of None \<Rightarrow> False
          | Some nb \<Rightarrow> nb_pool nb = pool \<and> nb_ref nb = 1 \<and>
              length (nb_data nb) \<le> unat (tb_total_size_bytes b)))
   | TRANSPORT_BUFFER_STATE_REFERENCED \<Rightarrow>
       (case tb_buffer b of None \<Rightarrow> False
        | Some h \<Rightarrow> (case B h of None \<Rightarrow> False
          | Some nb \<Rightarrow> nb_pool nb = pool \<and> 0 < nb_ref nb \<and>
              length (nb_data nb) = unat (tb_total_size_bytes b) \<and>
              tb_frag_idx b = tb_frag_total b)))"

definition pool_ok ::
  "transport_buffer_pool_t \<Rightarrow> (tb_ptr \<Rightarrow> transport_buffer_t) \<Rightarrow> (nat \<Rightarrow> net_buf option) \<Rightarrow> bool"
  where
  "pool_ok inst T B \<longleftrightarrow>
     0 < pl_context_size_bytes inst \<and>
     (\<forall>p \<in> set (pool_ptrs inst). ctx_ok (pl_buffer_pool inst) B (T p)) \<and>
     (\<forall>p \<in> set (pool_ptrs inst). \<forall>q \<in> set (pool_ptrs inst). \<forall>h.
        tb_buffer (T p) = Some h \<longrightarrow> tb_buffer (T q) = Some h \<longrightarrow> p = q) \<and>
     (\<forall>h b. B h = Some b \<longrightarrow> nb_pool b = pl_buffer_pool inst \<longrightarrow>
        (\<exists>p \<in> set (pool_ptrs inst). tb_buffer (T p) = Some h))"

definition pool_inv ::
  "'k zephyr \<Rightarrow> transport_buffer_pool_t \<Rightarrow> ('k, 'a) machine_scheme \<Rightarrow> bool" where
  "pool_inv Z inst s \<longleftrightarrow> pool_ok inst (tbs (mem s)) (bufs Z (kern s))"

lemma pool_okD:
  assumes "pool_ok inst T B"
  shows "0 < pl_context_size_bytes inst"
    and "p \<in> set (pool_ptrs inst) \<Longrightarrow> ctx_ok (pl_buffer_pool inst) B (T p)"
    and "p \<in> set (pool_ptrs inst) \<Longrightarrow> q \<in> set (pool_ptrs inst) \<Longrightarrow> tb_buffer (T p) = Some h \<Longrightarrow>
         tb_buffer (T q) = Some h \<Longrightarrow> p = q"
    and "B h = Some b \<Longrightarrow> nb_pool b = pl_buffer_pool inst \<Longrightarrow>
         \<exists>p \<in> set (pool_ptrs inst). tb_buffer (T p) = Some h"
  using assms unfolding pool_ok_def by blast+

lemma pool_okI:
  assumes "0 < pl_context_size_bytes inst"
    and "\<And>p. p \<in> set (pool_ptrs inst) \<Longrightarrow> ctx_ok (pl_buffer_pool inst) B (T p)"
    and "\<And>p q h. p \<in> set (pool_ptrs inst) \<Longrightarrow> q \<in> set (pool_ptrs inst) \<Longrightarrow>
           tb_buffer (T p) = Some h \<Longrightarrow> tb_buffer (T q) = Some h \<Longrightarrow> p = q"
    and "\<And>h b. B h = Some b \<Longrightarrow> nb_pool b = pl_buffer_pool inst \<Longrightarrow>
           \<exists>p \<in> set (pool_ptrs inst). tb_buffer (T p) = Some h"
  shows "pool_ok inst T B"
  unfolding pool_ok_def by (intro conjI ballI allI impI) (rule assms; assumption)+

lemma pool_ok_owner:
  assumes "pool_ok inst T B" and "B h = Some b" and "nb_pool b = pl_buffer_pool inst"
  obtains p where "p \<in> set (pool_ptrs inst)" and "tb_buffer (T p) = Some h"
  using pool_okD(4)[OF assms] by blast

lemma ctx_ok_buffer:
  assumes "ctx_ok pool B b" and "tb_state b \<noteq> TRANSPORT_BUFFER_STATE_FREE"
  obtains h nb where "tb_buffer b = Some h" and "B h = Some nb" and "nb_pool nb = pool"
    and "0 < nb_ref nb" and "length (nb_data nb) \<le> unat (tb_total_size_bytes b)"
  using assms unfolding ctx_ok_def
  by (auto split: transport_buffer_state_t.splits option.splits)

lemma ctx_ok_receiving:
  "tb_state b = TRANSPORT_BUFFER_STATE_RECEIVING \<Longrightarrow> ctx_ok pool B b \<longleftrightarrow>
     (\<exists>h nb. tb_buffer b = Some h \<and> B h = Some nb \<and> nb_pool nb = pool \<and> nb_ref nb = 1 \<and>
        length (nb_data nb) \<le> unat (tb_total_size_bytes b))"
  unfolding ctx_ok_def by (auto split: option.splits)

lemma ctx_ok_referenced:
  "tb_state b = TRANSPORT_BUFFER_STATE_REFERENCED \<Longrightarrow> ctx_ok pool B b \<longleftrightarrow>
     (\<exists>h nb. tb_buffer b = Some h \<and> B h = Some nb \<and> nb_pool nb = pool \<and> 0 < nb_ref nb \<and>
        length (nb_data nb) = unat (tb_total_size_bytes b) \<and> tb_frag_idx b = tb_frag_total b)"
  unfolding ctx_ok_def by (auto split: option.splits)

lemma ctx_ok_free:
  "tb_state b = TRANSPORT_BUFFER_STATE_FREE \<Longrightarrow> ctx_ok pool B b \<longleftrightarrow> tb_buffer b = None"
  unfolding ctx_ok_def by simp

text \<open>A context's condition depends on its own buffer only.\<close>

lemma ctx_ok_cong:
  "(\<And>h. tb_buffer b = Some h \<Longrightarrow> B' h = B h) \<Longrightarrow> ctx_ok pool B' b = ctx_ok pool B b"
  unfolding ctx_ok_def by (auto split: transport_buffer_state_t.splits option.splits)

text \<open>The three ways an operation changes one context of a pool.\<close>

definition release_ctx :: "transport_buffer_t \<Rightarrow> transport_buffer_t" where
  "release_ctx b = b\<lparr>tb_buffer := None, tb_state := TRANSPORT_BUFFER_STATE_FREE\<rparr>"

lemma pool_ok_release:
  assumes ok: "pool_ok inst T B" and p: "p \<in> set (pool_ptrs inst)"
    and h: "tb_buffer (T p) = Some h"
  shows "pool_ok inst (T(p := release_ctx (T p))) (B(h := None))"
proof -
  have other: "tb_buffer (T q) \<noteq> Some h" if "q \<in> set (pool_ptrs inst)" "q \<noteq> p" for q
    using pool_okD(3)[OF ok p that(1) h] that(2) by auto
  show ?thesis
  proof (rule pool_okI)
    fix q assume q: "q \<in> set (pool_ptrs inst)"
    show "ctx_ok (pl_buffer_pool inst) (B(h := None)) ((T(p := release_ctx (T p))) q)"
    proof (cases "q = p")
      case True
      then show ?thesis by (simp add: release_ctx_def ctx_ok_free)
    next
      case False
      have "ctx_ok (pl_buffer_pool inst) (B(h := None)) (T q) = ctx_ok (pl_buffer_pool inst) B (T q)"
        by (rule ctx_ok_cong) (use other[OF q False] in auto)
      with False pool_okD(2)[OF ok q] show ?thesis by simp
    qed
  next
    fix h' b assume "(B(h := None)) h' = Some b" and "nb_pool b = pl_buffer_pool inst"
    then have "B h' = Some b" and ne: "h' \<noteq> h" by (auto split: if_splits)
    then obtain q where "q \<in> set (pool_ptrs inst)" "tb_buffer (T q) = Some h'"
      using pool_ok_owner[OF ok] \<open>nb_pool b = pl_buffer_pool inst\<close> by blast
    then show "\<exists>q\<in>set (pool_ptrs inst). tb_buffer ((T(p := release_ctx (T p))) q) = Some h'"
      using h ne by (intro bexI[of _ q]) auto
  next
    fix q r g
    assume "q \<in> set (pool_ptrs inst)" "r \<in> set (pool_ptrs inst)"
      "tb_buffer ((T(p := release_ctx (T p))) q) = Some g"
      "tb_buffer ((T(p := release_ctx (T p))) r) = Some g"
    then show "q = r"
      using pool_okD(3)[OF ok, of q r g] by (simp add: release_ctx_def split: if_splits)
  qed (rule pool_okD(1)[OF ok])
qed

lemma pool_ok_update:
  assumes ok: "pool_ok inst T B" and p: "p \<in> set (pool_ptrs inst)"
    and h: "tb_buffer (T p) = Some h" and h': "tb_buffer b = Some h"
    and nb: "B h = Some nb" and pool: "nb_pool nb' = nb_pool nb"
    and new: "ctx_ok (pl_buffer_pool inst) (B(h \<mapsto> nb')) b"
  shows "pool_ok inst (T(p := b)) (B(h \<mapsto> nb'))"
proof -
  have other: "tb_buffer (T q) \<noteq> Some h" if "q \<in> set (pool_ptrs inst)" "q \<noteq> p" for q
    using pool_okD(3)[OF ok p that(1) h] that(2) by auto
  show ?thesis
  proof (rule pool_okI)
    fix q assume q: "q \<in> set (pool_ptrs inst)"
    show "ctx_ok (pl_buffer_pool inst) (B(h \<mapsto> nb')) ((T(p := b)) q)"
    proof (cases "q = p")
      case False
      have "ctx_ok (pl_buffer_pool inst) (B(h \<mapsto> nb')) (T q) = ctx_ok (pl_buffer_pool inst) B (T q)"
        by (rule ctx_ok_cong) (use other[OF q False] in auto)
      with False pool_okD(2)[OF ok q] show ?thesis by simp
    qed (simp add: new)
  next
    fix g b' assume g: "(B(h \<mapsto> nb')) g = Some b'" and b': "nb_pool b' = pl_buffer_pool inst"
    show "\<exists>q\<in>set (pool_ptrs inst). tb_buffer ((T(p := b)) q) = Some g"
    proof (cases "g = h")
      case True
      with p h' show ?thesis by (intro bexI[of _ p]) auto
    next
      case False
      with g have "B g = Some b'" by simp
      with b' obtain q where "q \<in> set (pool_ptrs inst)" "tb_buffer (T q) = Some g"
        using pool_ok_owner[OF ok] by blast
      with False h h' show ?thesis by (intro bexI[of _ q]) auto
    qed
  next
    fix q r g
    assume "q \<in> set (pool_ptrs inst)" "r \<in> set (pool_ptrs inst)"
      "tb_buffer ((T(p := b)) q) = Some g" "tb_buffer ((T(p := b)) r) = Some g"
    then show "q = r"
      using pool_okD(3)[OF ok, of q r g] other[of q] other[of r] h h'
      by (cases "q = p"; cases "r = p") simp_all
  qed (rule pool_okD(1)[OF ok])
qed

lemma pool_ok_alloc:
  assumes ok: "pool_ok inst T B" and p: "p \<in> set (pool_ptrs inst)"
    and free: "tb_buffer (T p) = None" and fresh: "B h = None"
    and h: "tb_buffer b = Some h"
    and new: "ctx_ok (pl_buffer_pool inst) (B(h \<mapsto> nb)) b"
  shows "pool_ok inst (T(p := b)) (B(h \<mapsto> nb))"
proof -
  have other: "tb_buffer (T q) \<noteq> Some h" if q: "q \<in> set (pool_ptrs inst)" for q
  proof
    assume "tb_buffer (T q) = Some h"
    moreover from this have "tb_state (T q) \<noteq> TRANSPORT_BUFFER_STATE_FREE"
      using pool_okD(2)[OF ok q] ctx_ok_free by fastforce
    ultimately show False
      using pool_okD(2)[OF ok q] fresh by (auto elim: ctx_ok_buffer)
  qed
  show ?thesis
  proof (rule pool_okI)
    fix q assume q: "q \<in> set (pool_ptrs inst)"
    show "ctx_ok (pl_buffer_pool inst) (B(h \<mapsto> nb)) ((T(p := b)) q)"
    proof (cases "q = p")
      case False
      have "ctx_ok (pl_buffer_pool inst) (B(h \<mapsto> nb)) (T q) = ctx_ok (pl_buffer_pool inst) B (T q)"
        by (rule ctx_ok_cong) (use other[OF q] in auto)
      with False pool_okD(2)[OF ok q] show ?thesis by simp
    qed (simp add: new)
  next
    fix g b' assume g: "(B(h \<mapsto> nb)) g = Some b'" and b': "nb_pool b' = pl_buffer_pool inst"
    show "\<exists>q\<in>set (pool_ptrs inst). tb_buffer ((T(p := b)) q) = Some g"
    proof (cases "g = h")
      case True
      with p h show ?thesis by (intro bexI[of _ p]) auto
    next
      case False
      with g have "B g = Some b'" by simp
      with b' obtain q where "q \<in> set (pool_ptrs inst)" "tb_buffer (T q) = Some g"
        using pool_ok_owner[OF ok] by blast
      with free show ?thesis by (intro bexI[of _ q]) auto
    qed
  next
    fix q r g
    assume "q \<in> set (pool_ptrs inst)" "r \<in> set (pool_ptrs inst)"
      "tb_buffer ((T(p := b)) q) = Some g" "tb_buffer ((T(p := b)) r) = Some g"
    then show "q = r"
      using pool_okD(3)[OF ok, of q r g] other[of q] other[of r] h
      by (cases "q = p"; cases "r = p") simp_all
  qed (rule pool_okD(1)[OF ok])
qed

text \<open>Changes outside the pool do not matter to it.\<close>

lemma pool_ok_mono:
  assumes ok: "pool_ok inst T B"
    and T: "\<And>p. p \<in> set (pool_ptrs inst) \<Longrightarrow> T' p = T p"
    and B: "\<And>h b. nb_pool b = pl_buffer_pool inst \<Longrightarrow> B' h = Some b \<longleftrightarrow> B h = Some b"
  shows "pool_ok inst T' B'"
proof (rule pool_okI)
  fix p assume p: "p \<in> set (pool_ptrs inst)"
  show "ctx_ok (pl_buffer_pool inst) B' (T' p)"
  proof (cases "tb_state (T p) = TRANSPORT_BUFFER_STATE_FREE")
    case True
    with pool_okD(2)[OF ok p] T[OF p] show ?thesis by (simp add: ctx_ok_free)
  next
    case False
    from pool_okD(2)[OF ok p] False obtain h nb where "tb_buffer (T p) = Some h" "B h = Some nb"
      "nb_pool nb = pl_buffer_pool inst" by (rule ctx_ok_buffer)
    then have "ctx_ok (pl_buffer_pool inst) B' (T p) = ctx_ok (pl_buffer_pool inst) B (T p)"
      by (intro ctx_ok_cong) (simp add: B)
    with pool_okD(2)[OF ok p] T[OF p] show ?thesis by simp
  qed
next
  fix h b assume "B' h = Some b" "nb_pool b = pl_buffer_pool inst"
  then obtain p where "p \<in> set (pool_ptrs inst)" "tb_buffer (T p) = Some h"
    using pool_ok_owner[OF ok] B by blast
  with T show "\<exists>p\<in>set (pool_ptrs inst). tb_buffer (T' p) = Some h" by (intro bexI[of _ p]) auto
next
  fix p q h
  assume "p \<in> set (pool_ptrs inst)" "q \<in> set (pool_ptrs inst)"
    "tb_buffer (T' p) = Some h" "tb_buffer (T' q) = Some h"
  then show "p = q" using pool_okD(3)[OF ok, of p q h] T by simp
qed (rule pool_okD(1)[OF ok])

text \<open>
  While a context of the pool is free, the pool's network buffers cannot be exhausted: every
  allocated one belongs to another context.
\<close>

lemma pool_ok_free_room:
  assumes ok: "pool_ok inst T (kv_bufs v)" and p: "p \<in> set (pool_ptrs inst)"
    and free: "tb_state (T p) = TRANSPORT_BUFFER_STATE_FREE"
  shows "card (live_bufs (pl_buffer_pool inst) v) < pl_num_buffers inst"
proof -
  have none: "tb_buffer (T p) = None"
    using pool_okD(2)[OF ok p] free by (simp add: ctx_ok_free)
  let ?others = "set (pool_ptrs inst) - {p}"
  have "live_bufs (pl_buffer_pool inst) v \<subseteq> (\<lambda>q. the (tb_buffer (T q))) ` ?others"
  proof
    fix h assume "h \<in> live_bufs (pl_buffer_pool inst) v"
    then obtain b where "kv_bufs v h = Some b" "nb_pool b = pl_buffer_pool inst"
      by (auto simp: live_bufs_def)
    then obtain q where "q \<in> set (pool_ptrs inst)" "tb_buffer (T q) = Some h"
      by (rule pool_ok_owner[OF ok])
    with none show "h \<in> (\<lambda>q. the (tb_buffer (T q))) ` ?others"
      by (intro image_eqI[of _ _ q]) auto
  qed
  then have "card (live_bufs (pl_buffer_pool inst) v) \<le> card ?others"
    by (meson card_image_le card_mono finite_Diff finite_imageI finite_set le_trans)
  also have "\<dots> < card (set (pool_ptrs inst))"
    using p by (intro psubset_card_mono) auto
  also have "\<dots> \<le> pl_num_buffers inst"
    using card_length[of "pool_ptrs inst"] by simp
  finally show ?thesis .
qed

section \<open>Timeouts\<close>

text \<open>
  The unsigned difference of two readings of the 32-bit clock is the elapsed time, also when
  the clock wrapped in between, as long as less than \<open>2 ^ 32\<close> ms passed.
\<close>

lemma elapsed_ms:
  assumes "t0 \<le> t" and "t - t0 < 2 ^ 32"
  shows "unat (of_nat t - of_nat t0 :: u32) = t - t0"
proof -
  have "(of_nat t - of_nat t0 :: u32) = of_nat (t - t0)"
    using assms(1) by (simp add: of_nat_diff)
  then show ?thesis using assms(2) by (simp add: unat_of_nat)
qed

definition expired :: "transport_buffer_pool_t \<Rightarrow> u32 \<Rightarrow> transport_buffer_t \<Rightarrow> bool" where
  "expired inst now b \<longleftrightarrow> tb_state b = TRANSPORT_BUFFER_STATE_RECEIVING \<and>
     pl_rx_timeout_ms inst \<le> now - tb_last_rx_time_ms b"

text \<open>
  What the expiry loop does to a context: at some time during the call it is released if it
  is receiving and its timeout has passed, and otherwise left alone.
\<close>

definition expire_effect ::
  "'k zephyr \<Rightarrow> transport_buffer_pool_t \<Rightarrow> ('k, 'a) machine_scheme \<Rightarrow> ('k, 'a) machine_scheme \<Rightarrow>
   tb_ptr \<Rightarrow> bool" where
  "expire_effect Z inst s s' p \<longleftrightarrow>
     (\<exists>t. ktime Z (kern s) \<le> t \<and> t \<le> ktime Z (kern s') \<and>
        tb_at s' p = (if expired inst (of_nat t) (tb_at s p) then release_ctx (tb_at s p)
                      else tb_at s p))"

definition same_but_bufs :: "kview \<Rightarrow> kview \<Rightarrow> bool" where
  "same_but_bufs v v' \<longleftrightarrow> kv_sem v' = kv_sem v \<and> kv_txq v' = kv_txq v \<and>
     kv_put v' = kv_put v \<and> kv_fifo v' = kv_fifo v \<and> kv_slist v' = kv_slist v \<and>
     kv_notified v' = kv_notified v"

lemma same_but_bufs_eq: "same_but_bufs v v' \<Longrightarrow> v' = v\<lparr>kv_bufs := kv_bufs v'\<rparr>"
  unfolding same_but_bufs_def by (cases v; cases v') simp

lemma same_but_bufs_refl [simp]: "same_but_bufs v v"
  by (simp add: same_but_bufs_def)

lemma same_but_bufs_update [simp]: "same_but_bufs v (w\<lparr>kv_bufs := B\<rparr>) = same_but_bufs v w"
  by (simp add: same_but_bufs_def)

lemma same_but_bufs_trans: "same_but_bufs u v \<Longrightarrow> same_but_bufs v w \<Longrightarrow> same_but_bufs u w"
  by (simp add: same_but_bufs_def)

text \<open>Buffers of released contexts are gone, all other kernel objects are as they were.\<close>

definition expire_frame ::
  "'k zephyr \<Rightarrow> transport_buffer_pool_t \<Rightarrow> ('k, 'a) machine_scheme \<Rightarrow> ('k, 'a) machine_scheme \<Rightarrow>
   bool" where
  "expire_frame Z inst s s' \<longleftrightarrow> only_buffers s s' \<and> ktime Z (kern s) \<le> ktime Z (kern s') \<and>
     (\<forall>p. p \<notin> set (pool_ptrs inst) \<longrightarrow> tb_at s' p = tb_at s p) \<and>
     same_but_bufs (kview Z (kern s)) (kview Z (kern s')) \<and>
     (\<forall>h. bufs Z (kern s') h = bufs Z (kern s) h \<or>
        (bufs Z (kern s') h = None \<and>
         (\<exists>b. bufs Z (kern s) h = Some b \<and> nb_pool b = pl_buffer_pool inst)))"

lemma expire_frame_refl: "expire_frame Z inst s s"
  by (simp add: expire_frame_def)

lemma expire_frame_trans:
  assumes "expire_frame Z inst s t" and "expire_frame Z inst t u"
  shows "expire_frame Z inst s u"
  unfolding expire_frame_def
proof (intro conjI allI impI)
  show "only_buffers s u"
    using assms only_buffers_trans unfolding expire_frame_def by blast
  show "ktime Z (kern s) \<le> ktime Z (kern u)"
    using assms unfolding expire_frame_def by linarith
  show "same_but_bufs (kview Z (kern s)) (kview Z (kern u))"
    using assms same_but_bufs_trans unfolding expire_frame_def by blast
  show "tb_at u p = tb_at s p" if "p \<notin> set (pool_ptrs inst)" for p
    using that assms unfolding expire_frame_def by metis
  show "bufs Z (kern u) h = bufs Z (kern s) h \<or> (bufs Z (kern u) h = None \<and>
         (\<exists>b. bufs Z (kern s) h = Some b \<and> nb_pool b = pl_buffer_pool inst))" for h
    using assms unfolding expire_frame_def by metis
qed

lemma expire_context_step:
  assumes laws: "clock_laws Z" "net_buf_laws Z cnt cap"
    and inv: "pool_inv Z inst s" and i: "i < pl_num_buffers inst"
  obtains s' where "expire_context Z inst i s = Some s'" and "pool_inv Z inst s'"
    and "expire_effect Z inst s s' (pool_ptrs inst ! i)"
    and "\<And>q. q \<noteq> pool_ptrs inst ! i \<Longrightarrow> tb_at s' q = tb_at s q"
    and "expire_frame Z inst s s'"
proof -
  let ?p = "pool_ptrs inst ! i"
  have p: "?p \<in> set (pool_ptrs inst)" using i by simp
  obtain now k where up: "k_uptime_get_32 Z (kern s) = (now, k)" by fastforce
  note v = uptime_view[OF laws(1) up]
  consider (idle) "tb_state (tb_at s ?p) \<noteq> TRANSPORT_BUFFER_STATE_RECEIVING"
    | (kept) "tb_state (tb_at s ?p) = TRANSPORT_BUFFER_STATE_RECEIVING"
        "\<not> expired inst now (tb_at s ?p)"
    | (gone) "tb_state (tb_at s ?p) = TRANSPORT_BUFFER_STATE_RECEIVING"
        "expired inst now (tb_at s ?p)"
    by blast
  then show ?thesis
  proof cases
    case idle
    have "expire_effect Z inst s s ?p"
      unfolding expire_effect_def by (rule exI[of _ "ktime Z (kern s)"]) (simp add: expired_def idle)
    then show ?thesis
      using idle inv by (intro that[of s])
        (simp_all add: expire_context_def buffer_for_index_ptrs[OF i] expire_frame_refl)
  next
    case kept
    let ?s = "s\<lparr>kern := k\<rparr>"
    have "expire_context Z inst i s = Some ?s"
      using kept by (simp add: expire_context_def buffer_for_index_ptrs[OF i] up expired_def)
    moreover have "expire_effect Z inst s ?s ?p"
      unfolding expire_effect_def
      by (rule exI[of _ "ktime Z k"]) (use v(1,2) kept(2) in simp)
    moreover have "pool_inv Z inst ?s"
      using inv v(3) by (simp add: pool_inv_def)
    ultimately show ?thesis
      by (intro that[of ?s]) (simp_all add: expire_frame_def v)
  next
    case gone
    obtain h nb where h: "tb_buffer (tb_at s ?p) = Some h" and nb: "bufs Z (kern s) h = Some nb"
      and pool: "nb_pool nb = pl_buffer_pool inst"
      using inv p gone(1) unfolding pool_inv_def tb_at_def
      by (metis ctx_ok_buffer pool_okD(2) transport_buffer_state_t.distinct(1))
    have nbk: "bufs Z k h = Some nb" using nb v(3) by simp
    let ?s = "set_tb ?p (release_ctx (tb_at s ?p)) (s\<lparr>kern := net_buf_destroy Z h k\<rparr>)"
    have "expire_context Z inst i s = Some ?s"
      using gone h
      by (simp add: expire_context_def buffer_for_index_ptrs[OF i] up expired_def release_ctx_def)
    moreover have time: "ktime Z k \<le> ktime Z (net_buf_destroy Z h k)"
      by (rule count_view(4)[OF laws(2) nbk])
    then have "expire_effect Z inst s ?s ?p"
      unfolding expire_effect_def
      by (intro exI[of _ "ktime Z k"]) (use v(1,2) gone(2) in simp)
    moreover have view: "kview Z (net_buf_destroy Z h k) =
        (kview Z (kern s))\<lparr>kv_bufs := (bufs Z (kern s))(h := None)\<rparr>"
      using count_view(3)[OF laws(2) nbk] v(3) by simp
    moreover have "pool_inv Z inst ?s"
      using pool_ok_release[of inst "tbs (mem s)" "bufs Z (kern s)" ?p h] inv p h view
      by (simp add: pool_inv_def set_tb_def tb_at_def)
    moreover have "expire_frame Z inst s ?s"
      using v(2) time view nb pool p by (auto simp: expire_frame_def)
    ultimately show ?thesis
      by (intro that[of ?s]) simp_all
  qed
qed

lemma expire_effect_mono:
  assumes "expire_effect Z inst s t p" and "tb_at u p = tb_at t p"
    and "ktime Z (kern t) \<le> ktime Z (kern u)"
  shows "expire_effect Z inst s u p"
  using assms unfolding expire_effect_def by (metis order_trans)

lemma expire_effect_shift:
  assumes "expire_effect Z inst t u p" and "tb_at t p = tb_at s p"
    and "ktime Z (kern s) \<le> ktime Z (kern t)"
  shows "expire_effect Z inst s u p"
  using assms unfolding expire_effect_def by (metis order_trans)

lemma expire_list:
  assumes laws: "clock_laws Z" "net_buf_laws Z cnt cap"
    and "pool_inv Z inst s" and "distinct is" and "\<And>i. i \<in> set is \<Longrightarrow> i < pl_num_buffers inst"
  shows "\<exists>s'. for_each is (expire_context Z inst) s = Some s' \<and> pool_inv Z inst s' \<and>
     expire_frame Z inst s s' \<and>
     (\<forall>i \<in> set is. expire_effect Z inst s s' (pool_ptrs inst ! i)) \<and>
     (\<forall>q. q \<notin> (\<lambda>i. pool_ptrs inst ! i) ` set is \<longrightarrow> tb_at s' q = tb_at s q)"
  using assms(3-)
proof (induction "is" arbitrary: s)
  case Nil
  then show ?case by (simp add: expire_frame_refl)
next
  case (Cons i "is")
  have i: "i < pl_num_buffers inst" using Cons.prems by simp
  obtain t where t: "expire_context Z inst i s = Some t" "pool_inv Z inst t"
      "expire_effect Z inst s t (pool_ptrs inst ! i)"
      "\<And>q. q \<noteq> pool_ptrs inst ! i \<Longrightarrow> tb_at t q = tb_at s q" "expire_frame Z inst s t"
    by (rule expire_context_step[OF laws Cons.prems(1) i]) blast
  obtain u where u: "for_each is (expire_context Z inst) t = Some u" "pool_inv Z inst u"
      "expire_frame Z inst t u"
      "\<forall>j \<in> set is. expire_effect Z inst t u (pool_ptrs inst ! j)"
      "\<forall>q. q \<notin> (\<lambda>i. pool_ptrs inst ! i) ` set is \<longrightarrow> tb_at u q = tb_at t q"
    using Cons.IH[OF t(2)] Cons.prems(2,3) by auto
  have dist: "distinct (pool_ptrs inst)"
    using Cons.prems(1) by (intro distinct_pool_ptrs) (auto simp: pool_inv_def dest: pool_okD(1))
  have away: "pool_ptrs inst ! j \<noteq> pool_ptrs inst ! i" if "j \<in> set is" for j
    using that Cons.prems(2,3) dist i nth_eq_iff_index_eq[OF dist, of j i] by auto
  have le: "ktime Z (kern s) \<le> ktime Z (kern t)" "ktime Z (kern t) \<le> ktime Z (kern u)"
    using t(5) u(3) by (simp_all add: expire_frame_def)
  have "expire_effect Z inst s u (pool_ptrs inst ! j)" if j: "j \<in> set (i # is)" for j
  proof (cases "j \<in> set is")
    case True
    with u(4) t(4)[OF away] le(1) show ?thesis by (blast intro: expire_effect_shift)
  next
    case False
    with j have "j = i" by simp
    moreover have "pool_ptrs inst ! i \<notin> (\<lambda>i. pool_ptrs inst ! i) ` set is"
      using away by (metis image_iff)
    ultimately show ?thesis using expire_effect_mono[OF t(3) _ le(2)] u(5) by blast
  qed
  moreover have "for_each (i # is) (expire_context Z inst) s = Some u" using t(1) u(1) by simp
  ultimately show ?case
    using u(2,5) t(4) expire_frame_trans[OF t(5) u(3)] by (intro exI[of _ u]) auto
qed

text \<open>The expiry loop never faults and applies its effect to every context of the pool.\<close>

lemma expire_all:
  assumes laws: "clock_laws Z" "net_buf_laws Z cnt cap" and inv: "pool_inv Z inst s"
  obtains s' where "for_each [0..<pl_num_buffers inst] (expire_context Z inst) s = Some s'"
    and "pool_inv Z inst s'" and "expire_frame Z inst s s'"
    and "\<And>p. p \<in> set (pool_ptrs inst) \<Longrightarrow> expire_effect Z inst s s' p"
proof -
  obtain s' where s': "for_each [0..<pl_num_buffers inst] (expire_context Z inst) s = Some s'"
      "pool_inv Z inst s'" "expire_frame Z inst s s'"
      "\<forall>i \<in> set [0..<pl_num_buffers inst]. expire_effect Z inst s s' (pool_ptrs inst ! i)"
    using expire_list[OF laws inv, of "[0..<pl_num_buffers inst]"] by auto
  have "expire_effect Z inst s s' p" if "p \<in> set (pool_ptrs inst)" for p
    using that s'(4) unfolding in_set_conv_nth by force
  with s'(1-3) show ?thesis by (intro that[of s'])
qed

section \<open>Looking a context up\<close>

text \<open>The contexts a fragment belongs to.\<close>

definition matches ::
  "transport_buffer_pool_t \<Rightarrow> u16 \<Rightarrow> nat \<Rightarrow> u8 \<Rightarrow> u32 option \<Rightarrow> ('k, 'a) machine_scheme \<Rightarrow>
   tb_ptr \<Rightarrow> bool" where
  "matches inst seq_id total_size_bytes frag_total params s p \<longleftrightarrow>
     tb_state (tb_at s p) = TRANSPORT_BUFFER_STATE_RECEIVING \<and>
     tb_seq_id (tb_at s p) = seq_id \<and> tb_frag_total (tb_at s p) = frag_total \<and>
     unat (tb_total_size_bytes (tb_at s p)) = total_size_bytes \<and>
     (case query_callback inst of None \<Rightarrow> True | Some cb \<Rightarrow> cb (mem s) p params = Some True)"

text \<open>A callback that does not fault on the parameters it is called with.\<close>

definition query_total :: "transport_buffer_pool_t \<Rightarrow> u32 option \<Rightarrow> bool" where
  "query_total inst params \<longleftrightarrow>
     (case query_callback inst of None \<Rightarrow> params = None
      | Some cb \<Rightarrow> \<forall>m p. cb m p params \<noteq> None)"

lemma find_receiving_find:
  assumes "query_total inst params" and "\<And>i. i \<in> set is \<Longrightarrow> i < pl_num_buffers inst"
  shows "find_receiving inst seq_id total_size_bytes frag_total params s is =
    Some (find (matches inst seq_id total_size_bytes frag_total params s)
            (map (\<lambda>i. pool_ptrs inst ! i) is))"
  using assms(2)
proof (induction "is")
  case Nil
  then show ?case by simp
next
  case (Cons i "is")
  then have idx: "prv_buffer_for_index inst i = Some (pool_ptrs inst ! i)"
    and IH: "find_receiving inst seq_id total_size_bytes frag_total params s is =
      Some (find (matches inst seq_id total_size_bytes frag_total params s)
              (map (\<lambda>i. pool_ptrs inst ! i) is))"
    by (simp_all add: buffer_for_index_ptrs)
  show ?case
  proof (cases "query_callback inst")
    case None
    with idx IH show ?thesis by (simp add: Let_def) (auto simp: matches_def)
  next
    case (Some cb)
    with assms(1) obtain m where "cb (mem s) (pool_ptrs inst ! i) params = Some m"
      by (auto simp: query_total_def)
    with idx IH Some show ?thesis
      by (cases m) (auto simp: Let_def matches_def[of inst _ _ _ _ _ "pool_ptrs inst ! i"])
  qed
qed

lemma find_receiving_all:
  assumes "query_total inst params"
  shows "find_receiving inst seq_id total_size_bytes frag_total params s
      [0..<pl_num_buffers inst] =
    Some (find (matches inst seq_id total_size_bytes frag_total params s) (pool_ptrs inst))"
  using find_receiving_find[OF assms, of "[0..<pl_num_buffers inst]"]
  by (simp add: map_nth[of "pool_ptrs inst", simplified])

text \<open>A freshly allocated context.\<close>

definition fresh_ctx ::
  "u16 \<Rightarrow> nat \<Rightarrow> u8 \<Rightarrow> nat \<Rightarrow> u32 \<Rightarrow> transport_buffer_t" where
  "fresh_ctx seq_id total_size_bytes frag_total h now =
     \<lparr>tb_buffer = Some h, tb_state = TRANSPORT_BUFFER_STATE_RECEIVING, tb_seq_id = seq_id,
      tb_total_size_bytes = of_nat total_size_bytes, tb_frag_total = frag_total,
      tb_frag_idx = 0, tb_last_rx_time_ms = now\<rparr>"

lemma fresh_ctx_update:
  "b\<lparr>tb_buffer := Some h, tb_total_size_bytes := of_nat total_size_bytes, tb_seq_id := seq_id,
     tb_frag_idx := 0, tb_frag_total := frag_total, tb_last_rx_time_ms := now,
     tb_state := TRANSPORT_BUFFER_STATE_RECEIVING\<rparr> =
   fresh_ctx seq_id total_size_bytes frag_total h now"
  by (simp add: fresh_ctx_def)

text \<open>
  Allocation takes the first free context, and only fails when there is none: the network
  buffers of the pool cannot run out before its contexts do.
\<close>

lemma alloc_context_spec:
  assumes laws: "clock_laws Z" "net_buf_laws Z cnt cap"
    and inv: "pool_inv Z inst s" and cnt: "pl_num_buffers inst \<le> cnt (pl_buffer_pool inst)"
    and "is": "\<And>i. i \<in> set is \<Longrightarrow> i < pl_num_buffers inst"
  shows "\<exists>r s'. alloc_context Z inst seq_id total_size_bytes frag_total is s = Some (r, s') \<and>
     pool_inv Z inst s' \<and>
     r = find (\<lambda>p. tb_state (tb_at s p) = TRANSPORT_BUFFER_STATE_FREE)
           (map (\<lambda>i. pool_ptrs inst ! i) is) \<and>
     (case r of None \<Rightarrow> s' = s
      | Some p \<Rightarrow> only_buffers s s' \<and> ktime Z (kern s) \<le> ktime Z (kern s') \<and>
          same_but_bufs (kview Z (kern s)) (kview Z (kern s')) \<and>
          (\<exists>h. bufs Z (kern s) h = None \<and>
             tb_at s' p = fresh_ctx seq_id total_size_bytes frag_total h
                            (of_nat (ktime Z (kern s'))) \<and>
             (\<forall>q. q \<noteq> p \<longrightarrow> tb_at s' q = tb_at s q) \<and>
             bufs Z (kern s') = (bufs Z (kern s))
               (h \<mapsto> \<lparr>nb_pool = pl_buffer_pool inst, nb_ref = 1, nb_data = []\<rparr>)))"
  using "is"
proof (induction "is")
  case Nil
  then show ?case using inv by simp
next
  case (Cons i "is")
  have i: "i < pl_num_buffers inst" using Cons.prems by simp
  let ?p = "pool_ptrs inst ! i"
  have p: "?p \<in> set (pool_ptrs inst)" using i by simp
  note idx = buffer_for_index_ptrs[OF i]
  show ?case
  proof (cases "tb_state (tb_at s ?p) = TRANSPORT_BUFFER_STATE_FREE")
    case False
    with Cons show ?thesis by (simp add: idx)
  next
    case True
    obtain g k where al: "net_buf_alloc Z (pl_buffer_pool inst) (kern s) = (g, k)" by fastforce
    have ok: "pool_ok inst (tbs (mem s)) (kv_bufs (kview Z (kern s)))"
      using inv by (simp add: pool_inv_def)
    have "g \<noteq> None"
    proof
      assume "g = None"
      then have "cnt (pl_buffer_pool inst) \<le> card (live_bufs (pl_buffer_pool inst) (kview Z (kern s)))"
        using alloc_None_view(3)[OF laws(2)] al by simp
      with pool_ok_free_room[OF ok p] True cnt show False by (simp add: tb_at_def)
    qed
    then obtain h where g: "g = Some h" by blast
    note a = alloc_Some_view[OF laws(2) al[unfolded g]]
    obtain now k' where up: "k_uptime_get_32 Z k = (now, k')" by fastforce
    note v = uptime_view[OF laws(1) up]
    let ?b = "fresh_ctx seq_id total_size_bytes frag_total h now"
    let ?nb = "\<lparr>nb_pool = pl_buffer_pool inst, nb_ref = 1, nb_data = []\<rparr>"
    let ?s = "set_tb ?p ?b (s\<lparr>kern := k'\<rparr>)"
    have "alloc_context Z inst seq_id total_size_bytes frag_total (i # is) s = Some (Some ?p, ?s)"
      using True by (simp add: idx al g up fresh_ctx_update)
    moreover have view: "kview Z k' = (kview Z (kern s))\<lparr>kv_bufs := (bufs Z (kern s))(h \<mapsto> ?nb)\<rparr>"
      using v(3) a(3) by simp
    moreover have "pool_inv Z inst ?s"
    proof -
      have "tb_buffer (tbs (mem s) ?p) = None"
        using pool_okD(2)[OF ok p] True by (simp add: ctx_ok_free tb_at_def)
      moreover have "ctx_ok (pl_buffer_pool inst) ((bufs Z (kern s))(h \<mapsto> ?nb)) ?b"
        by (simp add: ctx_ok_def fresh_ctx_def)
      ultimately show ?thesis
        using pool_ok_alloc[OF ok p _ a(1), of ?b ?nb] view
        by (simp add: pool_inv_def set_tb_def fresh_ctx_def)
    qed
    ultimately show ?thesis
      using True v a(1,2) by (auto intro!: exI[of _ h])
  qed
qed

text \<open>
  \<open>transport_buffer_pool_get\<close> on a pool in order: it never faults and keeps the invariant.
  After the expiry, it returns the first receiving context of this message; else, for a first
  fragment, the first free context, which it starts; else \<open>NULL\<close>.
\<close>

lemma pool_get_spec:
  assumes laws: "clock_laws Z" "net_buf_laws Z cnt cap"
    and inv: "pool_inv Z inst s" and cnt: "pl_num_buffers inst \<le> cnt (pl_buffer_pool inst)"
    and query: "query_total inst params"
  obtains s1 r s' where
    "transport_buffer_pool_get Z (Some inst) seq_id total_size_bytes frag_idx frag_total params s =
       Some (r, s')"
    and "pool_inv Z inst s1" and "expire_frame Z inst s s1"
    and "\<And>p. p \<in> set (pool_ptrs inst) \<Longrightarrow> expire_effect Z inst s s1 p"
    and "pool_inv Z inst s'"
    and "(case find (matches inst seq_id total_size_bytes frag_total params s1) (pool_ptrs inst) of
        Some p \<Rightarrow> r = Some p \<and> s' = s1
      | None \<Rightarrow> if frag_idx \<noteq> 0 then r = None \<and> s' = s1
          else r = find (\<lambda>p. tb_state (tb_at s1 p) = TRANSPORT_BUFFER_STATE_FREE) (pool_ptrs inst) \<and>
            (case r of None \<Rightarrow> s' = s1
             | Some p \<Rightarrow> only_buffers s1 s' \<and> ktime Z (kern s1) \<le> ktime Z (kern s') \<and>
                 same_but_bufs (kview Z (kern s1)) (kview Z (kern s')) \<and>
                 (\<exists>h. bufs Z (kern s1) h = None \<and>
                    tb_at s' p = fresh_ctx seq_id total_size_bytes frag_total h
                                   (of_nat (ktime Z (kern s'))) \<and>
                    (\<forall>q. q \<noteq> p \<longrightarrow> tb_at s' q = tb_at s1 q) \<and>
                    bufs Z (kern s') = (bufs Z (kern s1))
                      (h \<mapsto> \<lparr>nb_pool = pl_buffer_pool inst, nb_ref = 1, nb_data = []\<rparr>))))"
proof -
  obtain s1 where s1: "for_each [0..<pl_num_buffers inst] (expire_context Z inst) s = Some s1"
      "pool_inv Z inst s1" "expire_frame Z inst s s1"
      "\<And>p. p \<in> set (pool_ptrs inst) \<Longrightarrow> expire_effect Z inst s s1 p"
    by (rule expire_all[OF laws inv]) blast
  have guard: "(params \<noteq> None \<and> query_callback inst = None) = False"
    using query by (auto simp: query_total_def)
  note found = find_receiving_all[OF query, of seq_id total_size_bytes frag_total s1]
  have all: "map (\<lambda>i. pool_ptrs inst ! i) [0..<pl_num_buffers inst] = pool_ptrs inst"
    using map_nth[of "pool_ptrs inst"] by simp
  show ?thesis
  proof (cases "find (matches inst seq_id total_size_bytes frag_total params s1) (pool_ptrs inst)")
    case (Some p)
    show ?thesis
    proof (rule that)
      show "transport_buffer_pool_get Z (Some inst) seq_id total_size_bytes frag_idx frag_total
          params s = Some (Some p, s1)"
        using s1(1) found Some by (simp add: transport_buffer_pool_get_def guard del: not_None_eq)
    qed (use s1 Some in auto)
  next
    case None
    note nomatch = None
    show ?thesis
    proof (cases "frag_idx = 0")
      case False
      show ?thesis
      proof (rule that)
        show "transport_buffer_pool_get Z (Some inst) seq_id total_size_bytes frag_idx frag_total
            params s = Some (None, s1)"
          using s1(1) found nomatch False
          by (simp add: transport_buffer_pool_get_def guard del: not_None_eq)
      qed (use s1 nomatch False in auto)
    next
      case True
      obtain r s' where a: "alloc_context Z inst seq_id total_size_bytes frag_total
            [0..<pl_num_buffers inst] s1 = Some (r, s')" "pool_inv Z inst s'"
          "r = find (\<lambda>p. tb_state (tb_at s1 p) = TRANSPORT_BUFFER_STATE_FREE) (pool_ptrs inst)"
          "case r of None \<Rightarrow> s' = s1
           | Some p \<Rightarrow> only_buffers s1 s' \<and> ktime Z (kern s1) \<le> ktime Z (kern s') \<and>
               same_but_bufs (kview Z (kern s1)) (kview Z (kern s')) \<and>
               (\<exists>h. bufs Z (kern s1) h = None \<and>
                  tb_at s' p = fresh_ctx seq_id total_size_bytes frag_total h
                                 (of_nat (ktime Z (kern s'))) \<and>
                  (\<forall>q. q \<noteq> p \<longrightarrow> tb_at s' q = tb_at s1 q) \<and>
                  bufs Z (kern s') = (bufs Z (kern s1))
                    (h \<mapsto> \<lparr>nb_pool = pl_buffer_pool inst, nb_ref = 1, nb_data = []\<rparr>))"
        using alloc_context_spec[OF laws s1(2) cnt, of "[0..<pl_num_buffers inst]" seq_id
            total_size_bytes frag_total] unfolding all by auto
      show ?thesis
      proof (rule that)
        show "transport_buffer_pool_get Z (Some inst) seq_id total_size_bytes frag_idx frag_total
            params s = Some (r, s')"
          using s1(1) found nomatch True a(1) by (simp add: transport_buffer_pool_get_def guard del: not_None_eq)
      qed (use s1 a nomatch True in auto)
    qed
  qed
qed

lemma set_tb_twice [simp]: "set_tb p b (set_tb p b' s) = set_tb p b s"
  by (simp add: set_tb_def)

lemma release_ctx_alt:
  "b\<lparr>tb_state := TRANSPORT_BUFFER_STATE_FREE, tb_buffer := None\<rparr> = release_ctx b"
  by (simp add: release_ctx_def)

section \<open>Writing a fragment\<close>

text \<open>The buffer behind a receiving context.\<close>

lemma receiving_buffer:
  assumes "pool_inv Z inst s" and "p \<in> set (pool_ptrs inst)"
    and "tb_state (tb_at s p) = TRANSPORT_BUFFER_STATE_RECEIVING"
  obtains h nb where "tb_buffer (tb_at s p) = Some h" and "bufs Z (kern s) h = Some nb"
    and "nb_pool nb = pl_buffer_pool inst" and "nb_ref nb = 1"
    and "length (nb_data nb) \<le> unat (tb_total_size_bytes (tb_at s p))"
  using assms pool_okD(2)[of inst "tbs (mem s)" "bufs Z (kern s)" p] ctx_ok_receiving
  unfolding pool_inv_def tb_at_def by metis

text \<open>The context after an accepted fragment, and the code that is returned.\<close>

definition written_ctx :: "u32 \<Rightarrow> nat \<Rightarrow> transport_buffer_t \<Rightarrow> transport_buffer_t" where
  "written_ctx now len b = b\<lparr>tb_last_rx_time_ms := now, tb_frag_idx := tb_frag_idx b + 1,
     tb_state := (if tb_frag_idx b + 1 = tb_frag_total b \<and> len = unat (tb_total_size_bytes b)
                  then TRANSPORT_BUFFER_STATE_REFERENCED else tb_state b)\<rparr>"

definition written_ret :: "nat \<Rightarrow> transport_buffer_t \<Rightarrow> transport_buffer_write_ret_t" where
  "written_ret len b =
     (if tb_frag_idx b + 1 \<noteq> tb_frag_total b then TRANSPORT_BUFFER_WRITE_RET_SUCCESS
      else if len \<noteq> unat (tb_total_size_bytes b) then TRANSPORT_BUFFER_WRITE_RET_INVALID_FINAL_SIZE
      else TRANSPORT_BUFFER_WRITE_RET_COMPLETE)"

lemma written_ctx_cases:
  "tb_frag_idx b + 1 = tb_frag_total b \<Longrightarrow> len = unat (tb_total_size_bytes b) \<Longrightarrow>
   written_ctx now len b = b\<lparr>tb_last_rx_time_ms := now, tb_frag_idx := tb_frag_total b,
     tb_state := TRANSPORT_BUFFER_STATE_REFERENCED\<rparr>"
  "tb_frag_idx b + 1 = tb_frag_total b \<Longrightarrow> len \<noteq> unat (tb_total_size_bytes b) \<Longrightarrow>
   written_ctx now len b = b\<lparr>tb_last_rx_time_ms := now, tb_frag_idx := tb_frag_total b\<rparr>"
  "tb_frag_idx b + 1 \<noteq> tb_frag_total b \<Longrightarrow>
   written_ctx now len b = b\<lparr>tb_last_rx_time_ms := now, tb_frag_idx := tb_frag_idx b + 1\<rparr>"
  by (auto simp: written_ctx_def)

lemma written_ctx_simps [simp]:
  "tb_buffer (written_ctx now len b) = tb_buffer b"
  "tb_seq_id (written_ctx now len b) = tb_seq_id b"
  "tb_total_size_bytes (written_ctx now len b) = tb_total_size_bytes b"
  "tb_frag_total (written_ctx now len b) = tb_frag_total b"
  "tb_frag_idx (written_ctx now len b) = tb_frag_idx b + 1"
  "tb_last_rx_time_ms (written_ctx now len b) = now"
  by (simp_all add: written_ctx_def)

text \<open>
  The accepted case: the fragment is the next one, not empty, within the declared size of the
  message, readable, and within the room of the network buffer.
\<close>

lemma write_accept:
  assumes laws: "clock_laws Z" "net_buf_laws Z cnt cap"
    and inv: "pool_inv Z inst s" and p: "p \<in> set (pool_ptrs inst)"
    and st: "tb_state (tb_at s p) = TRANSPORT_BUFFER_STATE_RECEIVING"
    and h: "tb_buffer (tb_at s p) = Some h" and nb: "bufs Z (kern s) h = Some nb"
    and cap32: "cap (pl_buffer_pool inst) < 2 ^ 32"
    and len: "0 < len" "len \<le> length d"
    and total: "length (nb_data nb) + len \<le> unat (tb_total_size_bytes (tb_at s p))"
    and room: "length (nb_data nb) + len \<le> cap (pl_buffer_pool inst)"
  obtains s' where
    "transport_buffer_write Z (Some p) (tb_frag_idx (tb_at s p)) (Some d) len s =
       Some (written_ret (length (nb_data nb) + len) (tb_at s p), s')"
    and "pool_inv Z inst s'" and "only_buffers s s'"
    and "same_but_bufs (kview Z (kern s)) (kview Z (kern s'))"
    and "ktime Z (kern s) \<le> ktime Z (kern s')"
    and "tb_at s' p = written_ctx (of_nat (ktime Z (kern s'))) (length (nb_data nb) + len) (tb_at s p)"
    and "\<And>q. q \<noteq> p \<Longrightarrow> tb_at s' q = tb_at s q"
    and "bufs Z (kern s') = (bufs Z (kern s))(h \<mapsto> nb\<lparr>nb_data := nb_data nb @ take len d\<rparr>)"
proof -
  let ?b = "tb_at s p" and ?d = "take len d" and ?n = "length (nb_data nb) + len"
  have ok: "pool_ok inst (tbs (mem s)) (bufs Z (kern s))" using inv by (simp add: pool_inv_def)
  obtain h' nb' where "tb_buffer ?b = Some h'" "bufs Z (kern s) h' = Some nb'"
      "nb_pool nb' = pl_buffer_pool inst" "nb_ref nb' = 1"
    by (rule receiving_buffer[OF inv p st])
  with h nb have pool: "nb_pool nb = pl_buffer_pool inst" and ref: "nb_ref nb = 1" by auto
  have ld: "length ?d = len" using len(2) by simp
  obtain k1 where add: "net_buf_add_mem Z h ?d (kern s) = Some k1"
    using add_mem_None_iff[OF laws(2) nb, of ?d] room pool ld by fastforce
  note a = add_mem_Some_view[OF laws(2) nb add]
  obtain now k2 where up: "k_uptime_get_32 Z k1 = (now, k2)" by fastforce
  note v = uptime_view[OF laws(1) up]
  have mod: "?n mod 2 ^ 32 = ?n" using room cap32 by simp
  let ?s = "set_tb p (written_ctx now ?n ?b) (s\<lparr>kern := k2\<rparr>)"
  have view: "kview Z k2 = (kview Z (kern s))\<lparr>kv_bufs :=
      (bufs Z (kern s))(h \<mapsto> nb\<lparr>nb_data := nb_data nb @ ?d\<rparr>)\<rparr>"
    using a(3) v(3) by simp
  have "transport_buffer_write Z (Some p) (tb_frag_idx ?b) (Some d) len s =
      Some (written_ret ?n ?b, ?s)"
    using len h nb total add up view
    by (auto simp: transport_buffer_write_def nb_at_def mod Let_def written_ret_def
        written_ctx_cases)
  moreover have "pool_inv Z inst ?s"
  proof -
    have "ctx_ok (pl_buffer_pool inst) ((bufs Z (kern s))(h \<mapsto> nb\<lparr>nb_data := nb_data nb @ ?d\<rparr>))
        (written_ctx now ?n ?b)"
      using h st pool ref total ld by (simp add: ctx_ok_def written_ctx_def)
    then show ?thesis
      using pool_ok_update[OF ok p _ _ nb, of "written_ctx now ?n ?b"
          "nb\<lparr>nb_data := nb_data nb @ ?d\<rparr>"] h view
      by (simp add: pool_inv_def set_tb_def tb_at_def)
  qed
  ultimately show ?thesis
    using view v(1,2) a(2) by (intro that[of ?s]) simp_all
qed

text \<open>Every other call returns an error code and changes nothing.\<close>

lemma write_reject:
  "transport_buffer_write Z None fi data len s = Some (TRANSPORT_BUFFER_WRITE_RET_INVALID_ARGS, s)"
  "transport_buffer_write Z (Some p) fi None len s = Some (TRANSPORT_BUFFER_WRITE_RET_INVALID_ARGS, s)"
  "transport_buffer_write Z (Some p) fi (Some d) 0 s =
     Some (TRANSPORT_BUFFER_WRITE_RET_INVALID_ARGS, s)"
  "0 < len \<Longrightarrow> tb_frag_idx (tb_at s p) < fi \<Longrightarrow> transport_buffer_write Z (Some p) fi (Some d) len s =
     Some (TRANSPORT_BUFFER_WRITE_RET_OUT_OF_ORDER_FRAGMENT, s)"
  "0 < len \<Longrightarrow> fi < tb_frag_idx (tb_at s p) \<Longrightarrow> transport_buffer_write Z (Some p) fi (Some d) len s =
     Some (TRANSPORT_BUFFER_WRITE_RET_DUPLICATE, s)"
  by (simp_all add: transport_buffer_write_def order_less_imp_not_less split: option.splits)

lemma write_overrun:
  assumes "tb_buffer (tb_at s p) = Some h" and "bufs Z (kern s) h = Some nb" and "0 < len"
    and "unat (tb_total_size_bytes (tb_at s p)) < (length (nb_data nb) + len) mod 2 ^ 32"
  shows "transport_buffer_write Z (Some p) (tb_frag_idx (tb_at s p)) (Some d) len s =
     Some (TRANSPORT_BUFFER_WRITE_RET_OVERRUN, s)"
  using assms by (simp add: transport_buffer_write_def nb_at_def)

text \<open>
  When the function faults: the next fragment fits the declared size, but not its source object
  or not the network buffer.
\<close>

lemma write_fault_iff:
  assumes laws: "clock_laws Z" "net_buf_laws Z cnt cap"
    and inv: "pool_inv Z inst s" and p: "p \<in> set (pool_ptrs inst)"
    and st: "tb_state (tb_at s p) = TRANSPORT_BUFFER_STATE_RECEIVING"
    and h: "tb_buffer (tb_at s p) = Some h" and nb: "bufs Z (kern s) h = Some nb"
    and small: "length (nb_data nb) + len < 2 ^ 32"
  shows "transport_buffer_write Z (Some p) fi (Some d) len s = None \<longleftrightarrow>
     0 < len \<and> fi = tb_frag_idx (tb_at s p) \<and>
     length (nb_data nb) + len \<le> unat (tb_total_size_bytes (tb_at s p)) \<and>
     (length d < len \<or> cap (pl_buffer_pool inst) < length (nb_data nb) + len)"
    (is "?fault \<longleftrightarrow> ?cond")
proof -
  obtain h' nb' where "tb_buffer (tb_at s p) = Some h'" "bufs Z (kern s) h' = Some nb'"
      "nb_pool nb' = pl_buffer_pool inst"
    by (rule receiving_buffer[OF inv p st])
  with h nb have pool: "nb_pool nb = pl_buffer_pool inst" by auto
  consider "len = 0" | "0 < len" "tb_frag_idx (tb_at s p) < fi"
    | "0 < len" "fi < tb_frag_idx (tb_at s p)"
    | (over) "0 < len" "fi = tb_frag_idx (tb_at s p)"
        "unat (tb_total_size_bytes (tb_at s p)) < length (nb_data nb) + len"
    | (read) "0 < len" "fi = tb_frag_idx (tb_at s p)" "length d < len"
        "length (nb_data nb) + len \<le> unat (tb_total_size_bytes (tb_at s p))"
    | (room) "0 < len" "fi = tb_frag_idx (tb_at s p)" "len \<le> length d"
        "length (nb_data nb) + len \<le> unat (tb_total_size_bytes (tb_at s p))"
    by fastforce
  then show ?thesis
  proof cases
    case over
    then show ?thesis using write_overrun[OF h nb] small by simp
  next
    case read
    then have "mem_read d len = None" by (simp add: mem_read_eq_None)
    with read h nb small show ?thesis by (simp add: transport_buffer_write_def nb_at_def)
  next
    case room
    show ?thesis
    proof (cases "net_buf_add_mem Z h (take len d) (kern s)")
      case None
      with room h nb small add_mem_None_iff[OF laws(2) nb, of "take len d"] pool
      show ?thesis by (simp add: transport_buffer_write_def nb_at_def)
    next
      case (Some k1)
      obtain now k2 where up: "k_uptime_get_32 Z k1 = (now, k2)" by fastforce
      have "bufs Z k2 h = Some (nb\<lparr>nb_data := nb_data nb @ take len d\<rparr>)"
        using add_mem_Some_view(3)[OF laws(2) nb Some] uptime_view(3)[OF laws(1) up] by simp
      with Some room h nb small up add_mem_Some_view(1)[OF laws(2) nb Some] pool
      show ?thesis by (simp add: transport_buffer_write_def nb_at_def Let_def)
    qed
  qed (auto simp: write_reject)
qed

section \<open>References\<close>

lemma ref_spec:
  assumes laws: "net_buf_laws Z cnt cap"
    and inv: "pool_inv Z inst s" and p: "p \<in> set (pool_ptrs inst)"
    and st: "tb_state (tb_at s p) = TRANSPORT_BUFFER_STATE_REFERENCED"
    and h: "tb_buffer (tb_at s p) = Some h" and nb: "bufs Z (kern s) h = Some nb"
  obtains s' where "transport_buffer_ref Z (Some p) s = (Some p, s')" and "pool_inv Z inst s'"
    and "s' = s\<lparr>kern := kern s'\<rparr>"
    and "same_but_bufs (kview Z (kern s)) (kview Z (kern s'))" and "ktime Z (kern s) \<le> ktime Z (kern s')"
    and "bufs Z (kern s') = (bufs Z (kern s))(h \<mapsto> nb\<lparr>nb_ref := nb_ref nb + 1\<rparr>)"
proof -
  let ?s = "s\<lparr>kern := net_buf_ref Z h (kern s)\<rparr>" and ?nb = "nb\<lparr>nb_ref := nb_ref nb + 1\<rparr>"
  have ok: "pool_ok inst (tbs (mem s)) (bufs Z (kern s))" using inv by (simp add: pool_inv_def)
  note v = count_view(1)[OF laws nb] and time = count_view(6)[OF laws nb]
  have "ctx_ok (pl_buffer_pool inst) (bufs Z (kern s)) (tb_at s p)"
    using pool_okD(2)[OF ok p] by (simp add: tb_at_def)
  with st h nb have "ctx_ok (pl_buffer_pool inst) ((bufs Z (kern s))(h \<mapsto> ?nb)) (tb_at s p)"
    by (simp add: ctx_ok_referenced)
  from pool_ok_update[OF ok p _ _ nb _ this] h
  have "pool_ok inst ((tbs (mem s))(p := tb_at s p)) ((bufs Z (kern s))(h \<mapsto> ?nb))"
    by (simp add: tb_at_def)
  then have "pool_inv Z inst ?s" using v by (simp add: pool_inv_def tb_at_def)
  then show ?thesis
    using h v time by (intro that[of ?s]) (simp_all add: transport_buffer_ref_def)
qed

text \<open>Dropping one of several references only counts down; dropping the last frees the context.\<close>

lemma unref_shared:
  assumes laws: "net_buf_laws Z cnt cap"
    and inv: "pool_inv Z inst s" and p: "p \<in> set (pool_ptrs inst)"
    and h: "tb_buffer (tb_at s p) = Some h" and nb: "bufs Z (kern s) h = Some nb"
    and ref: "1 < nb_ref nb"
  obtains s' where "transport_buffer_unref Z (Some p) s = Some s'" and "pool_inv Z inst s'"
    and "s' = s\<lparr>kern := kern s'\<rparr>"
    and "same_but_bufs (kview Z (kern s)) (kview Z (kern s'))" and "ktime Z (kern s) \<le> ktime Z (kern s')"
    and "bufs Z (kern s') = (bufs Z (kern s))(h \<mapsto> nb\<lparr>nb_ref := nb_ref nb - 1\<rparr>)"
proof -
  let ?s = "s\<lparr>kern := net_buf_unref Z h (kern s)\<rparr>" and ?nb = "nb\<lparr>nb_ref := nb_ref nb - 1\<rparr>"
  have ok: "pool_ok inst (tbs (mem s)) (bufs Z (kern s))" using inv by (simp add: pool_inv_def)
  note v = count_view(2)[OF laws nb] and time = count_view(5)[OF laws nb]
  have c: "ctx_ok (pl_buffer_pool inst) (bufs Z (kern s)) (tb_at s p)"
    using pool_okD(2)[OF ok p] by (simp add: tb_at_def)
  have "tb_state (tb_at s p) = TRANSPORT_BUFFER_STATE_REFERENCED"
    using c h nb ref by (cases "tb_state (tb_at s p)") (auto simp: ctx_ok_def)
  with c h nb ref have "ctx_ok (pl_buffer_pool inst) ((bufs Z (kern s))(h \<mapsto> ?nb)) (tb_at s p)"
    by (simp add: ctx_ok_referenced)
  from pool_ok_update[OF ok p _ _ nb _ this] h
  have "pool_ok inst ((tbs (mem s))(p := tb_at s p)) ((bufs Z (kern s))(h \<mapsto> ?nb))"
    by (simp add: tb_at_def)
  then have "pool_inv Z inst ?s" using v ref by (simp add: pool_inv_def tb_at_def)
  moreover have "transport_buffer_unref Z (Some p) s = Some ?s"
    using h nb ref
    by (simp add: transport_buffer_unref_def unref_read_last_def unref_drop_def nb_at_def Let_def)
  ultimately show ?thesis
    using v ref time by (intro that[of ?s]) simp_all
qed

lemma unref_last:
  assumes laws: "net_buf_laws Z cnt cap"
    and inv: "pool_inv Z inst s" and p: "p \<in> set (pool_ptrs inst)"
    and h: "tb_buffer (tb_at s p) = Some h" and nb: "bufs Z (kern s) h = Some nb"
    and ref: "nb_ref nb = 1"
  obtains s' where "transport_buffer_unref Z (Some p) s = Some s'" and "pool_inv Z inst s'"
    and "only_buffers s s'" and "same_but_bufs (kview Z (kern s)) (kview Z (kern s'))"
    and "ktime Z (kern s) \<le> ktime Z (kern s')"
    and "tb_at s' p = release_ctx (tb_at s p)" and "\<And>q. q \<noteq> p \<Longrightarrow> tb_at s' q = tb_at s q"
    and "bufs Z (kern s') = (bufs Z (kern s))(h := None)"
proof -
  let ?s = "set_tb p (release_ctx (tb_at s p)) (s\<lparr>kern := net_buf_unref Z h (kern s)\<rparr>)"
  have ok: "pool_ok inst (tbs (mem s)) (bufs Z (kern s))" using inv by (simp add: pool_inv_def)
  note v = count_view(2)[OF laws nb] and time = count_view(5)[OF laws nb]
  have "pool_inv Z inst ?s"
    using pool_ok_release[OF ok p, of h] h v ref by (simp add: pool_inv_def set_tb_def tb_at_def)
  moreover have "transport_buffer_unref Z (Some p) s = Some ?s"
    using h nb ref
    by (simp add: transport_buffer_unref_def unref_read_last_def unref_drop_def nb_at_def Let_def
        release_ctx_alt)
  ultimately show ?thesis
    using v ref time by (intro that[of ?s]) simp_all
qed

end
