(* ===== verification/Device_Id.thy ===== *)
theory Device_Id
  imports Transport_Buffer
begin

text \<open>
  \<^verbatim>\<open>alfie/app/src/utils/device_id.c\<close>: the 32-bit id of this device, read from the hardware
  once and cached in two static variables.
\<close>

record 'k dev_machine = "'k machine" +
  dev_fetched :: bool
  dev_id :: u32

fun u32_of_bytes :: "u8 list \<Rightarrow> u32" where
  "u32_of_bytes (b0 # b1 # b2 # b3 # r) = mk32 b0 b1 b2 b3"
| "u32_of_bytes _ = 0"

lemma u32_of_le32 [wire]: "u32_of_bytes (le32 x @ r) = x"
  by (simp add: le32_def)

text \<open>The driver overwrites the bytes of \<open>id\<close> from the front; its result is ignored.\<close>

definition device_id ::
  "'k zephyr \<Rightarrow> ('k, 'a) dev_machine_scheme \<Rightarrow> u32 \<times> ('k, 'a) dev_machine_scheme" where
  "device_id Z s =
     (if dev_fetched s = False
      then let ((_, bytes), k) = hwinfo_get_device_id Z 4 (kern s);
               id' = u32_of_bytes (overwrite bytes (le32 (dev_id s)))
           in (id', s\<lparr>kern := k, dev_id := id', dev_fetched := True\<rparr>)
      else (dev_id s, s))"

text \<open>What reading the id leaves alone.\<close>

definition only_dev ::
  "('k, 'a) dev_machine_scheme \<Rightarrow> ('k, 'a) dev_machine_scheme \<Rightarrow> bool" where
  "only_dev s s' \<longleftrightarrow>
     s' = s\<lparr>kern := kern s', dev_fetched := dev_fetched s', dev_id := dev_id s'\<rparr>"

lemma only_dev_mem: "only_dev s s' \<Longrightarrow> mem s' = mem s"
  unfolding only_dev_def by (cases s; cases s') simp

lemma device_id_cached [simp]: "dev_fetched s \<Longrightarrow> device_id Z s = (dev_id s, s)"
  by (simp add: device_id_def)

lemma device_id_spec:
  assumes "device_id Z s = (i, s')"
  shows "i = dev_id s'" and "dev_fetched s'" and "only_dev s s'"
    and "hwinfo_laws Z \<Longrightarrow> kview Z (kern s') = kview Z (kern s)"
    and "hwinfo_laws Z \<Longrightarrow> ktime Z (kern s) \<le> ktime Z (kern s')"
  using assms
  by (auto simp: device_id_def only_dev_def Let_def hwinfo_view split: if_splits prod.splits)

lemma device_id_again:
  assumes "device_id Z s = (i, s')"
  shows "device_id Z s' = (i, s')"
  using device_id_spec(1,2)[OF assms] by simp

end
