(* ===== verification/Dect_Link_Layer.thy ===== *)
theory Dect_Link_Layer
  imports Device_Id
begin

text \<open>
  \<^verbatim>\<open>alfie/app/src/dect/dect_link_layer.c\<close>: frames of at most 22 bytes between devices, over
  the DECT NR+ modem. One thread owns the radio: each turn it sends one queued frame and then
  listens for one window.

  The modem answers every operation by an event, delivered to an event handler while the thread
  waits on \<open>op_sem\<close>. The events the modem raises are an input of the model, a list consumed
  from the front; waiting when there is none left never ends and is \<open>None\<close>.
\<close>

unbundle bit_operations_syntax

section \<open>Configuration and state\<close>

definition CONFIG_CARRIER :: nat where "CONFIG_CARRIER = 1711"
definition CONFIG_TX_POWER :: nat where "CONFIG_TX_POWER = 10"
definition CONFIG_NETWORK_ID :: u32 where "CONFIG_NETWORK_ID = 91"
definition CONFIG_MCS :: nat where "CONFIG_MCS = 1"

definition DECT_LINK_LAYER_RX_WINDOW_MS :: nat where "DECT_LINK_LAYER_RX_WINDOW_MS = 100"
definition DECT_LINK_LAYER_TX_MSG_QUEUE_DEPTH :: nat where
  "DECT_LINK_LAYER_TX_MSG_QUEUE_DEPTH = 8"

text \<open>The bit fields of the physical layer control field, at their widths.\<close>

record phy_ctrl_field_common =
  packet_length :: "4 word"
  packet_length_type :: "1 word"
  header_format :: "3 word"
  short_network_id :: "8 word"
  transmitter_id_hi :: "8 word"
  transmitter_id_lo :: "8 word"
  df_mcs :: "3 word"
  reserved :: "1 word"
  transmit_power :: "4 word"
  pad :: "24 word"

text \<open>Bit fields are allocated from the least significant bit of each 32-bit unit.\<close>

definition put_phy_ctrl_field :: "phy_ctrl_field_common \<Rightarrow> u8 list" where
  "put_phy_ctrl_field f =
     le32 (ucast (packet_length f) OR push_bit 4 (ucast (packet_length_type f)) OR
           push_bit 5 (ucast (header_format f)) OR push_bit 8 (ucast (short_network_id f)) OR
           push_bit 16 (ucast (transmitter_id_hi f)) OR push_bit 24 (ucast (transmitter_id_lo f))) @
     le32 (ucast (df_mcs f) OR push_bit 3 (ucast (reserved f)) OR
           push_bit 4 (ucast (transmit_power f)) OR push_bit 8 (ucast (pad f)))"

record link_inst =
  li_initialized :: bool
  li_op_failed :: bool
  li_op_cancelled :: bool
  li_op_return_code :: int
  li_valid_rx_data :: bool
  li_rx_frame :: "u8 list"
  li_rx_frame_size_bytes :: nat
  li_rx_callback :: "fn_ptr option"

record 'k link_machine = "'k dev_machine" +
  ll :: link_inst

text \<open>\<open>prv_inst\<close> at boot: zero-initialised static memory.\<close>

definition link_inst_init :: link_inst where
  "link_inst_init = \<lparr>li_initialized = False, li_op_failed = False, li_op_cancelled = False,
     li_op_return_code = 0, li_valid_rx_data = False,
     li_rx_frame = replicate sizeof_link_frame 0, li_rx_frame_size_bytes = 0,
     li_rx_callback = None\<rparr>"

definition prv_dect_config_params :: phy_config_params where
  "prv_dect_config_params =
     \<lparr>cfg_band_group_index = (if CONFIG_CARRIER \<ge> 525 \<and> CONFIG_CARRIER \<le> 551 then 1 else 0),
      cfg_harq_rx_process_count = 4, cfg_harq_rx_expiry_time_us = 5000000\<rparr>"

section \<open>Event handlers\<close>

datatype phy_event =
    NRF_MODEM_DECT_PHY_EVT_INIT int
  | NRF_MODEM_DECT_PHY_EVT_CONFIGURE int
  | NRF_MODEM_DECT_PHY_EVT_COMPLETED int
  | NRF_MODEM_DECT_PHY_EVT_PDC nat "u8 list"
  | NRF_MODEM_DECT_PHY_EVT_ACTIVATE int
  | NRF_MODEM_DECT_PHY_EVT_OTHER

definition give_op_sem ::
  "'k zephyr \<Rightarrow> ('k, 'a) link_machine_scheme \<Rightarrow> ('k, 'a) link_machine_scheme" where
  "give_op_sem Z s = s\<lparr>kern := k_sem_give Z LinkOpSem (kern s)\<rparr>"

definition prv_on_phy_init_event ::
  "'k zephyr \<Rightarrow> int \<Rightarrow> ('k, 'a) link_machine_scheme \<Rightarrow> ('k, 'a) link_machine_scheme" where
  "prv_on_phy_init_event Z err s =
     give_op_sem Z (if err \<noteq> 0
       then s\<lparr>ll := (ll s)\<lparr>li_op_failed := True, li_op_return_code := err\<rparr>\<rparr> else s)"

definition prv_on_phy_config_event ::
  "'k zephyr \<Rightarrow> int \<Rightarrow> ('k, 'a) link_machine_scheme \<Rightarrow> ('k, 'a) link_machine_scheme" where
  "prv_on_phy_config_event Z err s =
     give_op_sem Z (if err \<noteq> 0
       then s\<lparr>ll := (ll s)\<lparr>li_op_failed := True, li_op_return_code := err\<rparr>\<rparr> else s)"

definition prv_on_phy_op_completed ::
  "'k zephyr \<Rightarrow> int \<Rightarrow> ('k, 'a) link_machine_scheme \<Rightarrow> ('k, 'a) link_machine_scheme" where
  "prv_on_phy_op_completed Z err s =
     give_op_sem Z (if err \<noteq> 0
       then s\<lparr>ll := (ll s)\<lparr>li_op_failed := True, li_op_return_code := err\<rparr>\<rparr> else s)"

definition prv_on_phy_activated ::
  "'k zephyr \<Rightarrow> int \<Rightarrow> ('k, 'a) link_machine_scheme \<Rightarrow> ('k, 'a) link_machine_scheme" where
  "prv_on_phy_activated Z err s =
     give_op_sem Z (if err \<noteq> 0
       then s\<lparr>ll := (ll s)\<lparr>li_op_failed := True, li_op_return_code := err\<rparr>\<rparr> else s)"

definition prv_on_phy_pdc_event ::
  "'k zephyr \<Rightarrow> nat \<Rightarrow> u8 list \<Rightarrow> ('k, 'a) link_machine_scheme \<Rightarrow>
   ('k, 'a) link_machine_scheme option" where
  "prv_on_phy_pdc_event Z len data s =
     (if len < DECT_LINK_LAYER_HEADER_SIZE_BYTES \<or> len > sizeof_link_frame then Some s
      else do {
        header \<leftarrow> get_link_header data;
        if ll_magic header \<noteq> DECT_LINK_LAYER_HEADER_MAGIC then Some s
        else
          let (me, s1) = device_id Z s
          in if ll_dst_id header \<noteq> me then Some s1
             else do {
               bytes \<leftarrow> mem_read data len;
               Some (s1\<lparr>ll := (ll s1)\<lparr>li_rx_frame := overwrite bytes (li_rx_frame (ll s1)),
                           li_rx_frame_size_bytes := len, li_valid_rx_data := True\<rparr>\<rparr>) } })"

fun prv_dect_phy_event_handler ::
  "'k zephyr \<Rightarrow> phy_event \<Rightarrow> ('k, 'a) link_machine_scheme \<Rightarrow>
   ('k, 'a) link_machine_scheme option" where
  "prv_dect_phy_event_handler Z (NRF_MODEM_DECT_PHY_EVT_INIT err) s =
     Some (prv_on_phy_init_event Z err s)"
| "prv_dect_phy_event_handler Z (NRF_MODEM_DECT_PHY_EVT_CONFIGURE err) s =
     Some (prv_on_phy_config_event Z err s)"
| "prv_dect_phy_event_handler Z (NRF_MODEM_DECT_PHY_EVT_COMPLETED err) s =
     Some (prv_on_phy_op_completed Z err s)"
| "prv_dect_phy_event_handler Z (NRF_MODEM_DECT_PHY_EVT_PDC len data) s =
     prv_on_phy_pdc_event Z len data s"
| "prv_dect_phy_event_handler Z (NRF_MODEM_DECT_PHY_EVT_ACTIVATE err) s =
     Some (prv_on_phy_activated Z err s)"
| "prv_dect_phy_event_handler Z NRF_MODEM_DECT_PHY_EVT_OTHER s = Some s"

section \<open>Operations of the radio\<close>

text \<open>\<open>k_sem_take(&op_sem, K_FOREVER)\<close>: events are handled until the semaphore can be taken.\<close>

fun await_op_sem ::
  "'k zephyr \<Rightarrow> phy_event list \<Rightarrow> ('k, 'a) link_machine_scheme \<Rightarrow>
   (phy_event list \<times> ('k, 'a) link_machine_scheme) option" where
  "await_op_sem Z [] s =
     (if 0 < kv_sem (kview Z (kern s)) LinkOpSem
      then Some ([], s\<lparr>kern := snd (k_sem_take Z LinkOpSem K_FOREVER (kern s))\<rparr>) else None)"
| "await_op_sem Z (e # es) s =
     (if 0 < kv_sem (kview Z (kern s)) LinkOpSem
      then Some (e # es, s\<lparr>kern := snd (k_sem_take Z LinkOpSem K_FOREVER (kern s))\<rparr>)
      else do { s' \<leftarrow> prv_dect_phy_event_handler Z e s; await_op_sem Z es s' })"

definition clear_op_flags ::
  "('k, 'a) link_machine_scheme \<Rightarrow> ('k, 'a) link_machine_scheme" where
  "clear_op_flags s = s\<lparr>ll := (ll s)\<lparr>li_op_return_code := 0, li_op_cancelled := False,
     li_op_failed := False\<rparr>\<rparr>"

text \<open>The tail every operation shares: give up on a refused call, else wait and read the flags.\<close>

definition finish_op ::
  "'k zephyr \<Rightarrow> phy_event list \<Rightarrow> int \<times> 'k \<Rightarrow> ('k, 'a) link_machine_scheme \<Rightarrow>
   (int \<times> phy_event list \<times> ('k, 'a) link_machine_scheme) option" where
  "finish_op Z evs call s =
     (if fst call \<noteq> 0 then Some (fst call, evs, s\<lparr>kern := snd call\<rparr>)
      else do {
        (evs', s') \<leftarrow> await_op_sem Z evs (s\<lparr>kern := snd call\<rparr>);
        Some (if li_op_cancelled (ll s') then - ECANCELED
              else if li_op_failed (ll s') then li_op_return_code (ll s') else 0, evs', s') })"

definition prv_init_phy ::
  "'k zephyr \<Rightarrow> phy_event list \<Rightarrow> ('k, 'a) link_machine_scheme \<Rightarrow>
   (int \<times> phy_event list \<times> ('k, 'a) link_machine_scheme) option" where
  "prv_init_phy Z evs s =
     (let s1 = clear_op_flags s in finish_op Z evs (nrf_modem_dect_phy_init Z (kern s1)) s1)"

definition prv_config_phy ::
  "'k zephyr \<Rightarrow> phy_event list \<Rightarrow> ('k, 'a) link_machine_scheme \<Rightarrow>
   (int \<times> phy_event list \<times> ('k, 'a) link_machine_scheme) option" where
  "prv_config_phy Z evs s =
     (let s1 = clear_op_flags s
      in finish_op Z evs
           (nrf_modem_dect_phy_configure Z prv_dect_config_params (kern s1)) s1)"

definition prv_phy_activate ::
  "'k zephyr \<Rightarrow> phy_event list \<Rightarrow> ('k, 'a) link_machine_scheme \<Rightarrow>
   (int \<times> phy_event list \<times> ('k, 'a) link_machine_scheme) option" where
  "prv_phy_activate Z evs s =
     (let s1 = clear_op_flags s in finish_op Z evs (nrf_modem_dect_phy_activate Z (kern s1)) s1)"

definition rx_op_params :: phy_rx_params where
  "rx_op_params = \<lparr>rx_start_time = 0, rx_handle = 1, rx_network_id = CONFIG_NETWORK_ID,
     rx_rssi_level = - 60, rx_carrier = CONFIG_CARRIER,
     rx_duration_ms = DECT_LINK_LAYER_RX_WINDOW_MS,
     rx_short_network_id = ucast (CONFIG_NETWORK_ID AND 0xFF),
     rx_is_short_network_id_used = True, rx_receiver_identity = 0\<rparr>"

definition prv_dect_receive ::
  "'k zephyr \<Rightarrow> phy_event list \<Rightarrow> ('k, 'a) link_machine_scheme \<Rightarrow>
   (int \<times> phy_event list \<times> ('k, 'a) link_machine_scheme) option" where
  "prv_dect_receive Z evs s =
     (let s0 = clear_op_flags s;
          s1 = s0\<lparr>ll := (ll s0)\<lparr>li_valid_rx_data := False\<rparr>\<rparr>
      in finish_op Z evs (nrf_modem_dect_phy_rx Z rx_op_params (kern s1)) s1)"

definition tx_phy_ctrl :: "u32 \<Rightarrow> u32 \<Rightarrow> phy_ctrl_field_common" where
  "tx_phy_ctrl id_hi id_lo = \<lparr>packet_length = 1, packet_length_type = 0, header_format = 0,
     short_network_id = ucast (CONFIG_NETWORK_ID AND 0xFF),
     transmitter_id_hi = ucast (drop_bit 8 id_hi), transmitter_id_lo = ucast (id_lo AND 0xFF),
     df_mcs = of_nat CONFIG_MCS, reserved = 0, transmit_power = of_nat CONFIG_TX_POWER, pad = 0\<rparr>"

definition prv_link_layer_write_frame ::
  "'k zephyr \<Rightarrow> phy_event list \<Rightarrow> dect_link_layer_frame_t \<Rightarrow> ('k, 'a) link_machine_scheme \<Rightarrow>
   (int \<times> phy_event list \<times> ('k, 'a) link_machine_scheme) option" where
  "prv_link_layer_write_frame Z evs tx_obj s =
     (let (id_hi, s1) = device_id Z s;
          (id_lo, s2) = device_id Z s1;
          params = \<lparr>tx_start_time = 0, tx_handle = 0, tx_network_id = CONFIG_NETWORK_ID,
            tx_phy_type = 0, tx_lbt_rssi_threshold_max = 0, tx_carrier = CONFIG_CARRIER,
            tx_phy_header = put_phy_ctrl_field (tx_phy_ctrl id_hi id_lo),
            tx_data = put_link_frame tx_obj, tx_data_size = sizeof_link_frame\<rparr>
      in finish_op Z evs (nrf_modem_dect_phy_tx Z params (kern s2)) s2)"

section \<open>The thread\<close>

text \<open>
  One turn of the endless loop. \<open>call_rx\<close> is what calling a stored receive callback does; it
  gets the payload array and the length the frame's header claims.
\<close>

definition prv_link_layer_turn ::
  "'k zephyr \<Rightarrow>
   (fn_ptr \<Rightarrow> u32 \<Rightarrow> u8 list \<Rightarrow> nat \<Rightarrow> ('k, 'a) link_machine_scheme \<Rightarrow>
      ('k, 'a) link_machine_scheme option) \<Rightarrow>
   phy_event list \<Rightarrow> ('k, 'a) link_machine_scheme \<Rightarrow>
   (phy_event list \<times> ('k, 'a) link_machine_scheme) option" where
  "prv_link_layer_turn Z call_rx evs s =
     (let (got, k) = k_msgq_get Z (kern s); s1 = s\<lparr>kern := k\<rparr>
      in do {
        (evs1, s2) \<leftarrow>
          (if fst got = 0
           then do { tx_obj \<leftarrow> snd got;
                     (ret, evs', s') \<leftarrow> prv_link_layer_write_frame Z evs tx_obj s1;
                     Some (evs', s') }
           else Some (evs, s1));
        (ret, evs2, s3) \<leftarrow> prv_dect_receive Z evs1 s2;
        if li_valid_rx_data (ll s3) = False then Some (evs2, s3)
        else (case li_rx_callback (ll s3) of
                None \<Rightarrow> Some (evs2, s3)
              | Some f \<Rightarrow> do {
                  header \<leftarrow> get_link_header (li_rx_frame (ll s3));
                  s4 \<leftarrow> call_rx f (ll_src_id header)
                          (drop DECT_LINK_LAYER_HEADER_SIZE_BYTES (li_rx_frame (ll s3)))
                          (unat (ll_payload_size header)) s3;
                  Some (evs2, s4) }) })"

text \<open>The loop, for its first \<open>n\<close> turns.\<close>

primrec prv_link_layer_thread ::
  "'k zephyr \<Rightarrow>
   (fn_ptr \<Rightarrow> u32 \<Rightarrow> u8 list \<Rightarrow> nat \<Rightarrow> ('k, 'a) link_machine_scheme \<Rightarrow>
      ('k, 'a) link_machine_scheme option) \<Rightarrow>
   nat \<Rightarrow> phy_event list \<times> ('k, 'a) link_machine_scheme \<Rightarrow>
   (phy_event list \<times> ('k, 'a) link_machine_scheme) option" where
  "prv_link_layer_thread Z call_rx 0 st = Some st"
| "prv_link_layer_thread Z call_rx (Suc n) st =
     do { st' \<leftarrow> prv_link_layer_turn Z call_rx (fst st) (snd st);
          prv_link_layer_thread Z call_rx n st' }"

section \<open>Interface\<close>

definition dect_link_layer_init ::
  "'k zephyr \<Rightarrow> phy_event list \<Rightarrow> ('k, 'a) link_machine_scheme \<Rightarrow>
   (int \<times> phy_event list \<times> ('k, 'a) link_machine_scheme) option" where
  "dect_link_layer_init Z evs s =
     (if li_initialized (ll s) = True then Some (- EALREADY, evs, s)
      else
        let s1 = s\<lparr>kern := k_sem_init Z LinkOpSem 0 1 (k_msgq_init Z (kern s))\<rparr>;
            (ret, k2) = nrf_modem_lib_init Z (kern s1);
            s2 = s1\<lparr>kern := k2\<rparr>
        in if ret \<noteq> 0 then Some (ret, evs, s2)
           else
             let (ret, k3) = nrf_modem_dect_phy_event_handler_set Z (kern s2);
                 s3 = s2\<lparr>kern := k3\<rparr>
             in if ret \<noteq> 0 then Some (ret, evs, s3)
                else do {
                  (ret, evs4, s4) \<leftarrow> prv_init_phy Z evs s3;
                  if ret \<noteq> 0 then Some (ret, evs4, s4)
                  else do {
                    (ret, evs5, s5) \<leftarrow> prv_config_phy Z evs4 s4;
                    if ret \<noteq> 0 then Some (ret, evs5, s5)
                    else do {
                      (ret, evs6, s6) \<leftarrow> prv_phy_activate Z evs5 s5;
                      if ret \<noteq> 0 then Some (ret, evs6, s6)
                      else Some (0, evs6,
                             s6\<lparr>kern := k_thread_create Z Prv_link_layer_thread (kern s6),
                                ll := (ll s6)\<lparr>li_initialized := True\<rparr>\<rparr>) } } })"

text \<open>The frame \<open>dect_link_layer_write\<close> queues: the rest of the payload array is zero.\<close>

definition link_frame_for :: "u32 \<Rightarrow> u32 \<Rightarrow> u8 list \<Rightarrow> nat \<Rightarrow> dect_link_layer_frame_t" where
  "link_frame_for src_id dst_id payload len_bytes =
     \<lparr>lf_header = \<lparr>ll_magic = DECT_LINK_LAYER_HEADER_MAGIC, ll_version = 1, ll_src_id = src_id,
                   ll_dst_id = dst_id, ll_payload_size = of_nat len_bytes\<rparr>,
      lf_payload = overwrite payload (replicate DECT_LINK_LAYER_MAX_PAYLOAD_SIZE_BYTES 0)\<rparr>"

definition dect_link_layer_write ::
  "'k zephyr \<Rightarrow> u32 \<Rightarrow> u8 list option \<Rightarrow> nat \<Rightarrow> ('k, 'a) link_machine_scheme \<Rightarrow>
   (int \<times> ('k, 'a) link_machine_scheme) option" where
  "dect_link_layer_write Z dst_id buf buf_size_bytes s =
     (if li_initialized (ll s) = False then Some (- ENOTCONN, s)
      else (case buf of
              None \<Rightarrow> Some (- EINVAL, s)
            | Some data \<Rightarrow>
                if buf_size_bytes > DECT_LINK_LAYER_MAX_PAYLOAD_SIZE_BYTES then Some (- ENOMEM, s)
                else
                  let (me, s1) = device_id Z s
                  in do {
                    payload \<leftarrow> mem_read data buf_size_bytes;
                    (ret, k) \<leftarrow> k_msgq_put Z (link_frame_for me dst_id payload buf_size_bytes)
                                 (kern s1);
                    Some (ret, s1\<lparr>kern := k\<rparr>) }))"

definition dect_link_layer_register_rx_callback ::
  "fn_ptr option \<Rightarrow> ('k, 'a) link_machine_scheme \<Rightarrow> int \<times> ('k, 'a) link_machine_scheme" where
  "dect_link_layer_register_rx_callback callback s =
     (if li_initialized (ll s) = False then (- ENODEV, s)
      else if callback = None then (- EINVAL, s)
      else (0, s\<lparr>ll := (ll s)\<lparr>li_rx_callback := callback\<rparr>\<rparr>))"

section \<open>Receiving frames\<close>

text \<open>What the link layer keeps of the machine: it touches its own variables and the id cache.\<close>

definition only_link ::
  "('k, 'a) link_machine_scheme \<Rightarrow> ('k, 'a) link_machine_scheme \<Rightarrow> bool" where
  "only_link s s' \<longleftrightarrow> s' = s\<lparr>kern := kern s', dev_fetched := dev_fetched s', dev_id := dev_id s',
     ll := ll s'\<rparr>"

lemma only_link_refl [simp]: "only_link s s"
  by (simp add: only_link_def)

lemma only_link_trans: "only_link s t \<Longrightarrow> only_link t u \<Longrightarrow> only_link s u"
  unfolding only_link_def by (cases s; cases t; cases u) simp

lemma only_dev_link [simp]: "only_dev s s' \<Longrightarrow> only_link s s'"
  unfolding only_dev_def only_link_def by (cases s; cases s') simp

lemma only_link_step [simp]:
  "only_link s t \<Longrightarrow> only_link s (t\<lparr>kern := k\<rparr>)" "only_link s t \<Longrightarrow> only_link s (t\<lparr>ll := i\<rparr>)"
  unfolding only_link_def by (cases s; cases t; simp)+

lemma only_dev_ll: "only_dev s s' \<Longrightarrow> ll s' = ll s"
  unfolding only_dev_def by (cases s; cases s') simp

text \<open>The frames the physical layer handler keeps.\<close>

definition link_accepts :: "u32 \<Rightarrow> u8 list \<Rightarrow> bool" where
  "link_accepts me data \<longleftrightarrow> length data \<le> sizeof_link_frame \<and>
     (case get_link_header data of None \<Rightarrow> False
      | Some h \<Rightarrow> ll_magic h = DECT_LINK_LAYER_HEADER_MAGIC \<and> ll_dst_id h = me)"

definition kept_frame :: "u8 list \<Rightarrow> link_inst \<Rightarrow> link_inst" where
  "kept_frame data i = i\<lparr>li_rx_frame := overwrite data (li_rx_frame i),
     li_rx_frame_size_bytes := length data, li_valid_rx_data := True\<rparr>"

lemma pdc_event_spec:
  assumes "hwinfo_laws Z" and id: "device_id Z s = (me, s0)"
  obtains s' where "prv_on_phy_pdc_event Z (length data) data s = Some s'"
    and "ll s' = (if link_accepts me data then kept_frame data (ll s) else ll s)"
    and "only_link s s'" and "kview Z (kern s') = kview Z (kern s)"
    and "ktime Z (kern s) \<le> ktime Z (kern s')" and "fst (device_id Z s') = me"
    and "dev_fetched s \<Longrightarrow> dev_fetched s' \<and> dev_id s' = me"
proof -
  note d = device_id_spec[OF id] and again = device_id_again[OF id]
  have cached: "dev_id s = me" "s0 = s" if "dev_fetched s" using id that by auto
  consider (size) "length data < 15 \<or> 37 < length data"
    | (frame) h where "15 \<le> length data" "length data \<le> 37" "get_link_header data = Some h"
    by (metis get_link_header_None not_le option.exhaust)
  then show ?thesis
  proof cases
    case size
    then have "\<not> link_accepts me data"
      by (auto simp: link_accepts_def split: option.splits) (metis get_link_header_None option.distinct(1))
    with size show ?thesis
      by (intro that[of s]) (auto simp: prv_on_phy_pdc_event_def id cached)
  next
    case frame
    let ?s = "if ll_magic h \<noteq> DECT_LINK_LAYER_HEADER_MAGIC then s else
       if ll_dst_id h \<noteq> me then s0 else s0\<lparr>ll := kept_frame data (ll s0)\<rparr>"
    have "prv_on_phy_pdc_event Z (length data) data s = Some ?s"
      using frame by (simp add: prv_on_phy_pdc_event_def id kept_frame_def)
    moreover have "only_link s (s0\<lparr>ll := kept_frame data (ll s0)\<rparr>)"
      by (rule only_link_trans[OF only_dev_link[OF d(3)]]) simp
    moreover have "fst (device_id Z (s0\<lparr>ll := kept_frame data (ll s0)\<rparr>)) = me"
      using d(1,2) by simp
    moreover have keep: "dev_fetched ?s \<and> dev_id ?s = me" if "dev_fetched s"
      using d(1,2) cached(1)[OF that] that by simp
    ultimately show ?thesis
      using frame d assms(1) again id
      by (intro that[of ?s, OF _ _ _ _ _ _ keep]) (auto simp: link_accepts_def only_dev_ll)
  qed
qed

section \<open>Operations of the radio\<close>

text \<open>An operation the modem accepts and completes with \<open>err\<close> returns \<open>err\<close>.\<close>

definition op_idle :: "'k zephyr \<Rightarrow> ('k, 'a) link_machine_scheme \<Rightarrow> bool" where
  "op_idle Z s \<longleftrightarrow> kv_sem (kview Z (kern s)) LinkOpSem = 0"

definition op_finished :: "int \<Rightarrow> link_inst \<Rightarrow> link_inst" where
  "op_finished err i = (if err \<noteq> 0 then i\<lparr>li_op_failed := True, li_op_return_code := err\<rparr> else i)"

definition completion :: "phy_event \<Rightarrow> int option" where
  "completion e = (case e of NRF_MODEM_DECT_PHY_EVT_INIT err \<Rightarrow> Some err
     | NRF_MODEM_DECT_PHY_EVT_CONFIGURE err \<Rightarrow> Some err
     | NRF_MODEM_DECT_PHY_EVT_COMPLETED err \<Rightarrow> Some err
     | NRF_MODEM_DECT_PHY_EVT_ACTIVATE err \<Rightarrow> Some err
     | _ \<Rightarrow> None)"

lemma completion_handler:
  assumes "completion e = Some err"
  shows "prv_dect_phy_event_handler Z e s =
     Some (give_op_sem Z (s\<lparr>ll := op_finished err (ll s)\<rparr>))"
  using assms
  by (cases e) (auto simp: completion_def op_finished_def prv_on_phy_init_event_def
      prv_on_phy_config_event_def prv_on_phy_op_completed_def prv_on_phy_activated_def)

lemma await_completion:
  assumes laws: "sem_laws Z" and idle: "op_idle Z s" and e: "completion e = Some err"
  obtains k where "await_op_sem Z (e # es) s = Some (es, s\<lparr>kern := k, ll := op_finished err (ll s)\<rparr>)"
    and "kview Z k = kview Z (kern s)" and "ktime Z (kern s) \<le> ktime Z k"
proof -
  let ?k1 = "k_sem_give Z LinkOpSem (kern s)"
  let ?k2 = "snd (k_sem_take Z LinkOpSem K_FOREVER ?k1)"
  have give: "kview Z ?k1 = (kview Z (kern s))\<lparr>kv_sem := (kv_sem (kview Z (kern s)))(LinkOpSem := 1)\<rparr>"
    by (rule sem_view(3)[OF laws])
  have pos: "0 < kv_sem (kview Z ?k1) LinkOpSem" using give by simp
  have take: "kview Z ?k2 = (kview Z ?k1)\<lparr>kv_sem :=
      (kv_sem (kview Z ?k1))(LinkOpSem := kv_sem (kview Z ?k1) LinkOpSem - 1)\<rparr>"
    by (rule sem_take_available(2)[OF laws _ pos]) (rule prod.collapse[symmetric])
  have "kview Z ?k2 = kview Z (kern s)"
    using take give idle by (simp add: op_idle_def fun_upd_idem)
  moreover have "ktime Z (kern s) \<le> ktime Z ?k2"
    using sem_view(4)[OF laws, of "kern s" LinkOpSem] sem_take_time[OF laws, of ?k1 LinkOpSem K_FOREVER] by simp
  moreover have "await_op_sem Z (e # es) s = Some (es, s\<lparr>kern := ?k2, ll := op_finished err (ll s)\<rparr>)"
    using idle pos
    by (cases es) (simp_all add: op_idle_def completion_handler[OF e] give_op_sem_def)
  ultimately show ?thesis using that by blast
qed

lemma await_pdc:
  assumes "op_idle Z s" and "prv_on_phy_pdc_event Z len data s = Some s'"
  shows "await_op_sem Z (NRF_MODEM_DECT_PHY_EVT_PDC len data # es) s = await_op_sem Z es s'"
  using assms by (simp add: op_idle_def)

lemma op_finished_simps [simp]:
  "li_op_return_code (op_finished err i) = (if err \<noteq> 0 then err else li_op_return_code i)"
  "li_rx_callback (op_finished err i) = li_rx_callback i"
  "li_initialized (op_finished err i) = li_initialized i"
  "li_valid_rx_data (op_finished err i) = li_valid_rx_data i"
  "li_rx_frame (op_finished err i) = li_rx_frame i"
  "li_op_failed (op_finished err i) = (err \<noteq> 0 \<or> li_op_failed i)"
  "li_op_cancelled (op_finished err i) = li_op_cancelled i"
  by (simp_all add: op_finished_def)

definition op_status :: "link_inst \<Rightarrow> int" where
  "op_status i = (if li_op_cancelled i then - ECANCELED
     else if li_op_failed i then li_op_return_code i else 0)"

lemma finish_op_awaited:
  assumes "await_op_sem Z evs (s\<lparr>kern := k\<rparr>) = Some (evs', s')"
  shows "finish_op Z evs (0, k) s = Some (op_status (ll s'), evs', s')"
  using assms by (simp add: finish_op_def op_status_def)

lemma finish_op_completed:
  assumes laws: "sem_laws Z" and idle: "kv_sem (kview Z k) LinkOpSem = 0"
    and e: "completion e = Some err"
    and flags: "\<not> li_op_cancelled (ll s)" "\<not> li_op_failed (ll s)"
  obtains k' where "finish_op Z (e # es) (0, k) s =
      Some (err, es, s\<lparr>kern := k', ll := op_finished err (ll s)\<rparr>)"
    and "kview Z k' = kview Z k" and "ktime Z k \<le> ktime Z k'"
proof -
  have "op_idle Z (s\<lparr>kern := k\<rparr>)" using idle by (simp add: op_idle_def)
  from await_completion[OF laws this e, of es] obtain k' where
    "await_op_sem Z (e # es) (s\<lparr>kern := k\<rparr>) = Some (es, s\<lparr>kern := k', ll := op_finished err (ll s)\<rparr>)"
    and k': "kview Z k' = kview Z k" "ktime Z k \<le> ktime Z k'" by auto
  note r = finish_op_awaited[OF this(1)]
  show ?thesis
    by (rule that[of k']) (use r flags k' in \<open>simp_all add: op_status_def\<close>)
qed

lemma finish_op_refused: "ret \<noteq> 0 \<Longrightarrow> finish_op Z evs (ret, k) s = Some (ret, evs, s\<lparr>kern := k\<rparr>)"
  by (simp add: finish_op_def)

definition cleared :: "link_inst \<Rightarrow> link_inst" where
  "cleared i = i\<lparr>li_op_return_code := 0, li_op_cancelled := False, li_op_failed := False\<rparr>"

lemma clear_op_flags_alt: "clear_op_flags s = s\<lparr>ll := cleared (ll s)\<rparr>"
  by (simp add: clear_op_flags_def cleared_def)

lemma cleared_simps [simp]:
  "\<not> li_op_cancelled (cleared i)" "\<not> li_op_failed (cleared i)" "li_op_return_code (cleared i) = 0"
  "li_rx_callback (cleared i) = li_rx_callback i" "li_initialized (cleared i) = li_initialized i"
  "li_valid_rx_data (cleared i) = li_valid_rx_data i" "li_rx_frame (cleared i) = li_rx_frame i"
  by (simp_all add: cleared_def)

lemma kept_frame_simps [simp]:
  "li_op_return_code (kept_frame d i) = li_op_return_code i"
  "li_rx_callback (kept_frame d i) = li_rx_callback i" "li_valid_rx_data (kept_frame d i)"
  "li_initialized (kept_frame d i) = li_initialized i"
  "li_rx_frame (kept_frame d i) = overwrite d (li_rx_frame i)"
  "li_op_failed (kept_frame d i) = li_op_failed i"
  "li_op_cancelled (kept_frame d i) = li_op_cancelled i"
  by (simp_all add: kept_frame_def)

section \<open>A turn of the thread\<close>

text \<open>
  What the modem reports of a receive window: the frame it heard, if any, and the completion.
\<close>

definition window_events :: "u8 list option \<Rightarrow> int \<Rightarrow> phy_event list" where
  "window_events heard err =
     (case heard of None \<Rightarrow> [] | Some data \<Rightarrow> [NRF_MODEM_DECT_PHY_EVT_PDC (length data) data]) @
     [NRF_MODEM_DECT_PHY_EVT_COMPLETED err]"

definition window_kept :: "u32 \<Rightarrow> u8 list option \<Rightarrow> bool" where
  "window_kept me heard \<longleftrightarrow> (case heard of None \<Rightarrow> False | Some data \<Rightarrow> link_accepts me data)"

text \<open>
  Reception ends with the frame kept exactly if it is acceptable; the flag the thread tests says so.
\<close>

lemma window_awaited:
  assumes laws: "sem_laws Z" "hwinfo_laws Z" and idle: "op_idle Z s" and fetched: "dev_fetched s"
  obtains t k where "await_op_sem Z (window_events heard err @ es) s =
       Some (es, t\<lparr>kern := k, ll := op_finished err (ll t)\<rparr>)"
    and "ll t = (if window_kept (dev_id s) heard then kept_frame (the heard) (ll s) else ll s)"
    and "only_link s t" and "kview Z k = kview Z (kern s)" and "ktime Z (kern s) \<le> ktime Z k"
    and "dev_fetched t" and "dev_id t = dev_id s"
proof -
  have c: "completion (NRF_MODEM_DECT_PHY_EVT_COMPLETED err) = Some err" by (simp add: completion_def)
  show thesis
  proof (cases heard)
    case None
    obtain k where "await_op_sem Z (NRF_MODEM_DECT_PHY_EVT_COMPLETED err # es) s =
        Some (es, s\<lparr>kern := k, ll := op_finished err (ll s)\<rparr>)" "kview Z k = kview Z (kern s)"
      "ktime Z (kern s) \<le> ktime Z k" by (rule await_completion[OF laws(1) idle c])
    then show ?thesis
      by (intro that[of s k]) (simp_all add: None window_events_def window_kept_def fetched del: await_op_sem.simps)
  next
    case (Some data)
    have "device_id Z s = (dev_id s, s)" using fetched by simp
    then obtain t where t: "prv_on_phy_pdc_event Z (length data) data s = Some t"
      "ll t = (if link_accepts (dev_id s) data then kept_frame data (ll s) else ll s)"
      "only_link s t" "kview Z (kern t) = kview Z (kern s)" "ktime Z (kern s) \<le> ktime Z (kern t)"
      "dev_fetched s \<Longrightarrow> dev_fetched t \<and> dev_id t = dev_id s"
      by (rule pdc_event_spec[OF laws(2)]) blast
    then have "op_idle Z t" using idle by (simp add: op_idle_def)
    then obtain k where k: "await_op_sem Z (NRF_MODEM_DECT_PHY_EVT_COMPLETED err # es) t =
        Some (es, t\<lparr>kern := k, ll := op_finished err (ll t)\<rparr>)" "kview Z k = kview Z (kern t)"
      "ktime Z (kern t) \<le> ktime Z k" by (rule await_completion[OF laws(1) _ c])
    show ?thesis
      by (rule that[of t k])
        (use t k fetched await_pdc[OF idle t(1), of "NRF_MODEM_DECT_PHY_EVT_COMPLETED err # es"] in
          \<open>simp_all add: Some window_events_def window_kept_def del: await_op_sem.simps\<close>)
  qed
qed

lemma receive_window:
  assumes laws: "sem_laws Z" "hwinfo_laws Z" "phy_laws Z"
    and idle: "op_idle Z s" and fetched: "dev_fetched s"
    and started: "\<And>k. fst (nrf_modem_dect_phy_rx Z rx_op_params k) = 0"
  obtains s' where "prv_dect_receive Z (window_events heard err @ es) s = Some (err, es, s')"
    and "li_valid_rx_data (ll s') = window_kept (dev_id s) heard"
    and "li_rx_frame (ll s') =
           (if window_kept (dev_id s) heard then overwrite (the heard) (li_rx_frame (ll s)) else li_rx_frame (ll s))"
    and "li_rx_callback (ll s') = li_rx_callback (ll s)"
    and "li_initialized (ll s') = li_initialized (ll s)"
    and "only_link s s'" and "kview Z (kern s') = kview Z (kern s)"
    and "ktime Z (kern s) \<le> ktime Z (kern s')" and "dev_fetched s'" and "dev_id s' = dev_id s"
proof -
  let ?i = "(cleared (ll s))\<lparr>li_valid_rx_data := False\<rparr>"
  obtain k where call: "nrf_modem_dect_phy_rx Z rx_op_params (kern s) = (0, k)"
    using started[of "kern s"] by (cases "nrf_modem_dect_phy_rx Z rx_op_params (kern s)") auto
  let ?s1 = "s\<lparr>ll := ?i\<rparr>" and ?s2 = "s\<lparr>ll := ?i, kern := k\<rparr>"
  have view: "kview Z k = kview Z (kern s)" "ktime Z (kern s) \<le> ktime Z k"
    using phy_view(6,8)[OF laws(3), where rxp = rx_op_params and k = "kern s"] call by simp_all
  have idle2: "op_idle Z ?s2" and fetched2: "dev_fetched ?s2"
    using idle fetched view by (simp_all add: op_idle_def)
  obtain t k' where t: "await_op_sem Z (window_events heard err @ es) ?s2 =
       Some (es, t\<lparr>kern := k', ll := op_finished err (ll t)\<rparr>)"
    "ll t = (if window_kept (dev_id s) heard then kept_frame (the heard) (ll ?s2) else ll ?s2)"
    "only_link ?s2 t" "kview Z k' = kview Z (kern s)" "ktime Z k \<le> ktime Z k'"
    "dev_fetched t" "dev_id t = dev_id s"
    by (rule window_awaited[OF laws(1,2) idle2 fetched2, of heard err es]) (use view in auto)
  let ?s' = "t\<lparr>kern := k', ll := op_finished err (ll t)\<rparr>"
  have st: "op_status (ll ?s') = err" using t(2) by (simp add: op_status_def)
  have "prv_dect_receive Z (window_events heard err @ es) s = finish_op Z (window_events heard err @ es) (0, k) ?s1"
    by (simp add: prv_dect_receive_def clear_op_flags_alt call)
  also have "\<dots> = Some (err, es, ?s')"
    using finish_op_awaited[where s = ?s1 and k = k and evs = "window_events heard err @ es"] t(1) st by simp
  finally have run: "prv_dect_receive Z (window_events heard err @ es) s = Some (err, es, ?s')" .
  have only: "only_link s ?s'"
    by (rule only_link_trans[OF _ only_link_trans[OF t(3)]]) simp_all
  show ?thesis
    by (rule that[OF run]) (use t(2,4-7) view only in auto)
qed

text \<open>A turn with nothing to send, in which an acceptable frame is heard.\<close>

lemma turn_delivers:
  assumes laws: "sem_laws Z" "hwinfo_laws Z" "phy_laws Z" "msgq_laws Z depth"
    and idle: "op_idle Z s" and fetched: "dev_fetched s"
    and started: "\<And>k. fst (nrf_modem_dect_phy_rx Z rx_op_params k) = 0"
    and empty: "kv_txq (kview Z (kern s)) = []" and cb: "li_rx_callback (ll s) = Some f"
    and acc: "link_accepts (dev_id s) data" and h: "get_link_header data = Some h"
  obtains s3 where
    "prv_link_layer_turn Z call_rx (NRF_MODEM_DECT_PHY_EVT_PDC (length data) data #
       NRF_MODEM_DECT_PHY_EVT_COMPLETED err # es) s =
     do { s4 \<leftarrow> call_rx f (ll_src_id h) (drop 15 (overwrite data (li_rx_frame (ll s))))
                   (unat (ll_payload_size h)) s3;
          Some (es, s4) }"
    and "only_link s s3" and "kview Z (kern s3) = kview Z (kern s)"
    and "li_rx_callback (ll s3) = Some f" and "li_initialized (ll s3) = li_initialized (ll s)"
proof -
  obtain r k where get: "k_msgq_get Z (kern s) = (r, k)" by fastforce
  have g: "fst r \<noteq> 0" "kview Z k = kview Z (kern s)"
    using msgq_get_view(1)[OF laws(4) get empty] by simp_all
  let ?s1 = "s\<lparr>kern := k\<rparr>"
  have idle1: "op_idle Z ?s1" and fetched1: "dev_fetched ?s1"
    using idle fetched g(2) by (simp_all add: op_idle_def)
  obtain s3 where s3: "prv_dect_receive Z (NRF_MODEM_DECT_PHY_EVT_PDC (length data) data #
       NRF_MODEM_DECT_PHY_EVT_COMPLETED err # es) ?s1 = Some (err, es, s3)"
    "li_valid_rx_data (ll s3)" "li_rx_frame (ll s3) = overwrite data (li_rx_frame (ll s))"
    "li_rx_callback (ll s3) = Some f" "li_initialized (ll s3) = li_initialized (ll s)"
    "only_link ?s1 s3" "kview Z (kern s3) = kview Z (kern s)"
    by (rule receive_window[OF laws(1-3) idle1 fetched1 started, of "Some data" err es])
      (use acc cb g(2) in \<open>simp_all add: window_events_def window_kept_def\<close>)
  have "15 \<le> length data" using h get_link_header_None[of data] by (cases "length data < 15") auto
  then have hdr: "get_link_header (overwrite data (li_rx_frame (ll s))) = Some h"
    using h unfolding overwrite_def
    by (metis append.assoc get_put_link_header put_get_link_header)
  show ?thesis
  proof (rule that)
    show "prv_link_layer_turn Z call_rx (NRF_MODEM_DECT_PHY_EVT_PDC (length data) data #
       NRF_MODEM_DECT_PHY_EVT_COMPLETED err # es) s =
     do { s4 \<leftarrow> call_rx f (ll_src_id h) (drop 15 (overwrite data (li_rx_frame (ll s))))
                   (unat (ll_payload_size h)) s3;
          Some (es, s4) }"
      using s3(1-4) g(1) hdr by (simp add: prv_link_layer_turn_def get)
    show "only_link s s3" by (rule only_link_trans[OF _ s3(6)]) simp
  qed (use s3 in simp_all)
qed

section \<open>Writing\<close>

lemma lf_link_frame_for [simp]:
  "lf_header (link_frame_for src dst payload n) =
     \<lparr>ll_magic = DECT_LINK_LAYER_HEADER_MAGIC, ll_version = 1, ll_src_id = src, ll_dst_id = dst,
      ll_payload_size = of_nat n\<rparr>"
  "length payload \<le> 22 \<Longrightarrow> length (lf_payload (link_frame_for src dst payload n)) = 22"
  "take (length payload) (lf_payload (link_frame_for src dst payload n)) = payload"
  by (simp_all add: link_frame_for_def)

lemma length_put_link_frame_for [simp]:
  "length payload \<le> 22 \<Longrightarrow> length (put_link_frame (link_frame_for src dst payload n)) = 37"
  by (simp add: put_link_frame_def)

lemma link_accepts_frame_for:
  "length payload \<le> 22 \<Longrightarrow>
   link_accepts me (put_link_frame (link_frame_for src dst payload n)) \<longleftrightarrow> dst = me"
  by (simp add: link_accepts_def put_link_frame_def wire)

lemma link_write_spec:
  assumes laws: "hwinfo_laws Z" "msgq_laws Z depth"
    and init: "li_initialized (ll s)" and len: "n \<le> 22" "n \<le> length data"
    and room: "length (kv_txq (kview Z (kern s))) < depth"
  obtains me s' where "dect_link_layer_write Z dst (Some data) n s = Some (0, s')"
    and "me = dev_id s'" and "dev_fetched s \<Longrightarrow> me = dev_id s"
    and "only_dev s s'" and "dev_fetched s'"
    and "kview Z (kern s') = (kview Z (kern s))\<lparr>kv_txq :=
           kv_txq (kview Z (kern s)) @ [link_frame_for me dst (take n data) n],
           kv_put := kv_put (kview Z (kern s)) @ [link_frame_for me dst (take n data) n]\<rparr>"
    and "ktime Z (kern s) \<le> ktime Z (kern s')"
proof -
  obtain me s1 where id: "device_id Z s = (me, s1)" by fastforce
  note d = device_id_spec[OF id]
  have "length (kv_txq (kview Z (kern s1))) < depth" using room d(4)[OF laws(1)] by simp
  then obtain k where k: "k_msgq_put Z (link_frame_for me dst (take n data) n) (kern s1) = Some (0, k)"
    "kview Z k = (kview Z (kern s1))\<lparr>kv_txq := kv_txq (kview Z (kern s1)) @
       [link_frame_for me dst (take n data) n], kv_put := kv_put (kview Z (kern s1)) @
       [link_frame_for me dst (take n data) n]\<rparr>" "ktime Z (kern s1) \<le> ktime Z k"
    by (rule msgq_put_room[OF laws(2)])
  show ?thesis
  proof (rule that)
    show "dect_link_layer_write Z dst (Some data) n s = Some (0, s1\<lparr>kern := k\<rparr>)"
      using init len id k(1) by (simp add: dect_link_layer_write_def)
    show "only_dev s (s1\<lparr>kern := k\<rparr>)"
      using d(3) unfolding only_dev_def by (cases s; cases s1) simp
    show "me = dev_id s" if "dev_fetched s" using id that by auto
  qed (use d laws k in auto)
qed

section \<open>Initialisation\<close>

lemma handler_keeps_initialized:
  assumes "prv_dect_phy_event_handler Z e s = Some s'"
  shows "li_initialized (ll s') = li_initialized (ll s)"
    and "li_rx_callback (ll s') = li_rx_callback (ll s)"
  using assms
  by (cases e; auto simp: give_op_sem_def prv_on_phy_init_event_def prv_on_phy_config_event_def
      prv_on_phy_op_completed_def prv_on_phy_activated_def prv_on_phy_pdc_event_def bind_Some_iff
      dest!: device_id_spec(3) only_dev_ll split: if_splits prod.splits)+

lemma await_keeps_initialized:
  assumes "await_op_sem Z evs s = Some (evs', s')"
  shows "li_initialized (ll s') = li_initialized (ll s) \<and>
     li_rx_callback (ll s') = li_rx_callback (ll s)"
  using assms
proof (induction evs arbitrary: s)
  case Nil
  then show ?case by (auto split: if_splits)
next
  case (Cons e es)
  show ?case
  proof (cases "0 < kv_sem (kview Z (kern s)) LinkOpSem")
    case False
    with Cons.prems obtain s1 where "prv_dect_phy_event_handler Z e s = Some s1"
      and "await_op_sem Z es s1 = Some (evs', s')" by (auto simp: bind_Some_iff)
    with Cons.IH[of s1] handler_keeps_initialized[of Z e s s1] show ?thesis by simp
  qed (use Cons.prems in auto)
qed

lemma finish_op_keeps_initialized:
  assumes "finish_op Z evs call s = Some (r, evs', s')"
  shows "li_initialized (ll s') = li_initialized (ll s)"
  using assms by (auto simp: finish_op_def bind_Some_iff dest!: await_keeps_initialized split: if_splits)


lemma op_keeps_initialized:
  "prv_init_phy Z evs s = Some (r, evs', s') \<Longrightarrow> li_initialized (ll s') = li_initialized (ll s)"
  "prv_config_phy Z evs s = Some (r, evs', s') \<Longrightarrow> li_initialized (ll s') = li_initialized (ll s)"
  "prv_phy_activate Z evs s = Some (r, evs', s') \<Longrightarrow> li_initialized (ll s') = li_initialized (ll s)"
  by (auto simp: prv_init_phy_def prv_config_phy_def prv_phy_activate_def Let_def
      clear_op_flags_alt dest!: finish_op_keeps_initialized)

lemma link_init_cases:
  assumes "dect_link_layer_init Z evs s = Some (r, evs', s')" and "\<not> li_initialized (ll s)"
  shows "li_initialized (ll s') \<longleftrightarrow> r = 0"
proof -
  obtain r1 k1 where k1: "nrf_modem_lib_init Z (k_sem_init Z LinkOpSem 0 1 (k_msgq_init Z (kern s))) = (r1, k1)"
    by fastforce
  obtain r2 k2 where k2: "nrf_modem_dect_phy_event_handler_set Z k1 = (r2, k2)" by fastforce
  show ?thesis
  proof (cases "r1 = 0 \<and> r2 = 0")
    case False
    with assms k1 k2 show ?thesis
      by (cases "r1 = 0") (auto simp: dect_link_layer_init_def Let_def)
  next
    case True
    with assms k1 k2 obtain r3 e4 s4 where s4: "prv_init_phy Z evs (s\<lparr>kern := k2\<rparr>) = Some (r3, e4, s4)"
      by (cases "prv_init_phy Z evs (s\<lparr>kern := k2\<rparr>)") (auto simp: dect_link_layer_init_def Let_def)
    have i4: "\<not> li_initialized (ll s4)" using op_keeps_initialized(1)[OF s4] assms(2) by simp
    show ?thesis
    proof (cases "r3 = 0")
      case False
      with assms k1 k2 True s4 i4 show ?thesis by (simp add: dect_link_layer_init_def Let_def)
    next
      case r3: True
      with assms k1 k2 True s4 obtain r4 e5 s5 where s5: "prv_config_phy Z e4 s4 = Some (r4, e5, s5)"
        by (cases "prv_config_phy Z e4 s4") (auto simp: dect_link_layer_init_def Let_def)
      have i5: "\<not> li_initialized (ll s5)" using op_keeps_initialized(2)[OF s5] i4 by simp
      show ?thesis
      proof (cases "r4 = 0")
        case False
        with assms k1 k2 True r3 s4 s5 i5 show ?thesis by (simp add: dect_link_layer_init_def Let_def)
      next
        case r4: True
        with assms k1 k2 True r3 s4 s5 obtain r5 e6 s6 where s6: "prv_phy_activate Z e5 s5 = Some (r5, e6, s6)"
          by (cases "prv_phy_activate Z e5 s5") (auto simp: dect_link_layer_init_def Let_def)
        have "\<not> li_initialized (ll s6)" using op_keeps_initialized(3)[OF s6] i5 by simp
        with assms k1 k2 True r3 r4 s4 s5 s6 show ?thesis
          by (cases "r5 = 0") (auto simp: dect_link_layer_init_def Let_def)
      qed
    qed
  qed
qed

text \<open>An operation that the modem starts, and completes with \<open>err\<close>.\<close>

definition op_only :: "'k zephyr \<Rightarrow> ('k, 'a) link_machine_scheme \<Rightarrow> ('k, 'a) link_machine_scheme \<Rightarrow> bool" where
  "op_only Z s s' \<longleftrightarrow> s' = s\<lparr>kern := kern s', ll := ll s'\<rparr> \<and> kview Z (kern s') = kview Z (kern s) \<and>
     li_initialized (ll s') = li_initialized (ll s)"

lemma op_only_trans: "op_only Z s t \<Longrightarrow> op_only Z t u \<Longrightarrow> op_only Z s u"
  unfolding op_only_def by (cases s; cases t; cases u) simp

lemma op_only_idle: "op_only Z s s' \<Longrightarrow> op_idle Z s' = op_idle Z s"
  by (simp add: op_only_def op_idle_def)

lemma op_completes:
  assumes laws: "sem_laws Z" "phy_laws Z" and idle: "op_idle Z s"
    and e: "completion e = Some err"
  shows "(\<And>k. fst (nrf_modem_dect_phy_init Z k) = 0) \<Longrightarrow>
      \<exists>s'. prv_init_phy Z (e # es) s = Some (err, es, s') \<and> op_only Z s s'"
    and "(\<And>k. fst (nrf_modem_dect_phy_configure Z prv_dect_config_params k) = 0) \<Longrightarrow>
      \<exists>s'. prv_config_phy Z (e # es) s = Some (err, es, s') \<and> op_only Z s s'"
    and "(\<And>k. fst (nrf_modem_dect_phy_activate Z k) = 0) \<Longrightarrow>
      \<exists>s'. prv_phy_activate Z (e # es) s = Some (err, es, s') \<and> op_only Z s s'"
proof -
  have step: "\<exists>s'. finish_op Z (e # es) c (clear_op_flags s) = Some (err, es, s') \<and> op_only Z s s'"
    if c: "fst c = 0" "kview Z (snd c) = kview Z (kern s)" for c
  proof -
    have "kv_sem (kview Z (snd c)) LinkOpSem = 0" using c(2) idle by (simp add: op_idle_def)
    then obtain k' where k': "finish_op Z (e # es) (0, snd c) (clear_op_flags s) = Some (err, es,
        (clear_op_flags s)\<lparr>kern := k', ll := op_finished err (ll (clear_op_flags s))\<rparr>)"
      "kview Z k' = kview Z (snd c)"
      by (rule finish_op_completed[OF laws(1) _ e, where s = "clear_op_flags s" and es = es])
        (simp_all add: clear_op_flags_alt)
    moreover have "c = (0, snd c)" using c(1) by (simp add: prod_eq_iff)
    ultimately show ?thesis using c(2) by (auto simp: op_only_def clear_op_flags_alt cleared_def)
  qed
  note v = phy_view[OF laws(2)]
  show "(\<And>k. fst (nrf_modem_dect_phy_init Z k) = 0) \<Longrightarrow>
      \<exists>s'. prv_init_phy Z (e # es) s = Some (err, es, s') \<and> op_only Z s s'"
    unfolding prv_init_phy_def Let_def by (rule step) (simp_all add: v clear_op_flags_alt)
  show "(\<And>k. fst (nrf_modem_dect_phy_configure Z prv_dect_config_params k) = 0) \<Longrightarrow>
      \<exists>s'. prv_config_phy Z (e # es) s = Some (err, es, s') \<and> op_only Z s s'"
    unfolding prv_config_phy_def Let_def by (rule step) (simp_all add: v clear_op_flags_alt)
  show "(\<And>k. fst (nrf_modem_dect_phy_activate Z k) = 0) \<Longrightarrow>
      \<exists>s'. prv_phy_activate Z (e # es) s = Some (err, es, s') \<and> op_only Z s s'"
    unfolding prv_phy_activate_def Let_def by (rule step) (simp_all add: v clear_op_flags_alt)
qed

text \<open>An operation the modem refuses at once with \<open>x\<close>, or starts and completes with \<open>err\<close>.\<close>

lemma op_result:
  assumes laws: "sem_laws Z" "phy_laws Z" and idle: "op_idle Z s" and e: "completion e = Some err"
  shows "(\<And>k. fst (nrf_modem_dect_phy_init Z k) = x) \<Longrightarrow>
      \<exists>es' s'. prv_init_phy Z (e # es) s = Some (if x \<noteq> 0 then x else err, es', s') \<and> (x = 0 \<longrightarrow> es' = es \<and> op_idle Z s')"
    and "(\<And>k. fst (nrf_modem_dect_phy_configure Z prv_dect_config_params k) = x) \<Longrightarrow>
      \<exists>es' s'. prv_config_phy Z (e # es) s = Some (if x \<noteq> 0 then x else err, es', s') \<and> (x = 0 \<longrightarrow> es' = es \<and> op_idle Z s')"
    and "(\<And>k. fst (nrf_modem_dect_phy_activate Z k) = x) \<Longrightarrow>
      \<exists>es' s'. prv_phy_activate Z (e # es) s = Some (if x \<noteq> 0 then x else err, es', s') \<and> (x = 0 \<longrightarrow> es' = es \<and> op_idle Z s')"
  using op_completes[OF laws idle e, of es] op_only_idle idle
  by (cases "x = 0"; fastforce simp: prv_init_phy_def prv_config_phy_def prv_phy_activate_def Let_def finish_op_def)+

text \<open>Start-up on a modem that completes every operation.\<close>

lemma link_init_started:
  assumes laws: "sem_laws Z" "phy_laws Z" "host_laws Z" "msgq_laws Z depth" and new: "\<not> li_initialized (ll s)"
    and started: "\<And>k. fst (nrf_modem_lib_init Z k) = 0"
      "\<And>k. fst (nrf_modem_dect_phy_event_handler_set Z k) = 0"
      "\<And>k. fst (nrf_modem_dect_phy_init Z k) = 0"
      "\<And>k. fst (nrf_modem_dect_phy_configure Z prv_dect_config_params k) = 0"
      "\<And>k. fst (nrf_modem_dect_phy_activate Z k) = 0"
  obtains s' where "dect_link_layer_init Z [NRF_MODEM_DECT_PHY_EVT_INIT 0,
       NRF_MODEM_DECT_PHY_EVT_CONFIGURE 0, NRF_MODEM_DECT_PHY_EVT_ACTIVATE 0] s = Some (0, [], s')"
    and "s' = s\<lparr>kern := kern s', ll := ll s'\<rparr>" and "li_initialized (ll s')"
    and "kview Z (kern s') = (kview Z (kern s))\<lparr>kv_txq := [], kv_sem := (kv_sem (kview Z (kern s)))(LinkOpSem := 0)\<rparr>"
proof -
  let ?evs = "[NRF_MODEM_DECT_PHY_EVT_INIT 0, NRF_MODEM_DECT_PHY_EVT_CONFIGURE 0,
    NRF_MODEM_DECT_PHY_EVT_ACTIVATE 0]"
  let ?k = "k_sem_init Z LinkOpSem 0 1 (k_msgq_init Z (kern s))"
  obtain k1 where k1: "nrf_modem_lib_init Z ?k = (0, k1)" using started(1)[of ?k] by (metis prod.collapse)
  obtain k2 where k2: "nrf_modem_dect_phy_event_handler_set Z k1 = (0, k2)"
    using started(2)[of k1] by (metis prod.collapse)
  have mq: "kview Z (k_msgq_init Z (kern s)) = (kview Z (kern s))\<lparr>kv_txq := []\<rparr>"
    using laws(4) by (simp add: msgq_laws_def)
  have v2: "kview Z k2 = (kview Z (kern s))\<lparr>kv_txq := [], kv_sem := (kv_sem (kview Z (kern s)))(LinkOpSem := 0)\<rparr>"
    using phy_view(1)[OF laws(2), of ?k] phy_view(2)[OF laws(2), of k1] k1 k2
      sem_view(1)[OF laws(1), of LinkOpSem "k_msgq_init Z (kern s)"] mq by simp
  then have idle: "op_idle Z (s\<lparr>kern := k2\<rparr>)" by (simp add: op_idle_def)
  have c: "completion (NRF_MODEM_DECT_PHY_EVT_INIT 0) = Some 0"
    "completion (NRF_MODEM_DECT_PHY_EVT_CONFIGURE 0) = Some 0"
    "completion (NRF_MODEM_DECT_PHY_EVT_ACTIVATE 0) = Some 0" by (simp_all add: completion_def)
  obtain s4 where s4: "prv_init_phy Z ?evs (s\<lparr>kern := k2\<rparr>) = Some (0, tl ?evs, s4)" "op_only Z (s\<lparr>kern := k2\<rparr>) s4"
    using op_completes(1)[OF laws(1,2) idle c(1) started(3)] by auto
  obtain s5 where s5: "prv_config_phy Z (tl ?evs) s4 = Some (0, tl (tl ?evs), s5)" "op_only Z s4 s5"
    using op_completes(2)[OF laws(1,2) _ c(2) started(4), of s4] idle op_only_idle[OF s4(2)] by auto
  obtain s6 where s6: "prv_phy_activate Z (tl (tl ?evs)) s5 = Some (0, [], s6)" "op_only Z s5 s6"
    using op_completes(3)[OF laws(1,2) _ c(3) started(5), of s5] idle op_only_idle[OF s4(2)] op_only_idle[OF s5(2)] by auto
  have o: "op_only Z (s\<lparr>kern := k2\<rparr>) s6" by (rule op_only_trans[OF op_only_trans[OF s4(2) s5(2)] s6(2)])
  let ?s = "s6\<lparr>kern := k_thread_create Z Prv_link_layer_thread (kern s6), ll := (ll s6)\<lparr>li_initialized := True\<rparr>\<rparr>"
  show thesis
  proof (rule that)
    show "dect_link_layer_init Z ?evs s = Some (0, [], ?s)"
      using new k1 k2 s4(1) s5(1) s6(1) by (simp add: dect_link_layer_init_def Let_def)
    show "?s = s\<lparr>kern := kern ?s, ll := ll ?s\<rparr>"
      using o unfolding op_only_def by (cases s; cases s6) simp
    show "kview Z (kern ?s) =
        (kview Z (kern s))\<lparr>kv_txq := [], kv_sem := (kv_sem (kview Z (kern s)))(LinkOpSem := 0)\<rparr>"
      using o v2 by (simp add: host_view(10)[OF laws(3)] op_only_def)
  qed simp
qed

section \<open>Properties\<close>

text \<open>A machine with a running link layer, for the witnesses.\<close>

definition ref_link :: "kworld link_machine" where
  "ref_link = \<lparr>kern = rk_init, mem = boot_mem, dev_fetched = True, dev_id = 0x04030201,
     ll = link_inst_init\<lparr>li_initialized := True, li_rx_callback := Some Prv_on_data_layer_rx\<rparr>\<rparr>"

lemma ref_link_simps [simp]:
  "li_initialized (ll ref_link)" "li_rx_callback (ll ref_link) = Some Prv_on_data_layer_rx"
  "kern ref_link = rk_init" "mem ref_link = boot_mem" "dev_fetched ref_link"
  "dev_id ref_link = 0x04030201" "li_rx_frame (ll ref_link) = replicate 37 0"
  by (simp_all add: ref_link_def link_inst_init_def)

lemma rk_init_view [simp]:
  "kv_txq (rk_view rk_init) = []" "kv_sem (rk_view rk_init) q = 0" "kv_fifo (rk_view rk_init) f = []"
  "kv_slist (rk_view rk_init) l = []" "map_of (rk_bufs rk_init) h = None"
  by (simp_all add: rk_view_def rk_init_def)

lemma ref_phy_started: "fst (nrf_modem_dect_phy_rx ref_zephyr p k) = 0"
  "fst (nrf_modem_dect_phy_init ref_zephyr k) = 0" "fst (nrf_modem_dect_phy_configure ref_zephyr c k) = 0"
  "fst (nrf_modem_dect_phy_activate ref_zephyr k) = 0" "fst (nrf_modem_lib_init ref_zephyr k) = 0"
  "fst (nrf_modem_dect_phy_event_handler_set ref_zephyr k) = 0"
  by (simp_all add: ref_zephyr_def)

text \<open>C16. Link layer round trip: what \<open>dect_link_layer_write\<close> queues for a device is one frame of
  exactly the MTU, and when that device's radio receives the frame in a receive window, its
  link thread calls the registered callback with the sender's id, the bytes written and their
  number.\<close>

theorem link_layer_roundtrip:
  assumes laws: "sem_laws Z" "hwinfo_laws Z" "phy_laws Z"
      "msgq_laws Z DECT_LINK_LAYER_TX_MSG_QUEUE_DEPTH"
    and sender: "li_initialized (ll sa)"
      "length (kv_txq (kview Z (kern sa))) < DECT_LINK_LAYER_TX_MSG_QUEUE_DEPTH"
      "n \<le> DECT_LINK_LAYER_MAX_PAYLOAD_SIZE_BYTES" "n \<le> length data"
    and receiver: "op_idle Z sb" "dev_fetched sb" "kv_txq (kview Z (kern sb)) = []"
      "li_rx_callback (ll sb) = Some f" "length (li_rx_frame (ll sb)) = sizeof_link_frame"
      "\<And>k. fst (nrf_modem_dect_phy_rx Z rx_op_params k) = 0"
  shows "\<exists>sa' fr pl. dect_link_layer_write Z (dev_id sb) (Some data) n sa = Some (0, sa') \<and>
     kv_txq (kview Z (kern sa')) = kv_txq (kview Z (kern sa)) @ [fr] \<and>
     length (put_link_frame fr) = DECT_LINK_LAYER_MTU_SIZE_BYTES \<and>
     length pl = DECT_LINK_LAYER_MAX_PAYLOAD_SIZE_BYTES \<and> take n pl = take n data \<and>
     (\<forall>call_rx err. \<exists>sb'. only_link sb sb' \<and>
        prv_link_layer_turn Z call_rx
          [NRF_MODEM_DECT_PHY_EVT_PDC (length (put_link_frame fr)) (put_link_frame fr),
           NRF_MODEM_DECT_PHY_EVT_COMPLETED err] sb =
        do { sb'' \<leftarrow> call_rx f (dev_id sa') pl n sb'; Some ([], sb'') })"
proof -
  obtain me sa' where w: "dect_link_layer_write Z (dev_id sb) (Some data) n sa = Some (0, sa')"
    "me = dev_id sa'"
    "kview Z (kern sa') = (kview Z (kern sa))\<lparr>kv_txq :=
       kv_txq (kview Z (kern sa)) @ [link_frame_for me (dev_id sb) (take n data) n],
       kv_put := kv_put (kview Z (kern sa)) @ [link_frame_for me (dev_id sb) (take n data) n]\<rparr>"
    by (rule link_write_spec[OF laws(2,4) sender(1) _ sender(4,2)])
      (use sender(3) in simp_all)
  let ?fr = "link_frame_for me (dev_id sb) (take n data) n"
  let ?d = "put_link_frame ?fr"
  have len: "length (take n data) \<le> 22" "length (take n data) = n" using sender(3,4) by simp_all
  have acc: "link_accepts (dev_id sb) ?d" using link_accepts_frame_for[OF len(1)] by simp
  have hdr: "get_link_header ?d = Some (lf_header ?fr)" by (simp add: put_link_frame_def wire)
  have "length ?d = 37" using len(1) by simp
  then have pl: "drop 15 (overwrite ?d (li_rx_frame (ll sb))) = lf_payload ?fr"
    using receiver(5) by (simp add: overwrite_all put_link_frame_def)
  have n16: "unat (of_nat n :: u16) = n" using sender(3) by (simp add: unat_of_nat)
  have "\<exists>sb'. only_link sb sb' \<and>
        prv_link_layer_turn Z call_rx [NRF_MODEM_DECT_PHY_EVT_PDC (length ?d) ?d,
           NRF_MODEM_DECT_PHY_EVT_COMPLETED err] sb =
        do { sb'' \<leftarrow> call_rx f me (lf_payload ?fr) n sb'; Some ([], sb'') }" for call_rx err
    by (rule turn_delivers[OF laws receiver(1,2,6,3,4) acc hdr, of call_rx err "[]"])
      (use pl n16 in auto)
  note turn = this
  show ?thesis
  proof (rule exI[of _ sa'], rule exI[of _ ?fr], rule exI[of _ "lf_payload ?fr"], intro conjI allI)
    show "dect_link_layer_write Z (dev_id sb) (Some data) n sa = Some (0, sa')" by (rule w(1))
    show "kv_txq (kview Z (kern sa')) = kv_txq (kview Z (kern sa)) @ [?fr]" by (simp add: w(3))
    show "take n (lf_payload ?fr) = take n data" using lf_link_frame_for(3)[of "take n data"] len(2) by simp
    show "\<exists>sb'. only_link sb sb' \<and>
        prv_link_layer_turn Z call_rx [NRF_MODEM_DECT_PHY_EVT_PDC (length ?d) ?d,
           NRF_MODEM_DECT_PHY_EVT_COMPLETED err] sb =
        do { sb'' \<leftarrow> call_rx f (dev_id sa') (lf_payload ?fr) n sb'; Some ([], sb'') }" for call_rx err
      using turn[of call_rx err] unfolding w(2) .
  qed (simp_all only: link_sizes lf_link_frame_for(2)[OF len(1)] length_put_link_frame_for[OF len(1)])
qed

theorem link_layer_roundtrip_witness:
  "\<exists>sa' fr pl. dect_link_layer_write ref_zephyr (dev_id ref_link) (Some [7, 8, 9]) 3 ref_link = Some (0, sa') \<and>
     kv_txq (kview ref_zephyr (kern sa')) = kv_txq (kview ref_zephyr (kern ref_link)) @ [fr] \<and>
     length (put_link_frame fr) = DECT_LINK_LAYER_MTU_SIZE_BYTES \<and>
     length pl = DECT_LINK_LAYER_MAX_PAYLOAD_SIZE_BYTES \<and> take 3 pl = take 3 [7, 8, 9] \<and>
     (\<forall>call_rx err. \<exists>sb'. only_link ref_link sb' \<and>
        prv_link_layer_turn ref_zephyr call_rx
          [NRF_MODEM_DECT_PHY_EVT_PDC (length (put_link_frame fr)) (put_link_frame fr),
           NRF_MODEM_DECT_PHY_EVT_COMPLETED err] ref_link =
        do { sb'' \<leftarrow> call_rx Prv_on_data_layer_rx (dev_id sa') pl 3 sb'; Some ([], sb'') })"
  by (rule link_layer_roundtrip)
    (simp_all add: ref_sem_laws ref_hwinfo_laws ref_phy_laws ref_msgq_laws ref_phy_started
      DECT_LINK_LAYER_TX_MSG_QUEUE_DEPTH_def op_idle_def)

text \<open>C17. Link layer filter: the handler of received data never reads past the data the modem
  passes, and it keeps a frame exactly if its size is between the header's and the MTU, its
  magic is right and its destination is this device; any other frame leaves the receive state
  as it was.\<close>

theorem link_layer_filter:
  assumes "hwinfo_laws Z" and "li_valid_rx_data (ll s) = False"
  shows "\<exists>s'. prv_dect_phy_event_handler Z (NRF_MODEM_DECT_PHY_EVT_PDC (length data) data) s = Some s' \<and>
     (li_valid_rx_data (ll s') \<longleftrightarrow>
        DECT_LINK_LAYER_HEADER_SIZE_BYTES \<le> length data \<and> length data \<le> DECT_LINK_LAYER_MTU_SIZE_BYTES \<and>
        (\<exists>h. get_link_header data = Some h \<and> ll_magic h = DECT_LINK_LAYER_HEADER_MAGIC \<and>
             ll_dst_id h = fst (device_id Z s))) \<and>
     ll s' = (if li_valid_rx_data (ll s')
              then (ll s)\<lparr>li_rx_frame := overwrite data (li_rx_frame (ll s)),
                          li_rx_frame_size_bytes := length data, li_valid_rx_data := True\<rparr>
              else ll s)"
proof -
  obtain me s0 where id: "device_id Z s = (me, s0)" by fastforce
  obtain s' where s': "prv_on_phy_pdc_event Z (length data) data s = Some s'"
    "ll s' = (if link_accepts me data then kept_frame data (ll s) else ll s)"
    by (rule pdc_event_spec[OF assms(1) id])
  have "link_accepts me data \<longleftrightarrow> 15 \<le> length data \<and> length data \<le> 37 \<and>
      (\<exists>h. get_link_header data = Some h \<and> ll_magic h = DECT_LINK_LAYER_HEADER_MAGIC \<and> ll_dst_id h = me)"
    using get_link_header_None[of data]
    by (auto simp: link_accepts_def split: option.splits)
  with s' id assms(2) show ?thesis by (auto simp: kept_frame_def)
qed

theorem link_layer_filter_witness:
  "\<exists>s'. prv_dect_phy_event_handler ref_zephyr (NRF_MODEM_DECT_PHY_EVT_PDC (length [1, 2]) [1, 2]) ref_link = Some s' \<and>
     \<not> li_valid_rx_data (ll s')"
  using link_layer_filter[of ref_zephyr ref_link "[1, 2]"]
  by (auto simp: ref_hwinfo_laws ref_link_def link_inst_init_def)

text \<open>C18. Link layer start-up: \<open>dect_link_layer_init\<close> makes five calls to the modem - the library's start, the
  registration of the event handler, and the three operations of the radio, each of which the modem
  may refuse at once or report as failed in its completion event. Whatever these eight results are, the
  function returns the first of them that is not 0, in that order, and 0 if there is none; the layer
  counts as initialised exactly if all of them are 0, so a failed start can be retried.\<close>

theorem link_layer_init_result:
  assumes laws: "sem_laws Z" "phy_laws Z" and new: "li_initialized (ll s) = False"
    and results: "\<And>k. fst (nrf_modem_lib_init Z k) = lib"
      "\<And>k. fst (nrf_modem_dect_phy_event_handler_set Z k) = hnd"
      "\<And>k. fst (nrf_modem_dect_phy_init Z k) = i"
      "\<And>k. fst (nrf_modem_dect_phy_configure Z prv_dect_config_params k) = c"
      "\<And>k. fst (nrf_modem_dect_phy_activate Z k) = a"
  shows "\<exists>r evs s'. dect_link_layer_init Z [NRF_MODEM_DECT_PHY_EVT_INIT e1,
       NRF_MODEM_DECT_PHY_EVT_CONFIGURE e2, NRF_MODEM_DECT_PHY_EVT_ACTIVATE e3] s = Some (r, evs, s') \<and>
     r = hd (filter (\<lambda>x. x \<noteq> 0) [lib, hnd, i, e1, c, e2, a, e3] @ [0]) \<and>
     (li_initialized (ll s') \<longleftrightarrow> set [lib, hnd, i, e1, c, e2, a, e3] = {0})"
proof -
  let ?evs = "[NRF_MODEM_DECT_PHY_EVT_INIT e1, NRF_MODEM_DECT_PHY_EVT_CONFIGURE e2,
    NRF_MODEM_DECT_PHY_EVT_ACTIVATE e3]"
  let ?k = "k_sem_init Z LinkOpSem 0 1 (k_msgq_init Z (kern s))"
  obtain k1 where k1: "nrf_modem_lib_init Z ?k = (lib, k1)" using results(1)[of ?k] by (metis prod.collapse)
  obtain k2 where k2: "nrf_modem_dect_phy_event_handler_set Z k1 = (hnd, k2)"
    using results(2)[of k1] by (metis prod.collapse)
  have "kview Z k2 = kview Z ?k"
    using phy_view(1)[OF laws(2), of ?k] phy_view(2)[OF laws(2), of k1] k1 k2 by simp
  then have idle: "op_idle Z (s\<lparr>kern := k2\<rparr>)" by (simp add: op_idle_def sem_view(1)[OF laws(1), simplified])
  have cm: "completion (NRF_MODEM_DECT_PHY_EVT_INIT e1) = Some e1"
    "completion (NRF_MODEM_DECT_PHY_EVT_CONFIGURE e2) = Some e2"
    "completion (NRF_MODEM_DECT_PHY_EVT_ACTIVATE e3) = Some e3" by (simp_all add: completion_def)
  obtain v4 s4 where s4: "prv_init_phy Z ?evs (s\<lparr>kern := k2\<rparr>) = Some (if i \<noteq> 0 then i else e1, v4, s4)"
    "i = 0 \<longrightarrow> v4 = tl ?evs \<and> op_idle Z s4"
    using op_result(1)[OF laws idle cm(1) results(3), of "tl ?evs"] by auto
  obtain v5 s5 where s5: "i = 0 \<Longrightarrow> prv_config_phy Z v4 s4 = Some (if c \<noteq> 0 then c else e2, v5, s5)"
    "i = 0 \<and> c = 0 \<longrightarrow> v5 = tl (tl ?evs) \<and> op_idle Z s5"
    using op_result(2)[OF laws _ cm(2) results(4), of s4 "tl (tl ?evs)"] s4(2) by (cases "i = 0") auto
  obtain v6 s6 where s6: "i = 0 \<and> c = 0 \<Longrightarrow> prv_phy_activate Z v5 s5 = Some (if a \<noteq> 0 then a else e3, v6, s6)"
    using op_result(3)[OF laws _ cm(3) results(5), of s5 "[]"] s5(2) by (cases "i = 0 \<and> c = 0") auto
  let ?r = "hd (filter (\<lambda>x. x \<noteq> 0) [lib, hnd, i, e1, c, e2, a, e3] @ [0])"
  have "\<exists>evs' s'. dect_link_layer_init Z ?evs s = Some (?r, evs', s')"
    using new k1 k2 s4(1) s5(1) s6(1) by (simp add: dect_link_layer_init_def Let_def)
  moreover have "?r = 0 \<longleftrightarrow> set [lib, hnd, i, e1, c, e2, a, e3] = {0}" by auto
  ultimately show ?thesis using link_init_cases[of Z ?evs s] new by blast
qed

text \<open>The reference modem with a refused configuration.\<close>

definition ref_refusing :: "kworld zephyr" where
  "ref_refusing = ref_zephyr\<lparr>nrf_modem_dect_phy_configure := (\<lambda>c k. (- 5, k))\<rparr>"

lemma refusing_laws:
  "sem_laws (Z\<lparr>nrf_modem_dect_phy_configure := (\<lambda>c k. (e, k))\<rparr>) = sem_laws Z"
  "phy_laws Z \<Longrightarrow> phy_laws (Z\<lparr>nrf_modem_dect_phy_configure := (\<lambda>c k. (e, k))\<rparr>)"
  by (simp add: sem_laws_def) (auto simp: phy_laws_def)

theorem link_layer_init_result_witness:
  "\<exists>r evs s'. dect_link_layer_init ref_refusing [NRF_MODEM_DECT_PHY_EVT_INIT 0,
       NRF_MODEM_DECT_PHY_EVT_CONFIGURE 0, NRF_MODEM_DECT_PHY_EVT_ACTIVATE 0]
       (ref_link\<lparr>ll := link_inst_init\<rparr>) = Some (r, evs, s') \<and> r = - 5 \<and> \<not> li_initialized (ll s')"
proof -
  have laws: "sem_laws ref_refusing" "phy_laws ref_refusing"
    using refusing_laws[where Z = ref_zephyr] ref_sem_laws ref_phy_laws by (simp_all only: ref_refusing_def)
  have new: "li_initialized (ll (ref_link\<lparr>ll := link_inst_init\<rparr>)) = False" by (simp add: link_inst_init_def)
  have ok: "fst (nrf_modem_lib_init ref_refusing k) = 0" "fst (nrf_modem_dect_phy_event_handler_set ref_refusing k) = 0"
    "fst (nrf_modem_dect_phy_init ref_refusing k) = 0" "fst (nrf_modem_dect_phy_activate ref_refusing k) = 0"
    "fst (nrf_modem_dect_phy_configure ref_refusing prv_dect_config_params k) = - 5" for k
    by (simp_all add: ref_refusing_def ref_phy_started)
  show ?thesis
    using link_layer_init_result[OF laws new ok(1-3,5,4), of 0 0 0] by simp
qed

text \<open>Link layer write errors: a write before start-up, with no buffer or with more than the
  frame's payload returns its error code and changes nothing.\<close>

theorem link_layer_write_rejects:
  assumes "\<not> li_initialized (ll s) \<or> buf = None \<or> DECT_LINK_LAYER_MAX_PAYLOAD_SIZE_BYTES < n"
  shows "dect_link_layer_write Z dst buf n s =
     Some (if \<not> li_initialized (ll s) then - ENOTCONN else if buf = None then - EINVAL else - ENOMEM, s)"
  using assms by (auto simp: dect_link_layer_write_def split: option.splits)

theorem link_layer_write_rejects_witness:
  "dect_link_layer_write ref_zephyr 5 (Some (replicate 30 0)) 23 ref_link =
     Some (if \<not> li_initialized (ll ref_link) then - ENOTCONN
           else if Some (replicate 30 (0 :: u8)) = None then - EINVAL else - ENOMEM, ref_link)"
  by (rule link_layer_write_rejects) simp

end
