(* ===== verification/Reassembly.thy ===== *)
theory Reassembly
  imports Transport_Buffer
begin

text \<open>
  What both transports do with a received fragment: look its context up in the pool, note the
  sender in it (DECT only), write the payload into it. The theory shows that this is safe for
  every fragment that declares a message of at most the buffer's capacity, that a transfer
  received in order, with any retransmissions of earlier fragments in between, reassembles
  exactly its message, and that fragments of other transfers do not disturb it.
\<close>

section \<open>One received fragment\<close>

definition set_src_id ::
  "tb_ptr \<Rightarrow> u32 \<Rightarrow> ('k, 'a) machine_scheme \<Rightarrow> ('k, 'a) machine_scheme" where
  "set_src_id p src_id s = s\<lparr>mem := (mem s)\<lparr>src_ids := (src_ids (mem s))(p := src_id)\<rparr>\<rparr>"

definition mark_src ::
  "u32 option \<Rightarrow> tb_ptr \<Rightarrow> ('k, 'a) machine_scheme \<Rightarrow> ('k, 'a) machine_scheme" where
  "mark_src params p s = (case params of None \<Rightarrow> s | Some src \<Rightarrow> set_src_id p src s)"

record rx_frag =
  rf_seq :: u16
  rf_total :: u16
  rf_idx :: u8
  rf_frag_total :: u8
  rf_src :: "u32 option"
  rf_payload :: "u8 list"
  rf_len :: nat

definition rx_step ::
  "'k zephyr \<Rightarrow> transport_buffer_pool_t \<Rightarrow> rx_frag \<Rightarrow> ('k, 'a) machine_scheme \<Rightarrow>
   ((tb_ptr \<times> transport_buffer_write_ret_t) option \<times> ('k, 'a) machine_scheme) option" where
  "rx_step Z inst f s = do {
     (b, s1) \<leftarrow> transport_buffer_pool_get Z (Some inst) (rf_seq f) (unat (rf_total f)) (rf_idx f)
                 (rf_frag_total f) (rf_src f) s;
     case b of None \<Rightarrow> Some (None, s1)
     | Some p \<Rightarrow> do {
         (ret, s2) \<leftarrow> transport_buffer_write Z (Some p) (rf_idx f) (Some (rf_payload f)) (rf_len f)
                       (mark_src (rf_src f) p s1);
         Some (Some (p, ret), s2) } }"

lemma mark_src_simps [simp]:
  "kern (mark_src params p s) = kern s" "tb_at (mark_src params p s) q = tb_at s q"
  "tbs (mem (mark_src params p s)) = tbs (mem s)"
  "pool_inv Z inst (mark_src params p s) = pool_inv Z inst s"
  by (simp_all add: mark_src_def set_src_id_def tb_at_def pool_inv_def split: option.splits)

lemma src_ids_mark_src:
  "src_ids (mem (mark_src params p s)) q =
     (case params of Some src \<Rightarrow> if q = p then src else src_ids (mem s) q | None \<Rightarrow> src_ids (mem s) q)"
  by (simp add: mark_src_def set_src_id_def split: option.splits)

text \<open>Only the kernel and the buffer memory changed.\<close>

definition only_rx :: "('k, 'a) machine_scheme \<Rightarrow> ('k, 'a) machine_scheme \<Rightarrow> bool" where
  "only_rx s s' \<longleftrightarrow> s' = s\<lparr>kern := kern s', mem := mem s'\<rparr>"

lemma only_rx_refl [simp]: "only_rx s s"
  by (simp add: only_rx_def)

lemma only_rx_trans: "only_rx s t \<Longrightarrow> only_rx t u \<Longrightarrow> only_rx s u"
  unfolding only_rx_def by (cases s; cases t; cases u) simp

lemma only_rx_buffers [simp]: "only_buffers s t \<Longrightarrow> only_rx s t"
  by (simp add: only_buffers_def only_rx_def)

lemma only_rx_mark [simp]: "only_rx s (mark_src params p s)"
  by (simp add: only_rx_def mark_src_def set_src_id_def split: option.splits)

text \<open>How the pool distinguishes senders: by the id noted in the context, or not at all.\<close>

definition src_query :: "transport_buffer_pool_t \<Rightarrow> u32 option \<Rightarrow> bool" where
  "src_query inst params \<longleftrightarrow> (case params of None \<Rightarrow> query_callback inst = None
     | Some src \<Rightarrow> \<exists>cb. query_callback inst = Some cb \<and> (\<forall>m p i. cb m p (Some i) = Some (i = src_ids m p)))"

lemma src_query_total: "src_query inst params \<Longrightarrow> query_total inst params"
  by (auto simp: src_query_def query_total_def split: option.splits)

lemma matches_iff:
  assumes "src_query inst params"
  shows "matches inst seq_id total_bytes frag_total params s p \<longleftrightarrow>
     tb_state (tb_at s p) = TRANSPORT_BUFFER_STATE_RECEIVING \<and>
     tb_seq_id (tb_at s p) = seq_id \<and> tb_frag_total (tb_at s p) = frag_total \<and>
     unat (tb_total_size_bytes (tb_at s p)) = total_bytes \<and>
     (\<forall>src. params = Some src \<longrightarrow> src_ids (mem s) p = src)"
  using assms by (auto simp: matches_def src_query_def split: option.splits)

section \<open>Safety\<close>

text \<open>A pool whose network buffers have room for \<open>cap\<close> bytes and suffice for its contexts.\<close>

definition pool_fits :: "(pool_id \<Rightarrow> nat) \<Rightarrow> (pool_id \<Rightarrow> nat) \<Rightarrow> transport_buffer_pool_t \<Rightarrow> bool" where
  "pool_fits cnt cap inst \<longleftrightarrow> pl_num_buffers inst \<le> cnt (pl_buffer_pool inst) \<and>
     cap (pl_buffer_pool inst) < 2 ^ 32"

lemma write_safe:
  assumes laws: "clock_laws Z" "net_buf_laws Z cnt cap"
    and inv: "pool_inv Z inst s" and p: "p \<in> set (pool_ptrs inst)"
    and st: "tb_state (tb_at s p) = TRANSPORT_BUFFER_STATE_RECEIVING"
    and fits: "pool_fits cnt cap inst"
    and small: "unat (tb_total_size_bytes (tb_at s p)) \<le> cap (pl_buffer_pool inst)"
    and len: "len \<le> length d" "len < 2 ^ 16"
  obtains ret s' where "transport_buffer_write Z (Some p) fi (Some d) len s = Some (ret, s')"
    and "pool_inv Z inst s'" and "only_buffers s s'"
    and "same_but_bufs (kview Z (kern s)) (kview Z (kern s'))"
    and "ktime Z (kern s) \<le> ktime Z (kern s')" and "\<And>q. q \<noteq> p \<Longrightarrow> tb_at s' q = tb_at s q"
    and "\<And>g. tb_buffer (tb_at s p) \<noteq> Some g \<Longrightarrow> bufs Z (kern s') g = bufs Z (kern s) g"
    and "tb_buffer (tb_at s' p) = tb_buffer (tb_at s p)"
    and "\<exists>h nb. tb_buffer (tb_at s p) = Some h \<and> bufs Z (kern s') h = Some nb \<and> nb_ref nb = 1"
    and "tb_seq_id (tb_at s' p) = tb_seq_id (tb_at s p)"
    and "tb_total_size_bytes (tb_at s' p) = tb_total_size_bytes (tb_at s p)"
    and "tb_frag_total (tb_at s' p) = tb_frag_total (tb_at s p)"
    and "ret = TRANSPORT_BUFFER_WRITE_RET_COMPLETE \<longleftrightarrow> tb_state (tb_at s' p) = TRANSPORT_BUFFER_STATE_REFERENCED"
proof -
  obtain h nb where h: "tb_buffer (tb_at s p) = Some h" and nb: "bufs Z (kern s) h = Some nb"
    and ref: "nb_ref nb = 1" and le: "length (nb_data nb) \<le> unat (tb_total_size_bytes (tb_at s p))"
    by (rule receiving_buffer[OF inv p st])
  let ?n = "length (nb_data nb) + len"
  have small32: "?n < 2 ^ 32"
    using unat_u16_less[of "tb_total_size_bytes (tb_at s p)"] le len by simp
  consider (zero) "len = 0" | (ahead) "0 < len" "tb_frag_idx (tb_at s p) < fi"
    | (dup) "0 < len" "fi < tb_frag_idx (tb_at s p)"
    | (over) "0 < len" "fi = tb_frag_idx (tb_at s p)" "unat (tb_total_size_bytes (tb_at s p)) < ?n"
    | (acc) "0 < len" "fi = tb_frag_idx (tb_at s p)" "?n \<le> unat (tb_total_size_bytes (tb_at s p))"
    by fastforce
  then show ?thesis
  proof cases
    case zero
    with inv st h nb ref show ?thesis by (intro that[of TRANSPORT_BUFFER_WRITE_RET_INVALID_ARGS s]) (simp_all add: write_reject)
  next
    case ahead
    with inv st h nb ref show ?thesis
      by (intro that[of TRANSPORT_BUFFER_WRITE_RET_OUT_OF_ORDER_FRAGMENT s]) (simp_all add: write_reject)
  next
    case dup
    with inv st h nb ref show ?thesis
      by (intro that[of TRANSPORT_BUFFER_WRITE_RET_DUPLICATE s]) (simp_all add: write_reject)
  next
    case over
    with inv st h nb ref small32 write_overrun[OF h nb, of len d] show ?thesis
      by (intro that[of TRANSPORT_BUFFER_WRITE_RET_OVERRUN s]) simp_all
  next
    case acc
    obtain s' where s': "transport_buffer_write Z (Some p) (tb_frag_idx (tb_at s p)) (Some d) len s =
         Some (written_ret ?n (tb_at s p), s')"
      "pool_inv Z inst s'" "only_buffers s s'" "same_but_bufs (kview Z (kern s)) (kview Z (kern s'))"
      "ktime Z (kern s) \<le> ktime Z (kern s')"
      "tb_at s' p = written_ctx (of_nat (ktime Z (kern s'))) ?n (tb_at s p)"
      "\<And>q. q \<noteq> p \<Longrightarrow> tb_at s' q = tb_at s q"
      "bufs Z (kern s') = (bufs Z (kern s))(h \<mapsto> nb\<lparr>nb_data := nb_data nb @ take len d\<rparr>)"
      by (rule write_accept[OF laws inv p st h nb _ acc(1) len(1) acc(3)])
        (use fits acc(3) small in \<open>simp_all add: pool_fits_def\<close>)
    show ?thesis
      by (rule that[of "written_ret ?n (tb_at s p)" s'])
        (use s' acc(2) h st ref in \<open>auto simp: written_ret_def written_ctx_def\<close>)
  qed
qed

text \<open>The outcome of a lookup, whatever the fragment.\<close>

lemma pool_get_cases:
  assumes laws: "clock_laws Z" "net_buf_laws Z cnt cap"
    and inv: "pool_inv Z inst s" and fits: "pool_fits cnt cap inst" and query: "src_query inst params"
    and tot: "total_bytes < 2 ^ 16"
  obtains s1 r s2 where
    "transport_buffer_pool_get Z (Some inst) seq_id total_bytes frag_idx frag_total params s = Some (r, s2)"
    and "pool_inv Z inst s1" and "expire_frame Z inst s s1"
    and "\<And>p. p \<in> set (pool_ptrs inst) \<Longrightarrow> expire_effect Z inst s s1 p"
    and "pool_inv Z inst s2" and "only_buffers s s2" and "ktime Z (kern s1) \<le> ktime Z (kern s2)"
    and "same_but_bufs (kview Z (kern s)) (kview Z (kern s2))"
    and "find (matches inst seq_id total_bytes frag_total params s1) (pool_ptrs inst) = r \<and> r \<noteq> None \<and> s2 = s1 \<or>
       find (matches inst seq_id total_bytes frag_total params s1) (pool_ptrs inst) = None \<and>
       (frag_idx \<noteq> 0 \<and> r = None \<or>
        frag_idx = 0 \<and> r = find (\<lambda>p. tb_state (tb_at s1 p) = TRANSPORT_BUFFER_STATE_FREE) (pool_ptrs inst))"
    and "(\<forall>p. r = Some p \<longrightarrow> p \<in> set (pool_ptrs inst) \<and>
       (\<forall>q. q \<noteq> p \<longrightarrow> tb_at s2 q = tb_at s1 q) \<and>
       (s2 = s1 \<and> matches inst seq_id total_bytes frag_total params s1 p \<or>
        tb_state (tb_at s1 p) = TRANSPORT_BUFFER_STATE_FREE \<and>
        (\<exists>h. bufs Z (kern s1) h = None \<and>
           tb_at s2 p = fresh_ctx seq_id total_bytes frag_total h (of_nat (ktime Z (kern s2))) \<and>
           bufs Z (kern s2) = (bufs Z (kern s1))
             (h \<mapsto> \<lparr>nb_pool = pl_buffer_pool inst, nb_ref = 1, nb_data = []\<rparr>))))"
    and "r = None \<Longrightarrow> s2 = s1"
proof -
  have num: "pl_num_buffers inst \<le> cnt (pl_buffer_pool inst)" using fits by (simp add: pool_fits_def)
  obtain s1 r s2 where g: "transport_buffer_pool_get Z (Some inst) seq_id total_bytes frag_idx frag_total params s = Some (r, s2)"
    "pool_inv Z inst s1" "expire_frame Z inst s s1"
    "\<And>p. p \<in> set (pool_ptrs inst) \<Longrightarrow> expire_effect Z inst s s1 p" "pool_inv Z inst s2"
    and c: "case find (matches inst seq_id total_bytes frag_total params s1) (pool_ptrs inst) of
        Some p \<Rightarrow> r = Some p \<and> s2 = s1
      | None \<Rightarrow> if frag_idx \<noteq> 0 then r = None \<and> s2 = s1
          else r = find (\<lambda>p. tb_state (tb_at s1 p) = TRANSPORT_BUFFER_STATE_FREE) (pool_ptrs inst) \<and>
            (case r of None \<Rightarrow> s2 = s1
             | Some p \<Rightarrow> only_buffers s1 s2 \<and> ktime Z (kern s1) \<le> ktime Z (kern s2) \<and>
                 same_but_bufs (kview Z (kern s1)) (kview Z (kern s2)) \<and>
                 (\<exists>h. bufs Z (kern s1) h = None \<and>
                    tb_at s2 p = fresh_ctx seq_id total_bytes frag_total h
                                   (of_nat (ktime Z (kern s2))) \<and>
                    (\<forall>q. q \<noteq> p \<longrightarrow> tb_at s2 q = tb_at s1 q) \<and>
                    bufs Z (kern s2) = (bufs Z (kern s1))
                      (h \<mapsto> \<lparr>nb_pool = pl_buffer_pool inst, nb_ref = 1, nb_data = []\<rparr>)))"
    by (rule pool_get_spec[OF laws inv num src_query_total[OF query],
          of seq_id total_bytes frag_idx frag_total], rule that)
  have fr: "only_buffers s s1" "same_but_bufs (kview Z (kern s)) (kview Z (kern s1))"
    using g(3) by (simp_all add: expire_frame_def)
  let ?found = "find (matches inst seq_id total_bytes frag_total params s1) (pool_ptrs inst)"
  let ?free = "find (\<lambda>p. tb_state (tb_at s1 p) = TRANSPORT_BUFFER_STATE_FREE) (pool_ptrs inst)"
  consider (same) "s2 = s1" "?found = r" "r \<noteq> None"
    | (none) "s2 = s1" "r = None" "?found = None" "frag_idx \<noteq> 0 \<or> ?free = None"
    | (fresh) p where "r = Some p" "frag_idx = 0" "?found = None" "?free = Some p"
  proof (cases ?found)
    case (Some q)
    with c show ?thesis by (intro that(1)) simp_all
  next
    case None
    note found = this
    show ?thesis
    proof (cases "frag_idx = 0")
      case False
      with c found show ?thesis by (intro that(2)) simp_all
    next
      case idx: True
      show ?thesis
      proof (cases r)
        case None
        with c found idx show ?thesis by (intro that(2)) simp_all
      next
        case (Some p)
        with c found idx show ?thesis by (intro that(3)[of p]) simp_all
      qed
    qed
  qed
  then show ?thesis
  proof cases
    case same
    show ?thesis
      by (rule that[OF g fr(1)[folded same(1)]]) (use same fr find_SomeD in \<open>fastforce+\<close>)
  next
    case none
    show ?thesis
      by (rule that[OF g fr(1)[folded none(1)]]) (use none fr in auto)
  next
    case fresh
    with c have f: "only_buffers s1 s2" "ktime Z (kern s1) \<le> ktime Z (kern s2)"
      "same_but_bufs (kview Z (kern s1)) (kview Z (kern s2))"
      "\<exists>h. bufs Z (kern s1) h = None \<and>
         tb_at s2 p = fresh_ctx seq_id total_bytes frag_total h (of_nat (ktime Z (kern s2))) \<and>
         (\<forall>q. q \<noteq> p \<longrightarrow> tb_at s2 q = tb_at s1 q) \<and>
         bufs Z (kern s2) = (bufs Z (kern s1))
           (h \<mapsto> \<lparr>nb_pool = pl_buffer_pool inst, nb_ref = 1, nb_data = []\<rparr>)"
      by simp_all
    show ?thesis
      by (rule that[OF g only_buffers_trans[OF fr(1) f(1)] f(2) same_but_bufs_trans[OF fr(2) f(3)]])
        (use fresh f(4) find_SomeD[OF fresh(4)] in auto)
  qed
qed

lemma receiving_after_get:
  assumes "src_query inst params" and "total_bytes < 2 ^ 16"
    and "s2 = s1 \<and> matches inst seq_id total_bytes frag_total params s1 p \<or>
       (\<exists>h. tb_at s2 p = fresh_ctx seq_id total_bytes frag_total h now)"
  shows "tb_state (tb_at s2 p) = TRANSPORT_BUFFER_STATE_RECEIVING"
    and "unat (tb_total_size_bytes (tb_at s2 p)) = total_bytes"
    and "tb_seq_id (tb_at s2 p) = seq_id" and "tb_frag_total (tb_at s2 p) = frag_total"
  using assms by (auto simp: matches_iff fresh_ctx_def unat_of_nat_u16)

text \<open>A context that has not been idle for the timeout survives the expiry loop.\<close>

lemma not_expired:
  assumes "expire_effect Z inst s s1 p" and "tb_last_rx_time_ms (tb_at s p) = of_nat t"
    and "t \<le> ktime Z (kern s)" and "ktime Z (kern s1) < t + unat (pl_rx_timeout_ms inst)"
  shows "tb_at s1 p = tb_at s p"
proof -
  obtain t' where t': "ktime Z (kern s) \<le> t'" "t' \<le> ktime Z (kern s1)"
    "tb_at s1 p = (if expired inst (of_nat t') (tb_at s p) then release_ctx (tb_at s p) else tb_at s p)"
    using assms(1) by (auto simp: expire_effect_def)
  have lim: "unat (pl_rx_timeout_ms inst) < 2 ^ 32"
    using unsigned_less[of "pl_rx_timeout_ms inst", where 'a = nat] by simp
  have "unat (of_nat t' - of_nat t :: u32) = t' - t"
    using assms(3,4) t'(1,2) lim by (intro elapsed_ms) linarith+
  then have "\<not> expired inst (of_nat t') (tb_at s p)"
    using assms(2-4) t'(1,2) by (auto simp: expired_def word_le_nat_alt)
  with t'(3) show ?thesis by simp
qed

lemma expiry_only_frees:
  assumes "expire_effect Z inst s s1 p" and "tb_state (tb_at s1 p) \<noteq> TRANSPORT_BUFFER_STATE_FREE"
  shows "tb_at s1 p = tb_at s p"
  using assms by (auto simp: expire_effect_def release_ctx_def split: if_splits)

lemma expiry_keeps_free:
  assumes "expire_effect Z inst s s1 p" and "tb_state (tb_at s p) = TRANSPORT_BUFFER_STATE_FREE"
  shows "tb_state (tb_at s1 p) = TRANSPORT_BUFFER_STATE_FREE"
  using assms by (auto simp: expire_effect_def release_ctx_def expired_def split: if_splits)

lemma expiry_keeps_buffer:
  assumes inv: "pool_inv Z inst s1" and fr: "expire_frame Z inst s s1"
    and p: "p \<in> set (pool_ptrs inst)" and live: "tb_state (tb_at s1 p) \<noteq> TRANSPORT_BUFFER_STATE_FREE"
    and h: "tb_buffer (tb_at s1 p) = Some h"
  shows "bufs Z (kern s1) h = bufs Z (kern s) h"
proof -
  have "ctx_ok (pl_buffer_pool inst) (bufs Z (kern s1)) (tb_at s1 p)"
    using inv p pool_okD(2) by (fastforce simp: pool_inv_def tb_at_def)
  from ctx_ok_buffer[OF this live] h have "bufs Z (kern s1) h \<noteq> None" by auto
  with fr show ?thesis by (auto simp: expire_frame_def)
qed

text \<open>
  A fragment that declares a message of at most the buffers' capacity never faults and keeps the
  pool in order. \<open>s1\<close> is the state after expiry, \<open>s2\<close> the one after the lookup.
\<close>

lemma rx_step_cases:
  assumes laws: "clock_laws Z" "net_buf_laws Z cnt cap"
    and inv: "pool_inv Z inst s" and fits: "pool_fits cnt cap inst" and query: "src_query inst (rf_src f)"
    and small: "unat (rf_total f) \<le> cap (pl_buffer_pool inst)"
    and len: "rf_len f \<le> length (rf_payload f)" "rf_len f < 2 ^ 16"
  obtains s1 r s2 out s' where
    "transport_buffer_pool_get Z (Some inst) (rf_seq f) (unat (rf_total f)) (rf_idx f)
       (rf_frag_total f) (rf_src f) s = Some (r, s2)"
    and "rx_step Z inst f s = Some (out, s')"
    and "pool_inv Z inst s1" and "expire_frame Z inst s s1"
    and "\<And>p. p \<in> set (pool_ptrs inst) \<Longrightarrow> expire_effect Z inst s s1 p"
    and "pool_inv Z inst s2" and "ktime Z (kern s1) \<le> ktime Z (kern s2)"
    and "find (matches inst (rf_seq f) (unat (rf_total f)) (rf_frag_total f) (rf_src f) s1) (pool_ptrs inst) = r \<and> r \<noteq> None \<and> s2 = s1 \<or>
       find (matches inst (rf_seq f) (unat (rf_total f)) (rf_frag_total f) (rf_src f) s1) (pool_ptrs inst) = None \<and>
       (rf_idx f \<noteq> 0 \<and> r = None \<or>
        rf_idx f = 0 \<and> r = find (\<lambda>p. tb_state (tb_at s1 p) = TRANSPORT_BUFFER_STATE_FREE) (pool_ptrs inst))"
    and "(\<forall>p. r = Some p \<longrightarrow> p \<in> set (pool_ptrs inst) \<and>
       (\<forall>q. q \<noteq> p \<longrightarrow> tb_at s2 q = tb_at s1 q) \<and>
       (s2 = s1 \<and> matches inst (rf_seq f) (unat (rf_total f)) (rf_frag_total f) (rf_src f) s1 p \<or>
        tb_state (tb_at s1 p) = TRANSPORT_BUFFER_STATE_FREE \<and>
        (\<exists>h. bufs Z (kern s1) h = None \<and>
           tb_at s2 p = fresh_ctx (rf_seq f) (unat (rf_total f)) (rf_frag_total f) h (of_nat (ktime Z (kern s2))) \<and>
           bufs Z (kern s2) = (bufs Z (kern s1))
             (h \<mapsto> \<lparr>nb_pool = pl_buffer_pool inst, nb_ref = 1, nb_data = []\<rparr>))))"
    and "r = None \<Longrightarrow> out = None \<and> s2 = s1 \<and> s' = s1"
    and "\<And>p. r = Some p \<Longrightarrow> \<exists>ret. out = Some (p, ret) \<and>
       transport_buffer_write Z (Some p) (rf_idx f) (Some (rf_payload f)) (rf_len f)
         (mark_src (rf_src f) p s2) = Some (ret, s') \<and>
       tb_state (tb_at s2 p) = TRANSPORT_BUFFER_STATE_RECEIVING \<and>
       (ret = TRANSPORT_BUFFER_WRITE_RET_COMPLETE \<longleftrightarrow> tb_state (tb_at s' p) = TRANSPORT_BUFFER_STATE_REFERENCED) \<and>
       (\<forall>q. q \<noteq> p \<longrightarrow> tb_at s' q = tb_at s2 q) \<and> tb_buffer (tb_at s' p) = tb_buffer (tb_at s2 p) \<and>
       tb_seq_id (tb_at s' p) = rf_seq f \<and>
       unat (tb_total_size_bytes (tb_at s' p)) = unat (rf_total f) \<and>
       tb_frag_total (tb_at s' p) = rf_frag_total f \<and>
       src_ids (mem s') = src_ids (mem (mark_src (rf_src f) p s2)) \<and>
       (\<forall>g. tb_buffer (tb_at s2 p) \<noteq> Some g \<longrightarrow> bufs Z (kern s') g = bufs Z (kern s2) g) \<and>
       (\<exists>h nb. tb_buffer (tb_at s2 p) = Some h \<and> bufs Z (kern s') h = Some nb \<and> nb_ref nb = 1)"
    and "pool_inv Z inst s'" and "only_rx s s'" and "ktime Z (kern s2) \<le> ktime Z (kern s')"
    and "same_but_bufs (kview Z (kern s)) (kview Z (kern s'))"
    and "src_ids (mem s2) = src_ids (mem s)"
proof -
  have tot: "unat (rf_total f) < 2 ^ 16" using unat_u16_less[of "rf_total f"] by simp
  obtain s1 r s2 where g: "transport_buffer_pool_get Z (Some inst) (rf_seq f) (unat (rf_total f)) (rf_idx f)
       (rf_frag_total f) (rf_src f) s = Some (r, s2)"
    "pool_inv Z inst s1" "expire_frame Z inst s s1"
    "\<And>p. p \<in> set (pool_ptrs inst) \<Longrightarrow> expire_effect Z inst s s1 p"
    "pool_inv Z inst s2" "only_buffers s s2" "ktime Z (kern s1) \<le> ktime Z (kern s2)"
    "same_but_bufs (kview Z (kern s)) (kview Z (kern s2))"
    and which: "find (matches inst (rf_seq f) (unat (rf_total f)) (rf_frag_total f) (rf_src f) s1) (pool_ptrs inst) = r \<and> r \<noteq> None \<and> s2 = s1 \<or>
       find (matches inst (rf_seq f) (unat (rf_total f)) (rf_frag_total f) (rf_src f) s1) (pool_ptrs inst) = None \<and>
       (rf_idx f \<noteq> 0 \<and> r = None \<or>
        rf_idx f = 0 \<and> r = find (\<lambda>p. tb_state (tb_at s1 p) = TRANSPORT_BUFFER_STATE_FREE) (pool_ptrs inst))"
    and got: "(\<forall>p. r = Some p \<longrightarrow> p \<in> set (pool_ptrs inst) \<and>
       (\<forall>q. q \<noteq> p \<longrightarrow> tb_at s2 q = tb_at s1 q) \<and>
       (s2 = s1 \<and> matches inst (rf_seq f) (unat (rf_total f)) (rf_frag_total f) (rf_src f) s1 p \<or>
        tb_state (tb_at s1 p) = TRANSPORT_BUFFER_STATE_FREE \<and>
        (\<exists>h. bufs Z (kern s1) h = None \<and>
           tb_at s2 p = fresh_ctx (rf_seq f) (unat (rf_total f)) (rf_frag_total f) h (of_nat (ktime Z (kern s2))) \<and>
           bufs Z (kern s2) = (bufs Z (kern s1))
             (h \<mapsto> \<lparr>nb_pool = pl_buffer_pool inst, nb_ref = 1, nb_data = []\<rparr>))))"
    and none: "r = None \<Longrightarrow> s2 = s1"
    by (rule pool_get_cases[OF laws inv fits query tot, of "rf_seq f" "rf_idx f" "rf_frag_total f"], rule that)
  have ids: "src_ids (mem s2) = src_ids (mem s)" using g(6) by (simp add: only_buffers_def)
  show ?thesis
  proof (cases r)
    case None
    then have run: "rx_step Z inst f s = Some (None, s1)" using g(1) none by (simp add: rx_step_def)
    show ?thesis
      by (rule that[OF g(1) run g(2-5,7) which got]) (use None none g ids in simp_all)
  next
    case (Some p)
    have p: "p \<in> set (pool_ptrs inst)" using got Some by blast
    have sel: "s2 = s1 \<and> matches inst (rf_seq f) (unat (rf_total f)) (rf_frag_total f) (rf_src f) s1 p \<or>
       (\<exists>h. tb_at s2 p = fresh_ctx (rf_seq f) (unat (rf_total f)) (rf_frag_total f) h (of_nat (ktime Z (kern s2))))"
      using got Some by blast
    note rc = receiving_after_get[OF query tot sel]
    let ?m = "mark_src (rf_src f) p s2"
    obtain ret s' where w: "transport_buffer_write Z (Some p) (rf_idx f) (Some (rf_payload f)) (rf_len f) ?m = Some (ret, s')"
      "pool_inv Z inst s'" "only_buffers ?m s'" "same_but_bufs (kview Z (kern ?m)) (kview Z (kern s'))"
      "ktime Z (kern ?m) \<le> ktime Z (kern s')" "\<And>q. q \<noteq> p \<Longrightarrow> tb_at s' q = tb_at ?m q"
      "\<And>g. tb_buffer (tb_at ?m p) \<noteq> Some g \<Longrightarrow> bufs Z (kern s') g = bufs Z (kern ?m) g"
      "tb_buffer (tb_at s' p) = tb_buffer (tb_at ?m p)"
      "\<exists>h nb. tb_buffer (tb_at ?m p) = Some h \<and> bufs Z (kern s') h = Some nb \<and> nb_ref nb = 1"
      "tb_seq_id (tb_at s' p) = tb_seq_id (tb_at ?m p)"
      "tb_total_size_bytes (tb_at s' p) = tb_total_size_bytes (tb_at ?m p)"
      "tb_frag_total (tb_at s' p) = tb_frag_total (tb_at ?m p)"
      "ret = TRANSPORT_BUFFER_WRITE_RET_COMPLETE \<longleftrightarrow> tb_state (tb_at s' p) = TRANSPORT_BUFFER_STATE_REFERENCED"
      by (rule write_safe[OF laws _ p _ fits _ len, of ?m "rf_idx f"])
        (use g(5) rc small in simp_all)
    have run: "rx_step Z inst f s = Some (Some (p, ret), s')"
      using g(1) Some w(1) by (simp add: rx_step_def)
    have only: "only_rx s s'"
      using only_rx_trans[OF only_rx_buffers[OF g(6)] only_rx_trans[OF only_rx_mark only_rx_buffers[OF w(3)]]] .
    show ?thesis
      by (rule that[OF g(1) run g(2-5,7) which got])
        (use Some w only rc g(8) ids same_but_bufs_trans[OF g(8) w(4)[simplified]] in
          \<open>simp_all add: only_buffers_def\<close>)
  qed
qed

section \<open>Transfers\<close>

text \<open>
  A transfer: the message, how it is cut (fragments of at most \<open>tf_size\<close> bytes), the key under
  which the pool collects it, and the time before which none of its fragments arrived.
\<close>

record transfer =
  tf_seq :: u16
  tf_src :: "u32 option"
  tf_msg :: "u8 list"
  tf_size :: nat
  tf_since :: nat

definition tf_n :: "transfer \<Rightarrow> nat" where
  "tf_n tf = n_chunks (tf_size tf) (length (tf_msg tf))"

definition tf_ok :: "(pool_id \<Rightarrow> nat) \<Rightarrow> transport_buffer_pool_t \<Rightarrow> transfer \<Rightarrow> bool" where
  "tf_ok cap inst tf \<longleftrightarrow> 0 < tf_size tf \<and> tf_size tf < 2 ^ 16 \<and> 0 < length (tf_msg tf) \<and>
     length (tf_msg tf) \<le> cap (pl_buffer_pool inst) \<and> length (tf_msg tf) < 2 ^ 16 \<and> tf_n tf \<le> 255"

text \<open>The fragments of a transfer, as they are received.\<close>

definition is_frag :: "transfer \<Rightarrow> nat \<Rightarrow> rx_frag \<Rightarrow> bool" where
  "is_frag tf k f \<longleftrightarrow> rf_seq f = tf_seq tf \<and> rf_total f = of_nat (length (tf_msg tf)) \<and>
     rf_idx f = of_nat k \<and> rf_frag_total f = of_nat (tf_n tf) \<and> rf_src f = tf_src tf \<and>
     rf_len f \<le> length (rf_payload f) \<and>
     take (rf_len f) (rf_payload f) = chunk (tf_size tf) k (tf_msg tf)"

definition tf_matches ::
  "transport_buffer_pool_t \<Rightarrow> transfer \<Rightarrow> ('k, 'a) machine_scheme \<Rightarrow> tb_ptr \<Rightarrow> bool" where
  "tf_matches inst tf s p \<longleftrightarrow>
     matches inst (tf_seq tf) (length (tf_msg tf)) (of_nat (tf_n tf)) (tf_src tf) s p"

text \<open>Before its first fragment: no context of the key, and a context free for it.\<close>

definition awaited ::
  "'k zephyr \<Rightarrow> transport_buffer_pool_t \<Rightarrow> transfer \<Rightarrow> ('k, 'a) machine_scheme \<Rightarrow> bool" where
  "awaited Z inst tf s \<longleftrightarrow> tf_since tf \<le> ktime Z (kern s) \<and>
     (\<forall>q \<in> set (pool_ptrs inst). \<not> tf_matches inst tf s q) \<and>
     (\<exists>q \<in> set (pool_ptrs inst). tb_state (tb_at s q) = TRANSPORT_BUFFER_STATE_FREE)"

text \<open>After \<open>k\<close> fragments: exactly one context of the key, holding the first \<open>k\<close> chunks.\<close>

definition held_at ::
  "'k zephyr \<Rightarrow> transport_buffer_pool_t \<Rightarrow> transfer \<Rightarrow> nat \<Rightarrow> ('k, 'a) machine_scheme \<Rightarrow>
   tb_ptr \<Rightarrow> nat \<Rightarrow> net_buf \<Rightarrow> nat \<Rightarrow> bool" where
  "held_at Z inst tf k s p h nb t \<longleftrightarrow> p \<in> set (pool_ptrs inst) \<and> tf_matches inst tf s p \<and>
     (\<forall>q \<in> set (pool_ptrs inst). tf_matches inst tf s q \<longrightarrow> q = p) \<and>
     tb_buffer (tb_at s p) = Some h \<and> tb_frag_idx (tb_at s p) = of_nat k \<and>
     tb_last_rx_time_ms (tb_at s p) = of_nat t \<and> tf_since tf \<le> t \<and> t \<le> ktime Z (kern s) \<and>
     bufs Z (kern s) h = Some nb \<and> nb_data nb = take (k * tf_size tf) (tf_msg tf)"

definition held ::
  "'k zephyr \<Rightarrow> transport_buffer_pool_t \<Rightarrow> transfer \<Rightarrow> nat \<Rightarrow> ('k, 'a) machine_scheme \<Rightarrow> bool" where
  "held Z inst tf k s \<longleftrightarrow> (\<exists>p h nb t. held_at Z inst tf k s p h nb t)"

text \<open>After the last: a context that holds the message, with the transport's reference only.\<close>

definition assembled ::
  "'k zephyr \<Rightarrow> transport_buffer_pool_t \<Rightarrow> transfer \<Rightarrow> ('k, 'a) machine_scheme \<Rightarrow> tb_ptr \<Rightarrow> bool" where
  "assembled Z inst tf s p \<longleftrightarrow> p \<in> set (pool_ptrs inst) \<and>
     tb_state (tb_at s p) = TRANSPORT_BUFFER_STATE_REFERENCED \<and> tb_seq_id (tb_at s p) = tf_seq tf \<and>
     unat (tb_total_size_bytes (tb_at s p)) = length (tf_msg tf) \<and>
     (\<forall>src. tf_src tf = Some src \<longrightarrow> src_ids (mem s) p = src) \<and>
     (\<exists>h nb. tb_buffer (tb_at s p) = Some h \<and> bufs Z (kern s) h = Some nb \<and> nb_ref nb = 1 \<and>
        nb_data nb = tf_msg tf)"

lemma is_fragD:
  assumes "tf_ok cap inst tf" and "is_frag tf k f" and "k < tf_n tf"
  shows "rf_seq f = tf_seq tf" and "unat (rf_total f) = length (tf_msg tf)"
    and "rf_idx f = of_nat k" and "rf_frag_total f = of_nat (tf_n tf)" and "rf_src f = tf_src tf"
    and "rf_len f = length (chunk (tf_size tf) k (tf_msg tf))" and "rf_len f \<le> length (rf_payload f)"
    and "0 < rf_len f" and "rf_len f < 2 ^ 16"
    and "unat (rf_total f) \<le> cap (pl_buffer_pool inst)"
    and "rf_total f = of_nat (length (tf_msg tf))"
    and "take (rf_len f) (rf_payload f) = chunk (tf_size tf) k (tf_msg tf)"
proof -
  show len: "rf_len f = length (chunk (tf_size tf) k (tf_msg tf))"
    using assms(2) unfolding is_frag_def by (metis length_take min.absorb2)
  show "0 < rf_len f" "rf_len f < 2 ^ 16"
    using len assms length_chunk_pos[of "tf_size tf" k "tf_msg tf"]
      length_chunk_le[of "tf_size tf" k "tf_msg tf"] by (simp_all add: tf_ok_def tf_n_def)
qed (use assms in \<open>auto simp: is_frag_def tf_ok_def unat_of_nat_u16\<close>)

lemma idx_step:
  assumes "tf_ok cap inst tf" and "k < tf_n tf"
  shows "(of_nat k :: u8) + 1 = of_nat (Suc k)"
    and "of_nat (Suc k) = (of_nat (tf_n tf) :: u8) \<longleftrightarrow> Suc k = tf_n tf"
    and "unat (of_nat k :: u8) = k"
proof -
  have n: "tf_n tf \<le> 255" using assms(1) by (simp add: tf_ok_def)
  have "unat (of_nat (Suc k) :: u8) = Suc k" "unat (of_nat (tf_n tf) :: u8) = tf_n tf"
    using n assms(2) by (simp_all only: unat_of_nat_u8)
  then show "of_nat (Suc k) = (of_nat (tf_n tf) :: u8) \<longleftrightarrow> Suc k = tf_n tf" by metis
  show "unat (of_nat k :: u8) = k" using n assms(2) by (simp add: unat_of_nat_u8)
qed simp

text \<open>How long the message is after fragment \<open>k\<close>.\<close>

lemma fill_level:
  assumes "tf_ok cap inst tf" and "k < tf_n tf"
  shows "length (take (k * tf_size tf) (tf_msg tf)) + length (chunk (tf_size tf) k (tf_msg tf)) =
           length (take (Suc k * tf_size tf) (tf_msg tf))"
    and "take (k * tf_size tf) (tf_msg tf) @ chunk (tf_size tf) k (tf_msg tf) =
           take (Suc k * tf_size tf) (tf_msg tf)"
    and "Suc k = tf_n tf \<Longrightarrow> take (Suc k * tf_size tf) (tf_msg tf) = tf_msg tf"
proof -
  show "take (k * tf_size tf) (tf_msg tf) @ chunk (tf_size tf) k (tf_msg tf) =
      take (Suc k * tf_size tf) (tf_msg tf)" by (rule take_chunk)
  then show "length (take (k * tf_size tf) (tf_msg tf)) + length (chunk (tf_size tf) k (tf_msg tf)) =
      length (take (Suc k * tf_size tf) (tf_msg tf))" by (metis length_append)
  show "take (Suc k * tf_size tf) (tf_msg tf) = tf_msg tf" if "Suc k = tf_n tf"
    unfolding that using n_chunks_covers[of "tf_size tf" "length (tf_msg tf)"] assms(1)
    by (simp add: tf_ok_def tf_n_def)
qed

text \<open>Writing the fragment a context waits for; the common part of the first and later ones.\<close>

lemma write_next:
  assumes laws: "clock_laws Z" "net_buf_laws Z cnt cap"
    and inv: "pool_inv Z inst s" and fits: "pool_fits cnt cap inst"
    and query: "src_query inst (tf_src tf)" and tf: "tf_ok cap inst tf" and k: "k < tf_n tf"
    and f: "is_frag tf k f" and p: "p \<in> set (pool_ptrs inst)" and m: "tf_matches inst tf s p"
    and uniq: "\<And>q. q \<in> set (pool_ptrs inst) \<Longrightarrow> tf_matches inst tf s q \<Longrightarrow> q = p"
    and h: "tb_buffer (tb_at s p) = Some h" and idx: "tb_frag_idx (tb_at s p) = of_nat k"
    and nb: "bufs Z (kern s) h = Some nb" and data: "nb_data nb = take (k * tf_size tf) (tf_msg tf)"
    and since: "tf_since tf \<le> ktime Z (kern s)"
    and w: "transport_buffer_write Z (Some p) (rf_idx f) (Some (rf_payload f)) (rf_len f) s = Some (ret, s')"
    and ids: "src_ids (mem s') = src_ids (mem s)"
  shows "ret = (if Suc k = tf_n tf then TRANSPORT_BUFFER_WRITE_RET_COMPLETE
                else TRANSPORT_BUFFER_WRITE_RET_SUCCESS)"
    and "Suc k \<noteq> tf_n tf \<Longrightarrow> held Z inst tf (Suc k) s'"
    and "Suc k = tf_n tf \<Longrightarrow> assembled Z inst tf s' p"
proof -
  note fD = is_fragD[OF tf f k] and st = idx_step[OF tf k] and fill = fill_level[OF tf k]
  have mm: "tb_state (tb_at s p) = TRANSPORT_BUFFER_STATE_RECEIVING" "tb_seq_id (tb_at s p) = tf_seq tf"
    "tb_frag_total (tb_at s p) = of_nat (tf_n tf)"
    "unat (tb_total_size_bytes (tb_at s p)) = length (tf_msg tf)"
    "\<forall>src. tf_src tf = Some src \<longrightarrow> src_ids (mem s) p = src"
    using m by (simp_all add: tf_matches_def matches_iff[OF query])
  have lev: "length (nb_data nb) + rf_len f = length (take (Suc k * tf_size tf) (tf_msg tf))"
    using data fD(6) fill(1) by simp
  have le: "length (nb_data nb) + rf_len f \<le> length (tf_msg tf)" using lev by simp
  have cap: "length (tf_msg tf) \<le> cap (pl_buffer_pool inst)" using tf by (simp add: tf_ok_def)
  obtain s'' where s'': "transport_buffer_write Z (Some p) (tb_frag_idx (tb_at s p)) (Some (rf_payload f))
        (rf_len f) s = Some (written_ret (length (nb_data nb) + rf_len f) (tb_at s p), s'')"
    "only_buffers s s''"
    "ktime Z (kern s) \<le> ktime Z (kern s'')"
    "tb_at s'' p = written_ctx (of_nat (ktime Z (kern s''))) (length (nb_data nb) + rf_len f) (tb_at s p)"
    "\<And>q. q \<noteq> p \<Longrightarrow> tb_at s'' q = tb_at s q"
    "bufs Z (kern s'') = (bufs Z (kern s))(h \<mapsto> nb\<lparr>nb_data := nb_data nb @ take (rf_len f) (rf_payload f)\<rparr>)"
    by (rule write_accept[OF laws inv p mm(1) h nb _ fD(8,7)])
      (use fits le mm(4) cap in \<open>simp_all add: pool_fits_def\<close>)
  have eq: "ret = written_ret (length (nb_data nb) + rf_len f) (tb_at s p)" "s' = s''"
    using w s''(1) idx fD(3) by simp_all
  have full: "length (nb_data nb) + rf_len f = length (tf_msg tf)" if "Suc k = tf_n tf"
    unfolding lev using fill(3)[OF that] by simp
  have b1: "tb_frag_idx (tb_at s p) + 1 = of_nat (Suc k)" by (simp only: idx st(1))
  have last: "tb_frag_idx (tb_at s p) + 1 = tb_frag_total (tb_at s p) \<longleftrightarrow> Suc k = tf_n tf"
    by (simp only: b1 mm(3) st(2))
  show "ret = (if Suc k = tf_n tf then TRANSPORT_BUFFER_WRITE_RET_COMPLETE
                else TRANSPORT_BUFFER_WRITE_RET_SUCCESS)"
    unfolding eq(1) written_ret_def last mm(4) using full by simp
  note after = s''(4)[folded eq(2)]
  have nb': "bufs Z (kern s') h = Some (nb\<lparr>nb_data := take (Suc k * tf_size tf) (tf_msg tf)\<rparr>)"
    using s''(6) eq(2) data fD(12) fill(2) by simp
  show "held Z inst tf (Suc k) s'" if ne: "Suc k \<noteq> tf_n tf"
  proof -
    have ctx: "tb_at s' p = (tb_at s p)\<lparr>tb_last_rx_time_ms := of_nat (ktime Z (kern s')), tb_frag_idx := of_nat (Suc k)\<rparr>"
      unfolding after b1[symmetric] by (rule written_ctx_cases(3)) (simp only: last ne not_False_eq_True)
    have same: "tf_matches inst tf s' q = tf_matches inst tf s q" for q
      using ctx s''(5)[of q] eq(2) ids by (cases "q = p") (simp_all add: tf_matches_def matches_iff[OF query])
    have "held_at Z inst tf (Suc k) s' p h (nb\<lparr>nb_data := take (Suc k * tf_size tf) (tf_msg tf)\<rparr>) (ktime Z (kern s'))"
      unfolding held_at_def same
    proof (intro conjI ballI impI)
      show "tf_since tf \<le> ktime Z (kern s')" using since s''(3) eq(2) by simp
      show "q = p" if "q \<in> set (pool_ptrs inst)" "tf_matches inst tf s q" for q using that by (rule uniq)
    qed (use p m h nb' in \<open>simp_all add: ctx del: of_nat_Suc\<close>)
    then show ?thesis unfolding held_def by blast
  qed
  show "assembled Z inst tf s' p" if done': "Suc k = tf_n tf"
  proof -
    have ctx: "tb_at s' p = (tb_at s p)\<lparr>tb_last_rx_time_ms := of_nat (ktime Z (kern s')),
        tb_frag_idx := of_nat (Suc k), tb_state := TRANSPORT_BUFFER_STATE_REFERENCED\<rparr>"
      unfolding after b1[symmetric] iffD2[OF last done']
      by (rule written_ctx_cases(1)) (simp_all only: iffD2[OF last done'] full[OF done'] mm(4))
    obtain h' nb'' where "tb_buffer (tb_at s p) = Some h'" "bufs Z (kern s) h' = Some nb''" "nb_ref nb'' = 1"
      by (rule receiving_buffer[OF inv p mm(1)])
    then have "nb_ref nb = 1" using h nb by simp
    then show ?thesis
      using p mm(2,4,5) h nb' fill(3)[OF done'] ids ctx unfolding assembled_def by (simp del: of_nat_Suc)
  qed
qed

section \<open>Steps of a transfer\<close>

lemma mark_src_same:
  "(\<And>src. params = Some src \<Longrightarrow> src_ids (mem s) p = src) \<Longrightarrow> mark_src params p s = s"
  by (cases params) (auto simp: mark_src_def set_src_id_def)

lemma tf_matches_cong:
  assumes "src_query inst (tf_src tf)" and "tb_at s' q = tb_at s q"
    and "src_ids (mem s') q = src_ids (mem s) q"
  shows "tf_matches inst tf s' q = tf_matches inst tf s q"
  using assms(2,3) by (simp add: tf_matches_def matches_iff[OF assms(1)])

lemma tf_matches_receiving:
  "src_query inst (tf_src tf) \<Longrightarrow> tf_matches inst tf s q \<Longrightarrow>
   tb_state (tb_at s q) = TRANSPORT_BUFFER_STATE_RECEIVING"
  by (simp add: tf_matches_def matches_iff)

text \<open>The expiry loop leaves a transfer in time alone.\<close>

lemma expire_keeps_matching:
  assumes "src_query inst (tf_src tf)" and "expire_effect Z inst s s1 q" and "expire_frame Z inst s s1"
    and "tf_matches inst tf s1 q"
  shows "tf_matches inst tf s q"
proof -
  have "tb_at s1 q = tb_at s q"
    using expiry_only_frees[OF assms(2)] tf_matches_receiving[OF assms(1,4)] by simp
  moreover have "src_ids (mem s1) q = src_ids (mem s) q"
    using assms(3) by (simp add: expire_frame_def only_buffers_def)
  ultimately show ?thesis using assms(4) tf_matches_cong[OF assms(1)] by blast
qed

lemma held_expire:
  assumes held: "held_at Z inst tf k s p h nb t" and query: "src_query inst (tf_src tf)"
    and inv: "pool_inv Z inst s1" and fr: "expire_frame Z inst s s1"
    and eff: "\<And>p. p \<in> set (pool_ptrs inst) \<Longrightarrow> expire_effect Z inst s s1 p"
    and time: "ktime Z (kern s1) < tf_since tf + unat (pl_rx_timeout_ms inst)"
  shows "held_at Z inst tf k s1 p h nb t" and "tb_at s1 p = tb_at s p"
proof -
  have p: "p \<in> set (pool_ptrs inst)" and t: "tb_last_rx_time_ms (tb_at s p) = of_nat t"
      "t \<le> ktime Z (kern s)" "tf_since tf \<le> t"
    using held by (simp_all add: held_at_def)
  show same: "tb_at s1 p = tb_at s p"
    by (rule not_expired[OF eff[OF p] t(1,2)]) (use time t(3) in simp)
  have ids: "src_ids (mem s1) = src_ids (mem s)" and le: "ktime Z (kern s) \<le> ktime Z (kern s1)"
    using fr by (simp_all add: expire_frame_def only_buffers_def)
  have m: "tf_matches inst tf s p" using held by (simp add: held_at_def)
  have "bufs Z (kern s1) h = bufs Z (kern s) h"
    by (rule expiry_keeps_buffer[OF inv fr p])
      (use held same tf_matches_receiving[OF query m] in \<open>simp_all add: held_at_def\<close>)
  moreover have "q = p" if "q \<in> set (pool_ptrs inst)" "tf_matches inst tf s1 q" for q
    using held that expire_keeps_matching[OF query eff fr] unfolding held_at_def by blast
  ultimately show "held_at Z inst tf k s1 p h nb t"
    using held same ids le tf_matches_cong[OF query, of s1 p s] unfolding held_at_def by simp
qed

text \<open>The next fragment extends the transfer or completes it.\<close>

definition advanced ::
  "'k zephyr \<Rightarrow> transport_buffer_pool_t \<Rightarrow> transfer \<Rightarrow> nat \<Rightarrow>
   (tb_ptr \<times> transport_buffer_write_ret_t) option \<Rightarrow> ('k, 'a) machine_scheme \<Rightarrow> bool" where
  "advanced Z inst tf k out s' \<longleftrightarrow>
     (if Suc k = tf_n tf
      then \<exists>p. out = Some (p, TRANSPORT_BUFFER_WRITE_RET_COMPLETE) \<and> assembled Z inst tf s' p
      else \<exists>p. out = Some (p, TRANSPORT_BUFFER_WRITE_RET_SUCCESS) \<and> held Z inst tf (Suc k) s')"

text \<open>
  The stages of a received fragment, collected: expiry (\<open>s1\<close>), lookup (\<open>s2\<close>), write (\<open>s'\<close>).
\<close>

definition rx_trace ::
  "'k zephyr \<Rightarrow> transport_buffer_pool_t \<Rightarrow> rx_frag \<Rightarrow> ('k, 'a) machine_scheme \<Rightarrow>
   ('k, 'a) machine_scheme \<Rightarrow> tb_ptr option \<Rightarrow> ('k, 'a) machine_scheme \<Rightarrow>
   (tb_ptr \<times> transport_buffer_write_ret_t) option \<Rightarrow> ('k, 'a) machine_scheme \<Rightarrow> bool" where
  "rx_trace Z inst f s s1 r s2 out s' \<longleftrightarrow>
     pool_inv Z inst s1 \<and> expire_frame Z inst s s1 \<and>
     (\<forall>p \<in> set (pool_ptrs inst). expire_effect Z inst s s1 p) \<and> pool_inv Z inst s2 \<and>
     ktime Z (kern s1) \<le> ktime Z (kern s2) \<and> ktime Z (kern s2) \<le> ktime Z (kern s') \<and>
     (find (matches inst (rf_seq f) (unat (rf_total f)) (rf_frag_total f) (rf_src f) s1) (pool_ptrs inst) = r \<and> r \<noteq> None \<and> s2 = s1 \<or>
      find (matches inst (rf_seq f) (unat (rf_total f)) (rf_frag_total f) (rf_src f) s1) (pool_ptrs inst) = None \<and>
      (rf_idx f \<noteq> 0 \<and> r = None \<or>
       rf_idx f = 0 \<and> r = find (\<lambda>p. tb_state (tb_at s1 p) = TRANSPORT_BUFFER_STATE_FREE) (pool_ptrs inst))) \<and>
     (\<forall>p. r = Some p \<longrightarrow> p \<in> set (pool_ptrs inst) \<and>
       (\<forall>q. q \<noteq> p \<longrightarrow> tb_at s2 q = tb_at s1 q) \<and>
       (s2 = s1 \<and> matches inst (rf_seq f) (unat (rf_total f)) (rf_frag_total f) (rf_src f) s1 p \<or>
        tb_state (tb_at s1 p) = TRANSPORT_BUFFER_STATE_FREE \<and>
        (\<exists>h. bufs Z (kern s1) h = None \<and>
           tb_at s2 p = fresh_ctx (rf_seq f) (unat (rf_total f)) (rf_frag_total f) h (of_nat (ktime Z (kern s2))) \<and>
           bufs Z (kern s2) = (bufs Z (kern s1))
             (h \<mapsto> \<lparr>nb_pool = pl_buffer_pool inst, nb_ref = 1, nb_data = []\<rparr>)))) \<and>
     (r = None \<longrightarrow> out = None \<and> s2 = s1 \<and> s' = s1) \<and>
     (\<forall>p. r = Some p \<longrightarrow> (\<exists>ret. out = Some (p, ret) \<and>
       transport_buffer_write Z (Some p) (rf_idx f) (Some (rf_payload f)) (rf_len f)
         (mark_src (rf_src f) p s2) = Some (ret, s') \<and>
       tb_state (tb_at s2 p) = TRANSPORT_BUFFER_STATE_RECEIVING \<and>
       (ret = TRANSPORT_BUFFER_WRITE_RET_COMPLETE \<longleftrightarrow> tb_state (tb_at s' p) = TRANSPORT_BUFFER_STATE_REFERENCED) \<and>
       (\<forall>q. q \<noteq> p \<longrightarrow> tb_at s' q = tb_at s2 q) \<and> tb_buffer (tb_at s' p) = tb_buffer (tb_at s2 p) \<and>
       tb_seq_id (tb_at s' p) = rf_seq f \<and>
       unat (tb_total_size_bytes (tb_at s' p)) = unat (rf_total f) \<and>
       tb_frag_total (tb_at s' p) = rf_frag_total f \<and>
       src_ids (mem s') = src_ids (mem (mark_src (rf_src f) p s2)) \<and>
       (\<forall>g. tb_buffer (tb_at s2 p) \<noteq> Some g \<longrightarrow> bufs Z (kern s') g = bufs Z (kern s2) g) \<and>
       (\<exists>h nb. tb_buffer (tb_at s2 p) = Some h \<and> bufs Z (kern s') h = Some nb \<and> nb_ref nb = 1))) \<and>
     src_ids (mem s2) = src_ids (mem s)"

lemma rx_step_trace:
  assumes "clock_laws Z" and "net_buf_laws Z cnt cap" and "pool_inv Z inst s"
    and "pool_fits cnt cap inst" and "src_query inst (rf_src f)"
    and "unat (rf_total f) \<le> cap (pl_buffer_pool inst)"
    and "rf_len f \<le> length (rf_payload f)" and "rf_len f < 2 ^ 16"
    and run: "rx_step Z inst f s = Some (out, s')"
  obtains s1 r s2 where "rx_trace Z inst f s s1 r s2 out s'"
proof (rule rx_step_cases[OF assms(1-8)], goal_cases)
  case (1 s1 r s2 out1 s1')
  have eq: "out1 = out" "s1' = s'" using run 1(3) by simp_all
  have wr: "\<forall>p. r = Some p \<longrightarrow> (\<exists>ret. out1 = Some (p, ret) \<and>
       transport_buffer_write Z (Some p) (rf_idx f) (Some (rf_payload f)) (rf_len f)
         (mark_src (rf_src f) p s2) = Some (ret, s1') \<and>
       tb_state (tb_at s2 p) = TRANSPORT_BUFFER_STATE_RECEIVING \<and>
       (ret = TRANSPORT_BUFFER_WRITE_RET_COMPLETE \<longleftrightarrow> tb_state (tb_at s1' p) = TRANSPORT_BUFFER_STATE_REFERENCED) \<and>
       (\<forall>q. q \<noteq> p \<longrightarrow> tb_at s1' q = tb_at s2 q) \<and> tb_buffer (tb_at s1' p) = tb_buffer (tb_at s2 p) \<and>
       tb_seq_id (tb_at s1' p) = rf_seq f \<and>
       unat (tb_total_size_bytes (tb_at s1' p)) = unat (rf_total f) \<and>
       tb_frag_total (tb_at s1' p) = rf_frag_total f \<and>
       src_ids (mem s1') = src_ids (mem (mark_src (rf_src f) p s2)) \<and>
       (\<forall>g. tb_buffer (tb_at s2 p) \<noteq> Some g \<longrightarrow> bufs Z (kern s1') g = bufs Z (kern s2) g) \<and>
       (\<exists>h nb. tb_buffer (tb_at s2 p) = Some h \<and> bufs Z (kern s1') h = Some nb \<and> nb_ref nb = 1))"
    by (intro allI impI) (rule 1(12))
  have "rx_trace Z inst f s s1 r s2 out1 s1'"
    unfolding rx_trace_def
    by (rule conjI[OF 1(4) conjI[OF 1(5) conjI[OF ballI[OF 1(6)] conjI[OF 1(7) conjI[OF 1(8)
        conjI[OF 1(15) conjI[OF 1(9) conjI[OF 1(10) conjI[OF impI[OF 1(11)] conjI[OF wr 1(17)]]]]]]]]]])
  then show ?case unfolding eq by (rule that)
qed

text \<open>The expiry loop of a fragment that is handled in time leaves the transfer alone.\<close>

lemma held_trace:
  assumes ha: "held_at Z inst tf k s p h nb t" and query: "src_query inst (tf_src tf)"
    and tr: "rx_trace Z inst f s s1 r s2 out s'"
    and time: "ktime Z (kern s') < tf_since tf + unat (pl_rx_timeout_ms inst)"
  shows "held_at Z inst tf k s1 p h nb t"
proof (rule held_expire(1)[OF ha query])
  show "ktime Z (kern s1) < tf_since tf + unat (pl_rx_timeout_ms inst)"
    using tr time unfolding rx_trace_def by linarith
qed (use tr in \<open>auto simp: rx_trace_def\<close>)

lemma held_atD:
  assumes "held_at Z inst tf k s p h nb t"
  shows "p \<in> set (pool_ptrs inst)" and "tf_matches inst tf s p"
    and "\<And>q. q \<in> set (pool_ptrs inst) \<Longrightarrow> tf_matches inst tf s q \<Longrightarrow> q = p"
    and "tb_buffer (tb_at s p) = Some h" and "tb_frag_idx (tb_at s p) = of_nat k"
    and "bufs Z (kern s) h = Some nb" and "nb_data nb = take (k * tf_size tf) (tf_msg tf)"
    and "tf_since tf \<le> ktime Z (kern s)"
    and "find (tf_matches inst tf s) (pool_ptrs inst) = Some p"
    and "src_query inst (tf_src tf) \<Longrightarrow> mark_src (tf_src tf) p s = s"
proof -
  show "find (tf_matches inst tf s) (pool_ptrs inst) = Some p"
    by (rule find_unique) (use assms in \<open>simp_all add: held_at_def\<close>)
  show "src_query inst (tf_src tf) \<Longrightarrow> mark_src (tf_src tf) p s = s"
    using assms by (intro mark_src_same) (simp add: held_at_def tf_matches_def matches_iff)
qed (use assms in \<open>auto simp: held_at_def\<close>)

lemma is_frag_find:
  assumes "tf_ok cap inst tf" and "is_frag tf k f" and "k < tf_n tf"
  shows "matches inst (rf_seq f) (unat (rf_total f)) (rf_frag_total f) (rf_src f) s = tf_matches inst tf s"
  using is_fragD[OF assms] by (simp add: tf_matches_def[abs_def])

lemma rx_next:
  assumes laws: "clock_laws Z" "net_buf_laws Z cnt cap"
    and inv: "pool_inv Z inst s" and fits: "pool_fits cnt cap inst"
    and query: "src_query inst (tf_src tf)" and tf: "tf_ok cap inst tf" and k: "k < tf_n tf"
    and f: "is_frag tf k f" and held: "held Z inst tf k s"
    and run: "rx_step Z inst f s = Some (out, s')"
    and time: "ktime Z (kern s') < tf_since tf + unat (pl_rx_timeout_ms inst)"
  shows "advanced Z inst tf k out s'"
proof -
  note fD = is_fragD[OF tf f k]
  have query': "src_query inst (rf_src f)" using query fD(5) by simp
  obtain p h nb t where ha: "held_at Z inst tf k s p h nb t" using held by (auto simp: held_def)
  obtain s1 r s2 where tr: "rx_trace Z inst f s s1 r s2 out s'"
    by (rule rx_step_trace[OF laws inv fits query' fD(10,7,9) run])
  note h1 = held_trace[OF ha query tr time]
  note hD = held_atD[OF h1]
  have r: "r = Some p" and s2: "s2 = s1" and inv1: "pool_inv Z inst s1"
    using tr hD(9) unfolding rx_trace_def is_frag_find[OF tf f k] by auto
  obtain ret where ret: "out = Some (p, ret)"
    "transport_buffer_write Z (Some p) (rf_idx f) (Some (rf_payload f)) (rf_len f) s1 = Some (ret, s')"
    "src_ids (mem s') = src_ids (mem s1)"
    using tr r s2 hD(10)[OF query] fD(5) unfolding rx_trace_def by auto
  note n = write_next[OF laws inv1 fits query tf k f hD(1-8) ret(2,3)]
  show ?thesis using n ret(1) by (auto simp: advanced_def)
qed

text \<open>The first fragment starts the transfer in a free context.\<close>

lemma rx_first:
  assumes laws: "clock_laws Z" "net_buf_laws Z cnt cap"
    and inv: "pool_inv Z inst s" and fits: "pool_fits cnt cap inst"
    and query: "src_query inst (tf_src tf)" and tf: "tf_ok cap inst tf"
    and f: "is_frag tf 0 f" and aw: "awaited Z inst tf s"
    and run: "rx_step Z inst f s = Some (out, s')"
  shows "advanced Z inst tf 0 out s'"
proof -
  have k: "0 < tf_n tf" using tf n_chunks_pos by (simp add: tf_ok_def tf_n_def)
  note fD = is_fragD[OF tf f k]
  have query': "src_query inst (rf_src f)" using query fD(5) by simp
  obtain s1 r s2 where tr: "rx_trace Z inst f s s1 r s2 out s'"
    by (rule rx_step_trace[OF laws inv fits query' fD(10,7,9) run])
  have fr: "expire_frame Z inst s s1" and eff: "\<And>q. q \<in> set (pool_ptrs inst) \<Longrightarrow> expire_effect Z inst s s1 q"
    using tr by (auto simp: rx_trace_def)
  have no: "\<not> tf_matches inst tf s1 q" if "q \<in> set (pool_ptrs inst)" for q
    using aw expire_keeps_matching[OF query eff[OF that] fr] that by (auto simp: awaited_def)
  then have none: "find (tf_matches inst tf s1) (pool_ptrs inst) = None" by (intro find_NoneI)
  obtain q where q: "q \<in> set (pool_ptrs inst)" "tb_state (tb_at s1 q) = TRANSPORT_BUFFER_STATE_FREE"
    using aw expiry_keeps_free[OF eff] by (auto simp: awaited_def)
  obtain p where p: "r = Some p" "tb_state (tb_at s1 p) = TRANSPORT_BUFFER_STATE_FREE"
  proof -
    have "r = find (\<lambda>p. tb_state (tb_at s1 p) = TRANSPORT_BUFFER_STATE_FREE) (pool_ptrs inst)"
      using tr none fD(3) q unfolding rx_trace_def is_frag_find[OF tf f k]
      by (auto simp: find_None_iff)
    moreover have "find (\<lambda>p. tb_state (tb_at s1 p) = TRANSPORT_BUFFER_STATE_FREE) (pool_ptrs inst) \<noteq> None"
      using q by (auto simp: find_None_iff)
    ultimately show ?thesis using that find_SomeD by fastforce
  qed
  have pin: "p \<in> set (pool_ptrs inst)" using tr p(1) by (auto simp: rx_trace_def)
  have "\<not> tf_matches inst tf s1 p" using no pin by blast
  then obtain h where h: "tb_at s2 p = fresh_ctx (tf_seq tf) (length (tf_msg tf)) (of_nat (tf_n tf)) h
        (of_nat (ktime Z (kern s2)))"
      "bufs Z (kern s2) h = Some \<lparr>nb_pool = pl_buffer_pool inst, nb_ref = 1, nb_data = []\<rparr>"
      "\<And>q. q \<noteq> p \<Longrightarrow> tb_at s2 q = tb_at s1 q" "pool_inv Z inst s2" "src_ids (mem s2) = src_ids (mem s)"
    using tr p(1) fD unfolding rx_trace_def is_frag_find[OF tf f k] by auto
  let ?m = "mark_src (tf_src tf) p s2"
  obtain ret where ret: "out = Some (p, ret)"
    "transport_buffer_write Z (Some p) (rf_idx f) (Some (rf_payload f)) (rf_len f) ?m = Some (ret, s')"
    "src_ids (mem s') = src_ids (mem ?m)"
    using tr p(1) fD(5) unfolding rx_trace_def by auto
  have since: "tf_since tf \<le> ktime Z (kern ?m)"
    using aw fr tr unfolding awaited_def expire_frame_def rx_trace_def by simp
  have mp: "tf_matches inst tf ?m p"
    using h(1) tf by (auto simp: tf_matches_def matches_iff[OF query] fresh_ctx_def src_ids_mark_src
        tf_ok_def unat_of_nat_u16)
  have uniq: "q = p" if "q \<in> set (pool_ptrs inst)" "tf_matches inst tf ?m q" for q
  proof (rule ccontr)
    assume ne: "q \<noteq> p"
    have "src_ids (mem ?m) q = src_ids (mem s1) q"
      using ne h(5) fr by (simp add: src_ids_mark_src expire_frame_def only_buffers_def split: option.splits)
    with that(2) tf_matches_cong[OF query, of ?m q s1] h(3)[OF ne] have "tf_matches inst tf s1 q" by simp
    with no[OF that(1)] show False by simp
  qed
  have hb: "tb_buffer (tb_at ?m p) = Some h" and hi: "tb_frag_idx (tb_at ?m p) = of_nat 0"
    using h(1) by (simp_all add: fresh_ctx_def)
  have nb: "bufs Z (kern ?m) h = Some \<lparr>nb_pool = pl_buffer_pool inst, nb_ref = 1, nb_data = []\<rparr>"
    using h(2) by simp
  have inv2: "pool_inv Z inst ?m" using h(4) by simp
  note n = write_next[OF laws inv2 fits query tf k f pin mp uniq hb hi nb _ since ret(2,3)]
  show ?thesis using n ret(1) by (auto simp: advanced_def)
qed

text \<open>A retransmission of an earlier fragment is recognised and changes nothing of the transfer.\<close>

lemma rx_repeat:
  assumes laws: "clock_laws Z" "net_buf_laws Z cnt cap"
    and inv: "pool_inv Z inst s" and fits: "pool_fits cnt cap inst"
    and query: "src_query inst (tf_src tf)" and tf: "tf_ok cap inst tf" and k: "k \<le> tf_n tf"
    and f: "is_frag tf j f" and j: "j < k" and held: "held Z inst tf k s"
    and run: "rx_step Z inst f s = Some (out, s')"
    and time: "ktime Z (kern s') < tf_since tf + unat (pl_rx_timeout_ms inst)"
  shows "(\<exists>p. out = Some (p, TRANSPORT_BUFFER_WRITE_RET_DUPLICATE)) \<and> held Z inst tf k s'"
proof -
  have jn: "j < tf_n tf" using j k by simp
  note fD = is_fragD[OF tf f jn]
  have query': "src_query inst (rf_src f)" using query fD(5) by simp
  obtain p h nb t where ha: "held_at Z inst tf k s p h nb t" using held by (auto simp: held_def)
  obtain s1 r s2 where tr: "rx_trace Z inst f s s1 r s2 out s'"
    by (rule rx_step_trace[OF laws inv fits query' fD(10,7,9) run])
  note h1 = held_trace[OF ha query tr time]
  note hD = held_atD[OF h1]
  have r: "r = Some p" and s2: "s2 = s1"
    using tr hD(9) unfolding rx_trace_def is_frag_find[OF tf f jn] by auto
  obtain ret where ret: "out = Some (p, ret)"
    "transport_buffer_write Z (Some p) (rf_idx f) (Some (rf_payload f)) (rf_len f) s1 = Some (ret, s')"
    using tr r s2 hD(10)[OF query] fD(5) unfolding rx_trace_def by auto
  have "k < 256" using k tf by (simp add: tf_ok_def)
  then have "rf_idx f < tb_frag_idx (tb_at s1 p)"
    using fD(3) hD(5) j by (simp add: word_less_nat_alt unat_of_nat_u8)
  from write_reject(5)[OF fD(8) this] ret(2) have "ret = TRANSPORT_BUFFER_WRITE_RET_DUPLICATE" "s' = s1"
    by simp_all
  with ret(1) h1 show ?thesis unfolding held_def by blast
qed

text \<open>A fragment of another transfer does not disturb this one.\<close>

definition same_key :: "transfer \<Rightarrow> rx_frag \<Rightarrow> bool" where
  "same_key tf g \<longleftrightarrow> rf_seq g = tf_seq tf \<and> unat (rf_total g) = length (tf_msg tf) \<and>
     rf_frag_total g = of_nat (tf_n tf) \<and> rf_src g = tf_src tf"

lemma src_query_same_kind:
  "src_query inst a \<Longrightarrow> src_query inst b \<Longrightarrow> a = None \<longleftrightarrow> b = None"
  by (auto simp: src_query_def split: option.splits)

lemma both_match:
  assumes qa: "src_query inst (tf_src tf)" and qb: "src_query inst (rf_src g)"
    and a: "tf_matches inst tf s p"
    and b: "tb_seq_id (tb_at s p) = rf_seq g" "tb_frag_total (tb_at s p) = rf_frag_total g"
      "unat (tb_total_size_bytes (tb_at s p)) = unat (rf_total g)"
      "\<And>src. rf_src g = Some src \<Longrightarrow> src_ids (mem s) p = src"
  shows "same_key tf g"
proof -
  note a' = a[unfolded tf_matches_def matches_iff[OF qa]]
  have "rf_src g = tf_src tf"
    using a' b(4) src_query_same_kind[OF qa qb]
    by (cases "rf_src g"; cases "tf_src tf") auto
  with a' b(1-3) show ?thesis by (auto simp: same_key_def)
qed

lemma rx_other:
  assumes laws: "clock_laws Z" "net_buf_laws Z cnt cap"
    and inv: "pool_inv Z inst s" and fits: "pool_fits cnt cap inst"
    and query: "src_query inst (tf_src tf)" and query': "src_query inst (rf_src g)"
    and small: "unat (rf_total g) \<le> cap (pl_buffer_pool inst)"
    and len: "rf_len g \<le> length (rf_payload g)" "rf_len g < 2 ^ 16"
    and key: "\<not> same_key tf g" and held: "held Z inst tf k s"
    and run: "rx_step Z inst g s = Some (out, s')"
    and time: "ktime Z (kern s') < tf_since tf + unat (pl_rx_timeout_ms inst)"
  shows "held Z inst tf k s'"
proof -
  obtain p h nb t where ha: "held_at Z inst tf k s p h nb t" using held by (auto simp: held_def)
  obtain s1 r s2 where tr: "rx_trace Z inst g s s1 r s2 out s'"
    by (rule rx_step_trace[OF laws inv fits query' small len run])
  note h1 = held_trace[OF ha query tr time]
  note hD = held_atD[OF h1]
  show ?thesis
  proof (cases r)
    case None
    then have "s' = s1" using tr by (simp add: rx_trace_def)
    with h1 show ?thesis unfolding held_def by blast
  next
    case (Some q)
    have sel: "s2 = s1 \<and> matches inst (rf_seq g) (unat (rf_total g)) (rf_frag_total g) (rf_src g) s1 q \<or>
        tb_state (tb_at s1 q) = TRANSPORT_BUFFER_STATE_FREE \<and>
        (\<exists>g. bufs Z (kern s1) g = None \<and> bufs Z (kern s2) =
           (bufs Z (kern s1))(g \<mapsto> \<lparr>nb_pool = pl_buffer_pool inst, nb_ref = 1, nb_data = []\<rparr>))"
      and qin: "q \<in> set (pool_ptrs inst)" and o2: "\<And>x. x \<noteq> q \<Longrightarrow> tb_at s2 x = tb_at s1 x"
      and inv2: "pool_inv Z inst s2" and ids2: "src_ids (mem s2) = src_ids (mem s)"
      using tr Some unfolding rx_trace_def by blast+
    have w: "\<And>x. x \<noteq> q \<Longrightarrow> tb_at s' x = tb_at s2 x" "tb_seq_id (tb_at s' q) = rf_seq g"
      "unat (tb_total_size_bytes (tb_at s' q)) = unat (rf_total g)" "tb_frag_total (tb_at s' q) = rf_frag_total g"
      "src_ids (mem s') = src_ids (mem (mark_src (rf_src g) q s2))"
      "\<And>x. tb_buffer (tb_at s2 q) \<noteq> Some x \<Longrightarrow> bufs Z (kern s') x = bufs Z (kern s2) x"
      using tr Some unfolding rx_trace_def by auto
    have ids1: "src_ids (mem s1) = src_ids (mem s)" and le: "ktime Z (kern s1) \<le> ktime Z (kern s')"
      using tr by (auto simp: rx_trace_def expire_frame_def only_buffers_def)
    have pq: "p \<noteq> q"
    proof
      assume "p = q"
      with sel hD(2) tf_matches_receiving[OF query hD(2)]
      have "matches inst (rf_seq g) (unat (rf_total g)) (rf_frag_total g) (rf_src g) s1 p" by auto
      note this[unfolded matches_iff[OF query']]
      then have "same_key tf g"
        by (intro both_match[OF query query' hD(2)]) simp_all
      with key show False by simp
    qed
    have ctx: "tb_at s' p = tb_at s1 p" using w(1) o2 pq by simp
    have h2: "bufs Z (kern s2) h = bufs Z (kern s1) h" using sel hD(6) by auto
    have "tb_buffer (tb_at s2 q) \<noteq> Some h"
      using pool_okD(3)[of inst "tbs (mem s2)" "bufs Z (kern s2)" p q h] inv2 hD(1,4) qin o2[OF pq] pq
      by (auto simp: pool_inv_def tb_at_def)
    then have hb: "bufs Z (kern s') h = Some nb" using w(6) h2 hD(6) by simp
    have same: "tf_matches inst tf s' x = tf_matches inst tf s1 x" if "x \<noteq> q" for x
    proof (rule tf_matches_cong[OF query])
      show "tb_at s' x = tb_at s1 x" using that w(1) o2 by simp
      show "src_ids (mem s') x = src_ids (mem s1) x"
        using that w(5) ids1 ids2 by (simp add: src_ids_mark_src split: option.splits)
    qed
    have nq: "\<not> tf_matches inst tf s' q"
    proof
      assume "tf_matches inst tf s' q"
      then have "same_key tf g"
        by (rule both_match[OF query query'])
          (use w in \<open>simp_all add: src_ids_mark_src\<close>)
      with key show False by simp
    qed
    have "held_at Z inst tf k s' p h nb t"
      unfolding held_at_def
    proof (intro conjI ballI impI)
      show "x = p" if "x \<in> set (pool_ptrs inst)" "tf_matches inst tf s' x" for x
        using that nq same hD(3) by metis
      show "t \<le> ktime Z (kern s')" using h1 le by (simp add: held_at_def)
    qed (use h1 ctx hb same[OF pq] in \<open>simp_all add: held_at_def\<close>)
    then show ?thesis unfolding held_def by blast
  qed
qed

text \<open>Whatever leaves the contexts, the noted senders and the network buffers alone.\<close>

definition same_rx :: "'k zephyr \<Rightarrow> ('k, 'a) machine_scheme \<Rightarrow> ('k, 'a) machine_scheme \<Rightarrow> bool" where
  "same_rx Z s s' \<longleftrightarrow> mem s' = mem s \<and> bufs Z (kern s') = bufs Z (kern s) \<and>
     ktime Z (kern s) \<le> ktime Z (kern s')"

lemma same_rx_refl [simp]: "same_rx Z s s"
  by (simp add: same_rx_def)

lemma same_rx_trans: "same_rx Z s t \<Longrightarrow> same_rx Z t u \<Longrightarrow> same_rx Z s u"
  by (simp add: same_rx_def)

lemma same_rx_pool:
  assumes "same_rx Z s s'"
  shows "pool_inv Z inst s' = pool_inv Z inst s" and "tb_at s' p = tb_at s p"
    and "tf_matches inst tf s' p = tf_matches inst tf s p"
  using assms by (simp_all add: same_rx_def pool_inv_def tb_at_def tf_matches_def matches_def cong: option.case_cong)

lemma same_rx_transfer:
  assumes "same_rx Z s s'"
  shows "held Z inst tf k s \<Longrightarrow> held Z inst tf k s'"
    and "awaited Z inst tf s \<Longrightarrow> awaited Z inst tf s'"
    and "assembled Z inst tf s p \<Longrightarrow> assembled Z inst tf s' p"
proof -
  note same = same_rx_pool[OF assms]
  have a: "mem s' = mem s" "bufs Z (kern s') = bufs Z (kern s)" "ktime Z (kern s) \<le> ktime Z (kern s')"
    using assms by (simp_all add: same_rx_def)
  show "held Z inst tf k s'" if held: "held Z inst tf k s"
  proof -
    obtain p h nb t where ha: "held_at Z inst tf k s p h nb t" using held by (auto simp: held_def)
    have "t \<le> ktime Z (kern s')" using ha a(3) by (simp add: held_at_def)
    then have "held_at Z inst tf k s' p h nb t" using ha unfolding held_at_def same a(2) by blast
    then show ?thesis by (auto simp: held_def)
  qed
  show "awaited Z inst tf s'" if "awaited Z inst tf s"
    using that a(3) unfolding awaited_def same by (meson le_trans)
  show "assembled Z inst tf s' p" if "assembled Z inst tf s p"
    using that unfolding assembled_def same a(1,2) .
qed

section \<open>Delivery in spite of retransmissions\<close>

text \<open>
  A run of a receiver: fragments of one transfer, by number, and other events in between.
  \<open>expect k evs\<close> follows the order of the fragments from the point where \<open>k\<close> of them have
  been received: each is the next one or a repetition, and nothing else happens before the
  first. It is the number received in the end, if the order is of that kind.
\<close>

fun feed ::
  "('e \<Rightarrow> 's \<Rightarrow> 's option) \<Rightarrow> (nat \<Rightarrow> 's \<Rightarrow> 's option) \<Rightarrow> ('e + nat) list \<Rightarrow> 's \<Rightarrow> 's option" where
  "feed other rx [] s = Some s"
| "feed other rx (Inl e # evs) s = do { s' \<leftarrow> other e s; feed other rx evs s' }"
| "feed other rx (Inr i # evs) s = do { s' \<leftarrow> rx i s; feed other rx evs s' }"

fun expect :: "nat \<Rightarrow> ('e + nat) list \<Rightarrow> nat option" where
  "expect k [] = Some k"
| "expect k (Inl e # evs) = (if k = 0 then None else expect k evs)"
| "expect k (Inr i # evs) =
     (if i < k then expect k evs else if i = k then expect (Suc k) evs else None)"

lemma expect_mono: "expect k evs = Some m \<Longrightarrow> k \<le> m"
  by (induction k evs rule: expect.induct) (auto split: if_splits)

lemma expect_append:
  "expect k (xs @ ys) = (case expect k xs of None \<Rightarrow> None | Some m \<Rightarrow> expect m ys)"
  by (induction k xs rule: expect.induct) auto

lemma expect_repeats: "i < k \<Longrightarrow> expect k (replicate n (Inr i)) = Some k"
  by (induction n) auto

text \<open>What an acknowledged sender produces: every fragment at least once, in order.\<close>

lemma expect_retransmissions:
  assumes "\<And>i. i \<in> {k..<m} \<Longrightarrow> 1 \<le> c i" and "k \<le> m"
  shows "expect k (concat (map (\<lambda>i. replicate (c i) (Inr i)) [k..<m])) = Some m"
  using assms(2) assms(1)
proof (induction m rule: dec_induct)
  case base
  then show ?case by simp
next
  case (step m)
  obtain n where n: "c m = Suc n" using step.prems[of m] step.hyps by (cases "c m") auto
  with step show ?case by (auto simp: expect_append expect_repeats)
qed

text \<open>
  The contract of a receiver: \<open>rep c k s\<close> says that \<open>k\<close> fragments of case \<open>c\<close> have been received.
\<close>

locale fragment_receiver =
  fixes valid :: "'c \<Rightarrow> bool"
    and fragments :: "'c \<Rightarrow> nat"
    and rx :: "'c \<Rightarrow> nat \<Rightarrow> 's \<Rightarrow> 's option"
    and other :: "'c \<Rightarrow> 'e \<Rightarrow> 's \<Rightarrow> 's option"
    and admits :: "'c \<Rightarrow> 'e \<Rightarrow> bool"
    and rep :: "'c \<Rightarrow> nat \<Rightarrow> 's \<Rightarrow> bool"
    and final :: "'c \<Rightarrow> 's option \<Rightarrow> bool"
  assumes advance: "valid c \<Longrightarrow> rep c k s \<Longrightarrow> Suc k < fragments c \<Longrightarrow>
      \<exists>s'. rx c k s = Some s' \<and> rep c (Suc k) s'"
    and repeat: "valid c \<Longrightarrow> rep c k s \<Longrightarrow> j < k \<Longrightarrow> k < fragments c \<Longrightarrow>
      \<exists>s'. rx c j s = Some s' \<and> rep c k s'"
    and undisturbed: "valid c \<Longrightarrow> rep c k s \<Longrightarrow> 0 < k \<Longrightarrow> admits c e \<Longrightarrow>
      \<exists>s'. other c e s = Some s' \<and> rep c k s'"
    and finish: "valid c \<Longrightarrow> rep c k s \<Longrightarrow> Suc k = fragments c \<Longrightarrow> final c (rx c k s)"
begin

lemma feed_rep:
  assumes "valid c" and "rep c k s" and "expect k evs = Some m" and "m < fragments c"
    and "\<And>e. Inl e \<in> set evs \<Longrightarrow> admits c e"
  shows "\<exists>s'. feed (other c) (rx c) evs s = Some s' \<and> rep c m s'"
  using assms(2-5)
proof (induction "other c" "rx c" evs s arbitrary: k rule: feed.induct)
  case (1 s)
  then show ?case by simp
next
  case (2 e evs s)
  then obtain s' where "other c e s = Some s'" "rep c k s'"
    using undisturbed[OF assms(1), of k s e] by (auto split: if_splits)
  with 2 show ?case by (auto split: if_splits)
next
  case (3 i evs s)
  then consider "i < k" "expect k evs = Some m" | "i = k" "expect (Suc k) evs = Some m"
    by (auto split: if_splits)
  then show ?case
  proof cases
    case 1
    moreover from this(2) have "k < fragments c" using expect_mono 3(4) by fastforce
    ultimately obtain s' where "rx c i s = Some s'" "rep c k s'"
      using repeat[OF assms(1) 3(2)] by blast
    with 3(1,4,5) 1 show ?thesis by auto
  next
    case 2
    moreover from this(2) have "Suc k < fragments c" using expect_mono 3(4) by fastforce
    ultimately obtain s' where "rx c i s = Some s'" "rep c (Suc k) s'"
      using advance[OF assms(1) 3(2)] by blast
    with 3(1,4,5) 2 show ?thesis by auto
  qed
qed

text \<open>Every run in such an order ends with the delivery.\<close>

lemma reassembles:
  assumes "valid c" and "rep c 0 s" and "expect 0 evs = Some m" and "Suc m = fragments c"
    and "\<And>e. Inl e \<in> set evs \<Longrightarrow> admits c e"
  shows "\<exists>s'. feed (other c) (rx c) evs s = Some s' \<and> final c (rx c m s')"
  using feed_rep[OF assms(1,2,3) _ assms(5)] finish[OF assms(1)] assms(4) by fastforce

end

end
