(* ===== verification/Alfie_Transport.thy ===== *)
theory Alfie_Transport
  imports Dect_Link_Layer Reassembly
begin

text \<open>
  \<^verbatim>\<open>alfie/app/src/alfie/alfie_transport.h\<close>: the interface through which the router uses its two
  transports, as a record of function pointers. A transport is called by the pointer to its
  node. The theory also holds what the two implementations share: the retry loop and the
  fragment loop of their transmit paths have the same shape (their lemmas are in \<open>Send_Path\<close>),
  and so has the way they hand a message up.
\<close>

section \<open>Types\<close>

datatype alfie_transport_type_t = ALFIE_TRANSPORT_TYPE_UPSTREAM | ALFIE_TRANSPORT_TYPE_DOWNSTREAM

record alfie_transport_api_t =
  api_write :: "fn_ptr option"
  api_register_rx_cb :: "fn_ptr option"

record alfie_transport_t =
  tr_api :: "alfie_transport_api_t option"
  tr_type :: alfie_transport_type_t

text \<open>Zero-initialised memory.\<close>

definition transport_zero :: alfie_transport_t where
  "transport_zero = \<lparr>tr_api = None, tr_type = ALFIE_TRANSPORT_TYPE_UPSTREAM\<rparr>"

definition api_zero :: alfie_transport_api_t where
  "api_zero = \<lparr>api_write = None, api_register_rx_cb = None\<rparr>"

definition pool_zero :: "pool_id \<Rightarrow> transport_buffer_pool_t" where
  "pool_zero p = \<lparr>pl_buffer_pool = p, pl_num_buffers = 0, pl_buffer_size_bytes = 0,
     pl_context_size_bytes = 0, pl_rx_timeout_ms = 0, pl_contexts = p, pl_api = None\<rparr>"

section \<open>The loops of the transmit paths\<close>

text \<open>
  \<open>for (i = 0; i < n; i++) { reset; ret = write(); if (ret != 0) return ret; ret = take(); if
  (ret == 0) return 0; } return ret;\<close>
\<close>

fun attempts ::
  "('s \<Rightarrow> 's) \<Rightarrow> ('s \<Rightarrow> (int \<times> 's) option) \<Rightarrow> ('s \<Rightarrow> int \<times> 's) \<Rightarrow> nat \<Rightarrow> int \<Rightarrow> 's \<Rightarrow> (int \<times> 's) option"
  where
  "attempts reset write take_ack 0 ret s = Some (ret, s)"
| "attempts reset write take_ack (Suc n) ret s = do {
     (ret1, s1) \<leftarrow> write (reset s);
     if ret1 \<noteq> 0 then Some (ret1, s1)
     else let (ret2, s2) = take_ack s1
          in if ret2 = 0 then Some (0, s2) else attempts reset write take_ack n ret2 s2 }"

text \<open>
  \<open>for (i = 0; i < frag_total; i++) { frame = next(i, frame); ret = send(frame); if (ret != 0)
  return ret; } return 0;\<close>, over the indices it visits.
\<close>

fun send_all ::
  "(nat \<Rightarrow> 'f \<Rightarrow> 'f option) \<Rightarrow> (nat \<Rightarrow> 'f \<Rightarrow> 's \<Rightarrow> (int \<times> 's) option) \<Rightarrow> nat list \<Rightarrow> 'f \<Rightarrow> 's \<Rightarrow>
   (int \<times> 's) option" where
  "send_all next_frame send [] f s = Some (0, s)"
| "send_all next_frame send (i # is) f s = do {
     f' \<leftarrow> next_frame i f;
     (ret, s') \<leftarrow> send i f' s;
     if ret \<noteq> 0 then Some (ret, s') else send_all next_frame send is f' s' }"

section \<open>Handing a message up\<close>

text \<open>
  What a transport relies on when it calls its receive callback on a complete context: the
  callback returns, changes nothing but kernel objects, leaves the network buffers as they are
  except for taking references to the one it was given, queues nothing on the radio and gives no semaphore.
\<close>

definition consumes ::
  "'k zephyr \<Rightarrow> transport_buffer_pool_t \<Rightarrow>
   (tb_ptr \<Rightarrow> ('k, 'a) machine_scheme \<Rightarrow> ('k, 'a) machine_scheme option) \<Rightarrow> bool" where
  "consumes Z inst cb \<longleftrightarrow> (\<forall>s p h nb. pool_inv Z inst s \<and> p \<in> set (pool_ptrs inst) \<and>
     tb_state (tb_at s p) = TRANSPORT_BUFFER_STATE_REFERENCED \<and> tb_buffer (tb_at s p) = Some h \<and>
     bufs Z (kern s) h = Some nb \<longrightarrow>
     (\<exists>s' r. cb p s = Some s' \<and> s' = s\<lparr>kern := kern s'\<rparr> \<and>
        ktime Z (kern s) \<le> ktime Z (kern s') \<and>
        kv_txq (kview Z (kern s')) = kv_txq (kview Z (kern s)) \<and>
        kv_sem (kview Z (kern s')) = kv_sem (kview Z (kern s)) \<and>
        bufs Z (kern s') = (bufs Z (kern s))(h \<mapsto> nb\<lparr>nb_ref := nb_ref nb + r\<rparr>)))"

definition deliver_release ::
  "'k zephyr \<Rightarrow> (tb_ptr \<Rightarrow> ('k, 'a) machine_scheme \<Rightarrow> ('k, 'a) machine_scheme option) \<Rightarrow> tb_ptr \<Rightarrow>
   ('k, 'a) machine_scheme \<Rightarrow> ('k, 'a) machine_scheme option" where
  "deliver_release Z cb p s = do { s1 \<leftarrow> cb p s; transport_buffer_unref Z (Some p) s1 }"

lemma consumes_nothing: "consumes Z inst (\<lambda>p. Some)"
  unfolding consumes_def
proof (intro allI impI)
  fix s :: "('a, 'b) machine_scheme" and p h nb
  assume a: "pool_inv Z inst s \<and> p \<in> set (pool_ptrs inst) \<and>
     tb_state (tb_at s p) = TRANSPORT_BUFFER_STATE_REFERENCED \<and> tb_buffer (tb_at s p) = Some h \<and>
     bufs Z (kern s) h = Some nb"
  show "\<exists>s' r. Some s = Some s' \<and> s' = s\<lparr>kern := kern s'\<rparr> \<and>
        ktime Z (kern s) \<le> ktime Z (kern s') \<and>
        kv_txq (kview Z (kern s')) = kv_txq (kview Z (kern s)) \<and>
        kv_sem (kview Z (kern s')) = kv_sem (kview Z (kern s)) \<and>
        bufs Z (kern s') = (bufs Z (kern s))(h \<mapsto> nb\<lparr>nb_ref := nb_ref nb + r\<rparr>)"
    by (rule exI[of _ s], rule exI[of _ 0]) (use a in \<open>simp add: fun_upd_idem\<close>)
qed

text \<open>
  After the callback the transport drops its own reference: the context goes free, with its
  buffer, or stays with the references the callback took.
\<close>

lemma deliver_release_spec:
  assumes laws: "net_buf_laws Z cnt cap" and cb: "consumes Z inst cb"
    and inv: "pool_inv Z inst s" and p: "p \<in> set (pool_ptrs inst)"
    and st: "tb_state (tb_at s p) = TRANSPORT_BUFFER_STATE_REFERENCED"
    and h: "tb_buffer (tb_at s p) = Some h" and nb: "bufs Z (kern s) h = Some nb"
    and ref: "nb_ref nb = 1"
  obtains s' r where "deliver_release Z cb p s = Some s'" and "pool_inv Z inst s'" and "only_buffers s s'"
    and "ktime Z (kern s) \<le> ktime Z (kern s')"
    and "kv_txq (kview Z (kern s')) = kv_txq (kview Z (kern s))"
    and "kv_sem (kview Z (kern s')) = kv_sem (kview Z (kern s))"
    and "r = 0 \<Longrightarrow> tb_at s' p = release_ctx (tb_at s p) \<and> bufs Z (kern s') h = None"
    and "0 < r \<Longrightarrow> tb_at s' p = tb_at s p \<and> bufs Z (kern s') h = Some (nb\<lparr>nb_ref := r\<rparr>)"
    and "\<And>q. q \<noteq> p \<Longrightarrow> tb_at s' q = tb_at s q" and "\<And>g. g \<noteq> h \<Longrightarrow> bufs Z (kern s') g = bufs Z (kern s) g"
proof -
  obtain s1 r where s1: "cb p s = Some s1" "s1 = s\<lparr>kern := kern s1\<rparr>"
    and time1: "ktime Z (kern s) \<le> ktime Z (kern s1)"
    and s1': "kv_txq (kview Z (kern s1)) = kv_txq (kview Z (kern s))"
    "kv_sem (kview Z (kern s1)) = kv_sem (kview Z (kern s))"
    "bufs Z (kern s1) = (bufs Z (kern s))(h \<mapsto> nb\<lparr>nb_ref := nb_ref nb + r\<rparr>)"
    using cb[unfolded consumes_def, rule_format, OF conjI[OF inv conjI[OF p conjI[OF st conjI[OF h nb]]]]]
    by (elim exE conjE) (rule that)
  have tb: "tb_at s1 q = tb_at s q" for q
    using arg_cong[OF s1(2), of "\<lambda>x. tb_at x q"] by simp
  have mem1: "mem s1 = mem s" using arg_cong[OF s1(2), of mem] by simp
  have only1: "only_buffers s s1" using s1(2) mem1 by (simp add: only_buffers_def)
  have ok: "pool_ok inst (tbs (mem s)) (bufs Z (kern s))" using inv by (simp add: pool_inv_def)
  have "ctx_ok (pl_buffer_pool inst) (bufs Z (kern s)) (tb_at s p)"
    using pool_okD(2)[OF ok p] by (simp add: tb_at_def)
  then have new: "ctx_ok (pl_buffer_pool inst) ((bufs Z (kern s))(h \<mapsto> nb\<lparr>nb_ref := nb_ref nb + r\<rparr>)) (tb_at s p)"
    using st h nb by (simp add: ctx_ok_referenced)
  have "pool_ok inst ((tbs (mem s))(p := tb_at s p)) ((bufs Z (kern s))(h \<mapsto> nb\<lparr>nb_ref := nb_ref nb + r\<rparr>))"
    using h by (intro pool_ok_update[OF ok p _ h nb _ new]) (simp_all add: tb_at_def)
  then have inv1: "pool_inv Z inst s1"
    by (simp add: pool_inv_def s1'(3) mem1 tb_at_def)
  have h1: "tb_buffer (tb_at s1 p) = Some h" using h tb by simp
  have nb1: "bufs Z (kern s1) h = Some (nb\<lparr>nb_ref := 1 + r\<rparr>)" using s1'(3) ref by simp
  show ?thesis
  proof (cases "r = 0")
    case True
    have ref1: "nb_ref (nb\<lparr>nb_ref := 1 + r\<rparr>) = 1" using True by simp
    obtain s2 where s2: "transport_buffer_unref Z (Some p) s1 = Some s2" "pool_inv Z inst s2" "only_buffers s1 s2"
      "same_but_bufs (kview Z (kern s1)) (kview Z (kern s2))" "ktime Z (kern s1) \<le> ktime Z (kern s2)"
      "tb_at s2 p = release_ctx (tb_at s1 p)"
      "\<And>q. q \<noteq> p \<Longrightarrow> tb_at s2 q = tb_at s1 q" "bufs Z (kern s2) = (bufs Z (kern s1))(h := None)"
      by (rule unref_last[OF laws inv1 p h1 nb1 ref1]) blast
    show ?thesis
      by (rule that[of s2 r])
        (use s1(1) s1' time1 s2 True tb only_buffers_trans[OF only1 s2(3)] in
          \<open>simp_all add: deliver_release_def same_but_bufs_def\<close>)
  next
    case False
    have ref1: "1 < nb_ref (nb\<lparr>nb_ref := 1 + r\<rparr>)" using False by simp
    obtain s2 where s2: "transport_buffer_unref Z (Some p) s1 = Some s2" "pool_inv Z inst s2"
      "s2 = s1\<lparr>kern := kern s2\<rparr>" "same_but_bufs (kview Z (kern s1)) (kview Z (kern s2))"
      "ktime Z (kern s1) \<le> ktime Z (kern s2)" "bufs Z (kern s2) = (bufs Z (kern s1))(h \<mapsto> (nb\<lparr>nb_ref := 1 + r\<rparr>)\<lparr>nb_ref := nb_ref (nb\<lparr>nb_ref := 1 + r\<rparr>) - 1\<rparr>)"
      by (rule unref_shared[OF laws inv1 p h1 nb1 ref1]) blast
    have tb2: "tb_at s2 q = tb_at s q" for q
      using arg_cong[OF s2(3), of "\<lambda>x. tb_at x q"] tb by simp
    have "mem s2 = mem s1" using arg_cong[OF s2(3), of mem] by simp
    then have "only_buffers s1 s2" using s2(3) by (simp add: only_buffers_def)
    then show ?thesis
      by (intro that[of s2 r] only_buffers_trans[OF only1])
        (use s1(1) s1' time1 s2(1,2,4,5,6) False tb2 in \<open>simp_all add: deliver_release_def same_but_bufs_def\<close>)
  qed
qed

text \<open>Delivering one message does not disturb the reception of another.\<close>

lemma deliver_release_held:
  assumes laws: "net_buf_laws Z cnt cap" and cb: "consumes Z inst cb"
    and inv: "pool_inv Z inst s" and p: "p \<in> set (pool_ptrs inst)"
    and st: "tb_state (tb_at s p) = TRANSPORT_BUFFER_STATE_REFERENCED"
    and h: "tb_buffer (tb_at s p) = Some h" and nb: "bufs Z (kern s) h = Some nb"
    and ref: "nb_ref nb = 1" and query: "src_query inst (tf_src tf)" and held: "held Z inst tf k s"
    and run: "deliver_release Z cb p s = Some s'"
  shows "held Z inst tf k s'"
proof -
  obtain s'' r where s'': "deliver_release Z cb p s = Some s''" "pool_inv Z inst s''" "only_buffers s s''"
    "ktime Z (kern s) \<le> ktime Z (kern s'')"
    "kv_txq (kview Z (kern s'')) = kv_txq (kview Z (kern s))"
    "kv_sem (kview Z (kern s'')) = kv_sem (kview Z (kern s))"
    "r = 0 \<Longrightarrow> tb_at s'' p = release_ctx (tb_at s p) \<and> bufs Z (kern s'') h = None"
    "0 < r \<Longrightarrow> tb_at s'' p = tb_at s p \<and> bufs Z (kern s'') h = Some (nb\<lparr>nb_ref := r\<rparr>)"
    "\<And>q. q \<noteq> p \<Longrightarrow> tb_at s'' q = tb_at s q" "\<And>g. g \<noteq> h \<Longrightarrow> bufs Z (kern s'') g = bufs Z (kern s) g"
    by (rule deliver_release_spec[OF laws cb inv p st h nb ref], rule that; assumption?; simp)
  have eq: "s'' = s'" using run s''(1) by simp
  note s' = s''(2-)[unfolded eq]
  obtain q g nb' t where ha: "held_at Z inst tf k s q g nb' t" using held by (auto simp: held_def)
  note hD = held_atD[OF ha]
  have qp: "q \<noteq> p" using tf_matches_receiving[OF query hD(2)] st by auto
  have gh: "g \<noteq> h"
    using pool_okD(3)[of inst "tbs (mem s)" "bufs Z (kern s)" q p g] inv hD(1,4) p h qp
    by (auto simp: pool_inv_def tb_at_def)
  have ids: "src_ids (mem s') = src_ids (mem s)" using s'(2) by (auto simp: only_buffers_def)
  have same: "tf_matches inst tf s' x = tf_matches inst tf s x" if "x \<noteq> p" for x
    by (rule tf_matches_cong[OF query]) (simp_all add: s'(8)[OF that] ids)
  have np: "\<not> tf_matches inst tf s' p"
  proof
    assume "tf_matches inst tf s' p"
    from tf_matches_receiving[OF query this] st s'(6,7) show False by (cases "r = 0") (auto simp: release_ctx_def)
  qed
  have "held_at Z inst tf k s' q g nb' t"
    unfolding held_at_def
  proof (intro conjI ballI impI)
    show "x = q" if "x \<in> set (pool_ptrs inst)" "tf_matches inst tf s' x" for x
      using that np same hD(3) by metis
    show "t \<le> ktime Z (kern s')" using ha s'(3) by (simp add: held_at_def)
  qed (use ha s'(8)[OF qp] s'(9)[OF gh] same[OF qp] in \<open>simp_all add: held_at_def\<close>)
  then show ?thesis unfolding held_def by blast
qed

end
