(* ===== verification/Receive_Path.thy ===== *)
theory Receive_Path
  imports Alfie_Transport
begin

text \<open>
  The receive paths of the two transports have one shape: a frame that carries a fragment goes
  through the pool (\<open>rx_step\<close>), then it is acknowledged, and the fragment that completes a message
  hands it up; any other frame leaves the pool alone. The locale \<open>message_handler\<close> states this
  shape and proves that such a handler never faults and does not disturb the reception of other
  messages. \<open>message_transfer\<close> adds one transfer, and \<open>message_receiver\<close> what happens between frames;
  it is a \<open>fragment_receiver\<close>, so messages are
  delivered in spite of retransmissions. The locales are interpreted for
  \<^verbatim>\<open>dect_transport_layer.c\<close> and for \<^verbatim>\<open>alfie_ble_service.c\<close>.
\<close>

section \<open>What follows the pool\<close>

definition rx_outcome ::
  "('h \<Rightarrow> 's \<Rightarrow> 's option) \<Rightarrow> (tb_ptr \<Rightarrow> 's \<Rightarrow> 's option) \<Rightarrow> 'h \<Rightarrow>
   (tb_ptr \<times> transport_buffer_write_ret_t) option \<Rightarrow> 's \<Rightarrow> 's option" where
  "rx_outcome ack handle h out s = (case out of
     Some (p, TRANSPORT_BUFFER_WRITE_RET_SUCCESS) \<Rightarrow> ack h s
   | Some (p, TRANSPORT_BUFFER_WRITE_RET_DUPLICATE) \<Rightarrow> ack h s
   | Some (p, TRANSPORT_BUFFER_WRITE_RET_COMPLETE) \<Rightarrow> do { s' \<leftarrow> ack h s; handle p s' }
   | _ \<Rightarrow> Some s)"

lemma rx_outcome_acked:
  "ret = TRANSPORT_BUFFER_WRITE_RET_SUCCESS \<or> ret = TRANSPORT_BUFFER_WRITE_RET_DUPLICATE \<Longrightarrow>
   rx_outcome ack handle h (Some (p, ret)) s = ack h s"
  by (auto simp: rx_outcome_def)

lemma rx_outcome_complete:
  "rx_outcome ack handle h (Some (p, TRANSPORT_BUFFER_WRITE_RET_COMPLETE)) s =
     do { s' \<leftarrow> ack h s; handle p s' }"
  by (simp add: rx_outcome_def)

lemma rx_outcome_cases:
  obtains (acked) p ret where "out = Some (p, ret)"
      "ret = TRANSPORT_BUFFER_WRITE_RET_SUCCESS \<or> ret = TRANSPORT_BUFFER_WRITE_RET_DUPLICATE"
    | (complete) p where "out = Some (p, TRANSPORT_BUFFER_WRITE_RET_COMPLETE)"
    | (none) "\<And>s. rx_outcome ack handle h out s = Some s"
proof (cases out)
  case None
  then show thesis by (intro none) (simp add: rx_outcome_def)
next
  case (Some x)
  obtain p ret where "x = (p, ret)" by (cases x)
  with Some show thesis by (cases ret) (auto simp: rx_outcome_def intro: acked complete none)
qed

text \<open>A context is ready to be handed up: complete, with its buffer and one reference.\<close>

definition deliverable ::
  "'k zephyr \<Rightarrow> transport_buffer_pool_t \<Rightarrow> (tb_ptr \<times> transport_buffer_write_ret_t) option \<Rightarrow>
   ('k, 'a) machine_scheme \<Rightarrow> bool" where
  "deliverable Z inst out s \<longleftrightarrow> (\<forall>p. out = Some (p, TRANSPORT_BUFFER_WRITE_RET_COMPLETE) \<longrightarrow>
     p \<in> set (pool_ptrs inst) \<and> tb_state (tb_at s p) = TRANSPORT_BUFFER_STATE_REFERENCED \<and>
     (\<exists>h nb. tb_buffer (tb_at s p) = Some h \<and> bufs Z (kern s) h = Some nb \<and> nb_ref nb = 1))"

lemma rx_step_deliverable:
  assumes laws: "clock_laws Z" "net_buf_laws Z cnt cap"
    and inv: "pool_inv Z inst s" and fits: "pool_fits cnt cap inst" and query: "src_query inst (rf_src f)"
    and small: "unat (rf_total f) \<le> cap (pl_buffer_pool inst)"
    and len: "rf_len f \<le> length (rf_payload f)" "rf_len f < 2 ^ 16"
  obtains out s2 where "rx_step Z inst f s = Some (out, s2)" and "deliverable Z inst out s2"
    and "pool_inv Z inst s2" and "only_rx s s2"
    and "same_but_bufs (kview Z (kern s)) (kview Z (kern s2))" and "ktime Z (kern s) \<le> ktime Z (kern s2)"
proof (rule rx_step_cases[OF laws inv fits query small len], goal_cases)
  case (1 s1 r s2 out s')
  have "deliverable Z inst out s'"
    unfolding deliverable_def
  proof (intro allI impI)
    fix p assume out: "out = Some (p, TRANSPORT_BUFFER_WRITE_RET_COMPLETE)"
    have "r \<noteq> None" using 1(11) out by blast
    then obtain q where q: "r = Some q" by blast
    from 1(12)[OF q] out have "q = p" "tb_state (tb_at s' p) = TRANSPORT_BUFFER_STATE_REFERENCED"
      "tb_buffer (tb_at s' p) = tb_buffer (tb_at s2 p)"
      "\<exists>h nb. tb_buffer (tb_at s2 p) = Some h \<and> bufs Z (kern s') h = Some nb \<and> nb_ref nb = 1"
      by auto
    with 1(10) q show "p \<in> set (pool_ptrs inst) \<and> tb_state (tb_at s' p) = TRANSPORT_BUFFER_STATE_REFERENCED \<and>
       (\<exists>h nb. tb_buffer (tb_at s' p) = Some h \<and> bufs Z (kern s') h = Some nb \<and> nb_ref nb = 1)"
      by auto
  qed
  moreover have "ktime Z (kern s) \<le> ktime Z (kern s')"
    using 1(5,8,15) by (simp add: expire_frame_def)
  ultimately show thesis by (rule that[OF 1(3) _ 1(13,14,16)])
qed

section \<open>A handler of frames\<close>

text \<open>
  \<open>ready\<close> holds between frames, \<open>settled\<close> after a frame has been handled. \<open>frag e\<close> is the fragment
  the frame \<open>e\<close> carries, with what its ACK is made from; \<open>handle\<close> hands a message up through the
  callback \<open>cb\<close>.
\<close>

locale message_handler =
  fixes env :: "'c \<Rightarrow> bool"
    and Z :: "'c \<Rightarrow> 'k zephyr"
    and cnt cap :: "'c \<Rightarrow> pool_id \<Rightarrow> nat"
    and inst :: "'c \<Rightarrow> transport_buffer_pool_t"
    and ready settled :: "'c \<Rightarrow> ('k, 'a) machine_scheme \<Rightarrow> bool"
    and ack :: "'c \<Rightarrow> 'h \<Rightarrow> ('k, 'a) machine_scheme \<Rightarrow> ('k, 'a) machine_scheme option"
    and cb handle :: "'c \<Rightarrow> tb_ptr \<Rightarrow> ('k, 'a) machine_scheme \<Rightarrow> ('k, 'a) machine_scheme option"
    and ok :: "'c \<Rightarrow> 'e \<Rightarrow> bool"
    and frag :: "'e \<Rightarrow> (rx_frag \<times> 'h) option"
    and rx :: "'c \<Rightarrow> 'e \<Rightarrow> ('k, 'a) machine_scheme \<Rightarrow> ('k, 'a) machine_scheme option"
  assumes clock: "env c \<Longrightarrow> clock_laws (Z c)"
    and net_buf: "env c \<Longrightarrow> net_buf_laws (Z c) (cnt c) (cap c)"
    and fits: "env c \<Longrightarrow> pool_fits (cnt c) (cap c) (inst c)"
    and consumer: "env c \<Longrightarrow> consumes (Z c) (inst c) (cb c)"
    and settled_inv: "settled c s \<Longrightarrow> pool_inv (Z c) (inst c) s"
    and ready_settled: "ready c s \<Longrightarrow> settled c s"
    and ready_rx: "ready c s \<Longrightarrow> only_rx s s' \<Longrightarrow> pool_inv (Z c) (inst c) s' \<Longrightarrow>
      same_but_bufs (kview (Z c) (kern s)) (kview (Z c) (kern s')) \<Longrightarrow> ready c s'"
    and settled_buffers: "settled c s \<Longrightarrow> only_buffers s s' \<Longrightarrow> pool_inv (Z c) (inst c) s' \<Longrightarrow>
      kv_txq (kview (Z c) (kern s')) = kv_txq (kview (Z c) (kern s)) \<Longrightarrow>
      kv_sem (kview (Z c) (kern s')) = kv_sem (kview (Z c) (kern s)) \<Longrightarrow> settled c s'"
    and acks: "env c \<Longrightarrow> ready c s \<Longrightarrow> \<exists>s'. ack c h s = Some s' \<and> same_rx (Z c) s s' \<and> settled c s'"
    and handles: "settled c s \<Longrightarrow> handle c p s = deliver_release (Z c) (cb c) p s"
    and frag_ok: "env c \<Longrightarrow> ok c e \<Longrightarrow> frag e = Some (f, h) \<Longrightarrow>
      unat (rf_total f) \<le> cap c (pl_buffer_pool (inst c)) \<and> rf_len f \<le> length (rf_payload f) \<and>
      rf_len f < 2 ^ 16 \<and> src_query (inst c) (rf_src f)"
    and data: "env c \<Longrightarrow> ready c s \<Longrightarrow> ok c e \<Longrightarrow> frag e = Some (f, h) \<Longrightarrow>
      rx c e s = do { (out, s2) \<leftarrow> rx_step (Z c) (inst c) f s; rx_outcome (ack c) (handle c) h out s2 }"
    and rest: "env c \<Longrightarrow> ready c s \<Longrightarrow> ok c e \<Longrightarrow> frag e = None \<Longrightarrow>
      \<exists>s'. rx c e s = Some s' \<and> same_rx (Z c) s s' \<and> settled c s'"
begin

lemma complete_outcome:
  assumes env: "env c" and ready: "ready c s" and p: "p \<in> set (pool_ptrs (inst c))"
    "tb_state (tb_at s p) = TRANSPORT_BUFFER_STATE_REFERENCED" "tb_buffer (tb_at s p) = Some g"
    "bufs (Z c) (kern s) g = Some nb" "nb_ref nb = 1"
  obtains s1 s' where "rx_outcome (ack c) (handle c) h (Some (p, TRANSPORT_BUFFER_WRITE_RET_COMPLETE)) s = Some s'"
    and "same_rx (Z c) s s1" and "settled c s1" and "handle c p s1 = Some s'"
    and "deliver_release (Z c) (cb c) p s1 = Some s'" and "settled c s'"
    and "ktime (Z c) (kern s) \<le> ktime (Z c) (kern s')"
    and "tb_state (tb_at s1 p) = TRANSPORT_BUFFER_STATE_REFERENCED" and "tb_buffer (tb_at s1 p) = Some g"
    and "bufs (Z c) (kern s1) g = Some nb" and "ack c h s = Some s1"
proof -
  obtain s1 where s1: "ack c h s = Some s1" "same_rx (Z c) s s1" "settled c s1"
    using acks[OF env ready, of h] by blast
  note inv1 = settled_inv[OF s1(3)]
  have at1: "tb_state (tb_at s1 p) = TRANSPORT_BUFFER_STATE_REFERENCED" "tb_buffer (tb_at s1 p) = Some g"
    "bufs (Z c) (kern s1) g = Some nb"
    using same_rx_pool(2)[OF s1(2)] s1(2) p(2-4) by (simp_all add: same_rx_def)
  obtain s' where s': "deliver_release (Z c) (cb c) p s1 = Some s'" "pool_inv (Z c) (inst c) s'"
    "only_buffers s1 s'" "ktime (Z c) (kern s1) \<le> ktime (Z c) (kern s')"
    "kv_txq (kview (Z c) (kern s')) = kv_txq (kview (Z c) (kern s1))"
    "kv_sem (kview (Z c) (kern s')) = kv_sem (kview (Z c) (kern s1))"
    by (rule deliver_release_spec[OF net_buf[OF env] consumer[OF env] inv1 p(1) at1 p(5)])
  have h: "handle c p s1 = Some s'" using handles[OF s1(3)] s'(1) by simp
  have set: "settled c s'" by (rule settled_buffers[OF s1(3) s'(3,2,5,6)])
  have t: "ktime (Z c) (kern s) \<le> ktime (Z c) (kern s')" using s1(2) s'(4) by (simp add: same_rx_def)
  have o: "rx_outcome (ack c) (handle c) h (Some (p, TRANSPORT_BUFFER_WRITE_RET_COMPLETE)) s = Some s'"
    by (simp add: rx_outcome_complete s1(1) h)
  show thesis by (rule that[OF o s1(2,3) h s'(1) set t at1 s1(1)])
qed

lemma outcome_any:
  assumes env: "env c" and ready: "ready c s" and del: "deliverable (Z c) (inst c) out s"
  shows "\<exists>s'. rx_outcome (ack c) (handle c) h out s = Some s' \<and> settled c s' \<and>
     ktime (Z c) (kern s) \<le> ktime (Z c) (kern s')"
proof (cases rule: rx_outcome_cases[where out = out and ack = "ack c" and handle = "handle c" and h = h])
  case (acked p ret)
  then show ?thesis using acks[OF env ready, of h] by (auto simp: rx_outcome_acked same_rx_def)
next
  case (complete p)
  obtain g nb where p: "p \<in> set (pool_ptrs (inst c))" "tb_state (tb_at s p) = TRANSPORT_BUFFER_STATE_REFERENCED"
    "tb_buffer (tb_at s p) = Some g" "bufs (Z c) (kern s) g = Some nb" "nb_ref nb = 1"
    using del complete by (auto simp: deliverable_def)
  show ?thesis
    unfolding complete by (rule complete_outcome[OF env ready p, of h]) blast
next
  case none
  then show ?thesis using ready_settled[OF ready] by auto
qed

text \<open>One fragment, up to what the pool did with it.\<close>

lemma step:
  assumes env: "env c" and ready: "ready c s" and ok: "ok c e" and f: "frag e = Some (f, h)"
  obtains out s2 s' where "rx_step (Z c) (inst c) f s = Some (out, s2)"
    and "rx c e s = rx_outcome (ack c) (handle c) h out s2" and "ready c s2"
    and "deliverable (Z c) (inst c) out s2" and "ktime (Z c) (kern s) \<le> ktime (Z c) (kern s2)"
    and "rx c e s = Some s'" and "settled c s'" and "ktime (Z c) (kern s2) \<le> ktime (Z c) (kern s')"
proof -
  note fo = frag_ok[OF env ok f]
  note inv = settled_inv[OF ready_settled[OF ready]]
  obtain out s2 where o: "rx_step (Z c) (inst c) f s = Some (out, s2)" "deliverable (Z c) (inst c) out s2"
    "pool_inv (Z c) (inst c) s2" "only_rx s s2"
    "same_but_bufs (kview (Z c) (kern s)) (kview (Z c) (kern s2))" "ktime (Z c) (kern s) \<le> ktime (Z c) (kern s2)"
    by (rule rx_step_deliverable[OF clock[OF env] net_buf[OF env] inv fits[OF env], of f]) (use fo in simp_all)
  have run: "rx c e s = rx_outcome (ack c) (handle c) h out s2"
    by (simp add: data[OF env ready ok f] o(1))
  have ready2: "ready c s2" by (rule ready_rx[OF ready o(4,3,5)])
  obtain s' where "rx_outcome (ack c) (handle c) h out s2 = Some s'" "settled c s'"
    "ktime (Z c) (kern s2) \<le> ktime (Z c) (kern s')"
    using outcome_any[OF env ready2 o(2)] by blast
  then show thesis by (intro that[OF o(1) run ready2 o(2,6)]) (simp_all add: run)
qed

lemma rx_total:
  assumes env: "env c" and ready: "ready c s" and ok: "ok c e"
  shows "\<exists>s'. rx c e s = Some s' \<and> settled c s' \<and> ktime (Z c) (kern s) \<le> ktime (Z c) (kern s')"
proof (cases "frag e")
  case None
  with rest[OF env ready ok] show ?thesis by (auto simp: same_rx_def)
next
  case (Some fh)
  obtain f h where "fh = (f, h)" by (cases fh)
  with Some have f: "frag e = Some (f, h)" by simp
  show ?thesis by (rule step[OF env ready ok f]) (meson le_trans)
qed

text \<open>No outcome of one fragment, and no other frame, disturbs another transfer.\<close>

lemma outcome_held:
  assumes env: "env c" and ready: "ready c s" and del: "deliverable (Z c) (inst c) out s"
    and query: "src_query (inst c) (tf_src tf)" and held: "held (Z c) (inst c) tf k s"
    and run: "rx_outcome (ack c) (handle c) h out s = Some s'"
  shows "held (Z c) (inst c) tf k s'"
proof (cases rule: rx_outcome_cases[where out = out and ack = "ack c" and handle = "handle c" and h = h])
  case (acked p ret)
  with run acks[OF env ready, of h] same_rx_transfer(1)[OF _ held] show ?thesis
    by (auto simp: rx_outcome_acked)
next
  case (complete p)
  obtain g nb where p: "p \<in> set (pool_ptrs (inst c))" "tb_state (tb_at s p) = TRANSPORT_BUFFER_STATE_REFERENCED"
    "tb_buffer (tb_at s p) = Some g" "bufs (Z c) (kern s) g = Some nb" "nb_ref nb = 1"
    using del complete by (auto simp: deliverable_def)
  obtain s1 s'' where s1: "rx_outcome (ack c) (handle c) h (Some (p, TRANSPORT_BUFFER_WRITE_RET_COMPLETE)) s = Some s''"
    "same_rx (Z c) s s1" "settled c s1" "deliver_release (Z c) (cb c) p s1 = Some s''"
    "tb_state (tb_at s1 p) = TRANSPORT_BUFFER_STATE_REFERENCED" "tb_buffer (tb_at s1 p) = Some g"
    "bufs (Z c) (kern s1) g = Some nb"
    by (rule complete_outcome[OF env ready p, of h]) blast
  have eq: "s'' = s'" using run s1(1) complete by simp
  show ?thesis
    by (rule deliver_release_held[OF net_buf[OF env] consumer[OF env] settled_inv[OF s1(3)] p(1) s1(5,6,7) p(5) query
          same_rx_transfer(1)[OF s1(2) held] s1(4)[unfolded eq]])
next
  case none
  with run held show ?thesis by simp
qed

lemma rx_held:
  assumes env: "env c" and ready: "ready c s" and ok: "ok c e"
    and key: "\<And>f h. frag e = Some (f, h) \<Longrightarrow> \<not> same_key tf f"
    and query: "src_query (inst c) (tf_src tf)" and held: "held (Z c) (inst c) tf k s"
    and run: "rx c e s = Some s'"
    and time: "ktime (Z c) (kern s') < tf_since tf + unat (pl_rx_timeout_ms (inst c))"
  shows "held (Z c) (inst c) tf k s'"
proof (cases "frag e")
  case None
  with rest[OF env ready ok] run same_rx_transfer(1)[OF _ held] show ?thesis by auto
next
  case (Some fh)
  obtain f h where "fh = (f, h)" by (cases fh)
  with Some have f: "frag e = Some (f, h)" by simp
  note fo = frag_ok[OF env ok f]
  note inv = settled_inv[OF ready_settled[OF ready]]
  obtain out s2 s'' where o: "rx_step (Z c) (inst c) f s = Some (out, s2)"
    "rx c e s = rx_outcome (ack c) (handle c) h out s2" "ready c s2" "deliverable (Z c) (inst c) out s2"
    "rx c e s = Some s''" "ktime (Z c) (kern s2) \<le> ktime (Z c) (kern s'')"
    by (rule step[OF env ready ok f])
  have time2: "ktime (Z c) (kern s2) < tf_since tf + unat (pl_rx_timeout_ms (inst c))"
    using o(5,6) run time by simp
  have "held (Z c) (inst c) tf k s2"
    by (rule rx_other[OF clock[OF env] net_buf[OF env] inv fits[OF env] query _ _ _ _ key[OF f] held o(1) time2])
      (use fo in simp_all)
  from outcome_held[OF env o(3,4) query this] o(2) run show ?thesis by simp
qed

end

section \<open>Receiving one message\<close>

text \<open>The deadline of a transfer has passed, so its context may have expired.\<close>

definition late ::
  "'k zephyr \<Rightarrow> transport_buffer_pool_t \<Rightarrow> transfer \<Rightarrow> ('k, 'a) machine_scheme \<Rightarrow> bool" where
  "late Z inst tf s \<longleftrightarrow> tf_since tf + unat (pl_rx_timeout_ms inst) \<le> ktime Z (kern s)"

definition received ::
  "'k zephyr \<Rightarrow> transport_buffer_pool_t \<Rightarrow> transfer \<Rightarrow> nat \<Rightarrow> ('k, 'a) machine_scheme \<Rightarrow> bool" where
  "received Z inst tf k s \<longleftrightarrow>
     late Z inst tf s \<or> (if k = 0 then awaited Z inst tf s else held Z inst tf k s)"

text \<open>
  The end of a reception: in a state \<open>s1\<close> with the whole message of the transfer in a context,
  \<open>handle\<close> ran on that context and led to the result - or the result is past the deadline.
\<close>

definition delivered ::
  "'k zephyr \<Rightarrow> transport_buffer_pool_t \<Rightarrow> transfer \<Rightarrow> (('k, 'a) machine_scheme \<Rightarrow> bool) \<Rightarrow>
   (tb_ptr \<Rightarrow> ('k, 'a) machine_scheme \<Rightarrow> ('k, 'a) machine_scheme option) \<Rightarrow>
   (('k, 'a) machine_scheme \<Rightarrow> ('k, 'a) machine_scheme) \<Rightarrow> ('k, 'a) machine_scheme option \<Rightarrow> bool" where
  "delivered Z inst tf settled handle drain res \<longleftrightarrow> (\<exists>s2. res = Some (drain s2) \<and> settled s2 \<and>
     (late Z inst tf s2 \<or>
      (\<exists>s1 p. settled s1 \<and> assembled Z inst tf s1 p \<and> handle p s1 = Some s2)))"

lemma late_mono: "late Z inst tf s \<Longrightarrow> ktime Z (kern s) \<le> ktime Z (kern s') \<Longrightarrow> late Z inst tf s'"
  by (simp add: late_def)

lemma in_time: "\<not> late Z inst tf s \<Longrightarrow> ktime Z (kern s) < tf_since tf + unat (pl_rx_timeout_ms inst)"
  by (simp add: late_def)

lemma received_same:
  assumes "same_rx Z s s'" and "received Z inst tf k s"
  shows "received Z inst tf k s'"
proof -
  have "ktime Z (kern s) \<le> ktime Z (kern s')" using assms(1) by (simp add: same_rx_def)
  with assms(2) late_mono[of Z inst tf s s'] same_rx_transfer(1,2)[OF assms(1)] show ?thesis
    by (auto simp: received_def split: if_splits)
qed

text \<open>One transfer \<open>tf c\<close>: \<open>ev c k\<close> is the frame that carries its fragment \<open>k\<close>.\<close>

locale message_transfer = message_handler +
  fixes valid :: "'c \<Rightarrow> bool"
    and tf :: "'c \<Rightarrow> transfer"
    and ev :: "'c \<Rightarrow> nat \<Rightarrow> 'e"
  assumes valid_env: "valid c \<Longrightarrow> env c"
    and valid_tf: "valid c \<Longrightarrow> tf_ok (cap c) (inst c) (tf c)"
    and valid_query: "valid c \<Longrightarrow> src_query (inst c) (tf_src (tf c))"
    and ev_ok: "valid c \<Longrightarrow> k < tf_n (tf c) \<Longrightarrow> ok c (ev c k)"
    and ev_frag: "valid c \<Longrightarrow> k < tf_n (tf c) \<Longrightarrow> \<exists>f h. frag (ev c k) = Some (f, h) \<and> is_frag (tf c) k f"
begin

lemma fragment_outcome:
  assumes c: "valid c" and ready: "ready c s" and rep: "received (Z c) (inst c) (tf c) k s"
    and k: "k < tf_n (tf c)" and f: "frag (ev c k) = Some (f, h)" "is_frag (tf c) k f"
    and run: "rx_step (Z c) (inst c) f s = Some (out, s2)"
    and time: "ktime (Z c) (kern s) \<le> ktime (Z c) (kern s2)" and early: "\<not> late (Z c) (inst c) (tf c) s2"
  shows "advanced (Z c) (inst c) (tf c) k out s2"
proof -
  note env = valid_env[OF c]
  note laws = clock[OF env] net_buf[OF env] settled_inv[OF ready_settled[OF ready]] fits[OF env] valid_query[OF c] valid_tf[OF c]
  have r: "if k = 0 then awaited (Z c) (inst c) (tf c) s else held (Z c) (inst c) (tf c) k s"
    using rep early late_mono[OF _ time] by (auto simp: received_def)
  show ?thesis
  proof (cases "k = 0")
    case True
    with r f(2) show ?thesis using rx_first[OF laws _ _ run] by simp
  next
    case False
    with r show ?thesis using rx_next[OF laws k f(2) _ run in_time[OF early]] by simp
  qed
qed

lemma next_fragment:
  assumes c: "valid c" and ready: "ready c s" and rep: "received (Z c) (inst c) (tf c) k s"
    and k: "k < tf_n (tf c)"
  obtains h out s2 s' where "rx c (ev c k) s = rx_outcome (ack c) (handle c) h out s2"
    and "ready c s2" and "deliverable (Z c) (inst c) out s2"
    and "rx c (ev c k) s = Some s'" and "settled c s'" and "ktime (Z c) (kern s2) \<le> ktime (Z c) (kern s')"
    and "late (Z c) (inst c) (tf c) s2 \<or> advanced (Z c) (inst c) (tf c) k out s2"
proof -
  note env = valid_env[OF c]
  note inv = settled_inv[OF ready_settled[OF ready]]
  obtain f h where f: "frag (ev c k) = Some (f, h)" "is_frag (tf c) k f" using ev_frag[OF c k] by blast
  obtain out s2 s' where o: "rx_step (Z c) (inst c) f s = Some (out, s2)"
    "rx c (ev c k) s = rx_outcome (ack c) (handle c) h out s2" "ready c s2"
    "deliverable (Z c) (inst c) out s2" "ktime (Z c) (kern s) \<le> ktime (Z c) (kern s2)"
    "rx c (ev c k) s = Some s'" "settled c s'" "ktime (Z c) (kern s2) \<le> ktime (Z c) (kern s')"
    by (rule step[OF env ready ev_ok[OF c k] f(1)])
  have "advanced (Z c) (inst c) (tf c) k out s2" if "\<not> late (Z c) (inst c) (tf c) s2"
    by (rule fragment_outcome[OF c ready rep k f o(1,5) that])
  then show thesis by (intro that[OF o(2,3,4,6,7,8)]) blast
qed

lemma advances:
  assumes c: "valid c" and ready: "ready c s" and rep: "received (Z c) (inst c) (tf c) k s"
    and k: "Suc k < tf_n (tf c)"
  shows "\<exists>s'. rx c (ev c k) s = Some s' \<and> settled c s' \<and> received (Z c) (inst c) (tf c) (Suc k) s'"
proof -
  have k': "k < tf_n (tf c)" using k by simp
  obtain h out s2 s' where o: "rx c (ev c k) s = rx_outcome (ack c) (handle c) h out s2" "ready c s2"
    "deliverable (Z c) (inst c) out s2" "rx c (ev c k) s = Some s'" "settled c s'"
    "ktime (Z c) (kern s2) \<le> ktime (Z c) (kern s')"
    "late (Z c) (inst c) (tf c) s2 \<or> advanced (Z c) (inst c) (tf c) k out s2"
    by (rule next_fragment[OF c ready rep k'])
  from o(7) have "received (Z c) (inst c) (tf c) (Suc k) s'"
  proof
    assume "late (Z c) (inst c) (tf c) s2"
    then show ?thesis using late_mono[OF _ o(6)] by (auto simp: received_def)
  next
    assume "advanced (Z c) (inst c) (tf c) k out s2"
    then obtain p where p: "out = Some (p, TRANSPORT_BUFFER_WRITE_RET_SUCCESS)"
      "held (Z c) (inst c) (tf c) (Suc k) s2" using k by (auto simp: advanced_def)
    have "rx_outcome (ack c) (handle c) h out s2 = Some s'" using o(1,4) by simp
    from outcome_held[OF valid_env[OF c] o(2,3) valid_query[OF c] p(2) this]
    show ?thesis by (simp add: received_def)
  qed
  with o(4,5) show ?thesis by blast
qed

lemma repeats:
  assumes c: "valid c" and ready: "ready c s" and rep: "received (Z c) (inst c) (tf c) k s"
    and j: "j < k" and k: "k < tf_n (tf c)"
  shows "\<exists>s'. rx c (ev c j) s = Some s' \<and> settled c s' \<and> received (Z c) (inst c) (tf c) k s'"
proof -
  have j': "j < tf_n (tf c)" and k0: "k \<noteq> 0" and k': "k \<le> tf_n (tf c)" using j k by simp_all
  note env = valid_env[OF c]
  note inv = settled_inv[OF ready_settled[OF ready]]
  obtain f h where f: "frag (ev c j) = Some (f, h)" "is_frag (tf c) j f" using ev_frag[OF c j'] by blast
  obtain out s2 s' where o: "rx_step (Z c) (inst c) f s = Some (out, s2)"
    "rx c (ev c j) s = rx_outcome (ack c) (handle c) h out s2" "ready c s2"
    "deliverable (Z c) (inst c) out s2" "ktime (Z c) (kern s) \<le> ktime (Z c) (kern s2)"
    "rx c (ev c j) s = Some s'" "settled c s'" "ktime (Z c) (kern s2) \<le> ktime (Z c) (kern s')"
    by (rule step[OF env ready ev_ok[OF c j'] f(1)])
  have "received (Z c) (inst c) (tf c) k s'"
  proof (cases "late (Z c) (inst c) (tf c) s2")
    case True
    then show ?thesis using late_mono[OF _ o(8)] by (auto simp: received_def)
  next
    case early: False
    have h: "held (Z c) (inst c) (tf c) k s"
      using rep k0 early late_mono[OF _ o(5)] by (auto simp: received_def)
    have "held (Z c) (inst c) (tf c) k s2"
      using rx_repeat[OF clock[OF env] net_buf[OF env] inv fits[OF env] valid_query[OF c] valid_tf[OF c] k' f(2) j h
          o(1) in_time[OF early]] by blast
    moreover have "rx_outcome (ack c) (handle c) h out s2 = Some s'" using o(2,6) by simp
    ultimately show ?thesis
      using outcome_held[OF env o(3,4) valid_query[OF c]] k0 by (simp add: received_def)
  qed
  with o(6,7) show ?thesis by blast
qed

lemma others_pass:
  assumes c: "valid c" and ready: "ready c s" and rep: "received (Z c) (inst c) (tf c) k s" and k0: "0 < k"
    and ok: "ok c e" and key: "\<And>f h. frag e = Some (f, h) \<Longrightarrow> \<not> same_key (tf c) f"
  shows "\<exists>s'. rx c e s = Some s' \<and> settled c s' \<and> received (Z c) (inst c) (tf c) k s'"
proof -
  obtain s' where s': "rx c e s = Some s'" "settled c s'" "ktime (Z c) (kern s) \<le> ktime (Z c) (kern s')"
    using rx_total[OF valid_env[OF c] ready ok] by blast
  have "held (Z c) (inst c) (tf c) k s'" if early: "\<not> late (Z c) (inst c) (tf c) s'"
  proof -
    have h: "held (Z c) (inst c) (tf c) k s"
      using rep k0 early late_mono[OF _ s'(3)] by (auto simp: received_def)
    show ?thesis
      by (rule rx_held[OF valid_env[OF c] ready ok key valid_query[OF c] h s'(1) in_time[OF early]])
  qed
  with s' k0 show ?thesis by (auto simp: received_def)
qed

lemma finishes:
  assumes c: "valid c" and ready: "ready c s" and rep: "received (Z c) (inst c) (tf c) k s"
    and k: "Suc k = tf_n (tf c)"
  shows "delivered (Z c) (inst c) (tf c) (settled c) (handle c) (\<lambda>s. s) (rx c (ev c k) s)"
proof -
  have k': "k < tf_n (tf c)" using k by simp
  obtain h out s2 s' where o: "rx c (ev c k) s = rx_outcome (ack c) (handle c) h out s2" "ready c s2"
    "deliverable (Z c) (inst c) out s2" "rx c (ev c k) s = Some s'" "settled c s'"
    "ktime (Z c) (kern s2) \<le> ktime (Z c) (kern s')"
    "late (Z c) (inst c) (tf c) s2 \<or> advanced (Z c) (inst c) (tf c) k out s2"
    by (rule next_fragment[OF c ready rep k'])
  from o(7) show ?thesis
  proof
    assume "late (Z c) (inst c) (tf c) s2"
    from late_mono[OF this o(6)] o(4,5) show ?thesis unfolding delivered_def by blast
  next
    assume "advanced (Z c) (inst c) (tf c) k out s2"
    then obtain p where p: "out = Some (p, TRANSPORT_BUFFER_WRITE_RET_COMPLETE)"
      "assembled (Z c) (inst c) (tf c) s2 p" using k by (auto simp: advanced_def)
    then obtain g nb where hn: "p \<in> set (pool_ptrs (inst c))"
      "tb_state (tb_at s2 p) = TRANSPORT_BUFFER_STATE_REFERENCED"
      "tb_buffer (tb_at s2 p) = Some g" "bufs (Z c) (kern s2) g = Some nb" "nb_ref nb = 1"
      by (auto simp: assembled_def)
    obtain s1 s'' where s1: "rx_outcome (ack c) (handle c) h (Some (p, TRANSPORT_BUFFER_WRITE_RET_COMPLETE)) s2 = Some s''"
      "same_rx (Z c) s2 s1" "handle c p s1 = Some s''" "settled c s1"
      by (rule complete_outcome[OF valid_env[OF c] o(2) hn, of h]) blast
    have "s'' = s'" using s1(1) o(1,4) p(1) by simp
    with s1(3) have "handle c p s1 = Some s'" by simp
    with same_rx_transfer(3)[OF s1(2) p(2)] s1(4) o(4,5) show ?thesis unfolding delivered_def by blast
  qed
qed

end

text \<open>\<open>drain\<close> is what happens between two frames.\<close>

locale message_receiver = message_transfer +
  fixes drain :: "'c \<Rightarrow> ('k, 'a) machine_scheme \<Rightarrow> ('k, 'a) machine_scheme"
  assumes drains: "valid c \<Longrightarrow> settled c s \<Longrightarrow> ready c (drain c s) \<and> same_rx (Z c) s (drain c s)"
begin

lemma drained:
  assumes "valid c" and "settled c s" and "received (Z c) (inst c) (tf c) k s"
  shows "ready c (drain c s) \<and> received (Z c) (inst c) (tf c) k (drain c s)"
  using drains[OF assms(1,2)] received_same[OF _ assms(3)] by blast

end

sublocale message_receiver \<subseteq> fragment_receiver valid "\<lambda>c. tf_n (tf c)"
  "\<lambda>c k s. do { s' \<leftarrow> rx c (ev c k) s; Some (drain c s') }"
  "\<lambda>c e s. do { s' \<leftarrow> rx c e s; Some (drain c s') }"
  "\<lambda>c e. ok c e \<and> (\<forall>f h. frag e = Some (f, h) \<longrightarrow> \<not> same_key (tf c) f)"
  "\<lambda>c k s. ready c s \<and> received (Z c) (inst c) (tf c) k s"
  "\<lambda>c. delivered (Z c) (inst c) (tf c) (settled c) (handle c) (drain c)"
proof unfold_locales
  fix c k s
  assume c: "valid c" and r: "ready c s \<and> received (Z c) (inst c) (tf c) k s"
  show "\<exists>s'. do { s' \<leftarrow> rx c (ev c k) s; Some (drain c s') } = Some s' \<and>
      ready c s' \<and> received (Z c) (inst c) (tf c) (Suc k) s'" if k: "Suc k < tf_n (tf c)"
    using advances[OF c conjunct1[OF r] conjunct2[OF r] k] drained[OF c] by auto
  show "\<exists>s'. do { s' \<leftarrow> rx c (ev c j) s; Some (drain c s') } = Some s' \<and>
      ready c s' \<and> received (Z c) (inst c) (tf c) k s'" if j: "j < k" "k < tf_n (tf c)" for j
    using repeats[OF c conjunct1[OF r] conjunct2[OF r] j] drained[OF c] by auto
  show "\<exists>s'. do { s' \<leftarrow> rx c e s; Some (drain c s') } = Some s' \<and>
      ready c s' \<and> received (Z c) (inst c) (tf c) k s'"
    if "0 < k" "ok c e \<and> (\<forall>f h. frag e = Some (f, h) \<longrightarrow> \<not> same_key (tf c) f)" for e
  proof -
    from that have "\<exists>s'. rx c e s = Some s' \<and> settled c s' \<and> received (Z c) (inst c) (tf c) k s'"
      by (intro others_pass[OF c conjunct1[OF r] conjunct2[OF r]]) auto
    then show ?thesis using drained[OF c] by auto
  qed
  show "delivered (Z c) (inst c) (tf c) (settled c) (handle c) (drain c)
      (do { s' \<leftarrow> rx c (ev c k) s; Some (drain c s') })" if "Suc k = tf_n (tf c)"
    using finishes[OF c conjunct1[OF r] conjunct2[OF r] that] by (auto simp: delivered_def)
qed

section \<open>What a reception leaves alone\<close>

text \<open>
  A property \<open>kept\<close> of the machine that no step of the reception touches but the delivery: then it holds
  when the message is handed up, unless the deadline has passed. Between the fragments only frames without
  a fragment are admitted, since one of another message might be its last.
\<close>

definition delivered_from ::
  "'k zephyr \<Rightarrow> transport_buffer_pool_t \<Rightarrow> transfer \<Rightarrow> (('k, 'a) machine_scheme \<Rightarrow> bool) \<Rightarrow>
   (('k, 'a) machine_scheme \<Rightarrow> bool) \<Rightarrow>
   (tb_ptr \<Rightarrow> ('k, 'a) machine_scheme \<Rightarrow> ('k, 'a) machine_scheme option) \<Rightarrow>
   (('k, 'a) machine_scheme \<Rightarrow> ('k, 'a) machine_scheme) \<Rightarrow> ('k, 'a) machine_scheme option \<Rightarrow> bool" where
  "delivered_from Z inst tf settled kept handle drain res \<longleftrightarrow> (\<exists>s2. res = Some (drain s2) \<and> settled s2 \<and>
     (late Z inst tf s2 \<or>
      (\<exists>s1 p. settled s1 \<and> kept s1 \<and> assembled Z inst tf s1 p \<and> handle p s1 = Some s2)))"

text \<open>The state between two fragments.\<close>

definition steady ::
  "'k zephyr \<Rightarrow> transport_buffer_pool_t \<Rightarrow> transfer \<Rightarrow> (('k, 'a) machine_scheme \<Rightarrow> bool) \<Rightarrow> nat \<Rightarrow>
   ('k, 'a) machine_scheme \<Rightarrow> bool" where
  "steady Z inst tf kept k s \<longleftrightarrow> received Z inst tf k s \<and> (late Z inst tf s \<or> kept s)"

locale steady_receiver = message_receiver +
  fixes kept :: "'c \<Rightarrow> ('k, 'a) machine_scheme \<Rightarrow> bool"
  assumes kept_rx: "valid c \<Longrightarrow> kept c s \<Longrightarrow> only_rx s s' \<Longrightarrow>
      same_but_bufs (kview (Z c) (kern s)) (kview (Z c) (kern s')) \<Longrightarrow> kept c s'"
    and kept_ack: "valid c \<Longrightarrow> ready c s \<Longrightarrow> kept c s \<Longrightarrow> ack c h s = Some s' \<Longrightarrow> kept c s'"
    and kept_rest: "valid c \<Longrightarrow> ready c s \<Longrightarrow> kept c s \<Longrightarrow> ok c e \<Longrightarrow> frag e = None \<Longrightarrow>
      rx c e s = Some s' \<Longrightarrow> kept c s'"
    and kept_drain: "valid c \<Longrightarrow> kept c s \<Longrightarrow> kept c (drain c s)"
begin

lemma step_kept:
  assumes c: "valid c" and ready: "ready c s" and kept: "kept c s" and ok: "ok c e" and f: "frag e = Some (f, h)"
    and run: "rx_step (Z c) (inst c) f s = Some (out, s2)"
  shows "kept c s2"
proof -
  note env = valid_env[OF c]
  note fo = frag_ok[OF env ok f]
  obtain out' s' where o: "rx_step (Z c) (inst c) f s = Some (out', s')" "only_rx s s'"
    "same_but_bufs (kview (Z c) (kern s)) (kview (Z c) (kern s'))"
    by (rule rx_step_deliverable[OF clock[OF env] net_buf[OF env] settled_inv[OF ready_settled[OF ready]] fits[OF env], of f])
      (use fo in simp_all)
  with run kept_rx[OF c kept o(2,3)] show ?thesis by simp
qed

lemma outcome_kept:
  assumes c: "valid c" and ready: "ready c s" and kept: "kept c s"
    and no: "\<And>p. out \<noteq> Some (p, TRANSPORT_BUFFER_WRITE_RET_COMPLETE)"
    and run: "rx_outcome (ack c) (handle c) h out s = Some s'"
  shows "kept c s'"
proof (cases rule: rx_outcome_cases[where out = out and ack = "ack c" and handle = "handle c" and h = h])
  case (acked p ret)
  with run kept_ack[OF c ready kept] show ?thesis by (auto simp: rx_outcome_acked)
next
  case (complete p)
  with no show ?thesis by blast
next
  case none
  with run kept show ?thesis by simp
qed

lemma fragment_kept:
  assumes c: "valid c" and ready: "ready c s" and kept: "kept c s" and ok: "ok c e" and f: "frag e = Some (f, h)"
    and run: "rx_step (Z c) (inst c) f s = Some (out, s2)" "rx c e s = rx_outcome (ack c) (handle c) h out s2"
      "ready c s2" "rx c e s = Some s'"
    and no: "\<exists>p ret. out = Some (p, ret) \<and> ret \<noteq> TRANSPORT_BUFFER_WRITE_RET_COMPLETE"
  shows "kept c s'"
  by (rule outcome_kept[OF c run(3) step_kept[OF c ready kept ok f run(1)]]) (use no run(2,4) in auto)

lemma steady_received: "steady (Z c) (inst c) (tf c) (kept c) k s \<Longrightarrow> received (Z c) (inst c) (tf c) k s"
  by (simp add: steady_def)

lemma steady_early:
  assumes "steady (Z c) (inst c) (tf c) (kept c) k s" and "\<not> late (Z c) (inst c) (tf c) s'" and "ktime (Z c) (kern s) \<le> ktime (Z c) (kern s')"
  shows "kept c s"
  using assms late_mono unfolding steady_def by blast

lemma steady_drain:
  assumes c: "valid c" and s: "settled c s" "steady (Z c) (inst c) (tf c) (kept c) k s"
  shows "ready c (drain c s) \<and> steady (Z c) (inst c) (tf c) (kept c) k (drain c s)"
proof -
  have "same_rx (Z c) s (drain c s)" using drains[OF c s(1)] by blast
  then have t: "ktime (Z c) (kern s) \<le> ktime (Z c) (kern (drain c s))" by (simp add: same_rx_def)
  show ?thesis
    using drained[OF c s(1)] s(2) kept_drain[OF c] late_mono[OF _ t] by (auto simp: steady_def)
qed

lemma steady_advances:
  assumes c: "valid c" and s: "ready c s" "steady (Z c) (inst c) (tf c) (kept c) k s" and k: "Suc k < tf_n (tf c)"
  shows "\<exists>s'. rx c (ev c k) s = Some s' \<and> settled c s' \<and> steady (Z c) (inst c) (tf c) (kept c) (Suc k) s'"
proof -
  note rep = steady_received[OF s(2)]
  obtain s' where s': "rx c (ev c k) s = Some s'" "settled c s'" "received (Z c) (inst c) (tf c) (Suc k) s'"
    using advances[OF c s(1) rep k] by blast
  have k': "k < tf_n (tf c)" using k by simp
  note env = valid_env[OF c]
  obtain f h where f: "frag (ev c k) = Some (f, h)" "is_frag (tf c) k f" using ev_frag[OF c k'] by blast
  obtain out s2 u where u: "rx_step (Z c) (inst c) f s = Some (out, s2)"
    "rx c (ev c k) s = rx_outcome (ack c) (handle c) h out s2" "ready c s2"
    "ktime (Z c) (kern s) \<le> ktime (Z c) (kern s2)" "ktime (Z c) (kern s2) \<le> ktime (Z c) (kern u)"
    "rx c (ev c k) s = Some u"
    by (rule step[OF env s(1) ev_ok[OF c k'] f(1)]) blast
  have "u = s'" using u(6) s'(1) by simp
  note o = u(1-5)[unfolded this]
  have "kept c s'" if early: "\<not> late (Z c) (inst c) (tf c) s'"
  proof (rule fragment_kept[OF c s(1) _ ev_ok[OF c k'] f(1) o(1-3) s'(1)])
    show "kept c s" by (rule steady_early[OF s(2) early le_trans[OF o(4,5)]])
    have "\<not> late (Z c) (inst c) (tf c) s2" using early late_mono[OF _ o(5)] by blast
    then show "\<exists>p ret. out = Some (p, ret) \<and> ret \<noteq> TRANSPORT_BUFFER_WRITE_RET_COMPLETE"
      using fragment_outcome[OF c s(1) rep k' f o(1,4)] k by (auto simp: advanced_def)
  qed
  with s' show ?thesis by (auto simp: steady_def)
qed

lemma steady_repeats:
  assumes c: "valid c" and s: "ready c s" "steady (Z c) (inst c) (tf c) (kept c) k s" and j: "j < k" and k: "k < tf_n (tf c)"
  shows "\<exists>s'. rx c (ev c j) s = Some s' \<and> settled c s' \<and> steady (Z c) (inst c) (tf c) (kept c) k s'"
proof -
  note rep = steady_received[OF s(2)]
  obtain s' where s': "rx c (ev c j) s = Some s'" "settled c s'" "received (Z c) (inst c) (tf c) k s'"
    using repeats[OF c s(1) rep j k] by blast
  have j': "j < tf_n (tf c)" "k \<le> tf_n (tf c)" "k \<noteq> 0" using j k by simp_all
  note env = valid_env[OF c]
  obtain f h where f: "frag (ev c j) = Some (f, h)" "is_frag (tf c) j f" using ev_frag[OF c j'(1)] by blast
  obtain out s2 u where u: "rx_step (Z c) (inst c) f s = Some (out, s2)"
    "rx c (ev c j) s = rx_outcome (ack c) (handle c) h out s2" "ready c s2"
    "ktime (Z c) (kern s) \<le> ktime (Z c) (kern s2)" "ktime (Z c) (kern s2) \<le> ktime (Z c) (kern u)"
    "rx c (ev c j) s = Some u"
    by (rule step[OF env s(1) ev_ok[OF c j'(1)] f(1)]) blast
  have "u = s'" using u(6) s'(1) by simp
  note o = u(1-5)[unfolded this]
  have "kept c s'" if early: "\<not> late (Z c) (inst c) (tf c) s'"
  proof (rule fragment_kept[OF c s(1) _ ev_ok[OF c j'(1)] f(1) o(1-3) s'(1)])
    show "kept c s" by (rule steady_early[OF s(2) early le_trans[OF o(4,5)]])
    have e2: "\<not> late (Z c) (inst c) (tf c) s2" using early late_mono[OF _ o(5)] by blast
    have "held (Z c) (inst c) (tf c) k s" using rep j'(3) e2 late_mono[OF _ o(4)] by (auto simp: received_def)
    then show "\<exists>p ret. out = Some (p, ret) \<and> ret \<noteq> TRANSPORT_BUFFER_WRITE_RET_COMPLETE"
      using rx_repeat[OF clock[OF env] net_buf[OF env] settled_inv[OF ready_settled[OF s(1)]] fits[OF env]
          valid_query[OF c] valid_tf[OF c] j'(2) f(2) j _ o(1) in_time[OF e2]] by blast
  qed
  with s' show ?thesis by (auto simp: steady_def)
qed

lemma steady_rest:
  assumes c: "valid c" and s: "ready c s" "steady (Z c) (inst c) (tf c) (kept c) k s" and k: "0 < k" and e: "ok c e" "frag e = None"
  shows "\<exists>s'. rx c e s = Some s' \<and> settled c s' \<and> steady (Z c) (inst c) (tf c) (kept c) k s'"
proof -
  obtain s' where s': "rx c e s = Some s'" "settled c s'" "received (Z c) (inst c) (tf c) k s'"
    using others_pass[OF c s(1) steady_received[OF s(2)] k e(1)] e(2) by auto
  have t: "ktime (Z c) (kern s) \<le> ktime (Z c) (kern s')" using rest[OF valid_env[OF c] s(1) e] s'(1) by (auto simp: same_rx_def)
  have "kept c s'" if early: "\<not> late (Z c) (inst c) (tf c) s'"
    by (rule kept_rest[OF c s(1) steady_early[OF s(2) early t] e s'(1)])
  with s' show ?thesis by (auto simp: steady_def)
qed

lemma steady_finishes:
  assumes c: "valid c" and s: "ready c s" "steady (Z c) (inst c) (tf c) (kept c) k s" and k: "Suc k = tf_n (tf c)"
  shows "delivered_from (Z c) (inst c) (tf c) (settled c) (kept c) (handle c) (\<lambda>s. s) (rx c (ev c k) s)"
proof -
  note rep = steady_received[OF s(2)]
  have k': "k < tf_n (tf c)" using k by simp
  note env = valid_env[OF c]
  obtain f h where f: "frag (ev c k) = Some (f, h)" "is_frag (tf c) k f" using ev_frag[OF c k'] by blast
  obtain out s2 s' where o: "rx_step (Z c) (inst c) f s = Some (out, s2)"
    "rx c (ev c k) s = rx_outcome (ack c) (handle c) h out s2" "ready c s2"
    "ktime (Z c) (kern s) \<le> ktime (Z c) (kern s2)" "rx c (ev c k) s = Some s'" "settled c s'"
    "ktime (Z c) (kern s2) \<le> ktime (Z c) (kern s')"
    by (rule step[OF env s(1) ev_ok[OF c k'] f(1)]) blast
  show ?thesis
  proof (cases "late (Z c) (inst c) (tf c) s2")
    case True
    from late_mono[OF this o(7)] o(5,6) show ?thesis unfolding delivered_from_def by blast
  next
    case False
    have kept2: "kept c s2" by (rule step_kept[OF c s(1) steady_early[OF s(2) False o(4)] ev_ok[OF c k'] f(1) o(1)])
    obtain p where p: "out = Some (p, TRANSPORT_BUFFER_WRITE_RET_COMPLETE)" "assembled (Z c) (inst c) (tf c) s2 p"
      using fragment_outcome[OF c s(1) rep k' f o(1,4) False] k by (auto simp: advanced_def)
    then obtain g nb where hn: "p \<in> set (pool_ptrs (inst c))"
      "tb_state (tb_at s2 p) = TRANSPORT_BUFFER_STATE_REFERENCED"
      "tb_buffer (tb_at s2 p) = Some g" "bufs (Z c) (kern s2) g = Some nb" "nb_ref nb = 1"
      by (auto simp: assembled_def)
    obtain s1 s'' where s1: "rx_outcome (ack c) (handle c) h (Some (p, TRANSPORT_BUFFER_WRITE_RET_COMPLETE)) s2 = Some s''"
      "same_rx (Z c) s2 s1" "handle c p s1 = Some s''" "settled c s1" "ack c h s2 = Some s1"
      by (rule complete_outcome[OF env o(3) hn, of h]) blast
    have "s'' = s'" using s1(1) o(2,5) p(1) by simp
    with s1(3) have "handle c p s1 = Some s'" by simp
    with same_rx_transfer(3)[OF s1(2) p(2)] s1(4) o(5,6) kept_ack[OF c o(3) kept2 s1(5)] show ?thesis
      unfolding delivered_from_def by blast
  qed
qed

end

sublocale steady_receiver \<subseteq> steadily: fragment_receiver valid "\<lambda>c. tf_n (tf c)"
  "\<lambda>c k s. do { s' \<leftarrow> rx c (ev c k) s; Some (drain c s') }"
  "\<lambda>c e s. do { s' \<leftarrow> rx c e s; Some (drain c s') }"
  "\<lambda>c e. ok c e \<and> frag e = None"
  "\<lambda>c k s. ready c s \<and> steady (Z c) (inst c) (tf c) (kept c) k s"
  "\<lambda>c. delivered_from (Z c) (inst c) (tf c) (settled c) (kept c) (handle c) (drain c)"
proof unfold_locales
  fix c k s
  assume c: "valid c" and r: "ready c s \<and> steady (Z c) (inst c) (tf c) (kept c) k s"
  show "\<exists>s'. do { s' \<leftarrow> rx c (ev c k) s; Some (drain c s') } = Some s' \<and> ready c s' \<and> steady (Z c) (inst c) (tf c) (kept c) (Suc k) s'"
    if k: "Suc k < tf_n (tf c)"
    using steady_advances[OF c conjunct1[OF r] conjunct2[OF r] k] steady_drain[OF c] by auto
  show "\<exists>s'. do { s' \<leftarrow> rx c (ev c j) s; Some (drain c s') } = Some s' \<and> ready c s' \<and> steady (Z c) (inst c) (tf c) (kept c) k s'"
    if j: "j < k" "k < tf_n (tf c)" for j
    using steady_repeats[OF c conjunct1[OF r] conjunct2[OF r] j] steady_drain[OF c] by auto
  show "\<exists>s'. do { s' \<leftarrow> rx c e s; Some (drain c s') } = Some s' \<and> ready c s' \<and> steady (Z c) (inst c) (tf c) (kept c) k s'"
    if "0 < k" "ok c e \<and> frag e = None" for e
  proof -
    have "\<exists>s'. rx c e s = Some s' \<and> settled c s' \<and> steady (Z c) (inst c) (tf c) (kept c) k s'"
      using that by (intro steady_rest[OF c conjunct1[OF r] conjunct2[OF r]]) auto
    then show ?thesis using steady_drain[OF c] by auto
  qed
  show "delivered_from (Z c) (inst c) (tf c) (settled c) (kept c) (handle c) (drain c)
      (do { s' \<leftarrow> rx c (ev c k) s; Some (drain c s') })" if "Suc k = tf_n (tf c)"
    using steady_finishes[OF c conjunct1[OF r] conjunct2[OF r] that] by (auto simp: delivered_from_def)
qed

end
