(* ===== verification/Dect_Transport_Layer.thy ===== *)
theory Dect_Transport_Layer
  imports Receive_Path
begin

text \<open>
  \<^verbatim>\<open>alfie/app/src/dect/dect_transport_layer.c\<close>: messages of up to 512 bytes over the link layer's
  22-byte payloads. A message is cut into fragments of at most 14 bytes; each is sent until an
  ACK arrives, at most four times. Received fragments are collected in a pool of four contexts,
  and a complete message is handed to the registered callback.

  The functions carry the suffix \<open>_dect\<close> where the BLE service has one of the same name.
  \<open>call_cb\<close> is what calling a stored receive callback does. While the sender waits for an ACK
  the other threads run; \<open>others\<close> is what they do to the machine.
\<close>

section \<open>State\<close>

definition DECT_TRANSPORT_LAYER_NUM_RX_BUFFERS :: nat where
  "DECT_TRANSPORT_LAYER_NUM_RX_BUFFERS = 4"
definition DECT_TRANSPORT_LAYER_MAX_RX_BUFFER_SIZE_BYTES :: nat where
  "DECT_TRANSPORT_LAYER_MAX_RX_BUFFER_SIZE_BYTES = 512"
definition DECT_TRANSPORT_LAYER_RX_TIMEOUT_MS :: nat where
  "DECT_TRANSPORT_LAYER_RX_TIMEOUT_MS = 10000"
definition DECT_TRANSPORT_LAYER_TX_ATTEMPTS :: nat where
  "DECT_TRANSPORT_LAYER_TX_ATTEMPTS = 4"
definition DECT_TRANSPORT_LAYER_ACK_TIMEOUT_MS :: nat where
  "DECT_TRANSPORT_LAYER_ACK_TIMEOUT_MS =
     DECT_TRANSPORT_LAYER_RX_TIMEOUT_MS div DECT_TRANSPORT_LAYER_TX_ATTEMPTS"
definition DECT_TRANSPORT_LAYER_DATA_FRAME_MAX_PAYLOAD_SIZE_BYTES :: nat where
  "DECT_TRANSPORT_LAYER_DATA_FRAME_MAX_PAYLOAD_SIZE_BYTES =
     DECT_LINK_LAYER_MAX_PAYLOAD_SIZE_BYTES - sizeof_dect_data_frame"

lemma dect_transport_sizes [simp]:
  "DECT_TRANSPORT_LAYER_NUM_RX_BUFFERS = 4" "DECT_TRANSPORT_LAYER_MAX_RX_BUFFER_SIZE_BYTES = 512"
  "DECT_TRANSPORT_LAYER_RX_TIMEOUT_MS = 10000" "DECT_TRANSPORT_LAYER_TX_ATTEMPTS = 4"
  "DECT_TRANSPORT_LAYER_DATA_FRAME_MAX_PAYLOAD_SIZE_BYTES = 14"
  by (simp_all add: DECT_TRANSPORT_LAYER_NUM_RX_BUFFERS_def
      DECT_TRANSPORT_LAYER_MAX_RX_BUFFER_SIZE_BYTES_def DECT_TRANSPORT_LAYER_RX_TIMEOUT_MS_def
      DECT_TRANSPORT_LAYER_TX_ATTEMPTS_def DECT_TRANSPORT_LAYER_DATA_FRAME_MAX_PAYLOAD_SIZE_BYTES_def)

text \<open>
  The contexts of \<open>rx_buffers\<close> live in \<open>mem\<close>: the \<open>base\<close> member of a \<open>dect_transport_buffer_t\<close>
  is \<open>tbs\<close> at its address, the \<open>src_id\<close> member is \<open>src_ids\<close> there.
\<close>

record dect_transport_inst =
  dt_initialized :: bool
  dt_rx_pool :: transport_buffer_pool_t
  dt_rx_buffer_api :: transport_buffer_pool_api_t
  dt_transport_rx_callback :: "fn_ptr option"
  dt_transport :: alfie_transport_t
  dt_transport_api :: alfie_transport_api_t

record 'k dect_machine = "'k link_machine" +
  dtl :: dect_transport_inst

definition dect_transport_inst_init :: dect_transport_inst where
  "dect_transport_inst_init = \<lparr>dt_initialized = False, dt_rx_pool = pool_zero DectRxPool,
     dt_rx_buffer_api = \<lparr>additional_query_cb = None\<rparr>, dt_transport_rx_callback = None,
     dt_transport = transport_zero, dt_transport_api = api_zero\<rparr>"

section \<open>Receiving\<close>

definition prv_write_data_ack_dect ::
  "'k zephyr \<Rightarrow> u32 \<Rightarrow> dect_transport_layer_data_frame_t \<Rightarrow> ('k, 'a) dect_machine_scheme \<Rightarrow>
   ('k, 'a) dect_machine_scheme option" where
  "prv_write_data_ack_dect Z dst_id frame s =
     (let ack_frame = \<lparr>da_header = \<lparr>dh_version = 0,
                                   dh_frame_type = DECT_TRANSPORT_LAYER_FRAME_TYPE_DATA_ACK\<rparr>,
                        da_seq_id = dd_seq_id frame, da_frag_idx = dd_frag_idx frame\<rparr>
      in do { (ret, s') \<leftarrow> dect_link_layer_write Z dst_id (Some (put_dect_data_frame_ack ack_frame))
                              sizeof_dect_data_frame_ack s;
              Some s' })"

definition prv_handle_complete_incoming_data_transaction_dect ::
  "'k zephyr \<Rightarrow>
   (fn_ptr \<Rightarrow> node_ptr \<Rightarrow> tb_ptr \<Rightarrow> ('k, 'a) dect_machine_scheme \<Rightarrow>
      ('k, 'a) dect_machine_scheme option) \<Rightarrow>
   tb_ptr \<Rightarrow> ('k, 'a) dect_machine_scheme \<Rightarrow> ('k, 'a) dect_machine_scheme option" where
  "prv_handle_complete_incoming_data_transaction_dect Z call_cb buffer s = do {
     s1 \<leftarrow> (case dt_transport_rx_callback (dtl s) of
              None \<Rightarrow> Some s | Some f \<Rightarrow> call_cb f DectTransport buffer s);
     transport_buffer_unref Z (Some buffer) s1 }"

definition prv_handle_data_frame_dect ::
  "'k zephyr \<Rightarrow>
   (fn_ptr \<Rightarrow> node_ptr \<Rightarrow> tb_ptr \<Rightarrow> ('k, 'a) dect_machine_scheme \<Rightarrow>
      ('k, 'a) dect_machine_scheme option) \<Rightarrow>
   u32 \<Rightarrow> u8 list \<Rightarrow> nat \<Rightarrow> ('k, 'a) dect_machine_scheme \<Rightarrow>
   ('k, 'a) dect_machine_scheme option" where
  "prv_handle_data_frame_dect Z call_cb src_id header len_bytes s =
     (if len_bytes < sizeof_dect_data_frame then Some s
      else do {
        data_frame \<leftarrow> get_dect_data_frame header;
        (buffer, s1) \<leftarrow> transport_buffer_pool_get Z (Some (dt_rx_pool (dtl s))) (dd_seq_id data_frame)
           (unat (dd_total_size_bytes data_frame)) (dd_frag_idx data_frame)
           (dd_frag_total data_frame) (Some src_id) s;
        case buffer of
          None \<Rightarrow> Some s1
        | Some buf \<Rightarrow> do {
            (ret, s2) \<leftarrow> transport_buffer_write Z (Some buf) (dd_frag_idx data_frame)
               (Some (dd_payload data_frame)) (len_bytes - sizeof_dect_data_frame)
               (set_src_id buf src_id s1);
            case ret of
              TRANSPORT_BUFFER_WRITE_RET_SUCCESS \<Rightarrow> prv_write_data_ack_dect Z src_id data_frame s2
            | TRANSPORT_BUFFER_WRITE_RET_DUPLICATE \<Rightarrow> prv_write_data_ack_dect Z src_id data_frame s2
            | TRANSPORT_BUFFER_WRITE_RET_COMPLETE \<Rightarrow> do {
                s3 \<leftarrow> prv_write_data_ack_dect Z src_id data_frame s2;
                prv_handle_complete_incoming_data_transaction_dect Z call_cb buf s3 }
            | _ \<Rightarrow> Some s2 } })"

definition prv_handle_data_ack_frame_dect ::
  "'k zephyr \<Rightarrow> u8 list \<Rightarrow> nat \<Rightarrow> ('k, 'a) dect_machine_scheme \<Rightarrow> ('k, 'a) dect_machine_scheme"
  where
  "prv_handle_data_ack_frame_dect Z header len_bytes s =
     s\<lparr>kern := k_sem_give Z DectAckSem (kern s)\<rparr>"

definition prv_on_data_layer_rx ::
  "'k zephyr \<Rightarrow>
   (fn_ptr \<Rightarrow> node_ptr \<Rightarrow> tb_ptr \<Rightarrow> ('k, 'a) dect_machine_scheme \<Rightarrow>
      ('k, 'a) dect_machine_scheme option) \<Rightarrow>
   u32 \<Rightarrow> u8 list \<Rightarrow> nat \<Rightarrow> ('k, 'a) dect_machine_scheme \<Rightarrow>
   ('k, 'a) dect_machine_scheme option" where
  "prv_on_data_layer_rx Z call_cb src_id buf len_bytes s =
     (if len_bytes < sizeof_dect_frame_header then Some s
      else do {
        header \<leftarrow> get_dect_frame_header buf;
        if dh_frame_type header = DECT_TRANSPORT_LAYER_FRAME_TYPE_DATA
        then prv_handle_data_frame_dect Z call_cb src_id buf len_bytes s
        else if dh_frame_type header = DECT_TRANSPORT_LAYER_FRAME_TYPE_DATA_ACK
        then Some (prv_handle_data_ack_frame_dect Z buf len_bytes s)
        else Some s })"

section \<open>Sending\<close>

definition prv_write_data_frame_dect ::
  "'k zephyr \<Rightarrow> (('k, 'a) dect_machine_scheme \<Rightarrow> ('k, 'a) dect_machine_scheme) \<Rightarrow>
   u32 \<Rightarrow> u8 list \<Rightarrow> nat \<Rightarrow> ('k, 'a) dect_machine_scheme \<Rightarrow>
   (int \<times> ('k, 'a) dect_machine_scheme) option" where
  "prv_write_data_frame_dect Z others dst_id frame len_bytes =
     attempts (\<lambda>s. s\<lparr>kern := k_sem_reset Z DectAckSem (kern s)\<rparr>)
       (dect_link_layer_write Z dst_id (Some frame) len_bytes)
       (\<lambda>s. let s1 = others s;
                (ret, k) = k_sem_take Z DectAckSem (K_MSEC DECT_TRANSPORT_LAYER_ACK_TIMEOUT_MS) (kern s1)
            in (ret, s1\<lparr>kern := k\<rparr>))
       DECT_TRANSPORT_LAYER_TX_ATTEMPTS 0"

text \<open>The callback compares the id it is given; a null pointer would be dereferenced.\<close>

definition prv_additional_query_matches :: "buffer_mem \<Rightarrow> tb_ptr \<Rightarrow> u32 option \<Rightarrow> bool option" where
  "prv_additional_query_matches m buffer additional_params =
     do { src_id \<leftarrow> additional_params; Some (src_id = src_ids m buffer) }"

section \<open>Interface\<close>

definition dect_transport_layer_init ::
  "'k zephyr \<Rightarrow> ('k, 'a) dect_machine_scheme \<Rightarrow> int \<times> ('k, 'a) dect_machine_scheme" where
  "dect_transport_layer_init Z s =
     (if dt_initialized (dtl s) = True then (- EALREADY, s)
      else
        let api = \<lparr>additional_query_cb = Some prv_additional_query_matches\<rparr>;
            (ret, pool) = transport_buffer_pool_init Z (Some (dt_rx_pool (dtl s))) (Some DectRxPool)
              DECT_TRANSPORT_LAYER_NUM_RX_BUFFERS DECT_TRANSPORT_LAYER_MAX_RX_BUFFER_SIZE_BYTES
              (Some DectRxPool) (sizeof_dect_transport_buffer_t Z)
              (of_nat DECT_TRANSPORT_LAYER_RX_TIMEOUT_MS) (Some api);
            s1 = s\<lparr>dtl := (dtl s)\<lparr>dt_rx_buffer_api := api, dt_rx_pool := the pool\<rparr>\<rparr>
        in if ret \<noteq> 0 then (ret, s1)
           else
             let (_, s2) = dect_link_layer_register_rx_callback (Some Prv_on_data_layer_rx) s1;
                 tapi = \<lparr>api_write = Some Dect_transport_layer_write,
                         api_register_rx_cb = Some Dect_transport_layer_register_rx_callback\<rparr>;
                 tr = \<lparr>tr_api = Some tapi, tr_type = ALFIE_TRANSPORT_TYPE_DOWNSTREAM\<rparr>
             in (0, s2\<lparr>kern := k_sem_init Z DectAckSem 0 1 (kern s2),
                       dtl := (dtl s2)\<lparr>dt_transport_api := tapi, dt_transport := tr,
                                       dt_initialized := True\<rparr>\<rparr>))"

text \<open>
  The frame is built in the zeroed array \<open>tx_buffer\<close>, which every turn of the loop overwrites
  from the front: \<open>dd_payload\<close> is the rest of that array.
\<close>

definition next_fragment_dect ::
  "u8 list \<Rightarrow> nat \<Rightarrow> nat \<Rightarrow> dect_transport_layer_data_frame_t \<Rightarrow>
   dect_transport_layer_data_frame_t option" where
  "next_fragment_dect data len_bytes i frame =
     (let payload_size_bytes = min (len_bytes - DECT_TRANSPORT_LAYER_DATA_FRAME_MAX_PAYLOAD_SIZE_BYTES * i)
                                   DECT_TRANSPORT_LAYER_DATA_FRAME_MAX_PAYLOAD_SIZE_BYTES
      in do { bytes \<leftarrow> mem_read (drop (i * DECT_TRANSPORT_LAYER_DATA_FRAME_MAX_PAYLOAD_SIZE_BYTES) data)
                         payload_size_bytes;
              Some (frame\<lparr>dd_frag_idx := of_nat i, dd_payload := overwrite bytes (dd_payload frame)\<rparr>) })"

definition dect_transport_layer_write ::
  "'k zephyr \<Rightarrow> (('k, 'a) dect_machine_scheme \<Rightarrow> ('k, 'a) dect_machine_scheme) \<Rightarrow>
   u32 \<Rightarrow> u8 list option \<Rightarrow> nat \<Rightarrow> ('k, 'a) dect_machine_scheme \<Rightarrow>
   (int \<times> ('k, 'a) dect_machine_scheme) option" where
  "dect_transport_layer_write Z others dst_id data len_bytes s =
     (if dt_initialized (dtl s) = False then Some (- ENOLINK, s)
      else (case data of
              None \<Rightarrow> Some (- EINVAL, s)
            | Some bytes \<Rightarrow>
                if len_bytes = 0 then Some (- EINVAL, s)
                else if len_bytes > DECT_TRANSPORT_LAYER_MAX_RX_BUFFER_SIZE_BYTES then Some (- ENOMEM, s)
                else
                  let frag_total = of_nat ((len_bytes + DECT_TRANSPORT_LAYER_DATA_FRAME_MAX_PAYLOAD_SIZE_BYTES - 1)
                        div DECT_TRANSPORT_LAYER_DATA_FRAME_MAX_PAYLOAD_SIZE_BYTES) :: u8;
                      (seq_id, k) = sys_rand16_get Z (kern s);
                      frame = \<lparr>dd_header = \<lparr>dh_version = 0,
                                 dh_frame_type = DECT_TRANSPORT_LAYER_FRAME_TYPE_DATA\<rparr>,
                               dd_seq_id = seq_id, dd_frag_total = frag_total, dd_frag_idx = 0,
                               dd_total_size_bytes = of_nat len_bytes,
                               dd_payload = replicate DECT_TRANSPORT_LAYER_DATA_FRAME_MAX_PAYLOAD_SIZE_BYTES 0\<rparr>
                  in send_all (next_fragment_dect bytes len_bytes)
                       (\<lambda>i frame. prv_write_data_frame_dect Z others dst_id (put_dect_data_frame frame)
                          (sizeof_dect_data_frame +
                           min (len_bytes - DECT_TRANSPORT_LAYER_DATA_FRAME_MAX_PAYLOAD_SIZE_BYTES * i)
                               DECT_TRANSPORT_LAYER_DATA_FRAME_MAX_PAYLOAD_SIZE_BYTES))
                       [0..<unat frag_total] frame (s\<lparr>kern := k\<rparr>)))"

definition dect_transport_layer_register_rx_callback ::
  "fn_ptr option \<Rightarrow> ('k, 'a) dect_machine_scheme \<Rightarrow> int \<times> ('k, 'a) dect_machine_scheme" where
  "dect_transport_layer_register_rx_callback callback s =
     (if dt_initialized (dtl s) = False then (- ENODEV, s)
      else if callback = None then (- EINVAL, s)
      else (0, s\<lparr>dtl := (dtl s)\<lparr>dt_transport_rx_callback := callback\<rparr>\<rparr>))"

definition dect_transport_layer_get_transport ::
  "('k, 'a) dect_machine_scheme \<Rightarrow> node_ptr option" where
  "dect_transport_layer_get_transport s =
     (if dt_initialized (dtl s) = False then None else Some DectTransport)"

section \<open>The state after start-up\<close>

definition dect_pool :: "'k zephyr \<Rightarrow> transport_buffer_pool_t" where
  "dect_pool Z = \<lparr>pl_buffer_pool = DectRxPool,
     pl_num_buffers = DECT_TRANSPORT_LAYER_NUM_RX_BUFFERS,
     pl_buffer_size_bytes = DECT_TRANSPORT_LAYER_MAX_RX_BUFFER_SIZE_BYTES,
     pl_context_size_bytes = sizeof_dect_transport_buffer_t Z,
     pl_rx_timeout_ms = of_nat DECT_TRANSPORT_LAYER_RX_TIMEOUT_MS, pl_contexts = DectRxPool,
     pl_api = Some \<lparr>additional_query_cb = Some prv_additional_query_matches\<rparr>\<rparr>"

lemma dect_pool_simps [simp]:
  "pl_buffer_pool (dect_pool Z) = DectRxPool" "pl_num_buffers (dect_pool Z) = 4"
  "pl_context_size_bytes (dect_pool Z) = sizeof_dect_transport_buffer_t Z"
  "unat (pl_rx_timeout_ms (dect_pool Z)) = 10000"
  "query_callback (dect_pool Z) = Some prv_additional_query_matches"
  by (simp_all add: dect_pool_def query_callback_def)

lemma dect_src_query [simp]: "src_query (dect_pool Z) (Some src)"
  by (simp add: src_query_def prv_additional_query_matches_def)

text \<open>What holds of an initialised transport between any two of its operations.\<close>

definition dect_ready :: "'k zephyr \<Rightarrow> ('k, 'a) dect_machine_scheme \<Rightarrow> bool" where
  "dect_ready Z s \<longleftrightarrow> dt_initialized (dtl s) \<and> dt_rx_pool (dtl s) = dect_pool Z \<and>
     li_initialized (ll s) \<and> pool_inv Z (dect_pool Z) s"

text \<open>Room for another frame in the link layer's queue.\<close>

definition txq_room :: "'k zephyr \<Rightarrow> ('k, 'a) machine_scheme \<Rightarrow> bool" where
  "txq_room Z s \<longleftrightarrow> length (kv_txq (kview Z (kern s))) < DECT_LINK_LAYER_TX_MSG_QUEUE_DEPTH"

lemma fresh_pool_inv:
  assumes "0 < pl_context_size_bytes inst" and "live_bufs (pl_buffer_pool inst) (kview Z (kern s)) = {}"
    and "\<And>p. p \<in> set (pool_ptrs inst) \<Longrightarrow> tb_buffer (tb_at s p) = None"
    and "\<And>p. p \<in> set (pool_ptrs inst) \<Longrightarrow> tb_state (tb_at s p) = TRANSPORT_BUFFER_STATE_FREE"
  shows "pool_inv Z inst s"
  unfolding pool_inv_def
  by (rule pool_okI) (use assms in \<open>auto simp: tb_at_def ctx_ok_free live_bufs_def\<close>)

lemma dect_init_spec:
  assumes "layout_laws Z" and "sem_laws Z" and "\<not> dt_initialized (dtl s)" and "li_initialized (ll s)"
    and "dt_rx_pool (dtl s) = pool_zero DectRxPool"
    and "live_bufs DectRxPool (kview Z (kern s)) = {}"
    and "\<And>p. tb_buffer (tb_at s p) = None"
    and "\<And>p. tb_state (tb_at s p) = TRANSPORT_BUFFER_STATE_FREE"
  obtains s' where "dect_transport_layer_init Z s = (0, s')" and "dect_ready Z s'"
    and "li_rx_callback (ll s') = Some Prv_on_data_layer_rx"
    and "dect_transport_layer_get_transport s' = Some DectTransport"
    and "dt_transport (dtl s') = \<lparr>tr_api = Some \<lparr>api_write = Some Dect_transport_layer_write,
           api_register_rx_cb = Some Dect_transport_layer_register_rx_callback\<rparr>,
           tr_type = ALFIE_TRANSPORT_TYPE_DOWNSTREAM\<rparr>"
    and "mem s' = mem s"
    and "kview Z (kern s') = (kview Z (kern s))\<lparr>kv_sem := (kv_sem (kview Z (kern s)))(DectAckSem := 0)\<rparr>"
    and "li_initialized (ll s')" and "dt_transport_rx_callback (dtl s') = dt_transport_rx_callback (dtl s)"
    and "s' = s\<lparr>kern := kern s', ll := ll s', dtl := dtl s'\<rparr>"
proof -
  have size: "\<not> sizeof_dect_transport_buffer_t Z < sizeof_transport_buffer_t Z"
    "0 < sizeof_dect_transport_buffer_t Z"
    using assms(1) by (simp_all add: layout_laws_def)
  obtain s' where s': "dect_transport_layer_init Z s = (0, s')" by (simp add: dect_transport_layer_init_def
      transport_buffer_pool_init_def size assms dect_link_layer_register_rx_callback_def Let_def)
  then have s'_eq: "s' = s\<lparr>ll := (ll s)\<lparr>li_rx_callback := Some Prv_on_data_layer_rx\<rparr>,
      kern := k_sem_init Z DectAckSem 0 1 (kern s), dtl := dtl s'\<rparr>"
    and d: "dt_rx_pool (dtl s') = dect_pool Z" "dt_initialized (dtl s')"
      "dt_transport (dtl s') = \<lparr>tr_api = Some \<lparr>api_write = Some Dect_transport_layer_write,
         api_register_rx_cb = Some Dect_transport_layer_register_rx_callback\<rparr>,
         tr_type = ALFIE_TRANSPORT_TYPE_DOWNSTREAM\<rparr>"
      "dt_transport_rx_callback (dtl s') = dt_transport_rx_callback (dtl s)"
    by (auto simp: dect_transport_layer_init_def dect_pool_def
      transport_buffer_pool_init_def size assms dect_link_layer_register_rx_callback_def Let_def)
  have m: "mem s' = mem s" "li_initialized (ll s')" "li_rx_callback (ll s') = Some Prv_on_data_layer_rx"
    and k: "kern s' = k_sem_init Z DectAckSem 0 1 (kern s)"
    by (subst s'_eq, simp add: assms(4))+
  have view: "kview Z (kern s') = (kview Z (kern s))\<lparr>kv_sem := (kv_sem (kview Z (kern s)))(DectAckSem := 0)\<rparr>"
    unfolding k by (rule sem_view(1)[OF assms(2)])
  have "pool_inv Z (dect_pool Z) s'"
    by (rule fresh_pool_inv) (use assms(6-8) view m(1) size in \<open>simp_all add: live_bufs_def tb_at_def\<close>)
  then have r: "dect_ready Z s'" "dect_transport_layer_get_transport s' = Some DectTransport"
    using d m(2) by (simp_all add: dect_ready_def dect_transport_layer_get_transport_def)
  have fr: "s' = s\<lparr>kern := kern s', ll := ll s', dtl := dtl s'\<rparr>"
    using s'_eq by (cases s; cases s') simp
  show ?thesis by (rule that[OF s' r(1) m(3) r(2) d(3) m(1) view m(2) d(4) fr])
qed

section \<open>Receiving a data frame\<close>

text \<open>The fragment a data frame carries, for a frame of \<open>len_bytes\<close> from \<open>src_id\<close>.\<close>

definition dect_frag :: "u32 \<Rightarrow> dect_transport_layer_data_frame_t \<Rightarrow> nat \<Rightarrow> rx_frag" where
  "dect_frag src_id f len_bytes = \<lparr>rf_seq = dd_seq_id f, rf_total = dd_total_size_bytes f,
     rf_idx = dd_frag_idx f, rf_frag_total = dd_frag_total f, rf_src = Some src_id,
     rf_payload = dd_payload f, rf_len = len_bytes - sizeof_dect_data_frame\<rparr>"

lemma dect_frag_simps [simp]:
  "rf_seq (dect_frag src f n) = dd_seq_id f" "rf_total (dect_frag src f n) = dd_total_size_bytes f"
  "rf_idx (dect_frag src f n) = dd_frag_idx f" "rf_frag_total (dect_frag src f n) = dd_frag_total f"
  "rf_src (dect_frag src f n) = Some src" "rf_payload (dect_frag src f n) = dd_payload f"
  "rf_len (dect_frag src f n) = n - 8"
  by (simp_all add: dect_frag_def)

lemma handle_data_frame_dect_alt:
  assumes "sizeof_dect_data_frame \<le> len_bytes" and "get_dect_data_frame header = Some f"
  shows "prv_handle_data_frame_dect Z call_cb src_id header len_bytes s = do {
     (out, s2) \<leftarrow> rx_step Z (dt_rx_pool (dtl s)) (dect_frag src_id f len_bytes) s;
     rx_outcome (\<lambda>(dst, fr). prv_write_data_ack_dect Z dst fr)
       (prv_handle_complete_incoming_data_transaction_dect Z call_cb) (src_id, f) out s2 }"
  using assms
  by (auto simp: prv_handle_data_frame_dect_def rx_step_def mark_src_def rx_outcome_def
      split: Option.bind_splits option.splits transport_buffer_write_ret_t.splits)

lemma on_rx_data_frame:
  assumes "get_dect_data_frame buf = Some f" and "2 \<le> len_bytes"
    and "dh_frame_type (dd_header f) = DECT_TRANSPORT_LAYER_FRAME_TYPE_DATA"
  shows "prv_on_data_layer_rx Z call_cb src_id buf len_bytes s =
     prv_handle_data_frame_dect Z call_cb src_id buf len_bytes s"
proof -
  have "get_dect_frame_header buf = Some (dd_header f)"
    using get_dect_frame_header_put(1)[of f] put_get_dect_data_frame[OF assms(1)] by simp
  with assms(2,3) show ?thesis by (simp add: prv_on_data_layer_rx_def)
qed

lemma only_dev_dtl: "only_dev s s' \<Longrightarrow> dtl s' = dtl s"
  unfolding only_dev_def by (cases s; cases s') simp

lemma only_rx_dect: "only_rx s s' \<Longrightarrow> dtl s' = dtl s \<and> ll s' = ll s \<and>
    dev_fetched s' = dev_fetched s \<and> dev_id s' = dev_id s"
  unfolding only_rx_def by (cases s; cases s') simp

text \<open>Writing an ACK only appends it to the queue.\<close>

lemma ack_spec_dect:
  assumes laws: "hwinfo_laws Z" "msgq_laws Z DECT_LINK_LAYER_TX_MSG_QUEUE_DEPTH"
    and init: "li_initialized (ll s)" and room: "txq_room Z s"
  obtains s' ack where "prv_write_data_ack_dect Z src_id f s = Some s'" and "only_dev s s'"
    and "same_rx Z s s'" and "dev_fetched s'"
    and "ack = link_frame_for (dev_id s') src_id (put_dect_data_frame_ack
           \<lparr>da_header = \<lparr>dh_version = 0, dh_frame_type = DECT_TRANSPORT_LAYER_FRAME_TYPE_DATA_ACK\<rparr>,
            da_seq_id = dd_seq_id f, da_frag_idx = dd_frag_idx f\<rparr>) sizeof_dect_data_frame_ack"
    and "kview Z (kern s') = (kview Z (kern s))\<lparr>kv_txq := kv_txq (kview Z (kern s)) @ [ack],
           kv_put := kv_put (kview Z (kern s)) @ [ack]\<rparr>"
    and "dev_fetched s \<Longrightarrow> dev_id s' = dev_id s"
proof -
  let ?a = "put_dect_data_frame_ack
    \<lparr>da_header = \<lparr>dh_version = 0, dh_frame_type = DECT_TRANSPORT_LAYER_FRAME_TYPE_DATA_ACK\<rparr>,
     da_seq_id = dd_seq_id f, da_frag_idx = dd_frag_idx f\<rparr>"
  obtain me s' where w: "dect_link_layer_write Z src_id (Some ?a) 5 s = Some (0, s')"
    "me = dev_id s'" "dev_fetched s \<Longrightarrow> me = dev_id s" "only_dev s s'" "dev_fetched s'"
    "kview Z (kern s') = (kview Z (kern s))\<lparr>kv_txq :=
       kv_txq (kview Z (kern s)) @ [link_frame_for me src_id (take 5 ?a) 5],
       kv_put := kv_put (kview Z (kern s)) @ [link_frame_for me src_id (take 5 ?a) 5]\<rparr>"
    "ktime Z (kern s) \<le> ktime Z (kern s')"
    by (rule link_write_spec[OF laws init _ _ room[unfolded txq_room_def], of 5 ?a src_id]) simp_all
  have "mem s' = mem s" by (rule only_dev_mem[OF w(4)])
  with w show ?thesis
    by (intro that[of s']) (simp_all add: prv_write_data_ack_dect_def same_rx_def)
qed

text \<open>The documented behaviour the transport relies on, with pools of \<open>cnt\<close> buffers of \<open>cap\<close> bytes.\<close>

definition dect_env :: "'k zephyr \<Rightarrow> (pool_id \<Rightarrow> nat) \<Rightarrow> (pool_id \<Rightarrow> nat) \<Rightarrow> bool" where
  "dect_env Z cnt cap \<longleftrightarrow> clock_laws Z \<and> net_buf_laws Z cnt cap \<and> sem_laws Z \<and> hwinfo_laws Z \<and>
     msgq_laws Z DECT_LINK_LAYER_TX_MSG_QUEUE_DEPTH \<and>
     cnt DectRxPool = DECT_TRANSPORT_LAYER_NUM_RX_BUFFERS \<and>
     cap DectRxPool = DECT_TRANSPORT_LAYER_MAX_RX_BUFFER_SIZE_BYTES"

lemma dect_envD:
  assumes "dect_env Z cnt cap"
  shows "clock_laws Z" and "net_buf_laws Z cnt cap" and "sem_laws Z" and "hwinfo_laws Z"
    and "msgq_laws Z DECT_LINK_LAYER_TX_MSG_QUEUE_DEPTH" and "pool_fits cnt cap (dect_pool Z)"
    and "cap DectRxPool = 512"
  using assms by (simp_all add: dect_env_def pool_fits_def)

definition dect_callback ::
  "(fn_ptr \<Rightarrow> node_ptr \<Rightarrow> tb_ptr \<Rightarrow> ('k, 'a) dect_machine_scheme \<Rightarrow>
      ('k, 'a) dect_machine_scheme option) \<Rightarrow>
   fn_ptr option \<Rightarrow> tb_ptr \<Rightarrow> ('k, 'a) dect_machine_scheme \<Rightarrow> ('k, 'a) dect_machine_scheme option"
  where "dect_callback call_cb f = (case f of None \<Rightarrow> (\<lambda>p. Some) | Some f \<Rightarrow> call_cb f DectTransport)"

lemma handle_complete_dect_alt:
  "prv_handle_complete_incoming_data_transaction_dect Z call_cb p s =
     deliver_release Z (dect_callback call_cb (dt_transport_rx_callback (dtl s))) p s"
  by (auto simp: prv_handle_complete_incoming_data_transaction_dect_def deliver_release_def
      dect_callback_def split: option.splits)

lemma only_buffers_dect:
  "only_buffers s s' \<Longrightarrow> dtl s' = dtl s \<and> ll s' = ll s"
  using only_rx_dect[OF only_rx_buffers] by blast

text \<open>
  A frame the transport can take: the link layer's claim about its length is true, and a data
  frame declares no more than a receive buffer holds.
\<close>

definition dect_frame_ok :: "u8 list \<Rightarrow> nat \<Rightarrow> bool" where
  "dect_frame_ok buf len_bytes \<longleftrightarrow> len_bytes \<le> length buf \<and> len_bytes < 2 ^ 16 \<and>
     (case get_dect_data_frame buf of None \<Rightarrow> True
      | Some f \<Rightarrow> dh_frame_type (dd_header f) = DECT_TRANSPORT_LAYER_FRAME_TYPE_DATA \<longrightarrow>
          8 \<le> len_bytes \<longrightarrow>
          unat (dd_total_size_bytes f) \<le> DECT_TRANSPORT_LAYER_MAX_RX_BUFFER_SIZE_BYTES)"

text \<open>The fragment a received frame carries, with what its ACK is made from.\<close>

definition dect_frame_frag ::
  "u32 \<times> u8 list \<times> nat \<Rightarrow> (rx_frag \<times> u32 \<times> dect_transport_layer_data_frame_t) option" where
  "dect_frame_frag e = (case e of (src, buf, len_bytes) \<Rightarrow>
     if len_bytes < sizeof_dect_data_frame then None
     else (case get_dect_data_frame buf of None \<Rightarrow> None
       | Some f \<Rightarrow> if dh_frame_type (dd_header f) = DECT_TRANSPORT_LAYER_FRAME_TYPE_DATA
                   then Some (dect_frag src f len_bytes, src, f) else None))"

section \<open>Receiving a message\<close>

text \<open>
  A case of reception: the kernel, the transport's variables and the code its callback runs, the
  number of frames queued at most, and \<open>dc_drain\<close>, the link thread sending what is queued before
  it listens again; then the message, its sender, and the bytes of its frames.
\<close>

record ('k, 'a) dect_case =
  dc_Z :: "'k zephyr"
  dc_cnt :: "pool_id \<Rightarrow> nat"
  dc_cap :: "pool_id \<Rightarrow> nat"
  dc_call_cb :: "fn_ptr \<Rightarrow> node_ptr \<Rightarrow> tb_ptr \<Rightarrow> ('k, 'a) dect_machine_scheme \<Rightarrow>
      ('k, 'a) dect_machine_scheme option"
  dc_state :: dect_transport_inst
  dc_queued :: nat
  dc_drain :: "('k, 'a) dect_machine_scheme \<Rightarrow> ('k, 'a) dect_machine_scheme"
  dc_src :: u32
  dc_seq :: u16
  dc_msg :: "u8 list"
  dc_frame :: "nat \<Rightarrow> u8 list"
  dc_since :: nat

definition dc_env :: "('k, 'a) dect_case \<Rightarrow> bool" where
  "dc_env c \<longleftrightarrow> dect_env (dc_Z c) (dc_cnt c) (dc_cap c) \<and> dt_initialized (dc_state c) \<and>
     dt_rx_pool (dc_state c) = dect_pool (dc_Z c) \<and> dc_queued c < DECT_LINK_LAYER_TX_MSG_QUEUE_DEPTH \<and>
     consumes (dc_Z c) (dect_pool (dc_Z c))
       (dect_callback (dc_call_cb c) (dt_transport_rx_callback (dc_state c)))"

definition dc_holds :: "('k, 'a) dect_case \<Rightarrow> nat \<Rightarrow> ('k, 'a) dect_machine_scheme \<Rightarrow> bool" where
  "dc_holds c n s \<longleftrightarrow> dtl s = dc_state c \<and> li_initialized (ll s) \<and>
     pool_inv (dc_Z c) (dect_pool (dc_Z c)) s \<and> length (kv_txq (kview (dc_Z c) (kern s))) \<le> n"

definition dc_ready :: "('k, 'a) dect_case \<Rightarrow> ('k, 'a) dect_machine_scheme \<Rightarrow> bool" where
  "dc_ready c = dc_holds c (dc_queued c)"

definition dc_settled :: "('k, 'a) dect_case \<Rightarrow> ('k, 'a) dect_machine_scheme \<Rightarrow> bool" where
  "dc_settled c = dc_holds c (Suc (dc_queued c))"

definition dc_ack ::
  "('k, 'a) dect_case \<Rightarrow> u32 \<times> dect_transport_layer_data_frame_t \<Rightarrow> ('k, 'a) dect_machine_scheme \<Rightarrow>
   ('k, 'a) dect_machine_scheme option" where
  "dc_ack c = (\<lambda>(dst, f). prv_write_data_ack_dect (dc_Z c) dst f)"

definition dc_rx_frame ::
  "('k, 'a) dect_case \<Rightarrow> u32 \<times> u8 list \<times> nat \<Rightarrow> ('k, 'a) dect_machine_scheme \<Rightarrow>
   ('k, 'a) dect_machine_scheme option" where
  "dc_rx_frame c e s = (case e of (src, buf, len_bytes) \<Rightarrow>
     prv_on_data_layer_rx (dc_Z c) (dc_call_cb c) src buf len_bytes s)"

text \<open>The data frame of fragment \<open>k\<close> of a message.\<close>

definition dect_data_frame :: "u16 \<Rightarrow> u8 list \<Rightarrow> nat \<Rightarrow> dect_transport_layer_data_frame_t" where
  "dect_data_frame seq msg k =
     \<lparr>dd_header = \<lparr>dh_version = 0, dh_frame_type = DECT_TRANSPORT_LAYER_FRAME_TYPE_DATA\<rparr>,
      dd_seq_id = seq, dd_frag_total = of_nat (n_chunks 14 (length msg)), dd_frag_idx = of_nat k,
      dd_total_size_bytes = of_nat (length msg), dd_payload = chunk 14 k msg\<rparr>"

definition dect_frame_len :: "u8 list \<Rightarrow> nat \<Rightarrow> nat" where
  "dect_frame_len msg k = sizeof_dect_data_frame + length (chunk 14 k msg)"

text \<open>The drain only empties the queue.\<close>

definition drains ::
  "'k zephyr \<Rightarrow> (('k, 'a) machine_scheme \<Rightarrow> ('k, 'a) machine_scheme) \<Rightarrow> bool" where
  "drains Z d \<longleftrightarrow> (\<forall>s. d s = s\<lparr>kern := kern (d s)\<rparr> \<and> ktime Z (kern s) \<le> ktime Z (kern (d s)) \<and>
     kview Z (kern (d s)) = (kview Z (kern s))\<lparr>kv_txq := []\<rparr>)"

text \<open>The transfer of the case, and its frames.\<close>

definition dc_transfer :: "('k, 'a) dect_case \<Rightarrow> transfer" where
  "dc_transfer c = \<lparr>tf_seq = dc_seq c, tf_src = Some (dc_src c), tf_msg = dc_msg c,
     tf_size = DECT_TRANSPORT_LAYER_DATA_FRAME_MAX_PAYLOAD_SIZE_BYTES, tf_since = dc_since c\<rparr>"

definition dc_event :: "('k, 'a) dect_case \<Rightarrow> nat \<Rightarrow> u32 \<times> u8 list \<times> nat" where
  "dc_event c k = (dc_src c, dc_frame c k, dect_frame_len (dc_msg c) k)"

text \<open>The case is one of a message that can be sent, and what happens between the frames.\<close>

definition dc_message :: "('k, 'a) dect_case \<Rightarrow> bool" where
  "dc_message c \<longleftrightarrow> dc_env c \<and>
     dc_msg c \<noteq> [] \<and> length (dc_msg c) \<le> DECT_TRANSPORT_LAYER_MAX_RX_BUFFER_SIZE_BYTES \<and>
     (\<forall>k < tf_n (dc_transfer c). take (dect_frame_len (dc_msg c) k) (dc_frame c k) =
        put_dect_data_frame (dect_data_frame (dc_seq c) (dc_msg c) k))"

definition dc_valid :: "('k, 'a) dect_case \<Rightarrow> bool" where
  "dc_valid c \<longleftrightarrow> dc_message c \<and> drains (dc_Z c) (dc_drain c)"

lemma dc_transfer_simps [simp]:
  "tf_seq (dc_transfer c) = dc_seq c" "tf_src (dc_transfer c) = Some (dc_src c)"
  "tf_msg (dc_transfer c) = dc_msg c" "tf_size (dc_transfer c) = 14" "tf_since (dc_transfer c) = dc_since c"
  by (simp_all add: dc_transfer_def)

lemma dc_transfer_n: "tf_n (dc_transfer c) = n_chunks 14 (length (dc_msg c))"
  by (simp add: tf_n_def)

lemma dc_messageD:
  assumes "dc_message c"
  shows "dc_env c" and "tf_ok (dc_cap c) (dect_pool (dc_Z c)) (dc_transfer c)"
    and "k < tf_n (dc_transfer c) \<Longrightarrow> take (dect_frame_len (dc_msg c) k) (dc_frame c k) =
           put_dect_data_frame (dect_data_frame (dc_seq c) (dc_msg c) k)"
proof -
  have "tf_n (dc_transfer c) \<le> 255"
    unfolding dc_transfer_n by (rule n_chunks_le_255) (use assms in \<open>simp_all add: dc_message_def\<close>)
  then show "tf_ok (dc_cap c) (dect_pool (dc_Z c)) (dc_transfer c)"
    using assms dect_envD(7)[of "dc_Z c" "dc_cnt c" "dc_cap c"]
    by (simp add: tf_ok_def dc_message_def dc_env_def)
qed (use assms in \<open>simp_all add: dc_message_def\<close>)

lemma dc_validD:
  assumes "dc_valid c"
  shows "dc_message c" and "dc_env c" and "drains (dc_Z c) (dc_drain c)"
  using assms by (auto simp: dc_valid_def dest: dc_messageD(1))

lemma dc_event_decoded:
  assumes c: "dc_message c" and k: "k < tf_n (dc_transfer c)"
  obtains f where "dect_frame_frag (dc_event c k) = Some (f, dc_src c,
      (dect_data_frame (dc_seq c) (dc_msg c) k)\<lparr>dd_payload := rf_payload f\<rparr>)"
    and "is_frag (dc_transfer c) k f" and "dect_frame_ok (dc_frame c k) (dect_frame_len (dc_msg c) k)"
proof -
  let ?n = "dect_frame_len (dc_msg c) k" and ?d = "dect_data_frame (dc_seq c) (dc_msg c) k"
  have t: "take ?n (dc_frame c k) = put_dect_data_frame ?d" by (rule dc_messageD(3)[OF c k])
  have len: "?n \<le> length (dc_frame c k)"
    using arg_cong[OF t, of length] by (simp add: dect_frame_len_def dect_data_frame_def)
  let ?f = "?d\<lparr>dd_payload := dd_payload ?d @ drop ?n (dc_frame c k)\<rparr>"
  have "dc_frame c k = put_dect_data_frame ?f"
    using append_take_drop_id[of ?n "dc_frame c k"] unfolding t
    by (simp add: put_dect_data_frame_def dect_data_frame_def)
  then have dec: "get_dect_data_frame (dc_frame c k) = Some ?f"
    by (metis get_put_dect_data_frame)
  have "length (chunk 14 k (dc_msg c)) \<le> 14" by (rule length_chunk_le)
  moreover have "length (dc_msg c) \<le> 512" using c by (simp add: dc_message_def)
  ultimately show ?thesis
    using len dec by (intro that[of "dect_frag (dc_src c) ?f ?n"])
      (simp_all add: is_frag_def dect_data_frame_def dect_frame_len_def dc_transfer_n unat_of_nat_u16
        dect_frame_frag_def dc_event_def dect_frame_ok_def)
qed

lemma drains_same:
  assumes "drains Z d"
  shows "same_rx Z s (d s)" and "kv_txq (kview Z (kern (d s))) = []"
    and "dtl (d s) = dtl (s :: ('k, 'a) dect_machine_scheme)" and "ll (d s) = ll s"
proof -
  have d: "d s = s\<lparr>kern := kern (d s)\<rparr>" "ktime Z (kern s) \<le> ktime Z (kern (d s))"
    "kview Z (kern (d s)) = (kview Z (kern s))\<lparr>kv_txq := []\<rparr>"
    using assms unfolding drains_def by blast+
  have "mem (d s) = mem s" using arg_cong[OF d(1), of mem] by simp
  with d(2,3) show "same_rx Z s (d s)" "kv_txq (kview Z (kern (d s))) = []" by (simp_all add: same_rx_def)
  show "dtl (d s) = dtl s" using arg_cong[OF d(1), of dtl] by simp
  show "ll (d s) = ll s" using arg_cong[OF d(1), of ll] by simp
qed

section \<open>The receive path keeps the contract\<close>

lemma dc_envD:
  assumes "dc_env c"
  shows "dect_env (dc_Z c) (dc_cnt c) (dc_cap c)" and "dt_rx_pool (dc_state c) = dect_pool (dc_Z c)"
    and "dc_queued c < DECT_LINK_LAYER_TX_MSG_QUEUE_DEPTH"
    and "consumes (dc_Z c) (dect_pool (dc_Z c))
       (dect_callback (dc_call_cb c) (dt_transport_rx_callback (dc_state c)))"
  using assms by (simp_all add: dc_env_def)

lemma dc_acks:
  assumes env: "dc_env c" and ready: "dc_ready c s"
  shows "\<exists>s'. dc_ack c h s = Some s' \<and> same_rx (dc_Z c) s s' \<and> dc_settled c s'"
proof -
  obtain dst f where h: "h = (dst, f)" by (cases h)
  note e = dect_envD[OF dc_envD(1)[OF env]]
  have init: "li_initialized (ll s)" and room: "txq_room (dc_Z c) s"
    using ready dc_envD(3)[OF env] by (simp_all add: dc_ready_def dc_holds_def txq_room_def)
  obtain s' ack where s': "prv_write_data_ack_dect (dc_Z c) dst f s = Some s'" "only_dev s s'" "same_rx (dc_Z c) s s'"
    "kview (dc_Z c) (kern s') = (kview (dc_Z c) (kern s))\<lparr>kv_txq := kv_txq (kview (dc_Z c) (kern s)) @ [ack],
       kv_put := kv_put (kview (dc_Z c) (kern s)) @ [ack]\<rparr>"
    using ack_spec_dect[OF e(4,5) init room, of dst f] by metis
  have "dc_settled c s'"
    using ready s'(4) only_dev_dtl[OF s'(2)] only_dev_ll[OF s'(2)] same_rx_pool(1)[OF s'(3)]
    by (simp add: dc_ready_def dc_settled_def dc_holds_def)
  with s'(1,3) h show ?thesis by (auto simp: dc_ack_def)
qed

lemma dc_data:
  assumes env: "dc_env c" and ready: "dc_ready c s" and f: "dect_frame_frag e = Some (f, h)"
  shows "dc_rx_frame c e s = do { (out, s2) \<leftarrow> rx_step (dc_Z c) (dect_pool (dc_Z c)) f s;
     rx_outcome (dc_ack c) (prv_handle_complete_incoming_data_transaction_dect (dc_Z c) (dc_call_cb c)) h out s2 }"
proof -
  obtain src buf n where e: "e = (src, buf, n)" by (cases e)
  from f e obtain d where d: "get_dect_data_frame buf = Some d" "8 \<le> n"
    "dh_frame_type (dd_header d) = DECT_TRANSPORT_LAYER_FRAME_TYPE_DATA"
    "f = dect_frag src d n" "h = (src, d)"
    by (auto simp: dect_frame_frag_def split: if_splits option.splits)
  have "dt_rx_pool (dtl s) = dect_pool (dc_Z c)"
    using ready dc_envD(2)[OF env] by (simp add: dc_ready_def dc_holds_def)
  with d(2) show ?thesis
    by (simp add: e dc_rx_frame_def on_rx_data_frame[OF d(1) _ d(3)] handle_data_frame_dect_alt[OF _ d(1)]
        d(4,5) dc_ack_def[abs_def])
qed

text \<open>A frame without a fragment is ignored, or an ACK.\<close>

lemma dc_rest_cases:
  assumes ok: "dect_frame_ok buf n" and none: "dect_frame_frag (src, buf, n) = None"
  obtains "dc_rx_frame c (src, buf, n) s = Some s"
    | "dc_rx_frame c (src, buf, n) s = Some (prv_handle_data_ack_frame_dect (dc_Z c) buf n s)"
proof -
  have len: "n \<le> length buf" using ok by (simp add: dect_frame_ok_def)
  consider "n < 2" | h where "2 \<le> n" "get_dect_frame_header buf = Some h"
    using len get_dect_frame_header_None[of buf] by (cases "n < 2"; cases "get_dect_frame_header buf") auto
  then show thesis
  proof cases
    case 1
    with that show ?thesis by (auto simp: dc_rx_frame_def prv_on_data_layer_rx_def)
  next
    case (2 h)
    show ?thesis
    proof (cases "dh_frame_type h = DECT_TRANSPORT_LAYER_FRAME_TYPE_DATA")
      case True
      have "n < 8"
      proof (rule ccontr)
        assume "\<not> n < 8"
        then obtain d where d: "get_dect_data_frame buf = Some d"
          using len get_dect_data_frame_None[of buf] by (cases "get_dect_data_frame buf") auto
        have "get_dect_frame_header buf = Some (dd_header d)"
          using get_dect_frame_header_put(1)[of d] put_get_dect_data_frame[OF d] by simp
        with d True 2 \<open>\<not> n < 8\<close> none show False by (simp add: dect_frame_frag_def)
      qed
      with True 2 that show ?thesis
        by (auto simp: dc_rx_frame_def prv_on_data_layer_rx_def prv_handle_data_frame_dect_def)
    next
      case False
      with 2 that show ?thesis
        by (cases "dh_frame_type h = DECT_TRANSPORT_LAYER_FRAME_TYPE_DATA_ACK")
          (auto simp: dc_rx_frame_def prv_on_data_layer_rx_def)
    qed
  qed
qed

lemma ack_frame_same_rx:
  assumes "sem_laws Z"
  shows "kview Z (kern (prv_handle_data_ack_frame_dect Z buf n s)) =
      (kview Z (kern s))\<lparr>kv_sem := (kv_sem (kview Z (kern s)))(DectAckSem := 1)\<rparr>"
    and "same_rx Z s (prv_handle_data_ack_frame_dect Z buf n s)"
  using sem_view(3,4)[OF assms] by (simp_all add: prv_handle_data_ack_frame_dect_def same_rx_def)

lemma dc_rest:
  assumes env: "dc_env c" and ready: "dc_ready c s" and ok: "dect_frame_ok buf n"
    and none: "dect_frame_frag (src, buf, n) = None"
  shows "\<exists>s'. dc_rx_frame c (src, buf, n) s = Some s' \<and> same_rx (dc_Z c) s s' \<and> dc_settled c s'"
proof -
  let ?s = "prv_handle_data_ack_frame_dect (dc_Z c) buf n s"
  have set: "dc_settled c s" using ready by (simp add: dc_ready_def dc_settled_def dc_holds_def)
  note a = ack_frame_same_rx[OF dect_envD(3)[OF dc_envD(1)[OF env]], where buf = buf and n = n and s = s]
  have "dc_settled c ?s"
    using set a(1) same_rx_pool(1)[OF a(2)]
    by (simp add: dc_settled_def dc_holds_def) (simp add: prv_handle_data_ack_frame_dect_def)
  with set a(2) dc_rest_cases[OF ok none, of c s] show ?thesis by (metis same_rx_refl)
qed

interpretation dect_rx: message_receiver dc_env dc_Z dc_cnt dc_cap "\<lambda>c. dect_pool (dc_Z c)"
  dc_ready dc_settled dc_ack "\<lambda>c. dect_callback (dc_call_cb c) (dt_transport_rx_callback (dc_state c))"
  "\<lambda>c. prv_handle_complete_incoming_data_transaction_dect (dc_Z c) (dc_call_cb c)"
  "\<lambda>c (src, buf, n). dect_frame_ok buf n" dect_frame_frag dc_rx_frame dc_valid dc_transfer dc_event dc_drain
proof unfold_locales
  fix c :: "('a, 'b) dect_case" and s s' :: "('a, 'b) dect_machine_scheme" and p
  show "clock_laws (dc_Z c)" "net_buf_laws (dc_Z c) (dc_cnt c) (dc_cap c)"
    "pool_fits (dc_cnt c) (dc_cap c) (dect_pool (dc_Z c))" if "dc_env c"
    using dect_envD(1,2,6)[OF dc_envD(1)[OF that]] by auto
  show "consumes (dc_Z c) (dect_pool (dc_Z c)) (dect_callback (dc_call_cb c) (dt_transport_rx_callback (dc_state c)))"
    if "dc_env c" by (rule dc_envD(4)[OF that])
  show "pool_inv (dc_Z c) (dect_pool (dc_Z c)) s" if "dc_settled c s"
    using that by (simp add: dc_settled_def dc_holds_def)
  show "dc_settled c s" if "dc_ready c s" using that by (simp add: dc_settled_def dc_ready_def dc_holds_def)
  show "dc_ready c s'" if "dc_ready c s" "only_rx s s'" "pool_inv (dc_Z c) (dect_pool (dc_Z c)) s'"
    "same_but_bufs (kview (dc_Z c) (kern s)) (kview (dc_Z c) (kern s'))"
    using that only_rx_dect[OF that(2)] by (simp add: dc_ready_def dc_holds_def same_but_bufs_def)
  show "dc_settled c s'" if "dc_settled c s" "only_buffers s s'" "pool_inv (dc_Z c) (dect_pool (dc_Z c)) s'"
    "kv_txq (kview (dc_Z c) (kern s')) = kv_txq (kview (dc_Z c) (kern s))"
    using that only_buffers_dect[OF that(2)] by (simp add: dc_settled_def dc_holds_def)
  show "\<exists>s'. dc_ack c h s = Some s' \<and> same_rx (dc_Z c) s s' \<and> dc_settled c s'" if "dc_env c" "dc_ready c s" for h
    by (rule dc_acks[OF that])
  show "prv_handle_complete_incoming_data_transaction_dect (dc_Z c) (dc_call_cb c) p s =
      deliver_release (dc_Z c) (dect_callback (dc_call_cb c) (dt_transport_rx_callback (dc_state c))) p s"
    if "dc_settled c s"
    using that by (simp add: handle_complete_dect_alt dc_settled_def dc_holds_def)
  fix e :: "u32 \<times> u8 list \<times> nat"
  show "unat (rf_total f) \<le> dc_cap c (pl_buffer_pool (dect_pool (dc_Z c))) \<and> rf_len f \<le> length (rf_payload f) \<and>
      rf_len f < 2 ^ 16 \<and> src_query (dect_pool (dc_Z c)) (rf_src f)"
    if "dc_env c" "case e of (src, buf, n) \<Rightarrow> dect_frame_ok buf n" "dect_frame_frag e = Some (f, h)" for f h
    using that dect_envD(7)[OF dc_envD(1)[OF that(1)]]
    by (auto simp: dect_frame_frag_def dect_frame_ok_def split: if_splits option.splits prod.splits
        dest!: put_get_dect_data_frame arg_cong[where f = length])
  show "dc_rx_frame c e s = do { (out, s2) \<leftarrow> rx_step (dc_Z c) (dect_pool (dc_Z c)) f s;
     rx_outcome (dc_ack c) (prv_handle_complete_incoming_data_transaction_dect (dc_Z c) (dc_call_cb c)) h out s2 }"
    if "dc_env c" "dc_ready c s" "dect_frame_frag e = Some (f, h)" for f h
    by (rule dc_data[OF that])
  show "\<exists>s'. dc_rx_frame c e s = Some s' \<and> same_rx (dc_Z c) s s' \<and> dc_settled c s'"
    if "dc_env c" "dc_ready c s" "case e of (src, buf, n) \<Rightarrow> dect_frame_ok buf n" "dect_frame_frag e = None"
    using that dc_rest[of c s] by (cases e) auto
  fix k
  show "dc_env c" "tf_ok (dc_cap c) (dect_pool (dc_Z c)) (dc_transfer c)" if "dc_valid c"
    using dc_messageD(1,2)[OF dc_validD(1)[OF that]] by auto
  show "src_query (dect_pool (dc_Z c)) (tf_src (dc_transfer c))" by simp
  show "case dc_event c k of (src, buf, n) \<Rightarrow> dect_frame_ok buf n"
    if "dc_valid c" "k < tf_n (dc_transfer c)"
    by (rule dc_event_decoded[OF dc_validD(1)[OF that(1)] that(2)]) (simp add: dc_event_def)
  show "\<exists>f h. dect_frame_frag (dc_event c k) = Some (f, h) \<and> is_frag (dc_transfer c) k f"
    if "dc_valid c" "k < tf_n (dc_transfer c)"
    by (rule dc_event_decoded[OF dc_validD(1)[OF that(1)] that(2)]) blast
  show "dc_ready c (dc_drain c s) \<and> same_rx (dc_Z c) s (dc_drain c s)" if "dc_valid c" "dc_settled c s"
    using drains_same[OF dc_validD(3)[OF that(1)], of s] that(2)
    by (simp add: dc_settled_def dc_ready_def dc_holds_def same_rx_pool(1))
qed

text \<open>
  The run of a reception: fragments by number, other frames in between, and the delivery at the
  end.
\<close>

definition dc_rx :: "('k, 'a) dect_case \<Rightarrow> nat \<Rightarrow> ('k, 'a) dect_machine_scheme \<Rightarrow>
  ('k, 'a) dect_machine_scheme option" where
  "dc_rx c k s = do { s' \<leftarrow> dc_rx_frame c (dc_event c k) s; Some (dc_drain c s') }"

definition dc_other :: "('k, 'a) dect_case \<Rightarrow> u32 \<times> u8 list \<times> nat \<Rightarrow> ('k, 'a) dect_machine_scheme \<Rightarrow>
  ('k, 'a) dect_machine_scheme option" where
  "dc_other c e s = do { s' \<leftarrow> dc_rx_frame c e s; Some (dc_drain c s') }"

text \<open>Frames of other transfers, and ACKs.\<close>

definition dc_admits :: "('k, 'a) dect_case \<Rightarrow> u32 \<times> u8 list \<times> nat \<Rightarrow> bool" where
  "dc_admits c e \<longleftrightarrow> (case e of (src, buf, len_bytes) \<Rightarrow> dect_frame_ok buf len_bytes) \<and>
     (case dect_frame_frag e of None \<Rightarrow> True | Some (f, h) \<Rightarrow> \<not> same_key (dc_transfer c) f)"

lemma dc_admits_alt:
  "dc_admits c e \<longleftrightarrow> (case e of (src, buf, len_bytes) \<Rightarrow> dect_frame_ok buf len_bytes) \<and>
     (\<forall>f h. dect_frame_frag e = Some (f, h) \<longrightarrow> \<not> same_key (dc_transfer c) f)"
  unfolding dc_admits_def by (cases "dect_frame_frag e") auto

definition dc_final :: "('k, 'a) dect_case \<Rightarrow> ('k, 'a) dect_machine_scheme option \<Rightarrow> bool" where
  "dc_final c = delivered (dc_Z c) (dect_pool (dc_Z c)) (dc_transfer c) (dc_settled c)
     (prv_handle_complete_incoming_data_transaction_dect (dc_Z c) (dc_call_cb c)) (dc_drain c)"

section \<open>Properties\<close>

text \<open>A machine with a running transport, for the witnesses.\<close>

definition ref_dect :: "kworld dect_machine" where
  "ref_dect = \<lparr>kern = rk_init, mem = boot_mem, dev_fetched = True, dev_id = 0x04030201,
     ll = link_inst_init\<lparr>li_initialized := True, li_rx_callback := Some Prv_on_data_layer_rx\<rparr>,
     dtl = dect_transport_inst_init\<lparr>dt_initialized := True, dt_rx_pool := dect_pool ref_zephyr\<rparr>\<rparr>"

lemma ref_dect_simps [simp]:
  "kern ref_dect = rk_init" "mem ref_dect = boot_mem" "dt_initialized (dtl ref_dect)"
  "dt_rx_pool (dtl ref_dect) = dect_pool ref_zephyr" "dt_transport_rx_callback (dtl ref_dect) = None"
  "li_initialized (ll ref_dect)" "dev_fetched ref_dect" "dev_id ref_dect = 0x04030201"
  by (simp_all add: ref_dect_def dect_transport_inst_init_def)

lemma ref_dect_env: "dect_env ref_zephyr ref_cnt ref_cap"
  by (simp add: dect_env_def ref_clock_laws ref_net_buf_laws ref_sem_laws ref_hwinfo_laws
      ref_msgq_laws DECT_LINK_LAYER_TX_MSG_QUEUE_DEPTH_def ref_cnt_def ref_cap_def)

lemma boot_mem_free [simp]: "tb_buffer (tbs boot_mem p) = None"
  "tb_state (tbs boot_mem p) = TRANSPORT_BUFFER_STATE_FREE"
  by (simp_all add: boot_mem_def)

lemma ref_dect_ready: "dect_ready ref_zephyr ref_dect"
  by (auto simp: dect_ready_def live_bufs_def tb_at_def intro!: fresh_pool_inv)

definition ref_dect_case :: "(kworld, unit) dect_case" where
  "ref_dect_case = \<lparr>dc_Z = ref_zephyr, dc_cnt = ref_cnt, dc_cap = ref_cap,
     dc_call_cb = (\<lambda>f n p. Some), dc_state = dtl ref_dect, dc_queued = 0, dc_drain = (\<lambda>s. s\<lparr>kern := (kern s)\<lparr>rk_txq := []\<rparr>\<rparr>),
     dc_src = 0x0A0B0C0D, dc_seq = 7, dc_msg = map of_nat [0..<20],
     dc_frame = (\<lambda>k. put_dect_data_frame (dect_data_frame 7 (map of_nat [0..<20]) k)), dc_since = 0\<rparr>"

lemma length_put_dect_data:
  "length (put_dect_data_frame (dect_data_frame seq msg k)) = dect_frame_len msg k"
  by (simp add: dect_frame_len_def dect_data_frame_def)

lemma take_put_dect_data [simp]:
  "take (dect_frame_len msg k) (put_dect_data_frame (dect_data_frame seq msg k)) =
     put_dect_data_frame (dect_data_frame seq msg k)"
  by (simp only: length_put_dect_data[symmetric, of msg k seq] take_all order_refl)

lemma ref_dect_case_valid: "dc_valid ref_dect_case" "dc_ready ref_dect_case ref_dect"
  "received (dc_Z ref_dect_case) (dect_pool (dc_Z ref_dect_case)) (dc_transfer ref_dect_case) 0 ref_dect"
proof -
  have env: "dc_env ref_dect_case"
    by (simp add: dc_env_def ref_dect_case_def ref_dect_env dect_callback_def consumes_nothing
        DECT_LINK_LAYER_TX_MSG_QUEUE_DEPTH_def)
  show "dc_valid ref_dect_case"
    unfolding dc_valid_def dc_message_def
    by (rule conjI[OF conjI[OF env]]) (simp_all add: ref_dect_case_def drains_def rk_view_def)
  show "dc_ready ref_dect_case ref_dect"
    using ref_dect_ready by (simp add: dc_ready_def dc_holds_def ref_dect_case_def dect_ready_def)
  have "awaited ref_zephyr (dect_pool ref_zephyr) (dc_transfer ref_dect_case) ref_dect"
    by (auto simp: awaited_def tf_matches_def matches_def tb_at_def pool_ptrs_def
        dect_pool_def rk_init_def dc_transfer_def ref_dect_case_def)
  then show "received (dc_Z ref_dect_case) (dect_pool (dc_Z ref_dect_case)) (dc_transfer ref_dect_case) 0 ref_dect"
    by (simp add: received_def ref_dect_case_def)
qed

lemma dect_feed:
  assumes "dc_valid c" and "dc_ready c s"
    and "received (dc_Z c) (dect_pool (dc_Z c)) (dc_transfer c) 0 s"
    and "expect 0 evs = Some m" and "Suc m = tf_n (dc_transfer c)"
    and "\<And>e. Inl e \<in> set evs \<Longrightarrow> dc_admits c e"
  shows "\<exists>s'. feed (dc_other c) (dc_rx c) evs s = Some s' \<and> dc_final c (dc_rx c m s')"
  unfolding dc_other_def[abs_def] dc_rx_def[abs_def] dc_final_def
  by (rule dect_rx.reassembles[OF assms(1) conjI[OF assms(2,3)] assms(4,5)])
    (use assms(6)[unfolded dc_admits_alt] in blast)

text \<open>C3. Reassembly in spite of retransmissions: when the fragments of a message arrive in order,
  each any positive number of times, with ACKs and fragments of other messages in between, every
  one of the calls returns, and the arrival of the last fragment delivers: the callback runs on a
  context that holds exactly the bytes of the message, its size, its sequence id and its sender,
  with one reference, which is dropped afterwards. (A transfer that takes longer than its
  ten-second deadline is exempt.)\<close>

theorem dect_reassembles:
  assumes "dc_valid c" and "dc_ready c s"
    and "received (dc_Z c) (dect_pool (dc_Z c)) (dc_transfer c) 0 s"
    and "expect 0 evs = Some m" and "Suc m = tf_n (dc_transfer c)"
    and "\<And>e. Inl e \<in> set evs \<Longrightarrow> dc_admits c e"
  shows "\<exists>s'. feed (dc_other c) (dc_rx c) evs s = Some s' \<and> dc_final c (dc_rx c m s')"
  by (rule dect_feed[OF assms])

theorem dect_reassembles_witness:
  "\<exists>s'. feed (dc_other ref_dect_case) (dc_rx ref_dect_case)
       [Inr 0, Inl (5, put_dect_data_frame_ack \<lparr>da_header = \<lparr>dh_version = 0, dh_frame_type = 1\<rparr>,
          da_seq_id = 3, da_frag_idx = 0\<rparr>, 5), Inr 0] ref_dect = Some s' \<and>
     dc_final ref_dect_case (dc_rx ref_dect_case 1 s')"
proof (rule dect_reassembles[OF ref_dect_case_valid])
  show "Suc 1 = tf_n (dc_transfer ref_dect_case)"
    by (simp add: dc_transfer_n ref_dect_case_def n_chunks_def)
  show "dc_admits ref_dect_case e"
    if "Inl e \<in> set [Inr 0, Inl (5, put_dect_data_frame_ack \<lparr>da_header = \<lparr>dh_version = 0, dh_frame_type = 1\<rparr>,
          da_seq_id = 3, da_frag_idx = 0\<rparr>, 5), Inr 0]" for e
    using that by (auto simp: dc_admits_def dect_frame_ok_def put_dect_data_frame_ack_def le16_def
        dect_frame_frag_def)
qed simp

text \<open>C15. Safety of the receive path: whatever frame arrives - data, ACK, truncated or unknown - if
  its declared total does not exceed a receive buffer, its length is true and the transmit queue has
  room for the ACK, the handler returns (no access out of bounds, no failed assertion, no wait), queues
  at most one frame and keeps the pool's invariant: every context owns its buffer, no buffer is shared
  or lost. The room is needed: the handler runs in the link thread, which is the one that empties the
  queue, so that its put of the ACK into a full queue would wait for itself.\<close>

theorem dect_rx_safe:
  assumes env: "dect_env Z cnt cap" and ready: "dect_ready Z s" and room: "txq_room Z s"
    and cb: "consumes Z (dect_pool Z) (dect_callback call_cb (dt_transport_rx_callback (dtl s)))"
    and ok: "dect_frame_ok buf len_bytes"
  shows "\<exists>s'. prv_on_data_layer_rx Z call_cb src buf len_bytes s = Some s' \<and> dect_ready Z s' \<and>
     dtl s' = dtl s \<and> ktime Z (kern s) \<le> ktime Z (kern s') \<and>
     length (kv_txq (kview Z (kern s'))) \<le> Suc (length (kv_txq (kview Z (kern s))))"
proof -
  let ?c = "\<lparr>dc_Z = Z, dc_cnt = cnt, dc_cap = cap, dc_call_cb = call_cb, dc_state = dtl s,
    dc_queued = length (kv_txq (kview Z (kern s))), dc_drain = id, dc_src = src, dc_seq = 0, dc_msg = [],
    dc_frame = (\<lambda>k. []), dc_since = 0\<rparr>"
  have "dc_env ?c" using env ready room cb by (simp add: dc_env_def dect_ready_def txq_room_def)
  moreover have "dc_ready ?c s" using ready by (simp add: dc_ready_def dc_holds_def dect_ready_def)
  ultimately have "\<exists>s'. dc_rx_frame ?c (src, buf, len_bytes) s = Some s' \<and> dc_settled ?c s' \<and>
      ktime (dc_Z ?c) (kern s) \<le> ktime (dc_Z ?c) (kern s')"
    by (rule dect_rx.rx_total) (simp add: ok)
  with ready show ?thesis by (auto simp: dc_rx_frame_def dc_settled_def dc_holds_def dect_ready_def)
qed

theorem dect_rx_safe_witness:
  "\<exists>s'. prv_on_data_layer_rx ref_zephyr (\<lambda>f n p. Some) 9 [0, 0, 7, 0, 2, 1, 20, 0, 1, 2, 3] 11 ref_dect = Some s' \<and>
     dect_ready ref_zephyr s' \<and>
     dtl s' = dtl ref_dect \<and> ktime ref_zephyr (kern ref_dect) \<le> ktime ref_zephyr (kern s') \<and>
     length (kv_txq (kview ref_zephyr (kern s'))) \<le> Suc (length (kv_txq (kview ref_zephyr (kern ref_dect))))"
  by (rule dect_rx_safe[OF ref_dect_env ref_dect_ready])
    (simp_all add: txq_room_def DECT_LINK_LAYER_TX_MSG_QUEUE_DEPTH_def dect_callback_def consumes_nothing dect_frame_ok_def
      mk16_def)

text \<open>Start-up of the transport: from the state of static memory, with the link layer running,
  \<open>dect_transport_layer_init\<close> succeeds, leaves four free contexts and no buffer allocated,
  registers the receive path with the link layer and publishes the transport as the downstream
  one; a second call is refused and changes nothing.\<close>

theorem dect_transport_starts:
  assumes "layout_laws Z" and "sem_laws Z" and "dtl s = dect_transport_inst_init" and "li_initialized (ll s)"
    and "live_bufs DectRxPool (kview Z (kern s)) = {}" and "mem s = boot_mem"
  shows "\<exists>s'. dect_transport_layer_init Z s = (0, s') \<and> dect_ready Z s' \<and>
     li_rx_callback (ll s') = Some Prv_on_data_layer_rx \<and>
     dect_transport_layer_get_transport s = None \<and>
     dect_transport_layer_get_transport s' = Some DectTransport \<and>
     tr_type (dt_transport (dtl s')) = ALFIE_TRANSPORT_TYPE_DOWNSTREAM \<and>
     dect_transport_layer_init Z s' = (- EALREADY, s')"
proof -
  have new: "\<not> dt_initialized (dtl s)" "dt_rx_pool (dtl s) = pool_zero DectRxPool"
    using assms(3) by (simp_all add: dect_transport_inst_init_def)
  show ?thesis
    by (rule dect_init_spec[OF assms(1,2) new(1) assms(4) new(2) assms(5)])
      (use assms(6) new(1) in \<open>auto simp: tb_at_def dect_transport_layer_init_def dect_ready_def
        dect_transport_layer_get_transport_def\<close>)
qed

theorem dect_transport_starts_witness:
  "\<exists>s'. dect_transport_layer_init ref_zephyr (ref_dect\<lparr>dtl := dect_transport_inst_init\<rparr>) = (0, s') \<and>
     dect_ready ref_zephyr s' \<and> li_rx_callback (ll s') = Some Prv_on_data_layer_rx \<and>
     dect_transport_layer_get_transport (ref_dect\<lparr>dtl := dect_transport_inst_init\<rparr>) = None \<and>
     dect_transport_layer_get_transport s' = Some DectTransport \<and>
     tr_type (dt_transport (dtl s')) = ALFIE_TRANSPORT_TYPE_DOWNSTREAM \<and>
     dect_transport_layer_init ref_zephyr s' = (- EALREADY, s')"
  by (rule dect_transport_starts) (simp_all add: ref_layout_laws ref_sem_laws live_bufs_def)

end
