(* ===== verification/Ble_Core.thy ===== *)
theory Ble_Core
  imports Dect_Transport_Layer
begin

text \<open>
  \<^verbatim>\<open>alfie/app/src/ble/ble_core.c\<close> and
  \<^verbatim>\<open>ble/services/control_service/control_ble_service.c\<close>: the reset of the Bluetooth controller, the
  device's name and the advertising data, and the characteristic from which a phone reads the
  device's id. The machine gains their variables.
\<close>

unbundle bit_operations_syntax

section \<open>State\<close>

definition BLE_CORE_NRF5340_RESET_PULSE_MS :: nat where "BLE_CORE_NRF5340_RESET_PULSE_MS = 10"
definition BLE_CORE_NRF5340_BOOT_DELAY_MS :: nat where "BLE_CORE_NRF5340_BOOT_DELAY_MS = 3000"
definition BLE_CORE_MAX_ADV_UUID128 :: nat where "BLE_CORE_MAX_ADV_UUID128 = 1"
definition BT_UUID_SIZE_128 :: nat where "BT_UUID_SIZE_128 = 16"

text \<open>
  \<open>bc_ad_name_len\<close> is the length field of the second entry of \<open>prv_ad_data\<close>, whose data pointer is
  \<open>prv_device_name\<close>; \<open>None\<close> is the zeroed entry before start-up.
\<close>

record ble_core_inst =
  bc_device_name :: "u8 list"
  bc_ad_name_len :: "u8 option"
  bc_adv_uuid128_buf :: "u8 list"
  bc_adv_uuid128_count :: u8

record control_inst =
  cs_fetched :: bool
  cs_dev_id :: u32

record 'k core_machine = "'k dect_machine" +
  bcore :: ble_core_inst
  ctl :: control_inst

definition ble_core_inst_init :: ble_core_inst where
  "ble_core_inst_init = \<lparr>bc_device_name = replicate 16 0, bc_ad_name_len = None,
     bc_adv_uuid128_buf = replicate (BLE_CORE_MAX_ADV_UUID128 * BT_UUID_SIZE_128) 0,
     bc_adv_uuid128_count = 0\<rparr>"

section \<open>The name\<close>

text \<open>\<open>snprintf(buf, size, "Alfie-%08x", id)\<close>, in ASCII: what it writes and what it returns.\<close>

definition hex_digit :: "u32 \<Rightarrow> u8" where
  "hex_digit d = (if d < 10 then 48 + ucast d else 87 + ucast d)"

definition hex8 :: "u32 \<Rightarrow> u8 list" where
  "hex8 x = map (\<lambda>i. hex_digit (drop_bit (4 * i) x AND 0xF)) [7, 6, 5, 4, 3, 2, 1, 0]"

definition device_name_text :: "u32 \<Rightarrow> u8 list" where
  "device_name_text dev = [65, 108, 102, 105, 101, 45] @ hex8 dev"

definition snprintf_name :: "nat \<Rightarrow> u32 \<Rightarrow> u8 list \<times> nat" where
  "snprintf_name sz dev =
     (take (sz - 1) (device_name_text dev) @ [0], length (device_name_text dev))"

section \<open>Operations\<close>

definition prv_reset_nrf5340 ::
  "'k zephyr \<Rightarrow> ('k, 'a) core_machine_scheme \<Rightarrow> int \<times> ('k, 'a) core_machine_scheme" where
  "prv_reset_nrf5340 Z s =
     (if \<not> gpio_is_ready_dt Z (kern s) then (- ENODEV, s)
      else let (ret, k) = gpio_pin_configure_dt Z (kern s)
           in if ret \<noteq> 0 then (ret, s\<lparr>kern := k\<rparr>)
              else (0, s\<lparr>kern := k_sleep Z BLE_CORE_NRF5340_BOOT_DELAY_MS
                      (gpio_pin_set_dt Z 0 (k_sleep Z BLE_CORE_NRF5340_RESET_PULSE_MS k))\<rparr>))"

text \<open>The work item: its argument is not used, and a failure is only logged.\<close>

definition adv_data :: "ble_core_inst \<Rightarrow> bt_data list option" where
  "adv_data b = do {
     name \<leftarrow> (case bc_ad_name_len b of
                None \<Rightarrow> Some \<lparr>bd_type = BT_DATA_NONE, bd_data = []\<rparr>
              | Some len \<Rightarrow> do { bytes \<leftarrow> mem_read (bc_device_name b) (unat len);
                                Some \<lparr>bd_type = BT_DATA_NAME_COMPLETE, bd_data = bytes\<rparr> });
     Some [\<lparr>bd_type = BT_DATA_FLAGS, bd_data = [0x02 OR 0x04]\<rparr>, name] }"

definition scan_data :: "ble_core_inst \<Rightarrow> bt_data list option" where
  "scan_data b =
     (if bc_adv_uuid128_count b > 0
      then do { bytes \<leftarrow> mem_read (bc_adv_uuid128_buf b)
                          (unat (ucast (bc_adv_uuid128_count b) * of_nat BT_UUID_SIZE_128 :: u8));
                Some [\<lparr>bd_type = BT_DATA_UUID128_ALL, bd_data = bytes\<rparr>] }
      else Some [])"

definition prv_advertising_work_handler ::
  "'k zephyr \<Rightarrow> ('k, 'a) core_machine_scheme \<Rightarrow> ('k, 'a) core_machine_scheme option" where
  "prv_advertising_work_handler Z s = do {
     sd \<leftarrow> scan_data (bcore s);
     ad \<leftarrow> adv_data (bcore s);
     let (ret, k) = bt_le_adv_start Z ad sd (kern s);
     Some (s\<lparr>kern := k\<rparr>) }"

definition ble_core_prv_device_connected ::
  "'k zephyr \<Rightarrow> nat \<Rightarrow> u8 \<Rightarrow> ('k, 'a) core_machine_scheme \<Rightarrow> ('k, 'a) core_machine_scheme" where
  "ble_core_prv_device_connected Z conn err s = s"

definition ble_core_prv_device_disconnected ::
  "'k zephyr \<Rightarrow> nat \<Rightarrow> u8 \<Rightarrow> ('k, 'a) core_machine_scheme \<Rightarrow> ('k, 'a) core_machine_scheme" where
  "ble_core_prv_device_disconnected Z conn reason s = s\<lparr>kern := k_work_submit Z (kern s)\<rparr>"

definition ble_core_init ::
  "'k zephyr \<Rightarrow> ('k, 'a) core_machine_scheme \<Rightarrow> int \<times> ('k, 'a) core_machine_scheme" where
  "ble_core_init Z s =
     (let (dev, s1) = device_id Z s;
          (text, len) = snprintf_name 16 dev;
          s2 = s1\<lparr>bcore := (bcore s1)\<lparr>bc_device_name := overwrite text (bc_device_name (bcore s1)),
                                    bc_ad_name_len := Some (of_nat len)\<rparr>\<rparr>;
          (_, s3) = prv_reset_nrf5340 Z s2;
          (ret, k) = bt_enable Z (kern s3)
      in if ret \<noteq> 0 then (ret, s3\<lparr>kern := k\<rparr>)
         else (0, s3\<lparr>kern := k_work_init Z Prv_advertising_work_handler k\<rparr>))"

definition ble_core_register_adv_uuid128 ::
  "u8 list \<Rightarrow> ('k, 'a) core_machine_scheme \<Rightarrow> int \<times> ('k, 'a) core_machine_scheme" where
  "ble_core_register_adv_uuid128 uuid s =
     (if unat (bc_adv_uuid128_count (bcore s)) \<ge> BLE_CORE_MAX_ADV_UUID128 then (- ENOMEM, s)
      else (0, s\<lparr>bcore := (bcore s)\<lparr>
             bc_adv_uuid128_buf := overwrite_at (unat (bc_adv_uuid128_count (bcore s)) * BT_UUID_SIZE_128)
               (take BT_UUID_SIZE_128 uuid) (bc_adv_uuid128_buf (bcore s)),
             bc_adv_uuid128_count := bc_adv_uuid128_count (bcore s) + 1\<rparr>\<rparr>))"

definition ble_core_start_advertising ::
  "'k zephyr \<Rightarrow> ('k, 'a) core_machine_scheme \<Rightarrow> int \<times> ('k, 'a) core_machine_scheme" where
  "ble_core_start_advertising Z s = (0, s\<lparr>kern := k_work_submit Z (kern s)\<rparr>)"

text \<open>
  The read callback of the device id characteristic: its result and the bytes it puts into the
  \<open>len\<close> bytes of the answer.
\<close>

definition prv_on_device_id_read ::
  "'k zephyr \<Rightarrow> nat \<Rightarrow> nat \<Rightarrow> ('k, 'a) core_machine_scheme \<Rightarrow>
   (int \<times> u8 list) \<times> ('k, 'a) core_machine_scheme" where
  "prv_on_device_id_read Z len offset s =
     (let s1 = (if cs_fetched (ctl s) = False
                then let (dev, s0) = device_id Z s
                     in s0\<lparr>ctl := (ctl s0)\<lparr>cs_dev_id := dev, cs_fetched := True\<rparr>\<rparr>
                else s);
          (res, k) = bt_gatt_attr_read Z len offset (le32 (cs_dev_id (ctl s1))) (kern s1)
      in (res, s1\<lparr>kern := k\<rparr>))"

section \<open>Lemmas\<close>

text \<open>The hexadecimal digits determine the number.\<close>

definition nibble_value :: "u8 \<Rightarrow> u32" where
  "nibble_value c = (if c < 58 then ucast c - 48 else ucast c - 87)"

definition parse_hex8 :: "u8 list \<Rightarrow> u32" where
  "parse_hex8 cs = fold (\<lambda>c acc. push_bit 4 acc OR nibble_value c) cs 0"

lemma nibble_take: "(x :: u32) AND 0xF = take_bit 4 x"
  by (simp add: take_bit_eq_mask mask_eq_exp_minus_1)

lemma nibble_less: "(x :: u32) AND 0xF < 16"
  by (simp add: nibble_take word_less_nat_alt take_bit_eq_mod unat_mod)

lemma join_nibble: "push_bit 4 (drop_bit (m + 4) (x :: u32)) OR take_bit 4 (drop_bit m x) = drop_bit m x"
proof (rule bit_word_eqI)
  fix n assume "n < LENGTH(32)"
  show "bit (push_bit 4 (drop_bit (m + 4) x) OR take_bit 4 (drop_bit m x)) n = bit (drop_bit m x) n"
    by (cases "n < 4") (auto simp: bit_simps algebra_simps dest: bit_imp_le_length)
qed

lemma top_nibble: "take_bit 4 (drop_bit 28 (x :: u32)) = drop_bit 28 x"
  by (rule bit_word_eqI) (auto simp: bit_simps dest: bit_imp_le_length)

lemma nibble_value_digit:
  assumes "d < 16"
  shows "nibble_value (hex_digit d) = d"
proof -
  have "unat d < 16" using assms by (simp add: word_less_nat_alt)
  then have "d \<in> of_nat ` {0..<16}" by (intro image_eqI[of _ _ "unat d"]) simp_all
  then have "d \<in> {0, 1, 2, 3, 4, 5, 6, 7, 8, 9, 10, 11, 12, 13, 14, 15}"
    by (simp add: atLeastLessThan_nat_numeral numeral_eq_Suc atLeast0_lessThan_Suc) auto
  then show ?thesis by (elim insertE) (simp_all add: hex_digit_def nibble_value_def)
qed

lemma parse_hex8: "parse_hex8 (hex8 x) = x"
proof -
  have "nibble_value (hex_digit (y AND 0xF)) = take_bit 4 y" for y
    by (simp add: nibble_value_digit[OF nibble_less]) (simp add: nibble_take)
  then show ?thesis
    using join_nibble[of 24 x] join_nibble[of 20 x] join_nibble[of 16 x] join_nibble[of 12 x]
      join_nibble[of 8 x] join_nibble[of 4 x] join_nibble[of 0 x]
    by (simp add: parse_hex8_def hex8_def top_nibble del: drop_bit_take_bit take_bit_push_bit push_bit_or)
qed

lemma length_hex8 [simp]: "length (hex8 x) = 8"
  by (simp add: hex8_def)

lemma length_device_name_text [simp]: "length (device_name_text x) = 14"
  by (simp add: device_name_text_def)

lemma device_name_text_inj: "device_name_text x = device_name_text y \<longleftrightarrow> x = y"
proof
  assume "device_name_text x = device_name_text y"
  then have "parse_hex8 (hex8 x) = parse_hex8 (hex8 y)" by (simp add: device_name_text_def)
  then show "x = y" by (simp add: parse_hex8)
qed simp

lemma reset_frame: "snd (prv_reset_nrf5340 Z s) = s\<lparr>kern := kern (snd (prv_reset_nrf5340 Z s))\<rparr>"
  by (auto simp: prv_reset_nrf5340_def Let_def split: prod.splits)

lemma reset_view:
  assumes "host_laws Z"
  shows "kview Z (kern (snd (prv_reset_nrf5340 Z s))) = kview Z (kern s)"
proof -
  note v = host_view[OF assms]
  obtain r k where rk: "gpio_pin_configure_dt Z (kern s) = (r, k)" by fastforce
  with v(5)[of "kern s"] show ?thesis by (simp add: prv_reset_nrf5340_def v)
qed

lemma only_dev_bcore: "only_dev s s' \<Longrightarrow> bcore s' = bcore s \<and> ctl s' = ctl s"
  unfolding only_dev_def by (cases s; cases s') simp

text \<open>What start-up leaves: the name of this device, whatever became of the controller's reset.\<close>

lemma ble_core_init_spec:
  assumes name: "length (bc_device_name (bcore s)) = 16" and init: "ble_core_init Z s = (ret, s')"
  obtains s1 k where "device_id Z s = (dev_id s', s1)" and "ret = fst (bt_enable Z k)"
    and "bcore s' = (bcore s)\<lparr>bc_device_name := device_name_text (dev_id s') @ 0 # drop 15 (bc_device_name (bcore s)),
           bc_ad_name_len := Some 14\<rparr>"
    and "host_laws Z \<Longrightarrow> hwinfo_laws Z \<Longrightarrow> kview Z (kern s') = kview Z (kern s)"
    and "mem s' = mem s" and "dtl s' = dtl s" and "ll s' = ll s" and "ctl s' = ctl s"
    and "s' = s\<lparr>kern := kern s', dev_fetched := True, dev_id := dev_id s', bcore := bcore s'\<rparr>"
proof -
  obtain dev s1 where d: "device_id Z s = (dev, s1)" by fastforce
  note spec = device_id_spec[OF d]
  have b1: "bcore s1 = bcore s" "ctl s1 = ctl s" using only_dev_bcore[OF spec(3)] by simp_all
  let ?b = "(bcore s)\<lparr>bc_device_name := device_name_text dev @ 0 # drop 15 (bc_device_name (bcore s)),
           bc_ad_name_len := Some 14\<rparr>"
  let ?s2 = "s1\<lparr>bcore := ?b\<rparr>"
  obtain r s3 where r: "prv_reset_nrf5340 Z ?s2 = (r, s3)" by fastforce
  then have s3: "s3 = ?s2\<lparr>kern := kern s3\<rparr>" using reset_frame[of Z ?s2] by simp
  obtain e k where e: "bt_enable Z (kern s3) = (e, k)" by fastforce
  have wr: "overwrite (device_name_text dev @ [0]) (bc_device_name (bcore s)) =
      device_name_text dev @ 0 # drop 15 (bc_device_name (bcore s))"
    by (simp add: overwrite_def)
  have run: "ret = e" "s' = s3\<lparr>kern := if e \<noteq> 0 then k else k_work_init Z Prv_advertising_work_handler k\<rparr>"
    using init by (auto simp: ble_core_init_def d snprintf_name_def wr b1 r e split: if_splits)
  have f: "bcore s' = ?b" "dev_id s' = dev_id s1" "mem s' = mem s1" "dtl s' = dtl s1" "ll s' = ll s1" "ctl s' = ctl s1"
    unfolding run(2) by (subst s3, simp)+
  have view: "kview Z (kern s') = kview Z (kern s)" if "host_laws Z" "hwinfo_laws Z"
    using run(2) host_view(3)[OF that(1), of "kern s3"] host_view(8)[OF that(1)]
      reset_view[OF that(1), of ?s2] r e spec(4)[OF that(2)] by simp
  have fr: "s' = s\<lparr>kern := kern s', dev_fetched := True, dev_id := dev_id s', bcore := bcore s'\<rparr>"
    using spec(2,3) s3 run(2) unfolding only_dev_def by (cases s; cases s1; cases s3; cases s') simp
  show thesis
    by (rule that[of s1 "kern s3", OF _ _ _ _ _ _ _ _ fr])
      (use d spec(1) run(1) e f b1(2) view only_dev_mem[OF spec(3)] only_dev_dtl[OF spec(3)] only_dev_ll[OF spec(3)] in
        \<open>simp_all add: only_dev_def\<close>)
qed

lemma register_uuid_spec:
  assumes "bc_adv_uuid128_count (bcore s) = 0" and "length (bc_adv_uuid128_buf (bcore s)) = 16" and "length uuid = 16"
  shows "ble_core_register_adv_uuid128 uuid s =
     (0, s\<lparr>bcore := (bcore s)\<lparr>bc_adv_uuid128_buf := uuid, bc_adv_uuid128_count := 1\<rparr>\<rparr>)"
  using assms by (simp add: ble_core_register_adv_uuid128_def BLE_CORE_MAX_ADV_UUID128_def BT_UUID_SIZE_128_def
      overwrite_at_def overwrite_def)

section \<open>Properties\<close>

definition ref_core :: "kworld core_machine" where
  "ref_core = \<lparr>kern = rk_init, mem = boot_mem, dev_fetched = True, dev_id = 0x04030201,
     ll = ll ref_dect, dtl = dtl ref_dect, bcore = ble_core_inst_init, ctl = \<lparr>cs_fetched = False, cs_dev_id = 0\<rparr>\<rparr>"

text \<open>C20. Advertising: after start-up and the registration of a service, the advertising work item
  announces exactly the flags, the complete name \<open>Alfie-\<close> followed by the eight hexadecimal digits of
  the device's id, and the service's UUID; the name is not truncated, devices with different ids
  have different names, and a second service is refused.\<close>

theorem ble_core_advertises:
  assumes boot: "bcore s = ble_core_inst_init" and init: "ble_core_init Z s = (0, s')" and uuid: "length uuid = 16"
  shows "\<exists>s''. ble_core_register_adv_uuid128 uuid s' = (0, s'') \<and>
     prv_advertising_work_handler Z s'' = Some (s''\<lparr>kern := snd (bt_le_adv_start Z
        [\<lparr>bd_type = BT_DATA_FLAGS, bd_data = [6]\<rparr>,
         \<lparr>bd_type = BT_DATA_NAME_COMPLETE, bd_data = device_name_text (dev_id s')\<rparr>]
        [\<lparr>bd_type = BT_DATA_UUID128_ALL, bd_data = uuid\<rparr>] (kern s''))\<rparr>) \<and>
     (\<forall>other. device_name_text other = device_name_text (dev_id s') \<longleftrightarrow> other = dev_id s') \<and>
     ble_core_register_adv_uuid128 uuid s'' = (- ENOMEM, s'')"
proof -
  have b: "length (bc_device_name (bcore s)) = 16" "bc_adv_uuid128_count (bcore s) = 0"
    "length (bc_adv_uuid128_buf (bcore s)) = 16"
    by (simp_all add: boot ble_core_inst_init_def BLE_CORE_MAX_ADV_UUID128_def BT_UUID_SIZE_128_def)
  obtain s1 where n: "bcore s' = (bcore s)\<lparr>bc_device_name := device_name_text (dev_id s') @ 0 # drop 15 (bc_device_name (bcore s)),
           bc_ad_name_len := Some 14\<rparr>"
    by (rule ble_core_init_spec[OF b(1) init])
  let ?s = "s'\<lparr>bcore := (bcore s')\<lparr>bc_adv_uuid128_buf := uuid, bc_adv_uuid128_count := 1\<rparr>\<rparr>"
  have reg: "ble_core_register_adv_uuid128 uuid s' = (0, ?s)"
    by (rule register_uuid_spec) (simp_all add: n b uuid)
  have ad: "adv_data (bcore ?s) = Some [\<lparr>bd_type = BT_DATA_FLAGS, bd_data = [6]\<rparr>,
      \<lparr>bd_type = BT_DATA_NAME_COMPLETE, bd_data = device_name_text (dev_id s')\<rparr>]"
    by (simp add: adv_data_def n)
  have sd: "scan_data (bcore ?s) = Some [\<lparr>bd_type = BT_DATA_UUID128_ALL, bd_data = uuid\<rparr>]"
    using uuid by (simp add: scan_data_def BT_UUID_SIZE_128_def)
  show ?thesis
  proof (rule exI[of _ ?s], intro conjI allI)
    show "prv_advertising_work_handler Z ?s = Some (?s\<lparr>kern := snd (bt_le_adv_start Z
        [\<lparr>bd_type = BT_DATA_FLAGS, bd_data = [6]\<rparr>,
         \<lparr>bd_type = BT_DATA_NAME_COMPLETE, bd_data = device_name_text (dev_id s')\<rparr>]
        [\<lparr>bd_type = BT_DATA_UUID128_ALL, bd_data = uuid\<rparr>] (kern ?s))\<rparr>)"
      unfolding prv_advertising_work_handler_def ad sd by (simp add: case_prod_unfold)
    show "ble_core_register_adv_uuid128 uuid ?s = (- ENOMEM, ?s)"
      by (simp add: ble_core_register_adv_uuid128_def BLE_CORE_MAX_ADV_UUID128_def)
  qed (use reg device_name_text_inj in blast)+
qed

theorem ble_core_advertises_witness:
  "\<exists>s' s''. ble_core_init ref_zephyr ref_core = (0, s') \<and>
     ble_core_register_adv_uuid128 (replicate 16 7) s' = (0, s'') \<and>
     prv_advertising_work_handler ref_zephyr s'' = Some (s''\<lparr>kern := snd (bt_le_adv_start ref_zephyr
        [\<lparr>bd_type = BT_DATA_FLAGS, bd_data = [6]\<rparr>,
         \<lparr>bd_type = BT_DATA_NAME_COMPLETE, bd_data = device_name_text (dev_id s')\<rparr>]
        [\<lparr>bd_type = BT_DATA_UUID128_ALL, bd_data = replicate 16 7\<rparr>] (kern s''))\<rparr>)"
proof -
  obtain ret s' where r: "ble_core_init ref_zephyr ref_core = (ret, s')" by fastforce
  have "length (bc_device_name (bcore ref_core)) = 16" by (simp add: ref_core_def ble_core_inst_init_def)
  then obtain k where "ret = fst (bt_enable ref_zephyr k)" using r by (rule ble_core_init_spec)
  then have s': "ble_core_init ref_zephyr ref_core = (0, s')" using r by (simp add: ref_zephyr_def)
  have "bcore ref_core = ble_core_inst_init" by (simp add: ref_core_def)
  from ble_core_advertises[OF this s', of "replicate 16 7"] s' show ?thesis by auto
qed

end
