(* ===== verification/Alfie_Ble_Service.thy ===== *)
theory Alfie_Ble_Service
  imports Ble_Core
begin

text \<open>
  \<^verbatim>\<open>alfie/app/src/ble/services/alfie_service/alfie_ble_service.c\<close>: the transport to the phone, over one
  GATT characteristic. Frames written by the phone are reassembled in a pool of four contexts,
  as on the radio side but without a sender's id; messages to the phone are notified in
  fragments of at most 243 bytes, each until an ACK is written back, at most four times.

  Names the DECT transport uses too carry the suffix \<open>_ble\<close>.
\<close>

section \<open>State\<close>

definition ALFIE_BLE_SERVICE_NUM_RX_BUFFERS :: nat where "ALFIE_BLE_SERVICE_NUM_RX_BUFFERS = 4"
definition ALFIE_BLE_SERVICE_MAX_RX_BUFFER_SIZE_BYTES :: nat where
  "ALFIE_BLE_SERVICE_MAX_RX_BUFFER_SIZE_BYTES = 512"
definition ALFIE_BLE_SERVICE_RX_TIMEOUT_MS :: nat where "ALFIE_BLE_SERVICE_RX_TIMEOUT_MS = 10000"
definition ALFIE_BLE_SERVICE_TX_ATTEMPTS :: nat where "ALFIE_BLE_SERVICE_TX_ATTEMPTS = 4"
definition ALFIE_BLE_SERVICE_ACK_TIMEOUT_MS :: nat where
  "ALFIE_BLE_SERVICE_ACK_TIMEOUT_MS = ALFIE_BLE_SERVICE_RX_TIMEOUT_MS div ALFIE_BLE_SERVICE_TX_ATTEMPTS"

lemma ble_service_sizes [simp]:
  "ALFIE_BLE_SERVICE_NUM_RX_BUFFERS = 4" "ALFIE_BLE_SERVICE_MAX_RX_BUFFER_SIZE_BYTES = 512"
  "ALFIE_BLE_SERVICE_RX_TIMEOUT_MS = 10000" "ALFIE_BLE_SERVICE_TX_ATTEMPTS = 4"
  by (simp_all add: ALFIE_BLE_SERVICE_NUM_RX_BUFFERS_def ALFIE_BLE_SERVICE_MAX_RX_BUFFER_SIZE_BYTES_def
      ALFIE_BLE_SERVICE_RX_TIMEOUT_MS_def ALFIE_BLE_SERVICE_TX_ATTEMPTS_def)

text \<open>\<open>BT_UUID_128_ENCODE\<close> stores the parts of a UUID backwards, each little-endian.\<close>

definition bt_uuid_128_encode :: "u32 \<Rightarrow> u16 \<Rightarrow> u16 \<Rightarrow> u16 \<Rightarrow> u16 \<times> u32 \<Rightarrow> u8 list" where
  "bt_uuid_128_encode w32 w1 w2 w3 w48 =
     le32 (snd w48) @ le16 (fst w48) @ le16 w3 @ le16 w2 @ le16 w1 @ le32 w32"

definition ALFIE_BLE_SERVICE_UUID_VAL :: "u8 list" where
  "ALFIE_BLE_SERVICE_UUID_VAL = bt_uuid_128_encode 0xc1534fa3 0x5211 0x4e32 0xa176 (0xd1af, 0x04513305)"

definition BT_ATT_ERR_WRITE_REQ_REJECTED :: int where "BT_ATT_ERR_WRITE_REQ_REJECTED = 0xfc"

record ble_service_inst =
  bs_initialized :: bool
  bs_rx_pool :: transport_buffer_pool_t
  bs_transport_rx_callback :: "fn_ptr option"
  bs_transport :: alfie_transport_t
  bs_transport_api :: alfie_transport_api_t
  bs_conn :: "nat option"

record 'k ble_machine = "'k core_machine" +
  bsv :: ble_service_inst

definition ble_service_inst_init :: ble_service_inst where
  "ble_service_inst_init = \<lparr>bs_initialized = False, bs_rx_pool = pool_zero BleRxPool,
     bs_transport_rx_callback = None, bs_transport = transport_zero, bs_transport_api = api_zero,
     bs_conn = None\<rparr>"

section \<open>Receiving\<close>

definition prv_write_data_ack_ble ::
  "'k zephyr \<Rightarrow> alfie_ble_service_proto_data_frame_t \<Rightarrow> ('k, 'a) ble_machine_scheme \<Rightarrow>
   ('k, 'a) ble_machine_scheme" where
  "prv_write_data_ack_ble Z frame s =
     (let ack_frame = \<lparr>ba_header = \<lparr>bh_version = 0,
                                   bh_frame_type = ALFIE_BLE_SERVICE_PROTO_FRAME_TYPE_DATA_ACK\<rparr>,
                        ba_seq_id = bd_seq_id frame, ba_frag_idx = bd_frag_idx frame\<rparr>;
          (ret, k) = bt_gatt_notify Z (bs_conn (bsv s)) (put_ble_data_ack_frame ack_frame) (kern s)
      in s\<lparr>kern := k\<rparr>)"

definition prv_handle_complete_incoming_data_transaction_ble ::
  "'k zephyr \<Rightarrow>
   (fn_ptr \<Rightarrow> node_ptr \<Rightarrow> tb_ptr \<Rightarrow> ('k, 'a) ble_machine_scheme \<Rightarrow>
      ('k, 'a) ble_machine_scheme option) \<Rightarrow>
   tb_ptr \<Rightarrow> ('k, 'a) ble_machine_scheme \<Rightarrow> ('k, 'a) ble_machine_scheme option" where
  "prv_handle_complete_incoming_data_transaction_ble Z call_cb buffer s = do {
     s1 \<leftarrow> (case bs_transport_rx_callback (bsv s) of
              None \<Rightarrow> Some s | Some f \<Rightarrow> call_cb f BleTransport buffer s);
     transport_buffer_unref Z (Some buffer) s1 }"

definition prv_handle_incoming_data_frame_ble ::
  "'k zephyr \<Rightarrow>
   (fn_ptr \<Rightarrow> node_ptr \<Rightarrow> tb_ptr \<Rightarrow> ('k, 'a) ble_machine_scheme \<Rightarrow>
      ('k, 'a) ble_machine_scheme option) \<Rightarrow>
   u8 list \<Rightarrow> nat \<Rightarrow> ('k, 'a) ble_machine_scheme \<Rightarrow> ('k, 'a) ble_machine_scheme option" where
  "prv_handle_incoming_data_frame_ble Z call_cb header len_bytes s =
     (if len_bytes < sizeof_ble_data_frame then Some s
      else do {
        frame \<leftarrow> get_ble_data_frame header;
        (buffer, s1) \<leftarrow> transport_buffer_pool_get Z (Some (bs_rx_pool (bsv s))) (bd_seq_id frame)
           (unat (bd_total_size_bytes frame)) (bd_frag_idx frame) (bd_frag_total frame) None s;
        case buffer of
          None \<Rightarrow> Some s1
        | Some buf \<Rightarrow> do {
            (ret, s2) \<leftarrow> transport_buffer_write Z (Some buf) (bd_frag_idx frame)
               (Some (bd_payload frame)) (len_bytes - sizeof_ble_data_frame) s1;
            case ret of
              TRANSPORT_BUFFER_WRITE_RET_SUCCESS \<Rightarrow> Some (prv_write_data_ack_ble Z frame s2)
            | TRANSPORT_BUFFER_WRITE_RET_DUPLICATE \<Rightarrow> Some (prv_write_data_ack_ble Z frame s2)
            | TRANSPORT_BUFFER_WRITE_RET_COMPLETE \<Rightarrow>
                prv_handle_complete_incoming_data_transaction_ble Z call_cb buf
                  (prv_write_data_ack_ble Z frame s2)
            | _ \<Rightarrow> Some s2 } })"

definition prv_handle_incoming_data_ack_ble ::
  "'k zephyr \<Rightarrow> u8 list \<Rightarrow> nat \<Rightarrow> ('k, 'a) ble_machine_scheme \<Rightarrow> ('k, 'a) ble_machine_scheme"
  where
  "prv_handle_incoming_data_ack_ble Z header len_bytes s =
     (if len_bytes < sizeof_ble_data_ack_frame then s
      else s\<lparr>kern := k_sem_give Z BleAckSem (kern s)\<rparr>)"

text \<open>The write callback of the characteristic: the value it returns to the host, and the state.\<close>

definition prv_on_data_write ::
  "'k zephyr \<Rightarrow>
   (fn_ptr \<Rightarrow> node_ptr \<Rightarrow> tb_ptr \<Rightarrow> ('k, 'a) ble_machine_scheme \<Rightarrow>
      ('k, 'a) ble_machine_scheme option) \<Rightarrow>
   u8 list \<Rightarrow> nat \<Rightarrow> ('k, 'a) ble_machine_scheme \<Rightarrow> (int \<times> ('k, 'a) ble_machine_scheme) option" where
  "prv_on_data_write Z call_cb buf len s =
     (if len < sizeof_ble_frame_header then Some (- BT_ATT_ERR_WRITE_REQ_REJECTED, s)
      else do {
        header \<leftarrow> get_ble_frame_header buf;
        if bh_frame_type header = ALFIE_BLE_SERVICE_PROTO_FRAME_TYPE_DATA
        then do { s' \<leftarrow> prv_handle_incoming_data_frame_ble Z call_cb buf len s; Some (int len, s') }
        else if bh_frame_type header = ALFIE_BLE_SERVICE_PROTO_FRAME_TYPE_DATA_ACK
        then Some (int len, prv_handle_incoming_data_ack_ble Z buf len s)
        else Some (- BT_ATT_ERR_WRITE_REQ_REJECTED, s) })"

definition prv_on_data_char_config_changed ::
  "u16 \<Rightarrow> ('k, 'a) ble_machine_scheme \<Rightarrow> ('k, 'a) ble_machine_scheme" where
  "prv_on_data_char_config_changed v s = s"

definition prv_device_connected ::
  "'k zephyr \<Rightarrow> nat \<Rightarrow> u8 \<Rightarrow> ('k, 'a) ble_machine_scheme \<Rightarrow> ('k, 'a) ble_machine_scheme" where
  "prv_device_connected Z conn err s =
     (if err \<noteq> 0 then s
      else let (c, k) = bt_conn_ref Z conn (kern s)
           in s\<lparr>kern := k, bsv := (bsv s)\<lparr>bs_conn := c\<rparr>\<rparr>)"

definition prv_device_disconnected ::
  "'k zephyr \<Rightarrow> nat \<Rightarrow> u8 \<Rightarrow> ('k, 'a) ble_machine_scheme \<Rightarrow> ('k, 'a) ble_machine_scheme" where
  "prv_device_disconnected Z conn reason s =
     s\<lparr>kern := bt_conn_unref Z conn (kern s), bsv := (bsv s)\<lparr>bs_conn := None\<rparr>\<rparr>"

section \<open>Sending\<close>

text \<open>The connection is read again in every attempt: it may have closed while the sender waited.\<close>

definition prv_write_data_frame_ble ::
  "'k zephyr \<Rightarrow> (('k, 'a) ble_machine_scheme \<Rightarrow> ('k, 'a) ble_machine_scheme) \<Rightarrow>
   u8 list \<Rightarrow> nat \<Rightarrow> ('k, 'a) ble_machine_scheme \<Rightarrow> (int \<times> ('k, 'a) ble_machine_scheme) option" where
  "prv_write_data_frame_ble Z others frame len_bytes =
     attempts (\<lambda>s. s\<lparr>kern := k_sem_reset Z BleAckSem (kern s)\<rparr>)
       (\<lambda>s. do { bytes \<leftarrow> mem_read frame len_bytes;
                 let (ret, k) = bt_gatt_notify Z (bs_conn (bsv s)) bytes (kern s);
                 Some (ret, s\<lparr>kern := k\<rparr>) })
       (\<lambda>s. let s1 = others s;
                (ret, k) = k_sem_take Z BleAckSem (K_MSEC ALFIE_BLE_SERVICE_ACK_TIMEOUT_MS) (kern s1)
            in (ret, s1\<lparr>kern := k\<rparr>))
       ALFIE_BLE_SERVICE_TX_ATTEMPTS 0"

definition next_fragment_ble ::
  "u8 list \<Rightarrow> nat \<Rightarrow> nat \<Rightarrow> alfie_ble_service_proto_data_frame_t \<Rightarrow>
   alfie_ble_service_proto_data_frame_t option" where
  "next_fragment_ble data len_bytes i frame =
     (let payload_size_bytes = min (len_bytes - ALFIE_BLE_SERVICE_PROTO_MAX_DATA_FRAME_PAYLOAD_SIZE_BYTES * i)
                                   ALFIE_BLE_SERVICE_PROTO_MAX_DATA_FRAME_PAYLOAD_SIZE_BYTES
      in do { bytes \<leftarrow> mem_read (drop (i * ALFIE_BLE_SERVICE_PROTO_MAX_DATA_FRAME_PAYLOAD_SIZE_BYTES) data)
                         payload_size_bytes;
              Some (frame\<lparr>bd_frag_idx := of_nat i, bd_payload := overwrite bytes (bd_payload frame)\<rparr>) })"

section \<open>Interface\<close>

definition alfie_ble_service_init ::
  "'k zephyr \<Rightarrow> ('k, 'a) ble_machine_scheme \<Rightarrow> int \<times> ('k, 'a) ble_machine_scheme" where
  "alfie_ble_service_init Z s =
     (if bs_initialized (bsv s) = True then (- EALREADY, s)
      else
        let s1 = s\<lparr>kern := k_sem_init Z BleAckSem 0 1 (kern s)\<rparr>;
            (ret, pool) = transport_buffer_pool_init Z (Some (bs_rx_pool (bsv s1))) (Some BleRxPool)
              ALFIE_BLE_SERVICE_NUM_RX_BUFFERS ALFIE_BLE_SERVICE_MAX_RX_BUFFER_SIZE_BYTES
              (Some BleRxPool) (sizeof_transport_buffer_t Z) (of_nat ALFIE_BLE_SERVICE_RX_TIMEOUT_MS) None;
            s2 = s1\<lparr>bsv := (bsv s1)\<lparr>bs_rx_pool := the pool\<rparr>\<rparr>
        in if ret \<noteq> 0 then (ret, s2)
           else
             let tapi = \<lparr>api_write = Some Alfie_ble_service_write,
                         api_register_rx_cb = Some Alfie_ble_service_register_rx_callback\<rparr>;
                 tr = \<lparr>tr_api = Some tapi, tr_type = ALFIE_TRANSPORT_TYPE_UPSTREAM\<rparr>;
                 s3 = s2\<lparr>bsv := (bsv s2)\<lparr>bs_transport_api := tapi, bs_transport := tr\<rparr>\<rparr>;
                 (_, s4) = ble_core_register_adv_uuid128 ALFIE_BLE_SERVICE_UUID_VAL s3
             in (0, s4\<lparr>bsv := (bsv s4)\<lparr>bs_initialized := True\<rparr>\<rparr>))"

definition alfie_ble_service_write ::
  "'k zephyr \<Rightarrow> (('k, 'a) ble_machine_scheme \<Rightarrow> ('k, 'a) ble_machine_scheme) \<Rightarrow>
   u32 \<Rightarrow> u8 list option \<Rightarrow> nat \<Rightarrow> ('k, 'a) ble_machine_scheme \<Rightarrow>
   (int \<times> ('k, 'a) ble_machine_scheme) option" where
  "alfie_ble_service_write Z others dst_id data len_bytes s =
     (case data of
        None \<Rightarrow> Some (- EINVAL, s)
      | Some bytes \<Rightarrow>
          if len_bytes = 0 then Some (- EINVAL, s)
          else if len_bytes > ALFIE_BLE_SERVICE_MAX_RX_BUFFER_SIZE_BYTES then Some (- ENOMEM, s)
          else if bs_initialized (bsv s) = False then Some (- ENETDOWN, s)
          else if bs_conn (bsv s) = None then Some (- ENOTCONN, s)
          else
            let frag_total = of_nat ((len_bytes + ALFIE_BLE_SERVICE_PROTO_MAX_DATA_FRAME_PAYLOAD_SIZE_BYTES - 1)
                  div ALFIE_BLE_SERVICE_PROTO_MAX_DATA_FRAME_PAYLOAD_SIZE_BYTES) :: u8;
                (seq_id, k) = sys_rand16_get Z (kern s);
                frame = \<lparr>bd_header = \<lparr>bh_version = 0,
                           bh_frame_type = ALFIE_BLE_SERVICE_PROTO_FRAME_TYPE_DATA\<rparr>,
                         bd_seq_id = seq_id, bd_total_size_bytes = of_nat len_bytes, bd_frag_idx = 0,
                         bd_frag_total = frag_total,
                         bd_payload = replicate ALFIE_BLE_SERVICE_PROTO_MAX_DATA_FRAME_PAYLOAD_SIZE_BYTES 0\<rparr>
            in send_all (next_fragment_ble bytes len_bytes)
                 (\<lambda>i frame. prv_write_data_frame_ble Z others (put_ble_data_frame frame)
                    (sizeof_ble_data_frame +
                     min (len_bytes - ALFIE_BLE_SERVICE_PROTO_MAX_DATA_FRAME_PAYLOAD_SIZE_BYTES * i)
                         ALFIE_BLE_SERVICE_PROTO_MAX_DATA_FRAME_PAYLOAD_SIZE_BYTES))
                 [0..<unat frag_total] frame (s\<lparr>kern := k\<rparr>))"

definition alfie_ble_service_register_rx_callback ::
  "fn_ptr option \<Rightarrow> ('k, 'a) ble_machine_scheme \<Rightarrow> int \<times> ('k, 'a) ble_machine_scheme" where
  "alfie_ble_service_register_rx_callback callback s =
     (if bs_initialized (bsv s) = False then (- ENETDOWN, s)
      else if callback = None then (- EINVAL, s)
      else (0, s\<lparr>bsv := (bsv s)\<lparr>bs_transport_rx_callback := callback\<rparr>\<rparr>))"

definition alfie_ble_service_get_transport ::
  "('k, 'a) ble_machine_scheme \<Rightarrow> node_ptr option" where
  "alfie_ble_service_get_transport s =
     (if bs_initialized (bsv s) = False then None else Some BleTransport)"

section \<open>The state after start-up\<close>

definition ble_pool :: "'k zephyr \<Rightarrow> transport_buffer_pool_t" where
  "ble_pool Z = \<lparr>pl_buffer_pool = BleRxPool, pl_num_buffers = ALFIE_BLE_SERVICE_NUM_RX_BUFFERS,
     pl_buffer_size_bytes = ALFIE_BLE_SERVICE_MAX_RX_BUFFER_SIZE_BYTES,
     pl_context_size_bytes = sizeof_transport_buffer_t Z,
     pl_rx_timeout_ms = of_nat ALFIE_BLE_SERVICE_RX_TIMEOUT_MS, pl_contexts = BleRxPool, pl_api = None\<rparr>"

lemma ble_pool_simps [simp]:
  "pl_buffer_pool (ble_pool Z) = BleRxPool" "pl_num_buffers (ble_pool Z) = 4"
  "pl_context_size_bytes (ble_pool Z) = sizeof_transport_buffer_t Z"
  "unat (pl_rx_timeout_ms (ble_pool Z)) = 10000" "query_callback (ble_pool Z) = None"
  by (simp_all add: ble_pool_def query_callback_def)

lemma ble_src_query [simp]: "src_query (ble_pool Z) None"
  by (simp add: src_query_def)

definition ble_ready :: "'k zephyr \<Rightarrow> ('k, 'a) ble_machine_scheme \<Rightarrow> bool" where
  "ble_ready Z s \<longleftrightarrow> bs_initialized (bsv s) \<and> bs_rx_pool (bsv s) = ble_pool Z \<and>
     pool_inv Z (ble_pool Z) s"

lemma ble_init_spec:
  assumes "layout_laws Z" and "sem_laws Z" and "bsv s = ble_service_inst_init"
    and "bcore s = ble_core_inst_init\<lparr>bc_device_name := nm, bc_ad_name_len := nl\<rparr>"
    and "live_bufs BleRxPool (kview Z (kern s)) = {}"
    and "\<And>p. tb_buffer (tb_at s p) = None" and "\<And>p. tb_state (tb_at s p) = TRANSPORT_BUFFER_STATE_FREE"
  obtains s' where "alfie_ble_service_init Z s = (0, s')" and "ble_ready Z s'"
    and "alfie_ble_service_get_transport s' = Some BleTransport"
    and "bs_transport (bsv s') = \<lparr>tr_api = Some \<lparr>api_write = Some Alfie_ble_service_write,
           api_register_rx_cb = Some Alfie_ble_service_register_rx_callback\<rparr>,
           tr_type = ALFIE_TRANSPORT_TYPE_UPSTREAM\<rparr>"
    and "bc_adv_uuid128_buf (bcore s') = ALFIE_BLE_SERVICE_UUID_VAL" and "bc_adv_uuid128_count (bcore s') = 1"
    and "mem s' = mem s" and "dtl s' = dtl s" and "ll s' = ll s" and "bs_conn (bsv s') = None"
    and "kview Z (kern s') = (kview Z (kern s))\<lparr>kv_sem := (kv_sem (kview Z (kern s)))(BleAckSem := 0)\<rparr>"
    and "bs_transport_rx_callback (bsv s') = None"
    and "s' = s\<lparr>kern := kern s', bcore := bcore s', bsv := bsv s'\<rparr>"
proof -
  have size: "0 < sizeof_transport_buffer_t Z" using assms(1) by (simp add: layout_laws_def)
  have uuid: "length ALFIE_BLE_SERVICE_UUID_VAL = 16"
    by (simp add: ALFIE_BLE_SERVICE_UUID_VAL_def bt_uuid_128_encode_def)
  have core: "bc_adv_uuid128_count (bcore s) = 0" "length (bc_adv_uuid128_buf (bcore s)) = 16"
    by (simp_all add: assms(4) ble_core_inst_init_def BLE_CORE_MAX_ADV_UUID128_def BT_UUID_SIZE_128_def)
  let ?s = "s\<lparr>kern := k_sem_init Z BleAckSem 0 1 (kern s),
     bcore := (bcore s)\<lparr>bc_adv_uuid128_buf := ALFIE_BLE_SERVICE_UUID_VAL, bc_adv_uuid128_count := 1\<rparr>,
     bsv := (bsv s)\<lparr>bs_initialized := True, bs_rx_pool := ble_pool Z,
       bs_transport_api := \<lparr>api_write = Some Alfie_ble_service_write,
           api_register_rx_cb = Some Alfie_ble_service_register_rx_callback\<rparr>,
       bs_transport := \<lparr>tr_api = Some \<lparr>api_write = Some Alfie_ble_service_write,
           api_register_rx_cb = Some Alfie_ble_service_register_rx_callback\<rparr>,
           tr_type = ALFIE_TRANSPORT_TYPE_UPSTREAM\<rparr>\<rparr>\<rparr>"
  have run: "alfie_ble_service_init Z s = (0, ?s)"
    by (simp add: alfie_ble_service_init_def assms(3) ble_service_inst_init_def transport_buffer_pool_init_def size
        register_uuid_spec core uuid Let_def ble_pool_def)
  have view: "kview Z (kern ?s) = (kview Z (kern s))\<lparr>kv_sem := (kv_sem (kview Z (kern s)))(BleAckSem := 0)\<rparr>"
    by (simp add: sem_view(1)[OF assms(2), simplified])
  have "pool_inv Z (ble_pool Z) ?s"
    by (rule fresh_pool_inv) (use assms(5-7) view size in \<open>simp_all add: live_bufs_def tb_at_def\<close>)
  then show thesis
    by (intro that[OF run]) (use assms(3) view in
        \<open>simp_all add: ble_ready_def alfie_ble_service_get_transport_def ble_service_inst_init_def\<close>)
qed

section \<open>Receiving a message\<close>

definition ble_frag :: "alfie_ble_service_proto_data_frame_t \<Rightarrow> nat \<Rightarrow> rx_frag" where
  "ble_frag f len_bytes = \<lparr>rf_seq = bd_seq_id f, rf_total = bd_total_size_bytes f,
     rf_idx = bd_frag_idx f, rf_frag_total = bd_frag_total f, rf_src = None,
     rf_payload = bd_payload f, rf_len = len_bytes - sizeof_ble_data_frame\<rparr>"

lemma ble_frag_simps [simp]:
  "rf_seq (ble_frag f n) = bd_seq_id f" "rf_total (ble_frag f n) = bd_total_size_bytes f"
  "rf_idx (ble_frag f n) = bd_frag_idx f" "rf_frag_total (ble_frag f n) = bd_frag_total f"
  "rf_src (ble_frag f n) = None" "rf_payload (ble_frag f n) = bd_payload f" "rf_len (ble_frag f n) = n - 8"
  by (simp_all add: ble_frag_def)

lemma mark_src_None [simp]: "mark_src None p s = s"
  by (simp add: mark_src_def)

lemma handle_data_frame_ble_alt:
  assumes "sizeof_ble_data_frame \<le> len_bytes" and "get_ble_data_frame header = Some f"
  shows "prv_handle_incoming_data_frame_ble Z call_cb header len_bytes s = do {
     (out, s2) \<leftarrow> rx_step Z (bs_rx_pool (bsv s)) (ble_frag f len_bytes) s;
     rx_outcome (\<lambda>fr s. Some (prv_write_data_ack_ble Z fr s))
       (prv_handle_complete_incoming_data_transaction_ble Z call_cb) f out s2 }"
  using assms
  by (auto simp: prv_handle_incoming_data_frame_ble_def rx_step_def rx_outcome_def
      split: Option.bind_splits option.splits transport_buffer_write_ret_t.splits)

lemma only_rx_ble: "only_rx s s' \<Longrightarrow> bsv s' = bsv s"
  unfolding only_rx_def by (cases s; cases s') simp

definition ble_env :: "'k zephyr \<Rightarrow> (pool_id \<Rightarrow> nat) \<Rightarrow> (pool_id \<Rightarrow> nat) \<Rightarrow> bool" where
  "ble_env Z cnt cap \<longleftrightarrow> clock_laws Z \<and> net_buf_laws Z cnt cap \<and> sem_laws Z \<and> notify_laws Z \<and>
     cnt BleRxPool = ALFIE_BLE_SERVICE_NUM_RX_BUFFERS \<and>
     cap BleRxPool = ALFIE_BLE_SERVICE_MAX_RX_BUFFER_SIZE_BYTES"

lemma ble_envD:
  assumes "ble_env Z cnt cap"
  shows "clock_laws Z" and "net_buf_laws Z cnt cap" and "sem_laws Z" and "notify_laws Z"
    and "pool_fits cnt cap (ble_pool Z)" and "cap BleRxPool = 512"
  using assms by (simp_all add: ble_env_def pool_fits_def)

definition ble_callback ::
  "(fn_ptr \<Rightarrow> node_ptr \<Rightarrow> tb_ptr \<Rightarrow> ('k, 'a) ble_machine_scheme \<Rightarrow>
      ('k, 'a) ble_machine_scheme option) \<Rightarrow>
   fn_ptr option \<Rightarrow> tb_ptr \<Rightarrow> ('k, 'a) ble_machine_scheme \<Rightarrow> ('k, 'a) ble_machine_scheme option"
  where "ble_callback call_cb f = (case f of None \<Rightarrow> (\<lambda>p. Some) | Some f \<Rightarrow> call_cb f BleTransport)"

lemma handle_complete_ble_alt:
  "prv_handle_complete_incoming_data_transaction_ble Z call_cb p s =
     deliver_release Z (ble_callback call_cb (bs_transport_rx_callback (bsv s))) p s"
  by (auto simp: prv_handle_complete_incoming_data_transaction_ble_def deliver_release_def
      ble_callback_def split: option.splits)

text \<open>
  A frame the service can take: its length is that of the written value, and a data frame
  declares no more than a receive buffer holds.
\<close>

definition ble_frame_ok :: "u8 list \<times> nat \<Rightarrow> bool" where
  "ble_frame_ok e \<longleftrightarrow> (case e of (buf, len) \<Rightarrow> len \<le> length buf \<and> len < 2 ^ 16 \<and>
     (case get_ble_data_frame buf of None \<Rightarrow> True
      | Some f \<Rightarrow> bh_frame_type (bd_header f) = ALFIE_BLE_SERVICE_PROTO_FRAME_TYPE_DATA \<longrightarrow>
          8 \<le> len \<longrightarrow>
          unat (bd_total_size_bytes f) \<le> ALFIE_BLE_SERVICE_MAX_RX_BUFFER_SIZE_BYTES))"

definition ble_frame_frag ::
  "u8 list \<times> nat \<Rightarrow> (rx_frag \<times> alfie_ble_service_proto_data_frame_t) option" where
  "ble_frame_frag e = (case e of (buf, len) \<Rightarrow>
     if len < sizeof_ble_data_frame then None
     else (case get_ble_data_frame buf of None \<Rightarrow> None
       | Some f \<Rightarrow> if bh_frame_type (bd_header f) = ALFIE_BLE_SERVICE_PROTO_FRAME_TYPE_DATA
                   then Some (ble_frag f len, f) else None))"

text \<open>
  A case of reception, as for the DECT transport. \<open>bl_between\<close> is what happens to the machine
  between two writes of the phone, disconnecting and reconnecting included.
\<close>

record ('k, 'a) ble_case =
  bl_Z :: "'k zephyr"
  bl_cnt :: "pool_id \<Rightarrow> nat"
  bl_cap :: "pool_id \<Rightarrow> nat"
  bl_call_cb :: "fn_ptr \<Rightarrow> node_ptr \<Rightarrow> tb_ptr \<Rightarrow> ('k, 'a) ble_machine_scheme \<Rightarrow>
      ('k, 'a) ble_machine_scheme option"
  bl_callback :: "fn_ptr option"
  bl_transport :: alfie_transport_t
  bl_between :: "('k, 'a) ble_machine_scheme \<Rightarrow> ('k, 'a) ble_machine_scheme"
  bl_seq :: u16
  bl_msg :: "u8 list"
  bl_frame :: "nat \<Rightarrow> u8 list"
  bl_since :: nat

definition bl_env :: "('k, 'a) ble_case \<Rightarrow> bool" where
  "bl_env c \<longleftrightarrow> ble_env (bl_Z c) (bl_cnt c) (bl_cap c) \<and>
     consumes (bl_Z c) (ble_pool (bl_Z c)) (ble_callback (bl_call_cb c) (bl_callback c))"

definition bl_ready :: "('k, 'a) ble_case \<Rightarrow> ('k, 'a) ble_machine_scheme \<Rightarrow> bool" where
  "bl_ready c s \<longleftrightarrow> ble_ready (bl_Z c) s \<and> bs_transport_rx_callback (bsv s) = bl_callback c \<and>
     bs_transport (bsv s) = bl_transport c"

definition bl_ack ::
  "('k, 'a) ble_case \<Rightarrow> alfie_ble_service_proto_data_frame_t \<Rightarrow> ('k, 'a) ble_machine_scheme \<Rightarrow>
   ('k, 'a) ble_machine_scheme option" where
  "bl_ack c = (\<lambda>f s. Some (prv_write_data_ack_ble (bl_Z c) f s))"

definition bl_rx_frame ::
  "('k, 'a) ble_case \<Rightarrow> u8 list \<times> nat \<Rightarrow> ('k, 'a) ble_machine_scheme \<Rightarrow>
   ('k, 'a) ble_machine_scheme option" where
  "bl_rx_frame c e s = (case e of (buf, len) \<Rightarrow>
     do { (ret, s') \<leftarrow> prv_on_data_write (bl_Z c) (bl_call_cb c) buf len s; Some s' })"

definition ble_data_frame :: "u16 \<Rightarrow> u8 list \<Rightarrow> nat \<Rightarrow> alfie_ble_service_proto_data_frame_t" where
  "ble_data_frame seq msg k =
     \<lparr>bd_header = \<lparr>bh_version = 0, bh_frame_type = ALFIE_BLE_SERVICE_PROTO_FRAME_TYPE_DATA\<rparr>,
      bd_seq_id = seq, bd_total_size_bytes = of_nat (length msg), bd_frag_idx = of_nat k,
      bd_frag_total = of_nat (n_chunks 243 (length msg)), bd_payload = chunk 243 k msg\<rparr>"

definition ble_frame_len :: "u8 list \<Rightarrow> nat \<Rightarrow> nat" where
  "ble_frame_len msg k = sizeof_ble_data_frame + length (chunk 243 k msg)"

definition bl_transfer :: "('k, 'a) ble_case \<Rightarrow> transfer" where
  "bl_transfer c = \<lparr>tf_seq = bl_seq c, tf_src = None, tf_msg = bl_msg c,
     tf_size = ALFIE_BLE_SERVICE_PROTO_MAX_DATA_FRAME_PAYLOAD_SIZE_BYTES, tf_since = bl_since c\<rparr>"

definition bl_event :: "('k, 'a) ble_case \<Rightarrow> nat \<Rightarrow> u8 list \<times> nat" where
  "bl_event c k = (bl_frame c k, ble_frame_len (bl_msg c) k)"

text \<open>What happens in between leaves the receive pool and the callback alone.\<close>

definition bl_quiet :: "('k, 'a) ble_case \<Rightarrow> bool" where
  "bl_quiet c \<longleftrightarrow> (\<forall>s. same_rx (bl_Z c) s (bl_between c s) \<and>
     bsv (bl_between c s) = (bsv s)\<lparr>bs_conn := bs_conn (bsv (bl_between c s))\<rparr>)"

definition bl_valid :: "('k, 'a) ble_case \<Rightarrow> bool" where
  "bl_valid c \<longleftrightarrow> bl_env c \<and> bl_quiet c \<and>
     bl_msg c \<noteq> [] \<and> length (bl_msg c) \<le> ALFIE_BLE_SERVICE_MAX_RX_BUFFER_SIZE_BYTES \<and>
     (\<forall>k < tf_n (bl_transfer c). take (ble_frame_len (bl_msg c) k) (bl_frame c k) =
        put_ble_data_frame (ble_data_frame (bl_seq c) (bl_msg c) k))"

lemma bl_transfer_simps [simp]:
  "tf_seq (bl_transfer c) = bl_seq c" "tf_src (bl_transfer c) = None"
  "tf_msg (bl_transfer c) = bl_msg c" "tf_size (bl_transfer c) = 243" "tf_since (bl_transfer c) = bl_since c"
  by (simp_all add: bl_transfer_def)

lemma bl_transfer_n: "tf_n (bl_transfer c) = n_chunks 243 (length (bl_msg c))"
  by (simp add: tf_n_def)

lemma bl_validD:
  assumes "bl_valid c"
  shows "bl_env c" and "bl_quiet c"
    and "tf_ok (bl_cap c) (ble_pool (bl_Z c)) (bl_transfer c)"
    and "k < tf_n (bl_transfer c) \<Longrightarrow> take (ble_frame_len (bl_msg c) k) (bl_frame c k) =
           put_ble_data_frame (ble_data_frame (bl_seq c) (bl_msg c) k)"
proof -
  have "tf_n (bl_transfer c) \<le> 255"
    unfolding bl_transfer_n by (rule n_chunks_le_255) (use assms in \<open>simp_all add: bl_valid_def\<close>)
  then show "tf_ok (bl_cap c) (ble_pool (bl_Z c)) (bl_transfer c)"
    using assms ble_envD(6)[of "bl_Z c" "bl_cnt c" "bl_cap c"]
    by (simp add: tf_ok_def bl_valid_def bl_env_def)
qed (use assms in \<open>simp_all add: bl_valid_def\<close>)

lemma bl_event_decoded:
  assumes c: "bl_valid c" and k: "k < tf_n (bl_transfer c)"
  obtains f where "ble_frame_frag (bl_event c k) =
      Some (f, (ble_data_frame (bl_seq c) (bl_msg c) k)\<lparr>bd_payload := rf_payload f\<rparr>)"
    and "is_frag (bl_transfer c) k f" and "ble_frame_ok (bl_event c k)"
proof -
  let ?n = "ble_frame_len (bl_msg c) k" and ?d = "ble_data_frame (bl_seq c) (bl_msg c) k"
  have t: "take ?n (bl_frame c k) = put_ble_data_frame ?d" by (rule bl_validD(4)[OF c k])
  have len: "?n \<le> length (bl_frame c k)"
    using arg_cong[OF t, of length] by (simp add: ble_frame_len_def ble_data_frame_def)
  let ?f = "?d\<lparr>bd_payload := bd_payload ?d @ drop ?n (bl_frame c k)\<rparr>"
  have "bl_frame c k = put_ble_data_frame ?f"
    using append_take_drop_id[of ?n "bl_frame c k"] unfolding t
    by (simp add: put_ble_data_frame_def ble_data_frame_def)
  then have dec: "get_ble_data_frame (bl_frame c k) = Some ?f"
    by (metis get_put_ble_data_frame)
  have "length (chunk 243 k (bl_msg c)) \<le> 243" by (rule length_chunk_le)
  moreover have "length (bl_msg c) \<le> 512" using c by (simp add: bl_valid_def)
  ultimately show ?thesis
    using len dec by (intro that[of "ble_frag ?f ?n"])
      (simp_all add: is_frag_def ble_data_frame_def ble_frame_len_def bl_transfer_n unat_of_nat_u16
        ble_frame_frag_def bl_event_def ble_frame_ok_def)
qed

section \<open>The receive path keeps the contract\<close>

lemma bl_acks:
  assumes env: "bl_env c" and ready: "bl_ready c s"
  shows "\<exists>s'. bl_ack c h s = Some s' \<and> same_rx (bl_Z c) s s' \<and> bl_ready c s'"
proof -
  have laws: "notify_laws (bl_Z c)" using env by (simp add: bl_env_def ble_env_def)
  let ?a = "put_ble_data_ack_frame \<lparr>ba_header = \<lparr>bh_version = 0,
      bh_frame_type = ALFIE_BLE_SERVICE_PROTO_FRAME_TYPE_DATA_ACK\<rparr>, ba_seq_id = bd_seq_id h, ba_frag_idx = bd_frag_idx h\<rparr>"
  obtain ret k where n: "bt_gatt_notify (bl_Z c) (bs_conn (bsv s)) ?a (kern s) = (ret, k)" by fastforce
  have run: "bl_ack c h s = Some (s\<lparr>kern := k\<rparr>)" by (simp add: bl_ack_def prv_write_data_ack_ble_def n)
  have same: "same_rx (bl_Z c) s (s\<lparr>kern := k\<rparr>)" using notify_view[OF laws n] by (simp add: same_rx_def)
  have "bl_ready c (s\<lparr>kern := k\<rparr>)" using ready same_rx_pool(1)[OF same] by (simp add: bl_ready_def ble_ready_def)
  with run same show ?thesis by simp
qed

lemma on_write_data_frame:
  assumes "get_ble_data_frame buf = Some f" and "2 \<le> len"
    and "bh_frame_type (bd_header f) = ALFIE_BLE_SERVICE_PROTO_FRAME_TYPE_DATA"
  shows "prv_on_data_write Z call_cb buf len s =
     do { s' \<leftarrow> prv_handle_incoming_data_frame_ble Z call_cb buf len s; Some (int len, s') }"
proof -
  have "get_ble_frame_header buf = Some (bd_header f)"
    using get_ble_frame_header_put(1)[of f] put_get_ble_data_frame[OF assms(1)] by simp
  with assms(2,3) show ?thesis by (simp add: prv_on_data_write_def)
qed

lemma bl_data:
  assumes ready: "bl_ready c s" and f: "ble_frame_frag e = Some (f, h)"
  shows "bl_rx_frame c e s = do { (out, s2) \<leftarrow> rx_step (bl_Z c) (ble_pool (bl_Z c)) f s;
     rx_outcome (bl_ack c) (prv_handle_complete_incoming_data_transaction_ble (bl_Z c) (bl_call_cb c)) h out s2 }"
proof -
  obtain buf n where e: "e = (buf, n)" by (cases e)
  obtain d where d: "get_ble_data_frame buf = Some d" "8 \<le> n"
    "bh_frame_type (bd_header d) = ALFIE_BLE_SERVICE_PROTO_FRAME_TYPE_DATA" "f = ble_frag d n" "h = d"
  proof (cases "get_ble_data_frame buf")
    case None
    with f show thesis by (simp add: e ble_frame_frag_def split: if_splits)
  next
    case (Some d)
    with f show thesis by (intro that[of d]) (auto simp: e ble_frame_frag_def split: if_splits)
  qed
  have "bs_rx_pool (bsv s) = ble_pool (bl_Z c)" using ready by (simp add: bl_ready_def ble_ready_def)
  with d(2) show ?thesis
    by (simp add: e bl_rx_frame_def on_write_data_frame[OF d(1) _ d(3)] handle_data_frame_ble_alt[OF _ d(1)]
        d(4,5) bl_ack_def[abs_def])
qed

text \<open>A frame without a fragment is an ACK, which gives the semaphore, or changes nothing.\<close>

lemma bl_rest_cases:
  assumes ok: "ble_frame_ok (buf, n)" and none: "ble_frame_frag (buf, n) = None"
  obtains "bl_rx_frame c (buf, n) s = Some s"
    | "bl_rx_frame c (buf, n) s = Some (s\<lparr>kern := k_sem_give (bl_Z c) BleAckSem (kern s)\<rparr>)"
proof -
  have len: "n \<le> length buf" using ok by (simp add: ble_frame_ok_def)
  consider "n < 2" | h where "2 \<le> n" "get_ble_frame_header buf = Some h"
    using len by (cases buf rule: get_ble_frame_header.cases) fastforce+
  then show thesis
  proof cases
    case 1
    with that show ?thesis by (auto simp: bl_rx_frame_def prv_on_data_write_def)
  next
    case (2 h)
    show ?thesis
    proof (cases "bh_frame_type h = ALFIE_BLE_SERVICE_PROTO_FRAME_TYPE_DATA")
      case True
      have "n < 8"
      proof (rule ccontr)
        assume "\<not> n < 8"
        then obtain d where d: "get_ble_data_frame buf = Some d"
          using len get_ble_data_frame_None[of buf] by (cases "get_ble_data_frame buf") auto
        have "get_ble_frame_header buf = Some (bd_header d)"
          using get_ble_frame_header_put(1)[of d] put_get_ble_data_frame[OF d] by simp
        with d True 2 \<open>\<not> n < 8\<close> none show False by (simp add: ble_frame_frag_def)
      qed
      with True 2 that show ?thesis
        by (auto simp: bl_rx_frame_def prv_on_data_write_def prv_handle_incoming_data_frame_ble_def)
    next
      case False
      with 2 that show ?thesis
        by (cases "bh_frame_type h = ALFIE_BLE_SERVICE_PROTO_FRAME_TYPE_DATA_ACK"; cases "n < sizeof_ble_data_ack_frame")
          (auto simp: bl_rx_frame_def prv_on_data_write_def prv_handle_incoming_data_ack_ble_def)
    qed
  qed
qed

lemma bl_rest:
  assumes env: "bl_env c" and ready: "bl_ready c s" and ok: "ble_frame_ok (buf, n)"
    and none: "ble_frame_frag (buf, n) = None"
  shows "\<exists>s'. bl_rx_frame c (buf, n) s = Some s' \<and> same_rx (bl_Z c) s s' \<and> bl_ready c s'"
proof -
  let ?s = "s\<lparr>kern := k_sem_give (bl_Z c) BleAckSem (kern s)\<rparr>"
  have sem: "sem_laws (bl_Z c)" using env by (simp add: bl_env_def ble_env_def)
  have ack: "same_rx (bl_Z c) s ?s" using sem_view(3,4)[OF sem] by (simp add: same_rx_def)
  have ready': "bl_ready c ?s" using ready same_rx_pool(1)[OF ack] by (simp add: bl_ready_def ble_ready_def)
  show ?thesis by (rule bl_rest_cases[OF ok none, of c s]) (use ready ready' ack in auto)
qed

interpretation ble_rx: message_receiver bl_env bl_Z bl_cnt bl_cap "\<lambda>c. ble_pool (bl_Z c)"
  bl_ready bl_ready bl_ack "\<lambda>c. ble_callback (bl_call_cb c) (bl_callback c)"
  "\<lambda>c. prv_handle_complete_incoming_data_transaction_ble (bl_Z c) (bl_call_cb c)"
  "\<lambda>c. ble_frame_ok" ble_frame_frag bl_rx_frame bl_valid bl_transfer bl_event bl_between
proof unfold_locales
  fix c :: "('a, 'b) ble_case" and s s' :: "('a, 'b) ble_machine_scheme" and p
  show "clock_laws (bl_Z c)" "net_buf_laws (bl_Z c) (bl_cnt c) (bl_cap c)"
    "pool_fits (bl_cnt c) (bl_cap c) (ble_pool (bl_Z c))" if "bl_env c"
    using that ble_envD(1,2,5)[of "bl_Z c" "bl_cnt c" "bl_cap c"] by (simp_all add: bl_env_def)
  show "consumes (bl_Z c) (ble_pool (bl_Z c)) (ble_callback (bl_call_cb c) (bl_callback c))"
    if "bl_env c" using that by (simp add: bl_env_def)
  show "pool_inv (bl_Z c) (ble_pool (bl_Z c)) s" if "bl_ready c s"
    using that by (simp add: bl_ready_def ble_ready_def)
  show "bl_ready c s" if "bl_ready c s" by (rule that)
  show "bl_ready c s'" if "bl_ready c s" "only_rx s s'" "pool_inv (bl_Z c) (ble_pool (bl_Z c)) s'"
    using that only_rx_ble[OF that(2)] by (simp add: bl_ready_def ble_ready_def)
  show "bl_ready c s'" if "bl_ready c s" "only_buffers s s'" "pool_inv (bl_Z c) (ble_pool (bl_Z c)) s'"
    using that only_rx_ble[OF only_rx_buffers[OF that(2)]] by (simp add: bl_ready_def ble_ready_def)
  show "\<exists>s'. bl_ack c h s = Some s' \<and> same_rx (bl_Z c) s s' \<and> bl_ready c s'" if "bl_env c" "bl_ready c s" for h
    by (rule bl_acks[OF that])
  show "prv_handle_complete_incoming_data_transaction_ble (bl_Z c) (bl_call_cb c) p s =
      deliver_release (bl_Z c) (ble_callback (bl_call_cb c) (bl_callback c)) p s"
    if "bl_ready c s"
    using that by (simp add: handle_complete_ble_alt bl_ready_def)
  fix e :: "u8 list \<times> nat"
  show "unat (rf_total f) \<le> bl_cap c (pl_buffer_pool (ble_pool (bl_Z c))) \<and> rf_len f \<le> length (rf_payload f) \<and>
      rf_len f < 2 ^ 16 \<and> src_query (ble_pool (bl_Z c)) (rf_src f)"
    if "bl_env c" "ble_frame_ok e" "ble_frame_frag e = Some (f, h)" for f h
    using that ble_envD(6)[of "bl_Z c" "bl_cnt c" "bl_cap c"]
    by (auto simp: bl_env_def ble_frame_frag_def ble_frame_ok_def split: if_splits option.splits prod.splits
        dest!: put_get_ble_data_frame arg_cong[where f = length])
  show "bl_rx_frame c e s = do { (out, s2) \<leftarrow> rx_step (bl_Z c) (ble_pool (bl_Z c)) f s;
     rx_outcome (bl_ack c) (prv_handle_complete_incoming_data_transaction_ble (bl_Z c) (bl_call_cb c)) h out s2 }"
    if "bl_env c" "bl_ready c s" "ble_frame_frag e = Some (f, h)" for f h
    by (rule bl_data[OF that(2,3)])
  show "\<exists>s'. bl_rx_frame c e s = Some s' \<and> same_rx (bl_Z c) s s' \<and> bl_ready c s'"
    if "bl_env c" "bl_ready c s" "ble_frame_ok e" "ble_frame_frag e = None"
    using that bl_rest[of c s] by (cases e) auto
  fix k
  show "bl_env c" "tf_ok (bl_cap c) (ble_pool (bl_Z c)) (bl_transfer c)" if "bl_valid c"
    using bl_validD(1,3)[OF that] by auto
  show "src_query (ble_pool (bl_Z c)) (tf_src (bl_transfer c))" by simp
  show "ble_frame_ok (bl_event c k)" if "bl_valid c" "k < tf_n (bl_transfer c)"
    by (rule bl_event_decoded[OF that])
  show "\<exists>f h. ble_frame_frag (bl_event c k) = Some (f, h) \<and> is_frag (bl_transfer c) k f"
    if "bl_valid c" "k < tf_n (bl_transfer c)"
    by (rule bl_event_decoded[OF that]) blast
  show "bl_ready c (bl_between c s) \<and> same_rx (bl_Z c) s (bl_between c s)" if "bl_valid c" "bl_ready c s"
  proof -
    have q: "same_rx (bl_Z c) s (bl_between c s)"
      "bsv (bl_between c s) = (bsv s)\<lparr>bs_conn := bs_conn (bsv (bl_between c s))\<rparr>"
      using bl_validD(2)[OF that(1)] unfolding bl_quiet_def by blast+
    have "bs_initialized (bsv (bl_between c s)) = bs_initialized (bsv s)"
      "bs_rx_pool (bsv (bl_between c s)) = bs_rx_pool (bsv s)"
      "bs_transport_rx_callback (bsv (bl_between c s)) = bs_transport_rx_callback (bsv s)"
      "bs_transport (bsv (bl_between c s)) = bs_transport (bsv s)"
      by (subst q(2), simp)+
    with q(1) that(2) same_rx_pool(1)[OF q(1)] show ?thesis by (simp add: bl_ready_def ble_ready_def)
  qed
qed

text \<open>The run of a reception, as for the DECT transport.\<close>

definition bl_rx :: "('k, 'a) ble_case \<Rightarrow> nat \<Rightarrow> ('k, 'a) ble_machine_scheme \<Rightarrow>
  ('k, 'a) ble_machine_scheme option" where
  "bl_rx c k s = do { s' \<leftarrow> bl_rx_frame c (bl_event c k) s; Some (bl_between c s') }"

definition bl_other :: "('k, 'a) ble_case \<Rightarrow> u8 list \<times> nat \<Rightarrow> ('k, 'a) ble_machine_scheme \<Rightarrow>
  ('k, 'a) ble_machine_scheme option" where
  "bl_other c e s = do { s' \<leftarrow> bl_rx_frame c e s; Some (bl_between c s') }"

definition bl_admits :: "('k, 'a) ble_case \<Rightarrow> u8 list \<times> nat \<Rightarrow> bool" where
  "bl_admits c e \<longleftrightarrow> ble_frame_ok e \<and>
     (case ble_frame_frag e of None \<Rightarrow> True | Some (f, h) \<Rightarrow> \<not> same_key (bl_transfer c) f)"

lemma bl_admits_alt:
  "bl_admits c e \<longleftrightarrow> ble_frame_ok e \<and>
     (\<forall>f h. ble_frame_frag e = Some (f, h) \<longrightarrow> \<not> same_key (bl_transfer c) f)"
  unfolding bl_admits_def by (cases "ble_frame_frag e") auto

definition bl_final :: "('k, 'a) ble_case \<Rightarrow> ('k, 'a) ble_machine_scheme option \<Rightarrow> bool" where
  "bl_final c = delivered (bl_Z c) (ble_pool (bl_Z c)) (bl_transfer c) (bl_ready c)
     (prv_handle_complete_incoming_data_transaction_ble (bl_Z c) (bl_call_cb c)) (bl_between c)"

section \<open>Properties\<close>

text \<open>A machine with a running service and a connected phone, for the witnesses.\<close>

definition ref_ble :: "kworld ble_machine" where
  "ref_ble = \<lparr>kern = rk_init, mem = boot_mem, dev_fetched = True, dev_id = 0x04030201,
     ll = ll ref_dect, dtl = dtl ref_dect, bcore = ble_core_inst_init,
     ctl = \<lparr>cs_fetched = False, cs_dev_id = 0\<rparr>,
     bsv = ble_service_inst_init\<lparr>bs_initialized := True, bs_rx_pool := ble_pool ref_zephyr, bs_conn := Some 1\<rparr>\<rparr>"

lemma ref_ble_simps [simp]:
  "kern ref_ble = rk_init" "mem ref_ble = boot_mem" "bs_initialized (bsv ref_ble)"
  "bs_rx_pool (bsv ref_ble) = ble_pool ref_zephyr" "bs_transport_rx_callback (bsv ref_ble) = None"
  "bs_conn (bsv ref_ble) = Some 1" "bs_transport (bsv ref_ble) = transport_zero" "bcore ref_ble = ble_core_inst_init"
  by (simp_all add: ref_ble_def ble_service_inst_init_def)

lemma ref_ble_env: "ble_env ref_zephyr ref_cnt ref_cap"
  by (simp add: ble_env_def ref_clock_laws ref_net_buf_laws ref_sem_laws ref_notify_laws ref_cnt_def ref_cap_def)

lemma ref_ble_ready: "ble_ready ref_zephyr ref_ble"
  by (auto simp: ble_ready_def live_bufs_def tb_at_def intro!: fresh_pool_inv)

definition ref_ble_case :: "(kworld, unit) ble_case" where
  "ref_ble_case = \<lparr>bl_Z = ref_zephyr, bl_cnt = ref_cnt, bl_cap = ref_cap,
     bl_call_cb = (\<lambda>f n p. Some), bl_callback = None, bl_transport = transport_zero,
     bl_between = (\<lambda>s. s\<lparr>bsv := (bsv s)\<lparr>bs_conn := None\<rparr>\<rparr>),
     bl_seq = 7, bl_msg = map of_nat [0..<300],
     bl_frame = (\<lambda>k. put_ble_data_frame (ble_data_frame 7 (map of_nat [0..<300]) k)), bl_since = 0\<rparr>"

lemma length_put_ble_data:
  "length (put_ble_data_frame (ble_data_frame seq msg k)) = ble_frame_len msg k"
  by (simp add: ble_frame_len_def ble_data_frame_def)

lemma take_put_ble_data [simp]:
  "take (ble_frame_len msg k) (put_ble_data_frame (ble_data_frame seq msg k)) =
     put_ble_data_frame (ble_data_frame seq msg k)"
  by (simp only: length_put_ble_data[symmetric, of msg k seq] take_all order_refl)

lemma ref_ble_case_valid: "bl_valid ref_ble_case" "bl_ready ref_ble_case ref_ble"
  "received (bl_Z ref_ble_case) (ble_pool (bl_Z ref_ble_case)) (bl_transfer ref_ble_case) 0 ref_ble"
proof -
  have env: "bl_env ref_ble_case"
    by (simp add: bl_env_def ref_ble_case_def ref_ble_env ble_callback_def consumes_nothing)
  show "bl_valid ref_ble_case"
    unfolding bl_valid_def
    by (rule conjI[OF env]) (simp add: ref_ble_case_def bl_quiet_def same_rx_def)
  show "bl_ready ref_ble_case ref_ble"
    using ref_ble_ready by (simp add: bl_ready_def ref_ble_case_def)
  have "awaited ref_zephyr (ble_pool ref_zephyr) (bl_transfer ref_ble_case) ref_ble"
    by (auto simp: awaited_def tf_matches_def matches_def tb_at_def pool_ptrs_def
        ble_pool_def rk_init_def bl_transfer_def ref_ble_case_def)
  then show "received (bl_Z ref_ble_case) (ble_pool (bl_Z ref_ble_case)) (bl_transfer ref_ble_case) 0 ref_ble"
    by (simp add: received_def ref_ble_case_def)
qed

lemma ble_feed:
  assumes "bl_valid c" and "bl_ready c s"
    and "received (bl_Z c) (ble_pool (bl_Z c)) (bl_transfer c) 0 s"
    and "expect 0 evs = Some m" and "Suc m = tf_n (bl_transfer c)"
    and "\<And>e. Inl e \<in> set evs \<Longrightarrow> bl_admits c e"
  shows "\<exists>s'. feed (bl_other c) (bl_rx c) evs s = Some s' \<and> bl_final c (bl_rx c m s')"
  unfolding bl_other_def[abs_def] bl_rx_def[abs_def] bl_final_def
  by (rule ble_rx.reassembles[OF assms(1) conjI[OF assms(2,3)] assms(4,5)])
    (use assms(6)[unfolded bl_admits_alt] in blast)

text \<open>C4. Reassembly from the phone: when the fragments of a message are written in order, each any
  positive number of times, with ACKs and fragments of other messages in between and even with
  the connection closed and opened again, every write is handled and the last fragment delivers:
  the callback runs on a context that holds exactly the bytes of the message, with one reference,
  which is dropped afterwards. (A transfer past its ten-second deadline is exempt.)\<close>

theorem ble_reassembles:
  assumes "bl_valid c" and "bl_ready c s"
    and "received (bl_Z c) (ble_pool (bl_Z c)) (bl_transfer c) 0 s"
    and "expect 0 evs = Some m" and "Suc m = tf_n (bl_transfer c)"
    and "\<And>e. Inl e \<in> set evs \<Longrightarrow> bl_admits c e"
  shows "\<exists>s'. feed (bl_other c) (bl_rx c) evs s = Some s' \<and> bl_final c (bl_rx c m s')"
  by (rule ble_feed[OF assms])

theorem ble_reassembles_witness:
  "\<exists>s'. feed (bl_other ref_ble_case) (bl_rx ref_ble_case) [Inr 0, Inl ([0, 1, 3, 0, 0], 5), Inr 0] ref_ble = Some s' \<and>
     bl_final ref_ble_case (bl_rx ref_ble_case 1 s')"
proof (rule ble_reassembles[OF ref_ble_case_valid])
  show "Suc 1 = tf_n (bl_transfer ref_ble_case)"
    by (simp add: bl_transfer_n ref_ble_case_def n_chunks_def)
  show "bl_admits ref_ble_case e"
    if "Inl e \<in> set [Inr 0, Inl ([0, 1, 3, 0, 0], 5), Inr 0]" for e
    using that by (auto simp: bl_admits_def ble_frame_ok_def ble_frame_frag_def)
qed simp

text \<open>C19. Safety of the write callback: whatever the phone writes, if its declared total does not
  exceed a receive buffer, the callback returns either the length written or the ATT error for a
  frame that is truncated or of an unknown type, and the pool's invariant is kept. The only
  refused writes are those of unknown frames.\<close>

theorem ble_write_callback_safe:
  assumes env: "ble_env Z cnt cap" and ready: "ble_ready Z s"
    and cb: "consumes Z (ble_pool Z) (ble_callback call_cb (bs_transport_rx_callback (bsv s)))"
    and ok: "ble_frame_ok (buf, len)"
  shows "\<exists>ret s'. prv_on_data_write Z call_cb buf len s = Some (ret, s') \<and> ble_ready Z s' \<and>
     ret = (case get_ble_frame_header buf of None \<Rightarrow> - BT_ATT_ERR_WRITE_REQ_REJECTED
        | Some h \<Rightarrow> if 2 \<le> len \<and> (bh_frame_type h = ALFIE_BLE_SERVICE_PROTO_FRAME_TYPE_DATA \<or>
                        bh_frame_type h = ALFIE_BLE_SERVICE_PROTO_FRAME_TYPE_DATA_ACK)
                    then int len else - BT_ATT_ERR_WRITE_REQ_REJECTED)"
proof -
  let ?c = "\<lparr>bl_Z = Z, bl_cnt = cnt, bl_cap = cap, bl_call_cb = call_cb,
    bl_callback = bs_transport_rx_callback (bsv s), bl_transport = bs_transport (bsv s), bl_between = id, bl_seq = 0, bl_msg = [],
    bl_frame = (\<lambda>k. []), bl_since = 0\<rparr>"
  have "bl_env ?c" using env cb by (simp add: bl_env_def)
  moreover have "bl_ready ?c s" using ready by (simp add: bl_ready_def)
  ultimately have "\<exists>s'. bl_rx_frame ?c (buf, len) s = Some s' \<and> bl_ready ?c s' \<and>
      ktime (bl_Z ?c) (kern s) \<le> ktime (bl_Z ?c) (kern s')"
    by (rule ble_rx.rx_total) (simp add: ok)
  then obtain ret s' where r: "prv_on_data_write Z call_cb buf len s = Some (ret, s')" "ble_ready Z s'"
    by (auto simp: bl_rx_frame_def bl_ready_def bind_Some_iff)
  moreover have "ret = (case get_ble_frame_header buf of None \<Rightarrow> - BT_ATT_ERR_WRITE_REQ_REJECTED
        | Some h \<Rightarrow> if 2 \<le> len \<and> (bh_frame_type h = ALFIE_BLE_SERVICE_PROTO_FRAME_TYPE_DATA \<or>
                        bh_frame_type h = ALFIE_BLE_SERVICE_PROTO_FRAME_TYPE_DATA_ACK)
                    then int len else - BT_ATT_ERR_WRITE_REQ_REJECTED)"
    using r(1) by (auto simp: prv_on_data_write_def bind_Some_iff split: if_splits option.splits)
  ultimately show ?thesis by blast
qed

theorem ble_write_callback_safe_witness:
  "\<exists>ret s'. prv_on_data_write ref_zephyr (\<lambda>f n p. Some) [0, 9, 1] 3 ref_ble = Some (ret, s') \<and> ble_ready ref_zephyr s' \<and>
     ret = - BT_ATT_ERR_WRITE_REQ_REJECTED"
  using ble_write_callback_safe[OF ref_ble_env ref_ble_ready, of "\<lambda>f n p. Some" "[0, 9, 1]" 3]
  by (simp add: ble_callback_def consumes_nothing ble_frame_ok_def wire)

text \<open>Start-up of the service: from the state of static memory \<open>alfie_ble_service_init\<close> succeeds,
  leaves four free contexts, publishes the transport as the upstream one and announces the
  service's UUID; a second call is refused and changes nothing.\<close>

theorem ble_service_starts:
  assumes "layout_laws Z" and "sem_laws Z" and "bsv s = ble_service_inst_init"
    and "bcore s = ble_core_inst_init\<lparr>bc_device_name := nm, bc_ad_name_len := nl\<rparr>"
    and "live_bufs BleRxPool (kview Z (kern s)) = {}" and "mem s = boot_mem"
  shows "\<exists>s'. alfie_ble_service_init Z s = (0, s') \<and> ble_ready Z s' \<and>
     alfie_ble_service_get_transport s = None \<and> alfie_ble_service_get_transport s' = Some BleTransport \<and>
     tr_type (bs_transport (bsv s')) = ALFIE_TRANSPORT_TYPE_UPSTREAM \<and>
     scan_data (bcore s') = Some [\<lparr>bd_type = BT_DATA_UUID128_ALL, bd_data = ALFIE_BLE_SERVICE_UUID_VAL\<rparr>] \<and>
     alfie_ble_service_init Z s' = (- EALREADY, s')"
proof -
  have new: "\<not> bs_initialized (bsv s)" using assms(3) by (simp add: ble_service_inst_init_def)
  have uuid: "length ALFIE_BLE_SERVICE_UUID_VAL = 16"
    by (simp add: ALFIE_BLE_SERVICE_UUID_VAL_def bt_uuid_128_encode_def)
  have free: "tb_buffer (tb_at s p) = None" "tb_state (tb_at s p) = TRANSPORT_BUFFER_STATE_FREE" for p
    using assms(6) by (simp_all add: tb_at_def)
  obtain s' where s': "alfie_ble_service_init Z s = (0, s')" "ble_ready Z s'"
    "alfie_ble_service_get_transport s' = Some BleTransport"
    "bs_transport (bsv s') = \<lparr>tr_api = Some \<lparr>api_write = Some Alfie_ble_service_write,
           api_register_rx_cb = Some Alfie_ble_service_register_rx_callback\<rparr>,
           tr_type = ALFIE_TRANSPORT_TYPE_UPSTREAM\<rparr>"
    "bc_adv_uuid128_buf (bcore s') = ALFIE_BLE_SERVICE_UUID_VAL" "bc_adv_uuid128_count (bcore s') = 1"
    by (rule ble_init_spec[OF assms(1-5) free])
  have "scan_data (bcore s') = Some [\<lparr>bd_type = BT_DATA_UUID128_ALL, bd_data = ALFIE_BLE_SERVICE_UUID_VAL\<rparr>]"
    using s'(5,6) uuid by (simp add: scan_data_def BT_UUID_SIZE_128_def)
  moreover have "alfie_ble_service_init Z s' = (- EALREADY, s')"
    using s'(2) by (simp add: alfie_ble_service_init_def ble_ready_def)
  moreover have "alfie_ble_service_get_transport s = None"
    using new by (simp add: alfie_ble_service_get_transport_def)
  ultimately show ?thesis using s'(1-4) by auto
qed

theorem ble_service_starts_witness:
  "\<exists>s'. alfie_ble_service_init ref_zephyr (ref_ble\<lparr>bsv := ble_service_inst_init\<rparr>) = (0, s') \<and>
     ble_ready ref_zephyr s' \<and>
     alfie_ble_service_get_transport (ref_ble\<lparr>bsv := ble_service_inst_init\<rparr>) = None \<and>
     alfie_ble_service_get_transport s' = Some BleTransport \<and>
     tr_type (bs_transport (bsv s')) = ALFIE_TRANSPORT_TYPE_UPSTREAM \<and>
     scan_data (bcore s') = Some [\<lparr>bd_type = BT_DATA_UUID128_ALL, bd_data = ALFIE_BLE_SERVICE_UUID_VAL\<rparr>] \<and>
     alfie_ble_service_init ref_zephyr s' = (- EALREADY, s')"
  by (rule ble_service_starts[where nm = "replicate 16 0" and nl = None])
    (simp_all add: ref_layout_laws ref_sem_laws live_bufs_def ble_core_inst_init_def)

end
