(* ===== verification/Alfie_Router.thy ===== *)
theory Alfie_Router
  imports Alfie_Ble_Service
begin

text \<open>
  \<^verbatim>\<open>alfie/app/src/alfie/alfie_router.c\<close> and \<^verbatim>\<open>endpoints/alfie_endpoint.h\<close>: the router. Its
  receive callback takes a reference to a complete message and queues it by the side it came from;
  its thread hands every queued message to the transports of the other side and to the endpoint the
  message names, and drops the reference.

  Transports and endpoints are called through the pointers in their interface records: the code
  behind a pointer is an argument (\<open>call_write\<close>, \<open>call_register\<close>, \<open>call_frame\<close>), which \<open>App_Main\<close>
  instantiates with the code of the firmware. Nodes of the lists are objects in memory: transports
  live in the variables of their drivers, endpoints in \<open>endpoints_mem\<close>.
\<close>

section \<open>Types and state\<close>

record alfie_endpoint_t =
  ep_on_frame_rx :: "fn_ptr option"
  ep_endpoint_id :: u8

record router_inst =
  rt_initialized :: bool

record 'k router_machine = "'k ble_machine" +
  rtr :: router_inst
  endpoints_mem :: "node_ptr \<Rightarrow> alfie_endpoint_t"

definition router_inst_init :: router_inst where
  "router_inst_init = \<lparr>rt_initialized = False\<rparr>"

definition endpoint_zero :: alfie_endpoint_t where
  "endpoint_zero = \<lparr>ep_on_frame_rx = None, ep_endpoint_id = 0\<rparr>"

text \<open>The transport behind a node pointer.\<close>

fun transport_at :: "('k, 'a) ble_machine_scheme \<Rightarrow> node_ptr \<Rightarrow> alfie_transport_t option" where
  "transport_at s DectTransport = Some (dt_transport (dtl s))"
| "transport_at s BleTransport = Some (bs_transport (bsv s))"
| "transport_at s _ = None"

section \<open>Receiving\<close>

text \<open>The \<open>default\<close> branch of the source is for values outside the enumeration.\<close>

definition prv_handle_transport_rx ::
  "'k zephyr \<Rightarrow> node_ptr \<Rightarrow> tb_ptr \<Rightarrow> ('k, 'a) ble_machine_scheme \<Rightarrow> ('k, 'a) ble_machine_scheme option"
  where
  "prv_handle_transport_rx Z transport buffer s =
     (if unat (tb_total_size_bytes (tb_at s buffer)) < sizeof_alfie_proto_header then Some s
      else let (_, s1) = transport_buffer_ref Z (Some buffer) s
           in do { t \<leftarrow> transport_at s1 transport;
                   Some (case tr_type t of
                     ALFIE_TRANSPORT_TYPE_UPSTREAM \<Rightarrow> s1\<lparr>kern := k_fifo_put Z FromUpstreamFifo buffer (kern s1)\<rparr>
                   | ALFIE_TRANSPORT_TYPE_DOWNSTREAM \<Rightarrow>
                       s1\<lparr>kern := k_fifo_put Z FromDownstreamFifo buffer (kern s1)\<rparr>) })"

section \<open>Forwarding\<close>

text \<open>\<open>buffer->buffer->data\<close>, and the header at its front.\<close>

definition buffer_data :: "'k zephyr \<Rightarrow> tb_ptr \<Rightarrow> ('k, 'a) machine_scheme \<Rightarrow> u8 list option" where
  "buffer_data Z buffer s = do { h \<leftarrow> tb_buffer (tb_at s buffer); nb \<leftarrow> nb_at Z s h; Some (nb_data nb) }"

definition buffer_header :: "'k zephyr \<Rightarrow> tb_ptr \<Rightarrow> ('k, 'a) machine_scheme \<Rightarrow> alfie_proto_header_t option" where
  "buffer_header Z buffer s = do { data \<leftarrow> buffer_data Z buffer s; get_alfie_header data }"

text \<open>\<open>SYS_SLIST_FOR_EACH_NODE\<close> over the endpoints: the first with the id of the header is called.\<close>

fun notify_first ::
  "'k zephyr \<Rightarrow> (fn_ptr \<Rightarrow> tb_ptr \<Rightarrow> ('k, 'a) router_machine_scheme \<Rightarrow> ('k, 'a) router_machine_scheme option) \<Rightarrow>
   tb_ptr \<Rightarrow> node_ptr list \<Rightarrow> ('k, 'a) router_machine_scheme \<Rightarrow> ('k, 'a) router_machine_scheme option" where
  "notify_first Z call_frame buffer [] s = Some s"
| "notify_first Z call_frame buffer (node # nodes) s = do {
     header \<leftarrow> buffer_header Z buffer s;
     let endpoint = endpoints_mem s node;
     if ep_endpoint_id endpoint = ap_endpoint_id header
     then do { f \<leftarrow> ep_on_frame_rx endpoint; call_frame f buffer s }
     else notify_first Z call_frame buffer nodes s }"

definition prv_notify_endpoint ::
  "'k zephyr \<Rightarrow> (fn_ptr \<Rightarrow> tb_ptr \<Rightarrow> ('k, 'a) router_machine_scheme \<Rightarrow> ('k, 'a) router_machine_scheme option) \<Rightarrow>
   tb_ptr \<Rightarrow> ('k, 'a) router_machine_scheme \<Rightarrow> ('k, 'a) router_machine_scheme option" where
  "prv_notify_endpoint Z call_frame buffer s =
     notify_first Z call_frame buffer (kv_slist (kview Z (kern s)) EndpointsList) s"

text \<open>\<open>SYS_SLIST_FOR_EACH_NODE\<close> over the transports: those of the given type are written to, and
  their results ignored.\<close>

fun write_each ::
  "'k zephyr \<Rightarrow>
   (fn_ptr \<Rightarrow> u32 \<Rightarrow> u8 list option \<Rightarrow> nat \<Rightarrow> ('k, 'a) router_machine_scheme \<Rightarrow>
      (int \<times> ('k, 'a) router_machine_scheme) option) \<Rightarrow>
   alfie_transport_type_t \<Rightarrow> tb_ptr \<Rightarrow> node_ptr list \<Rightarrow> ('k, 'a) router_machine_scheme \<Rightarrow>
   ('k, 'a) router_machine_scheme option" where
  "write_each Z call_write type buffer [] s = Some s"
| "write_each Z call_write type buffer (node # nodes) s = do {
     transport \<leftarrow> transport_at s node;
     if tr_type transport \<noteq> type then write_each Z call_write type buffer nodes s
     else do {
       api \<leftarrow> tr_api transport;
       w \<leftarrow> api_write api;
       header \<leftarrow> buffer_header Z buffer s;
       data \<leftarrow> buffer_data Z buffer s;
       (ret, s1) \<leftarrow> call_write w (ap_dst_id header) (Some data) (unat (tb_total_size_bytes (tb_at s buffer))) s;
       write_each Z call_write type buffer nodes s1 } }"

definition prv_forward_to_downstream ::
  "'k zephyr \<Rightarrow>
   (fn_ptr \<Rightarrow> u32 \<Rightarrow> u8 list option \<Rightarrow> nat \<Rightarrow> ('k, 'a) router_machine_scheme \<Rightarrow>
      (int \<times> ('k, 'a) router_machine_scheme) option) \<Rightarrow>
   (fn_ptr \<Rightarrow> tb_ptr \<Rightarrow> ('k, 'a) router_machine_scheme \<Rightarrow> ('k, 'a) router_machine_scheme option) \<Rightarrow>
   tb_ptr \<Rightarrow> ('k, 'a) router_machine_scheme \<Rightarrow> ('k, 'a) router_machine_scheme option" where
  "prv_forward_to_downstream Z call_write call_frame buffer s = do {
     s1 \<leftarrow> write_each Z call_write ALFIE_TRANSPORT_TYPE_DOWNSTREAM buffer
              (kv_slist (kview Z (kern s)) TransportsList) s;
     s2 \<leftarrow> prv_notify_endpoint Z call_frame buffer s1;
     transport_buffer_unref Z (Some buffer) s2 }"

definition prv_forward_to_upstream ::
  "'k zephyr \<Rightarrow>
   (fn_ptr \<Rightarrow> u32 \<Rightarrow> u8 list option \<Rightarrow> nat \<Rightarrow> ('k, 'a) router_machine_scheme \<Rightarrow>
      (int \<times> ('k, 'a) router_machine_scheme) option) \<Rightarrow>
   (fn_ptr \<Rightarrow> tb_ptr \<Rightarrow> ('k, 'a) router_machine_scheme \<Rightarrow> ('k, 'a) router_machine_scheme option) \<Rightarrow>
   tb_ptr \<Rightarrow> ('k, 'a) router_machine_scheme \<Rightarrow> ('k, 'a) router_machine_scheme option" where
  "prv_forward_to_upstream Z call_write call_frame buffer s = do {
     s1 \<leftarrow> write_each Z call_write ALFIE_TRANSPORT_TYPE_UPSTREAM buffer
              (kv_slist (kview Z (kern s)) TransportsList) s;
     s2 \<leftarrow> prv_notify_endpoint Z call_frame buffer s1;
     transport_buffer_unref Z (Some buffer) s2 }"

text \<open>
  One turn of the thread's loop. Each poll event is \<open>NOT_READY\<close> when \<open>k_poll\<close> is called, so the flags
  it reports are those of this turn.
\<close>

definition serve_fifo ::
  "'k zephyr \<Rightarrow> fifo_id \<Rightarrow>
   (tb_ptr \<Rightarrow> ('k, 'a) router_machine_scheme \<Rightarrow> ('k, 'a) router_machine_scheme option) \<Rightarrow> bool \<Rightarrow>
   ('k, 'a) router_machine_scheme \<Rightarrow> ('k, 'a) router_machine_scheme option" where
  "serve_fifo Z fifo forward ready s =
     (if \<not> ready then Some s
      else let (buffer, k) = k_fifo_get Z fifo (kern s);
               s1 = s\<lparr>kern := k\<rparr>
           in (case buffer of None \<Rightarrow> Some s1 | Some b \<Rightarrow> forward b s1))"

definition prv_router_turn ::
  "'k zephyr \<Rightarrow>
   (fn_ptr \<Rightarrow> u32 \<Rightarrow> u8 list option \<Rightarrow> nat \<Rightarrow> ('k, 'a) router_machine_scheme \<Rightarrow>
      (int \<times> ('k, 'a) router_machine_scheme) option) \<Rightarrow>
   (fn_ptr \<Rightarrow> tb_ptr \<Rightarrow> ('k, 'a) router_machine_scheme \<Rightarrow> ('k, 'a) router_machine_scheme option) \<Rightarrow>
   ('k, 'a) router_machine_scheme \<Rightarrow> ('k, 'a) router_machine_scheme option" where
  "prv_router_turn Z call_write call_frame s = do {
     (flags, k) \<leftarrow> k_poll Z [FromUpstreamFifo, FromDownstreamFifo] (kern s);
     s1 \<leftarrow> serve_fifo Z FromUpstreamFifo (prv_forward_to_downstream Z call_write call_frame)
             (flags ! 0) (s\<lparr>kern := k\<rparr>);
     serve_fifo Z FromDownstreamFifo (prv_forward_to_upstream Z call_write call_frame) (flags ! 1) s1 }"

text \<open>The thread, for a number of turns: it never ends.\<close>

fun prv_router_thread ::
  "'k zephyr \<Rightarrow>
   (fn_ptr \<Rightarrow> u32 \<Rightarrow> u8 list option \<Rightarrow> nat \<Rightarrow> ('k, 'a) router_machine_scheme \<Rightarrow>
      (int \<times> ('k, 'a) router_machine_scheme) option) \<Rightarrow>
   (fn_ptr \<Rightarrow> tb_ptr \<Rightarrow> ('k, 'a) router_machine_scheme \<Rightarrow> ('k, 'a) router_machine_scheme option) \<Rightarrow>
   nat \<Rightarrow> ('k, 'a) router_machine_scheme \<Rightarrow> ('k, 'a) router_machine_scheme option" where
  "prv_router_thread Z call_write call_frame 0 s = Some s"
| "prv_router_thread Z call_write call_frame (Suc n) s = do {
     s1 \<leftarrow> prv_router_turn Z call_write call_frame s;
     prv_router_thread Z call_write call_frame n s1 }"

section \<open>Interface\<close>

definition alfie_router_init ::
  "'k zephyr \<Rightarrow> ('k, 'a) router_machine_scheme \<Rightarrow> int \<times> ('k, 'a) router_machine_scheme" where
  "alfie_router_init Z s =
     (if rt_initialized (rtr s) = True then (- EALREADY, s)
      else
        let k1 = sys_slist_init Z EndpointsList (kern s);
            k2 = sys_slist_init Z TransportsList k1;
            k3 = k_fifo_init Z FromUpstreamFifo k2;
            k4 = k_fifo_init Z FromDownstreamFifo k3;
            k5 = k_thread_create Z Prv_router_thread k4
        in (0, s\<lparr>kern := k5, rtr := (rtr s)\<lparr>rt_initialized := True\<rparr>\<rparr>))"

definition alfie_router_register_transport ::
  "'k zephyr \<Rightarrow>
   (fn_ptr \<Rightarrow> fn_ptr option \<Rightarrow> ('k, 'a) router_machine_scheme \<Rightarrow>
      (int \<times> ('k, 'a) router_machine_scheme) option) \<Rightarrow>
   node_ptr option \<Rightarrow> ('k, 'a) router_machine_scheme \<Rightarrow> (int \<times> ('k, 'a) router_machine_scheme) option" where
  "alfie_router_register_transport Z call_register transport s =
     (if rt_initialized (rtr s) = False then Some (- ENODEV, s)
      else case transport of
        None \<Rightarrow> Some (- EINVAL, s)
      | Some node \<Rightarrow> do {
          t \<leftarrow> transport_at s node;
          case tr_api t of
            None \<Rightarrow> Some (- EINVAL, s)
          | Some api \<Rightarrow>
              if api_write api = None then Some (- EINVAL, s)
              else case api_register_rx_cb api of
                None \<Rightarrow> Some (- EINVAL, s)
              | Some register \<Rightarrow> do {
                  (ret, s1) \<leftarrow> call_register register (Some Prv_handle_transport_rx) s;
                  if ret \<noteq> 0 then Some (ret, s1)
                  else Some (0, s1\<lparr>kern := sys_slist_append Z TransportsList node (kern s1)\<rparr>) } })"

definition alfie_router_register_endpoint ::
  "'k zephyr \<Rightarrow> node_ptr option \<Rightarrow> ('k, 'a) router_machine_scheme \<Rightarrow> int \<times> ('k, 'a) router_machine_scheme" where
  "alfie_router_register_endpoint Z endpoint s =
     (if rt_initialized (rtr s) = False then (- ENODEV, s)
      else case endpoint of
        None \<Rightarrow> (- EINVAL, s)
      | Some node \<Rightarrow>
          if ep_on_frame_rx (endpoints_mem s node) = None then (- EINVAL, s)
          else (0, s\<lparr>kern := sys_slist_append Z EndpointsList node (kern s)\<rparr>))"

section \<open>The receive callback\<close>

definition fifo_of :: "alfie_transport_type_t \<Rightarrow> fifo_id" where
  "fifo_of t = (case t of ALFIE_TRANSPORT_TYPE_UPSTREAM \<Rightarrow> FromUpstreamFifo
     | ALFIE_TRANSPORT_TYPE_DOWNSTREAM \<Rightarrow> FromDownstreamFifo)"

lemma transport_at_kern [simp]: "transport_at (s\<lparr>kern := k\<rparr>) n = transport_at s n"
  by (cases n) simp_all

lemma router_rx_queues:
  assumes laws: "net_buf_laws Z cnt cap" "fifo_laws Z"
    and inv: "pool_inv Z inst s" "p \<in> set (pool_ptrs inst)"
    and st: "tb_state (tb_at s p) = TRANSPORT_BUFFER_STATE_REFERENCED"
    and h: "tb_buffer (tb_at s p) = Some h" "bufs Z (kern s) h = Some nb"
    and t: "transport_at s n = Some t" and size: "10 \<le> unat (tb_total_size_bytes (tb_at s p))"
  obtains s' where "prv_handle_transport_rx Z n p s = Some s'" and "pool_inv Z inst s'"
    and "s' = s\<lparr>kern := kern s'\<rparr>" and "ktime Z (kern s) \<le> ktime Z (kern s')"
    and "kview Z (kern s') = (kview Z (kern s))\<lparr>kv_bufs := (bufs Z (kern s))(h \<mapsto> nb\<lparr>nb_ref := nb_ref nb + 1\<rparr>),
           kv_fifo := (kv_fifo (kview Z (kern s)))
             (fifo_of (tr_type t) := kv_fifo (kview Z (kern s)) (fifo_of (tr_type t)) @ [p])\<rparr>"
proof -
  obtain s1 where s1: "transport_buffer_ref Z (Some p) s = (Some p, s1)" "pool_inv Z inst s1"
    "s1 = s\<lparr>kern := kern s1\<rparr>" "same_but_bufs (kview Z (kern s)) (kview Z (kern s1))"
    "ktime Z (kern s) \<le> ktime Z (kern s1)"
    "bufs Z (kern s1) = (bufs Z (kern s))(h \<mapsto> nb\<lparr>nb_ref := nb_ref nb + 1\<rparr>)"
    by (rule ref_spec[OF laws(1) inv st h]) blast
  let ?s = "s1\<lparr>kern := k_fifo_put Z (fifo_of (tr_type t)) p (kern s1)\<rparr>"
  have t1: "transport_at s1 n = Some t"
    using arg_cong[OF s1(3), of "\<lambda>x. transport_at x n"] t by simp
  note v1 = same_but_bufs_eq[OF s1(4), unfolded s1(6)]
  show ?thesis
  proof (rule that)
    show "prv_handle_transport_rx Z n p s = Some ?s"
      using size s1(1) t1
      by (simp add: prv_handle_transport_rx_def fifo_of_def split: alfie_transport_type_t.splits)
    show "pool_inv Z inst ?s"
      using s1(2) by (simp add: pool_inv_def fifo_view(2)[OF laws(2)])
    show "?s = s\<lparr>kern := kern ?s\<rparr>" using arg_cong[OF s1(3), of "\<lambda>x. x\<lparr>kern := kern ?s\<rparr>"] by simp
    show "ktime Z (kern s) \<le> ktime Z (kern ?s)"
      using order_trans[OF s1(5) fifo_put_time[OF laws(2)]] by simp
    show "kview Z (kern ?s) = (kview Z (kern s))\<lparr>kv_bufs := (bufs Z (kern s))(h \<mapsto> nb\<lparr>nb_ref := nb_ref nb + 1\<rparr>),
           kv_fifo := (kv_fifo (kview Z (kern s)))
             (fifo_of (tr_type t) := kv_fifo (kview Z (kern s)) (fifo_of (tr_type t)) @ [p])\<rparr>"
      by (simp add: fifo_view(2)[OF laws(2)] v1)
  qed
qed

text \<open>The router is a receiver the transports can call: it satisfies their contract.\<close>

lemma router_consumes:
  assumes laws: "net_buf_laws Z cnt cap" "fifo_laws Z" and n: "n = DectTransport \<or> n = BleTransport"
  shows "consumes Z inst (prv_handle_transport_rx Z n)"
  unfolding consumes_def
proof (intro allI impI, elim conjE)
  fix s :: "('a, 'b) ble_machine_scheme" and p h nb
  assume a: "pool_inv Z inst s" "p \<in> set (pool_ptrs inst)"
    "tb_state (tb_at s p) = TRANSPORT_BUFFER_STATE_REFERENCED" "tb_buffer (tb_at s p) = Some h"
    "bufs Z (kern s) h = Some nb"
  obtain t where t: "transport_at s n = Some t" using n by auto
  show "\<exists>s' r. prv_handle_transport_rx Z n p s = Some s' \<and> s' = s\<lparr>kern := kern s'\<rparr> \<and>
        ktime Z (kern s) \<le> ktime Z (kern s') \<and> kv_txq (kview Z (kern s')) = kv_txq (kview Z (kern s)) \<and>
        kv_sem (kview Z (kern s')) = kv_sem (kview Z (kern s)) \<and>
        bufs Z (kern s') = (bufs Z (kern s))(h \<mapsto> nb\<lparr>nb_ref := nb_ref nb + r\<rparr>)"
  proof (cases "10 \<le> unat (tb_total_size_bytes (tb_at s p))")
    case True
    from router_rx_queues[OF laws a t True] obtain s' where
      "prv_handle_transport_rx Z n p s = Some s'" "s' = s\<lparr>kern := kern s'\<rparr>" "ktime Z (kern s) \<le> ktime Z (kern s')"
      "kview Z (kern s') = (kview Z (kern s))\<lparr>kv_bufs := (bufs Z (kern s))(h \<mapsto> nb\<lparr>nb_ref := nb_ref nb + 1\<rparr>),
           kv_fifo := (kv_fifo (kview Z (kern s)))
             (fifo_of (tr_type t) := kv_fifo (kview Z (kern s)) (fifo_of (tr_type t)) @ [p])\<rparr>" by blast
    then show ?thesis by (intro exI[of _ s'] exI[of _ 1]) simp
  next
    case False
    then show ?thesis
      by (intro exI[of _ s] exI[of _ 0]) (use a(5) in \<open>simp add: prv_handle_transport_rx_def fun_upd_idem\<close>)
  qed
qed

section \<open>Forwarding\<close>

text \<open>Both directions are one function of the type of the transports written to.\<close>

definition forward_to ::
  "alfie_transport_type_t \<Rightarrow> 'k zephyr \<Rightarrow>
   (fn_ptr \<Rightarrow> u32 \<Rightarrow> u8 list option \<Rightarrow> nat \<Rightarrow> ('k, 'a) router_machine_scheme \<Rightarrow>
      (int \<times> ('k, 'a) router_machine_scheme) option) \<Rightarrow>
   (fn_ptr \<Rightarrow> tb_ptr \<Rightarrow> ('k, 'a) router_machine_scheme \<Rightarrow> ('k, 'a) router_machine_scheme option) \<Rightarrow>
   tb_ptr \<Rightarrow> ('k, 'a) router_machine_scheme \<Rightarrow> ('k, 'a) router_machine_scheme option" where
  "forward_to t Z call_write call_frame buffer s = do {
     s1 \<leftarrow> write_each Z call_write t buffer (kv_slist (kview Z (kern s)) TransportsList) s;
     s2 \<leftarrow> prv_notify_endpoint Z call_frame buffer s1;
     transport_buffer_unref Z (Some buffer) s2 }"

lemma forward_alt:
  "prv_forward_to_downstream = forward_to ALFIE_TRANSPORT_TYPE_DOWNSTREAM"
  "prv_forward_to_upstream = forward_to ALFIE_TRANSPORT_TYPE_UPSTREAM"
  by (simp_all add: fun_eq_iff prv_forward_to_downstream_def prv_forward_to_upstream_def forward_to_def)

text \<open>A turn that finds a message on one side and none on the other forwards that message.\<close>

lemma router_turn_forwards:
  assumes laws: "fifo_laws Z" "poll_laws Z"
    and q: "(q, other, t) = (FromUpstreamFifo, FromDownstreamFifo, ALFIE_TRANSPORT_TYPE_DOWNSTREAM) \<or>
            (q, other, t) = (FromDownstreamFifo, FromUpstreamFifo, ALFIE_TRANSPORT_TYPE_UPSTREAM)"
    and head: "kv_fifo (kview Z (kern s)) q = p # ps" and none: "kv_fifo (kview Z (kern s)) other = []"
  obtains k where "kview Z k = (kview Z (kern s))\<lparr>kv_fifo := (kv_fifo (kview Z (kern s)))(q := ps)\<rparr>"
    and "prv_router_turn Z call_write call_frame s = forward_to t Z call_write call_frame p (s\<lparr>kern := k\<rparr>)"
proof -
  have "\<exists>x \<in> set [FromUpstreamFifo, FromDownstreamFifo]. kv_fifo (kview Z (kern s)) x \<noteq> []"
    using q head by auto
  from poll_view[OF laws(2) this] obtain flags k1 where
    k1: "k_poll Z [FromUpstreamFifo, FromDownstreamFifo] (kern s) = Some (flags, k1)"
    "length flags = length [FromUpstreamFifo, FromDownstreamFifo]" "True \<in> set flags" "kview Z k1 = kview Z (kern s)"
    "\<And>i. i < length [FromUpstreamFifo, FromDownstreamFifo] \<Longrightarrow> flags ! i \<Longrightarrow>
       kv_fifo (kview Z (kern s)) ([FromUpstreamFifo, FromDownstreamFifo] ! i) \<noteq> []" by metis
  then obtain a b where ab: "flags = [a, b]" by (auto simp: length_Suc_conv)
  obtain r k where get: "k_fifo_get Z q k1 = (r, k)" by fastforce
  from fifo_get_view(2)[OF laws(1) get, of p ps] head k1(4)
  have r: "r = Some p" "kview Z k = (kview Z (kern s))\<lparr>kv_fifo := (kv_fifo (kview Z (kern s)))(q := ps)\<rparr>" by auto
  have "a = (q = FromUpstreamFifo)" "b = (q = FromDownstreamFifo)"
    using q none k1(3) k1(5)[of 0] k1(5)[of 1] by (auto simp: ab)
  with q get r(1) k1(1) have
    "prv_router_turn Z call_write call_frame s = forward_to t Z call_write call_frame p (s\<lparr>kern := k\<rparr>)"
    by (auto simp: prv_router_turn_def ab serve_fifo_def forward_alt)
  with r(2) show ?thesis by (rule that)
qed

end
