(* ===== verification/Alfie_Messaging_Endpoint.thy ===== *)
theory Alfie_Messaging_Endpoint
  imports Alfie_Router
begin

text \<open>
  \<^verbatim>\<open>alfie/app/src/alfie/endpoints/messaging/alfie_messaging_endpoint.c\<close>: the endpoint for text
  messages, which logs them. The log lines are the only effect, so they are part of the state: the
  history of the three values each line prints. \<open>%.*s\<close> prints up to \<open>msg_len\<close> bytes and stops at a
  zero.
\<close>

record messaging_inst =
  mi_initialized :: bool

record 'k app_machine = "'k router_machine" +
  msi :: messaging_inst
  text_log :: "(u32 \<times> u32 \<times> u8 list) list"

definition messaging_inst_init :: messaging_inst where
  "messaging_inst_init = \<lparr>mi_initialized = False\<rparr>"

definition print_bounded :: "nat \<Rightarrow> u8 list \<Rightarrow> u8 list option" where
  "print_bounded n bs = (if n \<le> length bs \<or> 0 \<in> set bs then Some (takeWhile (\<lambda>b. b \<noteq> 0) (take n bs)) else None)"

definition prv_handle_text_frame ::
  "u8 list \<Rightarrow> nat \<Rightarrow> ('k, 'a) app_machine_scheme \<Rightarrow> ('k, 'a) app_machine_scheme option" where
  "prv_handle_text_frame header len_bytes s =
     (if len_bytes < sizeof_text_frame then Some s
      else do {
        frame \<leftarrow> get_text_frame header;
        let msg_len = len_bytes - sizeof_text_frame;
        message \<leftarrow> print_bounded msg_len (at_message frame);
        Some (s\<lparr>text_log := text_log s @
          [(ap_src_id (am_alfie_header (at_header frame)), ap_dst_id (am_alfie_header (at_header frame)), message)]\<rparr>) })"

definition prv_handle_incoming_frame ::
  "'k zephyr \<Rightarrow> tb_ptr \<Rightarrow> ('k, 'a) app_machine_scheme \<Rightarrow> ('k, 'a) app_machine_scheme option" where
  "prv_handle_incoming_frame Z buffer s =
     (if unat (tb_total_size_bytes (tb_at s buffer)) < sizeof_messaging_header then Some s
      else do {
        data \<leftarrow> buffer_data Z buffer s;
        header \<leftarrow> get_messaging_header data;
        if am_frame_type header = ALFIE_MESSAGING_PROTO_FRAME_TYPE_TEXT
        then prv_handle_text_frame data (unat (tb_total_size_bytes (tb_at s buffer))) s
        else Some s })"

definition alfie_messaging_endpoint_init ::
  "'k zephyr \<Rightarrow> ('k, 'a) app_machine_scheme \<Rightarrow> int \<times> ('k, 'a) app_machine_scheme" where
  "alfie_messaging_endpoint_init Z s =
     (if mi_initialized (msi s) = True then (- EALREADY, s)
      else
        let s1 = s\<lparr>endpoints_mem := (endpoints_mem s)(MessagingEndpoint :=
                     \<lparr>ep_on_frame_rx = Some Prv_handle_incoming_frame,
                      ep_endpoint_id = ALFIE_MESSAGING_ENDPOINT_ENDPOINT_ID\<rparr>)\<rparr>;
            (ret, s2) = alfie_router_register_endpoint Z (Some MessagingEndpoint) s1
        in if ret \<noteq> 0 then (ret, s2) else (0, s2\<lparr>msi := (msi s2)\<lparr>mi_initialized := True\<rparr>\<rparr>))"

end
