(* ===== verification/App_Main.thy ===== *)
theory App_Main
  imports Alfie_Messaging_Endpoint
begin

text \<open>
  \<^verbatim>\<open>alfie/app/src/main.c\<close>: the start of the firmware. Here the function pointers of the firmware are
  tied to the code they point to.
\<close>

section \<open>The functions behind the pointers\<close>

definition app_write ::
  "'k zephyr \<Rightarrow> (('k, 'a) app_machine_scheme \<Rightarrow> ('k, 'a) app_machine_scheme) \<Rightarrow> fn_ptr \<Rightarrow> u32 \<Rightarrow>
   u8 list option \<Rightarrow> nat \<Rightarrow> ('k, 'a) app_machine_scheme \<Rightarrow> (int \<times> ('k, 'a) app_machine_scheme) option" where
  "app_write Z others f = (case f of
       Dect_transport_layer_write \<Rightarrow> dect_transport_layer_write Z others
     | Alfie_ble_service_write \<Rightarrow> alfie_ble_service_write Z others
     | _ \<Rightarrow> (\<lambda>dst data len s. None))"

definition app_register ::
  "fn_ptr \<Rightarrow> fn_ptr option \<Rightarrow> ('k, 'a) app_machine_scheme \<Rightarrow> (int \<times> ('k, 'a) app_machine_scheme) option" where
  "app_register f cb s = (case f of
       Dect_transport_layer_register_rx_callback \<Rightarrow> Some (dect_transport_layer_register_rx_callback cb s)
     | Alfie_ble_service_register_rx_callback \<Rightarrow> Some (alfie_ble_service_register_rx_callback cb s)
     | _ \<Rightarrow> None)"

definition app_frame ::
  "'k zephyr \<Rightarrow> fn_ptr \<Rightarrow> tb_ptr \<Rightarrow> ('k, 'a) app_machine_scheme \<Rightarrow> ('k, 'a) app_machine_scheme option" where
  "app_frame Z f = (case f of Prv_handle_incoming_frame \<Rightarrow> prv_handle_incoming_frame Z | _ \<Rightarrow> (\<lambda>b s. None))"

definition app_cb ::
  "'k zephyr \<Rightarrow> fn_ptr \<Rightarrow> node_ptr \<Rightarrow> tb_ptr \<Rightarrow> ('k, 'a) app_machine_scheme \<Rightarrow>
   ('k, 'a) app_machine_scheme option" where
  "app_cb Z f = (case f of Prv_handle_transport_rx \<Rightarrow> prv_handle_transport_rx Z | _ \<Rightarrow> (\<lambda>n b s. None))"

section \<open>Start-up\<close>

text \<open>\<open>ret = step(); if (ret != 0) return ret;\<close>\<close>

definition unless_error :: "int \<times> 's \<Rightarrow> ('s \<Rightarrow> (int \<times> 's) option) \<Rightarrow> (int \<times> 's) option" where
  "unless_error res rest = (if fst res \<noteq> 0 then Some res else rest (snd res))"

lemma unless_error_simps [simp]:
  "unless_error (0, s) rest = rest s" "r \<noteq> 0 \<Longrightarrow> unless_error (r, s) rest = Some (r, s)"
  by (simp_all add: unless_error_def)

text \<open>\<open>evs\<close> are the modem's events in the order the link layer's start-up waits for them.\<close>

definition app_main ::
  "'k zephyr \<Rightarrow> phy_event list \<Rightarrow> ('k, 'a) app_machine_scheme \<Rightarrow> (int \<times> ('k, 'a) app_machine_scheme) option" where
  "app_main Z evs s = do {
     (ret, evs1, s1) \<leftarrow> dect_link_layer_init Z evs s;
     unless_error (ret, s1) (\<lambda>s1.
     unless_error (dect_transport_layer_init Z s1) (\<lambda>s2.
     unless_error (ble_core_init Z s2) (\<lambda>s3.
     unless_error (alfie_ble_service_init Z s3) (\<lambda>s4.
     unless_error (ble_core_start_advertising Z s4) (\<lambda>s5.
     unless_error (alfie_router_init Z s5) (\<lambda>s6. do {
       res7 \<leftarrow> alfie_router_register_transport Z app_register (dect_transport_layer_get_transport s6) s6;
       unless_error res7 (\<lambda>s7. do {
         res8 \<leftarrow> alfie_router_register_transport Z app_register (alfie_ble_service_get_transport s7) s7;
         unless_error res8 (\<lambda>s8.
         unless_error (alfie_messaging_endpoint_init Z s8) (\<lambda>s9. Some (0, s9))) }) })))))) }"

end
