(* ===== verification/Send_Path.thy ===== *)
theory Send_Path
  imports Alfie_Transport
begin

text \<open>
  What the transmit paths of the two transports promise, proved once for the retry loop
  \<open>attempts\<close> and the fragment loop \<open>send_all\<close> they share. The contract is the locale
  \<open>acked_sender\<close>: one write of the medium puts the message of the current fragment into a trace or
  fails, which adds \<open>refusal\<close>, and a wait for an ACK adds nothing to the trace. The result: the fragments appear in the
  trace in order, each at least once and at most as often as there are attempts, up to the end,
  or up to the fragment that was given up.
\<close>

text \<open>
  The trace of a transmission of \<open>n\<close> fragments with result \<open>r\<close>, \<open>errs\<close> being the errors of the
  medium. Success: every fragment, in order, one to \<open>tries\<close> times. Failure: so for the first \<open>m\<close>;
  fragment \<open>m\<close> was sent \<open>j\<close> times, and either no ACK came for any of the attempts or the medium
  refused the next.
\<close>

definition sent_in_order ::
  "nat \<Rightarrow> nat \<Rightarrow> (nat \<Rightarrow> 'm) \<Rightarrow> int set \<Rightarrow> int \<Rightarrow> 'm list \<Rightarrow> bool" where
  "sent_in_order n tries mark errs r ms \<longleftrightarrow> (\<exists>c m j. (\<forall>i < m. 1 \<le> c i \<and> c i \<le> tries) \<and>
     ms = concat (map (\<lambda>i. replicate (c i) (mark i)) [0..<m]) @ replicate j (mark m) \<and>
     (if r = 0 then m = n \<and> j = 0
      else m < n \<and> (r = - EAGAIN \<and> j = tries \<or> r \<in> errs \<and> j < tries)))"

text \<open>
  The same with a trace that also has what the medium refused: \<open>refusal m r\<close> is added when the medium
  answered a frame of fragment \<open>m\<close> with the error \<open>r\<close>.
\<close>

definition sent_attempts ::
  "nat \<Rightarrow> nat \<Rightarrow> (nat \<Rightarrow> 'm) \<Rightarrow> (nat \<Rightarrow> int \<Rightarrow> 'm list) \<Rightarrow> int set \<Rightarrow> int \<Rightarrow> 'm list \<Rightarrow> bool" where
  "sent_attempts n tries mark refusal errs r ms \<longleftrightarrow> (\<exists>c m j. (\<forall>i < m. 1 \<le> c i \<and> c i \<le> tries) \<and>
     ms = concat (map (\<lambda>i. replicate (c i) (mark i)) [0..<m]) @ replicate j (mark m) @
       (if r \<noteq> 0 \<and> j < tries then refusal m r else []) \<and>
     (if r = 0 then m = n \<and> j = 0
      else m < n \<and> (r = - EAGAIN \<and> j = tries \<or> r \<in> errs \<and> j < tries)))"

lemma sent_attempts_unseen:
  "sent_attempts n tries mark (\<lambda>m r. []) errs r ms \<longleftrightarrow> sent_in_order n tries mark errs r ms"
  by (simp add: sent_attempts_def sent_in_order_def)

text \<open>One fragment.\<close>

definition sent_one :: "nat \<Rightarrow> int set \<Rightarrow> 'm \<Rightarrow> (int \<Rightarrow> 'm list) \<Rightarrow> int \<Rightarrow> 'm list \<Rightarrow> bool" where
  "sent_one tries errs x refusal r ms \<longleftrightarrow> (\<exists>j. ms = replicate j x @ (if r \<noteq> 0 \<and> j < tries then refusal r else []) \<and>
     j \<le> tries \<and> (if r = 0 then 1 \<le> j else r = - EAGAIN \<and> j = tries \<or> r \<in> errs \<and> j < tries))"

locale acked_sender =
  fixes valid :: "'c \<Rightarrow> bool"
    and fragments tries :: "'c \<Rightarrow> nat"
    and errs :: "'c \<Rightarrow> int set"
    and idle busy :: "'c \<Rightarrow> 's \<Rightarrow> bool"
    and trace :: "'c \<Rightarrow> 's \<Rightarrow> 'm list"
    and mark :: "'c \<Rightarrow> nat \<Rightarrow> 'm"
    and refusal :: "'c \<Rightarrow> nat \<Rightarrow> int \<Rightarrow> 'm list"
    and usable :: "'c \<Rightarrow> 'f \<Rightarrow> bool"
    and prepared :: "'c \<Rightarrow> nat \<Rightarrow> 'f \<Rightarrow> bool"
    and next_frame :: "'c \<Rightarrow> nat \<Rightarrow> 'f \<Rightarrow> 'f option"
    and reset :: "'c \<Rightarrow> 's \<Rightarrow> 's"
    and medium :: "'c \<Rightarrow> nat \<Rightarrow> 'f \<Rightarrow> 's \<Rightarrow> (int \<times> 's) option"
    and take_ack :: "'c \<Rightarrow> 's \<Rightarrow> int \<times> 's"
  assumes next_frame: "valid c \<Longrightarrow> i < fragments c \<Longrightarrow> usable c f \<Longrightarrow>
      \<exists>f'. next_frame c i f = Some f' \<and> prepared c i f' \<and> usable c f'"
    and reset: "valid c \<Longrightarrow> idle c s \<Longrightarrow> idle c (reset c s) \<and> trace c (reset c s) = trace c s"
    and medium: "valid c \<Longrightarrow> i < fragments c \<Longrightarrow> prepared c i f \<Longrightarrow> idle c s \<Longrightarrow>
      \<exists>r s'. medium c i f s = Some (r, s') \<and>
        (if r = 0 then busy c s' \<and> trace c s' = trace c s @ [mark c i]
         else r \<in> errs c \<and> idle c s' \<and> trace c s' = trace c s @ refusal c i r)"
    and take_ack: "valid c \<Longrightarrow> busy c s \<Longrightarrow> take_ack c s = (r, s') \<Longrightarrow>
      idle c s' \<and> trace c s' = trace c s \<and> (r = 0 \<or> r = - EAGAIN)"
    and tries_pos: "valid c \<Longrightarrow> 0 < tries c"
begin

lemma attempts_trace:
  assumes c: "valid c" and i: "i < fragments c" and f: "prepared c i f" and s: "idle c s"
    and r0: "n = 0 \<Longrightarrow> r0 = - EAGAIN"
  shows "\<exists>r s' ms. attempts (reset c) (medium c i f) (take_ack c) n r0 s = Some (r, s') \<and> idle c s' \<and>
     trace c s' = trace c s @ ms \<and> sent_one n (errs c) (mark c i) (refusal c i) r ms"
  using s r0
proof (induction n arbitrary: r0 s)
  case 0
  then show ?case by (auto simp: sent_one_def)
next
  case (Suc n)
  note rs = reset[OF c Suc.prems(1)]
  obtain r1 s1 where w: "medium c i f (reset c s) = Some (r1, s1)"
    "if r1 = 0 then busy c s1 \<and> trace c s1 = trace c (reset c s) @ [mark c i]
     else r1 \<in> errs c \<and> idle c s1 \<and> trace c s1 = trace c (reset c s) @ refusal c i r1"
    using medium[OF c i f conjunct1[OF rs]] by blast
  show ?case
  proof (cases "r1 = 0")
    case False
    with w rs show ?thesis by (auto simp: sent_one_def intro!: exI[of _ "0 :: nat"])
  next
    case True
    obtain r2 s2 where a: "take_ack c s1 = (r2, s2)" by fastforce
    have busy: "busy c s1" and tr1: "trace c s1 = trace c s @ [mark c i]" using w(2) True rs by simp_all
    note ta = take_ack[OF c busy a]
    show ?thesis
    proof (cases "r2 = 0")
      case True
      have "sent_one (Suc n) (errs c) (mark c i) (refusal c i) 0 [mark c i]"
        by (auto simp: sent_one_def intro!: exI[of _ "1 :: nat"])
      with True w(1) \<open>r1 = 0\<close> a ta tr1 show ?thesis by (auto simp: Let_def)
    next
      case False
      then have "r2 = - EAGAIN" using ta by simp
      then obtain r s' ms where ih: "attempts (reset c) (medium c i f) (take_ack c) n r2 s2 = Some (r, s')"
        "idle c s'" "trace c s' = trace c s2 @ ms" "sent_one n (errs c) (mark c i) (refusal c i) r ms"
        using Suc.IH[of s2 r2] ta by blast
      have "sent_one (Suc n) (errs c) (mark c i) (refusal c i) r (mark c i # ms)"
      proof -
        obtain j where "ms = replicate j (mark c i) @ (if r \<noteq> 0 \<and> j < n then refusal c i r else [])" "j \<le> n"
          "if r = 0 then 1 \<le> j else r = - EAGAIN \<and> j = n \<or> r \<in> errs c \<and> j < n"
          using ih(4) unfolding sent_one_def by blast
        then show ?thesis
          unfolding sent_one_def by (intro exI[of _ "Suc j"]) (auto split: if_splits)
      qed
      with False w(1) \<open>r1 = 0\<close> a ta tr1 ih show ?thesis by (auto simp: Let_def)
    qed
  qed
qed

lemma send_all_trace:
  assumes c: "valid c" and s: "idle c s" and f: "usable c f" and k: "k \<le> fragments c"
  shows "\<exists>r s' ms. send_all (next_frame c) (\<lambda>i f. attempts (reset c) (medium c i f) (take_ack c) (tries c) 0)
       [fragments c - k..<fragments c] f s = Some (r, s') \<and> idle c s' \<and> trace c s' = trace c s @ ms \<and>
     sent_attempts k (tries c) (\<lambda>i. mark c (fragments c - k + i)) (\<lambda>i. refusal c (fragments c - k + i)) (errs c) r ms"
  using s f k
proof (induction k arbitrary: s f)
  case 0
  then show ?case by (auto simp: sent_attempts_def)
next
  case (Suc k)
  let ?i = "fragments c - Suc k"
  have i: "?i < fragments c" "Suc ?i = fragments c - k" using Suc.prems(3) by simp_all
  obtain f' where f': "next_frame c ?i f = Some f'" "prepared c ?i f'" "usable c f'"
    using next_frame[OF c i(1) Suc.prems(2)] by blast
  obtain r1 s1 ms1 where a: "attempts (reset c) (medium c ?i f') (take_ack c) (tries c) 0 s = Some (r1, s1)"
    "idle c s1" "trace c s1 = trace c s @ ms1" "sent_one (tries c) (errs c) (mark c ?i) (refusal c ?i) r1 ms1"
    using attempts_trace[OF c i(1) f'(2) Suc.prems(1), of "tries c" 0] tries_pos[OF c] by auto
  then obtain j where j: "ms1 = replicate j (mark c ?i) @ (if r1 \<noteq> 0 \<and> j < tries c then refusal c ?i r1 else [])" "j \<le> tries c"
    "if r1 = 0 then 1 \<le> j else r1 = - EAGAIN \<and> j = tries c \<or> r1 \<in> errs c \<and> j < tries c"
    unfolding sent_one_def by blast
  have upt: "[?i..<fragments c] = ?i # [fragments c - k..<fragments c]"
    using upt_conv_Cons[OF i(1)] i(2) by simp
  show ?case
  proof (cases "r1 = 0")
    case False
    have "sent_attempts (Suc k) (tries c) (\<lambda>i. mark c (?i + i)) (\<lambda>i. refusal c (?i + i)) (errs c) r1 ms1"
      unfolding sent_attempts_def by (rule exI[of _ "\<lambda>_. 0"], rule exI[of _ 0], rule exI[of _ j])
        (use False j in auto)
    with False upt f'(1) a show ?thesis by auto
  next
    case True
    have k: "k \<le> fragments c" using Suc.prems(3) by simp
    obtain r s' ms where ih: "send_all (next_frame c) (\<lambda>i f. attempts (reset c) (medium c i f) (take_ack c) (tries c) 0)
         [fragments c - k..<fragments c] f' s1 = Some (r, s')" "idle c s'" "trace c s' = trace c s1 @ ms"
      "sent_attempts k (tries c) (\<lambda>i. mark c (fragments c - k + i)) (\<lambda>i. refusal c (fragments c - k + i)) (errs c) r ms"
      using Suc.IH[OF a(2) f'(3) k] by blast
    obtain cn m j2 where o: "\<And>i. i < m \<Longrightarrow> 1 \<le> cn i \<and> cn i \<le> tries c"
      "ms = concat (map (\<lambda>i. replicate (cn i) (mark c (fragments c - k + i))) [0..<m]) @
            replicate j2 (mark c (fragments c - k + m)) @
            (if r \<noteq> 0 \<and> j2 < tries c then refusal c (fragments c - k + m) r else [])"
      "if r = 0 then m = k \<and> j2 = 0
       else m < k \<and> (r = - EAGAIN \<and> j2 = tries c \<or> r \<in> errs c \<and> j2 < tries c)"
      using ih(4) unfolding sent_attempts_def by blast
    have shift: "fragments c - k + i = ?i + Suc i" for i using i(2) by simp
    have "ms1 @ ms = concat (map (\<lambda>i. replicate (case i of 0 \<Rightarrow> j | Suc i \<Rightarrow> cn i) (mark c (?i + i))) [0..<Suc m]) @
        replicate j2 (mark c (?i + Suc m)) @ (if r \<noteq> 0 \<and> j2 < tries c then refusal c (?i + Suc m) r else [])"
      using True unfolding o(2) j(1) shift upt_conv_Cons[OF zero_less_Suc[of m]] map_Suc_upt[symmetric]
      by (simp add: comp_def)
    moreover have "1 \<le> (case i of 0 \<Rightarrow> j | Suc i \<Rightarrow> cn i) \<and> (case i of 0 \<Rightarrow> j | Suc i \<Rightarrow> cn i) \<le> tries c" if "i < Suc m" for i
      using that o(1) j(2,3) True by (cases i) auto
    ultimately have "sent_attempts (Suc k) (tries c) (\<lambda>i. mark c (?i + i)) (\<lambda>i. refusal c (?i + i)) (errs c) r (ms1 @ ms)"
      unfolding sent_attempts_def using o(3)
      by (intro exI[of _ "\<lambda>i. case i of 0 \<Rightarrow> j | Suc i \<Rightarrow> cn i"] exI[of _ "Suc m"] exI[of _ j2]) auto
    with True upt f'(1) a ih show ?thesis by auto
  qed
qed

lemma sends_in_order:
  assumes "valid c" and "idle c s" and "usable c f"
  shows "\<exists>r s' ms. send_all (next_frame c) (\<lambda>i f. attempts (reset c) (medium c i f) (take_ack c) (tries c) 0)
       [0..<fragments c] f s = Some (r, s') \<and> idle c s' \<and> trace c s' = trace c s @ ms \<and>
     sent_attempts (fragments c) (tries c) (mark c) (refusal c) (errs c) r ms"
  using send_all_trace[OF assms order_refl] by simp

end

text \<open>
  A sender whose medium never fails and whose peer acknowledges every frame in time sends every
  fragment exactly once.
\<close>

locale prompt_sender = acked_sender valid fragments tries errs idle busy trace mark refusal usable prepared
    next_frame reset medium take_ack
  for valid :: "'c \<Rightarrow> bool" and fragments tries and errs :: "'c \<Rightarrow> int set"
    and idle busy :: "'c \<Rightarrow> 's \<Rightarrow> bool" and trace :: "'c \<Rightarrow> 's \<Rightarrow> 'm list" and mark and refusal
    and usable :: "'c \<Rightarrow> 'f \<Rightarrow> bool" and prepared next_frame reset medium take_ack +
  assumes no_errs: "valid c \<Longrightarrow> errs c = {}"
    and prompt: "valid c \<Longrightarrow> busy c s \<Longrightarrow> fst (take_ack c s) = 0"
begin

lemma attempt_once:
  assumes c: "valid c" and i: "i < fragments c" and f: "prepared c i f" and s: "idle c s"
  shows "\<exists>s'. attempts (reset c) (medium c i f) (take_ack c) (tries c) 0 s = Some (0, s') \<and> idle c s' \<and>
     trace c s' = trace c s @ [mark c i]"
proof -
  note rs = reset[OF c s]
  obtain s1 where w: "medium c i f (reset c s) = Some (0, s1)" "busy c s1"
    "trace c s1 = trace c (reset c s) @ [mark c i]"
    using medium[OF c i f conjunct1[OF rs]] no_errs[OF c] by (auto split: if_splits)
  obtain s2 where a: "take_ack c s1 = (0, s2)" using prompt[OF c w(2)] by (cases "take_ack c s1") auto
  obtain n where "tries c = Suc n" using tries_pos[OF c] gr0_implies_Suc by blast
  with w(1) a show ?thesis using take_ack[OF c w(2) a] w(3) rs by (simp add: Let_def)
qed

lemma sends_once:
  assumes c: "valid c" and s: "idle c s" and f: "usable c f" and k: "i \<le> fragments c"
  shows "\<exists>s'. send_all (next_frame c) (\<lambda>i f. attempts (reset c) (medium c i f) (take_ack c) (tries c) 0)
       [i..<fragments c] f s = Some (0, s') \<and> idle c s' \<and>
     trace c s' = trace c s @ map (mark c) [i..<fragments c]"
  using s f k
proof (induction "fragments c - i" arbitrary: i s f)
  case 0
  then show ?case by simp
next
  case (Suc k)
  then have i: "i < fragments c" by simp
  obtain f' where f': "next_frame c i f = Some f'" "prepared c i f'" "usable c f'"
    using next_frame[OF c i Suc.prems(2)] by blast
  obtain s1 where a: "attempts (reset c) (medium c i f') (take_ack c) (tries c) 0 s = Some (0, s1)"
    "idle c s1" "trace c s1 = trace c s @ [mark c i]"
    using attempt_once[OF c i f'(2) Suc.prems(1)] by blast
  have "k = fragments c - Suc i" "Suc i \<le> fragments c" using Suc.hyps(2) i by simp_all
  from Suc.hyps(1)[OF this(1) a(2) f'(3) this(2)] show ?case
    using f'(1) a by (auto simp: upt_conv_Cons[OF i])
qed

end

text \<open>On success, the trace is a run of the kind receivers are proved to cope with.\<close>

lemma sent_in_order_expected:
  assumes "sent_in_order n tries Inr errs 0 ms"
  shows "expect 0 ms = Some n"
proof -
  obtain c m where "\<forall>i < m. 1 \<le> c i \<and> c i \<le> tries" "m = n"
    "ms = concat (map (\<lambda>i. replicate (c i) (Inr i)) [0..<m])"
    using assms unfolding sent_in_order_def by auto
  then show ?thesis using expect_retransmissions[of 0 n c] by auto
qed

lemma sent_in_order_map:
  assumes "sent_in_order n tries mark errs r ms"
  shows "\<exists>is. sent_in_order n tries (\<lambda>i. i) errs r is \<and> ms = map mark is"
proof -
  obtain c m j where o: "\<forall>i < m. 1 \<le> c i \<and> c i \<le> tries"
    "ms = concat (map (\<lambda>i. replicate (c i) (mark i)) [0..<m]) @ replicate j (mark m)"
    "if r = 0 then m = n \<and> j = 0 else m < n \<and> (r = - EAGAIN \<and> j = tries \<or> r \<in> errs \<and> j < tries)"
    using assms unfolding sent_in_order_def by blast
  let ?is = "concat (map (\<lambda>i. replicate (c i) i) [0..<m]) @ replicate j m"
  have "sent_in_order n tries (\<lambda>i. i) errs r ?is" unfolding sent_in_order_def using o(1,3) by blast
  moreover have "ms = map mark ?is" by (simp add: o(2) map_concat comp_def)
  ultimately show ?thesis by blast
qed

end
