(* ===== verification/Dect_Sending.thy ===== *)
theory Dect_Sending
  imports Dect_Transport_Layer Send_Path
begin

text \<open>
  The transmit path of \<^verbatim>\<open>dect_transport_layer.c\<close> is an \<open>acked_sender\<close>: \<open>dect_transport_layer_write\<close>
  puts the fragments of a message into the link layer's queue in order, each one to four times,
  and reports success exactly if every one of them was acknowledged.

  The trace is the history of the queue, restricted to data frames: while the sender waits, the
  link thread may queue ACKs.
\<close>

section \<open>The trace\<close>

definition is_data_frame :: "dect_link_layer_frame_t \<Rightarrow> bool" where
  "is_data_frame f \<longleftrightarrow> (case get_dect_frame_header (lf_payload f) of None \<Rightarrow> False
     | Some h \<Rightarrow> dh_frame_type h = DECT_TRANSPORT_LAYER_FRAME_TYPE_DATA)"

definition data_puts :: "'k zephyr \<Rightarrow> ('k, 'a) machine_scheme \<Rightarrow> dect_link_layer_frame_t list" where
  "data_puts Z s = filter is_data_frame (kv_put (kview Z (kern s)))"

text \<open>The link frame that carries fragment \<open>k\<close> of a message.\<close>

definition dect_tx_frame :: "u32 \<Rightarrow> u32 \<Rightarrow> u16 \<Rightarrow> u8 list \<Rightarrow> nat \<Rightarrow> dect_link_layer_frame_t" where
  "dect_tx_frame me dst seq msg k =
     link_frame_for me dst (put_dect_data_frame (dect_data_frame seq msg k)) (dect_frame_len msg k)"

lemma dect_frame_len_le: "dect_frame_len msg k \<le> 22"
  using length_chunk_le[of 14 k msg] by (simp add: dect_frame_len_def)

lemma is_data_dect_tx_frame [simp]: "is_data_frame (dect_tx_frame me dst seq msg k)"
  by (simp add: is_data_frame_def dect_tx_frame_def link_frame_for_def overwrite_def put_dect_data_frame_def
      dect_data_frame_def)

section \<open>The case of a transmission\<close>

record ('k, 'a) dect_tx_case =
  tx_Z :: "'k zephyr"
  tx_others :: "('k, 'a) dect_machine_scheme \<Rightarrow> ('k, 'a) dect_machine_scheme"
  tx_me :: u32
  tx_dst :: u32
  tx_seq :: u16
  tx_msg :: "u8 list"
  tx_rest :: "u8 list"
  tx_inv :: "('k, 'a) dect_machine_scheme \<Rightarrow> bool"

text \<open>
  What the sender relies on: while it waits, the other threads leave the transport and link
  layer's variables as they are, queue no data frame, and take frames from the queue.
\<close>

definition link_drains ::
  "'k zephyr \<Rightarrow> (('k, 'a) dect_machine_scheme \<Rightarrow> ('k, 'a) dect_machine_scheme) \<Rightarrow> bool" where
  "link_drains Z others \<longleftrightarrow> (\<forall>s. dt_initialized (dtl (others s)) = dt_initialized (dtl s) \<and>
     li_initialized (ll (others s)) = li_initialized (ll s) \<and>
     (dev_fetched s \<longrightarrow> dev_fetched (others s) \<and> dev_id (others s) = dev_id s) \<and>
     txq_room Z (others s) \<and> data_puts Z (others s) = data_puts Z s)"

text \<open>
  What a write changes by itself, and a property of the state that neither this nor the other
  threads disturb.
\<close>

definition radio_only ::
  "'k zephyr \<Rightarrow> ('k, 'a) dect_machine_scheme \<Rightarrow> ('k, 'a) dect_machine_scheme \<Rightarrow> bool" where
  "radio_only Z s s' \<longleftrightarrow> s' = s\<lparr>kern := kern s', dev_fetched := dev_fetched s', dev_id := dev_id s'\<rparr> \<and>
     (dev_fetched s \<longrightarrow> dev_fetched s' \<and> dev_id s' = dev_id s) \<and>
     (\<exists>sem q put. kview Z (kern s') = (kview Z (kern s))\<lparr>kv_sem := sem, kv_txq := q, kv_put := put\<rparr>)"

lemma radio_only_kern:
  assumes "kview Z k = (kview Z (kern s))\<lparr>kv_sem := sem, kv_txq := q, kv_put := put\<rparr>"
  shows "radio_only Z s (s\<lparr>kern := k\<rparr>)"
  unfolding radio_only_def using assms by auto

definition undisturbed ::
  "'k zephyr \<Rightarrow> (('k, 'a) dect_machine_scheme \<Rightarrow> ('k, 'a) dect_machine_scheme) \<Rightarrow>
   (('k, 'a) dect_machine_scheme \<Rightarrow> bool) \<Rightarrow> bool" where
  "undisturbed Z others P \<longleftrightarrow> (\<forall>s s'. P s \<and> radio_only Z s s' \<longrightarrow> P s') \<and> (\<forall>s. P s \<longrightarrow> P (others s))"

lemma undisturbedD:
  assumes "undisturbed Z others P" and "P s"
  shows "radio_only Z s s' \<Longrightarrow> P s'" and "P (others s)"
  using assms unfolding undisturbed_def by blast+

definition tx_valid :: "('k, 'a) dect_tx_case \<Rightarrow> bool" where
  "tx_valid c \<longleftrightarrow> sem_laws (tx_Z c) \<and> hwinfo_laws (tx_Z c) \<and>
     msgq_laws (tx_Z c) DECT_LINK_LAYER_TX_MSG_QUEUE_DEPTH \<and> link_drains (tx_Z c) (tx_others c) \<and>
     undisturbed (tx_Z c) (tx_others c) (tx_inv c) \<and>
     length (tx_msg c) \<le> DECT_TRANSPORT_LAYER_MAX_RX_BUFFER_SIZE_BYTES"

definition tx_busy :: "('k, 'a) dect_tx_case \<Rightarrow> ('k, 'a) dect_machine_scheme \<Rightarrow> bool" where
  "tx_busy c s \<longleftrightarrow> li_initialized (ll s) \<and> dev_fetched s \<and> dev_id s = tx_me c \<and> tx_inv c s"

definition tx_idle :: "('k, 'a) dect_tx_case \<Rightarrow> ('k, 'a) dect_machine_scheme \<Rightarrow> bool" where
  "tx_idle c s \<longleftrightarrow> tx_busy c s \<and> txq_room (tx_Z c) s"

text \<open>The frame buffer, and the frame buffer filled for fragment \<open>i\<close>.\<close>

definition tx_usable :: "('k, 'a) dect_tx_case \<Rightarrow> dect_transport_layer_data_frame_t \<Rightarrow> bool" where
  "tx_usable c f \<longleftrightarrow> length (dd_payload f) = 14 \<and> dd_seq_id f = tx_seq c \<and>
     dh_version (dd_header f) = 0 \<and> dh_frame_type (dd_header f) = DECT_TRANSPORT_LAYER_FRAME_TYPE_DATA \<and>
     dd_frag_total f = of_nat (n_chunks 14 (length (tx_msg c))) \<and>
     dd_total_size_bytes f = of_nat (length (tx_msg c))"

definition tx_prepared ::
  "('k, 'a) dect_tx_case \<Rightarrow> nat \<Rightarrow> dect_transport_layer_data_frame_t \<Rightarrow> bool" where
  "tx_prepared c i f \<longleftrightarrow> take (dect_frame_len (tx_msg c) i) (put_dect_data_frame f) =
     put_dect_data_frame (dect_data_frame (tx_seq c) (tx_msg c) i) \<and>
     dect_frame_len (tx_msg c) i \<le> length (put_dect_data_frame f)"

definition tx_reset ::
  "('k, 'a) dect_tx_case \<Rightarrow> ('k, 'a) dect_machine_scheme \<Rightarrow> ('k, 'a) dect_machine_scheme" where
  "tx_reset c s = s\<lparr>kern := k_sem_reset (tx_Z c) DectAckSem (kern s)\<rparr>"

definition tx_medium ::
  "('k, 'a) dect_tx_case \<Rightarrow> nat \<Rightarrow> dect_transport_layer_data_frame_t \<Rightarrow> ('k, 'a) dect_machine_scheme \<Rightarrow>
   (int \<times> ('k, 'a) dect_machine_scheme) option" where
  "tx_medium c i f = dect_link_layer_write (tx_Z c) (tx_dst c) (Some (put_dect_data_frame f))
     (dect_frame_len (tx_msg c) i)"

definition tx_take_ack ::
  "('k, 'a) dect_tx_case \<Rightarrow> ('k, 'a) dect_machine_scheme \<Rightarrow> int \<times> ('k, 'a) dect_machine_scheme" where
  "tx_take_ack c s = (let s1 = tx_others c s;
     (ret, k) = k_sem_take (tx_Z c) DectAckSem (K_MSEC DECT_TRANSPORT_LAYER_ACK_TIMEOUT_MS) (kern s1)
     in (ret, s1\<lparr>kern := k\<rparr>))"

definition tx_fragments :: "('k, 'a) dect_tx_case \<Rightarrow> nat" where
  "tx_fragments c = n_chunks 14 (length (tx_msg c))"

definition tx_mark :: "('k, 'a) dect_tx_case \<Rightarrow> nat \<Rightarrow> dect_link_layer_frame_t" where
  "tx_mark c = dect_tx_frame (tx_me c) (tx_dst c) (tx_seq c) (tx_msg c)"

section \<open>The contract\<close>

lemma next_fragment_dect_chunk:
  assumes "i < n_chunks 14 (length msg)"
  shows "next_fragment_dect (msg @ rest) (length msg) i f =
     Some (f\<lparr>dd_frag_idx := of_nat i, dd_payload := overwrite (chunk 14 i msg) (dd_payload f)\<rparr>)"
proof -
  have i: "i * 14 < length msg" using n_chunks_tight[OF _ assms] by simp
  have "take (min (length msg - 14 * i) 14) (drop (i * 14) (msg @ rest)) = take 14 (drop (i * 14) msg)"
    using i by (simp add: min_def mult.commute)
  then show ?thesis
    using i by (simp add: next_fragment_dect_def chunk_def Let_def mem_read_def)
qed

lemma tx_next:
  assumes "i < tx_fragments c" and f: "tx_usable c f"
  shows "\<exists>f'. next_fragment_dect (tx_msg c @ tx_rest c) (length (tx_msg c)) i f = Some f' \<and>
     tx_prepared c i f' \<and> tx_usable c f'"
proof -
  let ?f = "f\<lparr>dd_frag_idx := of_nat i, dd_payload := overwrite (chunk 14 i (tx_msg c)) (dd_payload f)\<rparr>"
  have len: "length (chunk 14 i (tx_msg c)) \<le> length (dd_payload f)"
    using f length_chunk_le[of 14 i "tx_msg c"] by (simp add: tx_usable_def)
  have us: "tx_usable c ?f" using f len by (simp add: tx_usable_def)
  have "put_dect_data_frame ?f = put_dect_data_frame (dect_data_frame (tx_seq c) (tx_msg c) i) @
      drop (length (chunk 14 i (tx_msg c))) (dd_payload f)"
    using f by (simp add: tx_usable_def put_dect_data_frame_def dect_data_frame_def overwrite_def)
  moreover have "length (put_dect_data_frame (dect_data_frame (tx_seq c) (tx_msg c) i)) = dect_frame_len (tx_msg c) i"
    by (simp add: length_put_dect_data dect_frame_len_def dect_data_frame_def)
  ultimately have "tx_prepared c i ?f" by (simp add: tx_prepared_def)
  with us assms(1) show ?thesis by (simp add: next_fragment_dect_chunk tx_fragments_def)
qed

lemma tx_writes:
  assumes c: "tx_valid c" and f: "tx_prepared c i f" and s: "tx_idle c s"
  shows "\<exists>s'. tx_medium c i f s = Some (0, s') \<and> tx_busy c s' \<and>
     data_puts (tx_Z c) s' = data_puts (tx_Z c) s @ [tx_mark c i]"
proof -
  have laws: "hwinfo_laws (tx_Z c)" "msgq_laws (tx_Z c) DECT_LINK_LAYER_TX_MSG_QUEUE_DEPTH"
    using c by (simp_all add: tx_valid_def)
  have st: "li_initialized (ll s)" "dev_fetched s" "dev_id s = tx_me c" "txq_room (tx_Z c) s"
    using s by (simp_all add: tx_idle_def tx_busy_def)
  have pf: "take (dect_frame_len (tx_msg c) i) (put_dect_data_frame f) =
      put_dect_data_frame (dect_data_frame (tx_seq c) (tx_msg c) i)"
    "dect_frame_len (tx_msg c) i \<le> length (put_dect_data_frame f)" using f by (simp_all add: tx_prepared_def)
  from laws st(1) dect_frame_len_le pf(2) st(4)[unfolded txq_room_def]
  obtain me s' where w: "dect_link_layer_write (tx_Z c) (tx_dst c) (Some (put_dect_data_frame f))
       (dect_frame_len (tx_msg c) i) s = Some (0, s')"
    "me = dev_id s'" "dev_fetched s \<Longrightarrow> me = dev_id s" "only_dev s s'" "dev_fetched s'"
    "kview (tx_Z c) (kern s') = (kview (tx_Z c) (kern s))\<lparr>kv_txq := kv_txq (kview (tx_Z c) (kern s)) @
       [link_frame_for me (tx_dst c) (take (dect_frame_len (tx_msg c) i) (put_dect_data_frame f)) (dect_frame_len (tx_msg c) i)],
       kv_put := kv_put (kview (tx_Z c) (kern s)) @
       [link_frame_for me (tx_dst c) (take (dect_frame_len (tx_msg c) i) (put_dect_data_frame f)) (dect_frame_len (tx_msg c) i)]\<rparr>"
    "ktime (tx_Z c) (kern s) \<le> ktime (tx_Z c) (kern s')"
    by (rule link_write_spec) blast+
  have me: "me = tx_me c" using w(3) st(2,3) by simp
  have "link_frame_for me (tx_dst c) (take (dect_frame_len (tx_msg c) i) (put_dect_data_frame f)) (dect_frame_len (tx_msg c) i) =
      tx_mark c i"
    by (simp add: pf(1) me tx_mark_def dect_tx_frame_def)
  then have "data_puts (tx_Z c) s' = data_puts (tx_Z c) s @ [tx_mark c i]"
    by (simp add: data_puts_def w(6)) (simp add: tx_mark_def)
  moreover have "radio_only (tx_Z c) s s'"
    unfolding radio_only_def
  proof (intro conjI exI)
    show "kview (tx_Z c) (kern s') = (kview (tx_Z c) (kern s))\<lparr>kv_sem := kv_sem (kview (tx_Z c) (kern s)),
        kv_txq := kv_txq (kview (tx_Z c) (kern s')), kv_put := kv_put (kview (tx_Z c) (kern s'))\<rparr>"
      by (simp add: w(6))
  qed (use w(2-5) in \<open>simp_all add: only_dev_def\<close>)
  with c s have "tx_inv c s'"
    by (auto simp: tx_valid_def tx_idle_def tx_busy_def dest: undisturbedD(1))
  then have "tx_busy c s'"
    using w(2,5) me st(1) only_dev_ll[OF w(4)] by (simp add: tx_busy_def)
  ultimately show ?thesis using w(1) by (simp add: tx_medium_def)
qed

lemma tx_takes:
  assumes c: "tx_valid c" and s: "tx_busy c s" and a: "tx_take_ack c s = (r, s')"
  shows "tx_idle c s' \<and> data_puts (tx_Z c) s' = data_puts (tx_Z c) s \<and> (r = 0 \<or> r = - EAGAIN)"
proof -
  let ?s = "tx_others c s"
  have sem: "sem_laws (tx_Z c)" and o: "link_drains (tx_Z c) (tx_others c)" using c by (simp_all add: tx_valid_def)
  obtain k where k: "k_sem_take (tx_Z c) DectAckSem (K_MSEC DECT_TRANSPORT_LAYER_ACK_TIMEOUT_MS) (kern ?s) = (r, k)"
    "s' = ?s\<lparr>kern := k\<rparr>"
    using a by (auto simp: tx_take_ack_def Let_def split: prod.splits)
  have v: "kv_txq (kview (tx_Z c) k) = kv_txq (kview (tx_Z c) (kern ?s))"
    "kv_put (kview (tx_Z c) k) = kv_put (kview (tx_Z c) (kern ?s))" "r = 0 \<or> r = - EAGAIN"
    using sem_take_available[OF sem k(1)] sem_take_timeout[OF sem k(1)]
    by (cases "0 < kv_sem (kview (tx_Z c) (kern ?s)) DectAckSem"; simp)+
  have keep: "undisturbed (tx_Z c) (tx_others c) (tx_inv c)" using c by (simp add: tx_valid_def)
  have "kview (tx_Z c) k = (kview (tx_Z c) (kern ?s))\<lparr>kv_sem := kv_sem (kview (tx_Z c) k),
      kv_txq := kv_txq (kview (tx_Z c) (kern ?s)), kv_put := kv_put (kview (tx_Z c) (kern ?s))\<rparr>"
    using sem_take_available(2)[OF sem k(1)] sem_take_timeout(2)[OF sem k(1)]
    by (cases "0 < kv_sem (kview (tx_Z c) (kern ?s)) DectAckSem") simp_all
  from undisturbedD(1)[OF keep undisturbedD(2)[OF keep] radio_only_kern[OF this]] s
  have inv: "tx_inv c (?s\<lparr>kern := k\<rparr>)" by (simp add: tx_busy_def)
  have "li_initialized (ll ?s)" "dev_fetched ?s" "dev_id ?s = tx_me c" "txq_room (tx_Z c) ?s" "data_puts (tx_Z c) ?s = data_puts (tx_Z c) s"
    using o s by (auto simp: link_drains_def tx_busy_def)
  with v inv show ?thesis by (simp add: k(2) tx_idle_def tx_busy_def txq_room_def data_puts_def)
qed

interpretation dect_tx: acked_sender tx_valid tx_fragments "\<lambda>c. DECT_TRANSPORT_LAYER_TX_ATTEMPTS" "\<lambda>c. {}"
  tx_idle tx_busy "\<lambda>c. data_puts (tx_Z c)" tx_mark "\<lambda>c i r. []" tx_usable tx_prepared
  "\<lambda>c. next_fragment_dect (tx_msg c @ tx_rest c) (length (tx_msg c))" tx_reset tx_medium tx_take_ack
proof unfold_locales
  fix c :: "('a, 'b) dect_tx_case" and s s' :: "('a, 'b) dect_machine_scheme" and i f r
  assume c: "tx_valid c"
  show "\<exists>f'. next_fragment_dect (tx_msg c @ tx_rest c) (length (tx_msg c)) i f = Some f' \<and> tx_prepared c i f' \<and> tx_usable c f'"
    if "i < tx_fragments c" "tx_usable c f" by (rule tx_next[OF that])
  show "tx_idle c (tx_reset c s) \<and> data_puts (tx_Z c) (tx_reset c s) = data_puts (tx_Z c) s" if "tx_idle c s"
  proof -
    have l: "sem_laws (tx_Z c)" "undisturbed (tx_Z c) (tx_others c) (tx_inv c)"
      using c by (simp_all add: tx_valid_def)
    have "radio_only (tx_Z c) s (tx_reset c s)"
      unfolding tx_reset_def by (rule radio_only_kern[where q = "kv_txq (kview (tx_Z c) (kern s))"
        and put = "kv_put (kview (tx_Z c) (kern s))"]) (simp add: sem_view(2)[OF l(1)])
    then have "tx_inv c (tx_reset c s)"
      using undisturbedD(1)[OF l(2), of s] that unfolding tx_idle_def tx_busy_def by blast
    with sem_view(2)[OF l(1)] that show ?thesis
      by (simp add: tx_reset_def tx_idle_def tx_busy_def txq_room_def data_puts_def)
  qed
  show "\<exists>r s'. tx_medium c i f s = Some (r, s') \<and>
      (if r = 0 then tx_busy c s' \<and> data_puts (tx_Z c) s' = data_puts (tx_Z c) s @ [tx_mark c i]
       else r \<in> {} \<and> tx_idle c s' \<and> data_puts (tx_Z c) s' = data_puts (tx_Z c) s @ [])"
    if "tx_prepared c i f" "tx_idle c s" using tx_writes[OF c that] by auto
  show "tx_idle c s' \<and> data_puts (tx_Z c) s' = data_puts (tx_Z c) s \<and> (r = 0 \<or> r = - EAGAIN)"
    if "tx_busy c s" "tx_take_ack c s = (r, s')" by (rule tx_takes[OF c that])
qed simp

text \<open>When the ACK of every frame has come by the time the wait is over.\<close>

definition acks_promptly ::
  "'k zephyr \<Rightarrow> (('k, 'a) dect_machine_scheme \<Rightarrow> ('k, 'a) dect_machine_scheme) \<Rightarrow> bool" where
  "acks_promptly Z others \<longleftrightarrow> (\<forall>s. 0 < kv_sem (kview Z (kern (others s))) DectAckSem)"

interpretation dect_prompt: prompt_sender "\<lambda>c. tx_valid c \<and> acks_promptly (tx_Z c) (tx_others c)"
  tx_fragments "\<lambda>c. DECT_TRANSPORT_LAYER_TX_ATTEMPTS" "\<lambda>c. {}"
  tx_idle tx_busy "\<lambda>c. data_puts (tx_Z c)" tx_mark "\<lambda>c i r. []" tx_usable tx_prepared
  "\<lambda>c. next_fragment_dect (tx_msg c @ tx_rest c) (length (tx_msg c))" tx_reset tx_medium tx_take_ack
proof unfold_locales
  fix c :: "('a, 'b) dect_tx_case" and s :: "('a, 'b) dect_machine_scheme"
  assume c: "tx_valid c \<and> acks_promptly (tx_Z c) (tx_others c)"
  show "fst (tx_take_ack c s) = 0"
    using c sem_take_available(1)[of "tx_Z c" DectAckSem "K_MSEC DECT_TRANSPORT_LAYER_ACK_TIMEOUT_MS"
        "kern (tx_others c s)"]
    by (cases "k_sem_take (tx_Z c) DectAckSem (K_MSEC DECT_TRANSPORT_LAYER_ACK_TIMEOUT_MS) (kern (tx_others c s))")
      (auto simp: tx_take_ack_def tx_valid_def acks_promptly_def)
qed (use dect_tx.next_frame dect_tx.reset dect_tx.medium dect_tx.take_ack dect_tx.tries_pos in blast)+

section \<open>The write\<close>

text \<open>On a valid request, the write is the loop of the contract.\<close>

definition dect_case_of ::
  "'k zephyr \<Rightarrow> (('k, 'a) dect_machine_scheme \<Rightarrow> ('k, 'a) dect_machine_scheme) \<Rightarrow>
   (('k, 'a) dect_machine_scheme \<Rightarrow> bool) \<Rightarrow> u32 \<Rightarrow> u8 list \<Rightarrow> nat \<Rightarrow>
   ('k, 'a) dect_machine_scheme \<Rightarrow> ('k, 'a) dect_tx_case" where
  "dect_case_of Z others P dst data n s = \<lparr>tx_Z = Z, tx_others = others, tx_me = dev_id s, tx_dst = dst,
     tx_seq = fst (sys_rand16_get Z (kern s)), tx_msg = take n data, tx_rest = drop n data,
     tx_inv = P\<rparr>"

definition tx_first :: "('k, 'a) dect_tx_case \<Rightarrow> dect_transport_layer_data_frame_t" where
  "tx_first c = (dect_data_frame (tx_seq c) (tx_msg c) 0)\<lparr>dd_payload := replicate 14 0\<rparr>"

lemma tx_first_usable: "tx_usable c (tx_first c)"
  by (simp add: tx_usable_def tx_first_def dect_data_frame_def)

lemma dect_write_loop:
  assumes "dt_initialized (dtl s)" and n: "0 < n" "n \<le> 512" "n \<le> length data"
  shows "dect_transport_layer_write Z others dst (Some data) n s =
     (let c = dect_case_of Z others P dst data n s
      in send_all (next_fragment_dect (tx_msg c @ tx_rest c) (length (tx_msg c)))
           (\<lambda>i f. attempts (tx_reset c) (tx_medium c i f) (tx_take_ack c) DECT_TRANSPORT_LAYER_TX_ATTEMPTS 0)
           [0..<tx_fragments c] (tx_first c) (s\<lparr>kern := snd (sys_rand16_get Z (kern s))\<rparr>))"
proof -
  let ?c = "dect_case_of Z others P dst data n s"
  have nc: "n_chunks 14 n < 256" using n(2) by (simp add: n_chunks_def)
  have len: "length (tx_msg ?c) = n" using n(3) by (simp add: dect_case_of_def)
  have frags: "unat (of_nat (n_chunks 14 n) :: u8) = tx_fragments ?c"
    using nc len by (simp add: tx_fragments_def unat_of_nat)
  have flen: "8 + min (n - 14 * i) 14 = dect_frame_len (tx_msg ?c) i" for i
    using len by (simp add: dect_frame_len_def chunk_def min.commute mult.commute)
  show ?thesis
    using assms n_chunks_def[of 14 n, symmetric]
    by (simp add: dect_transport_layer_write_def prv_write_data_frame_dect_def Let_def case_prod_unfold frags flen
        tx_reset_def[abs_def] tx_medium_def[abs_def] tx_take_ack_def[abs_def] tx_first_def dect_data_frame_def dect_case_of_def)
qed

lemma dect_case_valid:
  assumes "sem_laws Z" and "hwinfo_laws Z" and "rand_laws Z"
    and "msgq_laws Z DECT_LINK_LAYER_TX_MSG_QUEUE_DEPTH" and "link_drains Z others"
    and "li_initialized (ll s)" and "dev_fetched s" and "txq_room Z s" and "n \<le> 512"
    and "undisturbed Z others P" and "P s"
  shows "tx_valid (dect_case_of Z others P dst data n s)"
    and "tx_idle (dect_case_of Z others P dst data n s) (s\<lparr>kern := snd (sys_rand16_get Z (kern s))\<rparr>)"
    and "data_puts Z (s\<lparr>kern := snd (sys_rand16_get Z (kern s))\<rparr>) = data_puts Z s"
proof -
  have v: "kview Z (snd (sys_rand16_get Z (kern s))) = kview Z (kern s)"
    by (rule rand_view(1)[OF assms(3) prod.collapse[symmetric]])
  have "radio_only Z s (s\<lparr>kern := snd (sys_rand16_get Z (kern s))\<rparr>)"
    by (rule radio_only_kern[where sem = "kv_sem (kview Z (kern s))" and q = "kv_txq (kview Z (kern s))"
        and put = "kv_put (kview Z (kern s))"]) (simp add: v)
  with undisturbedD(1)[OF assms(10,11)] have "P (s\<lparr>kern := snd (sys_rand16_get Z (kern s))\<rparr>)" by blast
  with assms v show "tx_valid (dect_case_of Z others P dst data n s)"
    and "tx_idle (dect_case_of Z others P dst data n s) (s\<lparr>kern := snd (sys_rand16_get Z (kern s))\<rparr>)"
    and "data_puts Z (s\<lparr>kern := snd (sys_rand16_get Z (kern s))\<rparr>) = data_puts Z s"
    by (simp_all add: tx_valid_def tx_idle_def tx_busy_def dect_case_of_def txq_room_def data_puts_def)
qed

text \<open>The write with a property it keeps.\<close>

lemma dect_write_spec:
  assumes "sem_laws Z" and "hwinfo_laws Z" and "rand_laws Z"
    and "msgq_laws Z DECT_LINK_LAYER_TX_MSG_QUEUE_DEPTH" and "link_drains Z others"
    and "li_initialized (ll s)" and "dev_fetched s" and "txq_room Z s"
    and "dt_initialized (dtl s)" and "0 < n" and "n \<le> 512" and "n \<le> length data"
    and "undisturbed Z others P" and "P s"
  shows "\<exists>r s' ms. dect_transport_layer_write Z others dst (Some data) n s = Some (r, s') \<and> P s' \<and>
     data_puts Z s' = data_puts Z s @ ms \<and>
     sent_in_order (n_chunks 14 n) 4
       (dect_tx_frame (dev_id s) dst (fst (sys_rand16_get Z (kern s))) (take n data)) {} r ms"
proof -
  let ?c = "dect_case_of Z others P dst data n s"
  note c = dect_case_valid(1,2)[OF assms(1-8) assms(11,13,14), of dst data]
    and c3 = dect_case_valid(3)[OF assms(1-8) assms(11,13,14)]
  have p: "tx_Z ?c = Z" "tx_fragments ?c = n_chunks 14 n"
    "tx_mark ?c = dect_tx_frame (dev_id s) dst (fst (sys_rand16_get Z (kern s))) (take n data)"
    using assms(12) by (simp_all add: dect_case_of_def tx_fragments_def tx_mark_def)
  have "tx_idle ?c s' \<Longrightarrow> P s'" for s' by (simp add: tx_idle_def tx_busy_def dect_case_of_def)
  then show ?thesis
    using dect_tx.sends_in_order[OF c(1,2) tx_first_usable, unfolded sent_attempts_unseen]
    unfolding dect_write_loop[OF assms(9-12), where P = P] Let_def p c3 DECT_TRANSPORT_LAYER_TX_ATTEMPTS_def by blast
qed

lemma undisturbed_True [simp]: "undisturbed Z others (\<lambda>s. True)"
  by (simp add: undisturbed_def)

text \<open>The write when every ACK comes in time.\<close>

lemma dect_write_prompt:
  assumes "sem_laws Z" and "hwinfo_laws Z" and "rand_laws Z"
    and "msgq_laws Z DECT_LINK_LAYER_TX_MSG_QUEUE_DEPTH" and "link_drains Z others"
    and "li_initialized (ll s)" and "dev_fetched s" and "txq_room Z s"
    and "dt_initialized (dtl s)" and "0 < n" and "n \<le> 512" and "n \<le> length data"
    and "acks_promptly Z others"
  shows "\<exists>s'. dect_transport_layer_write Z others dst (Some data) n s = Some (0, s') \<and>
     data_puts Z s' = data_puts Z s @
       map (dect_tx_frame (dev_id s) dst (fst (sys_rand16_get Z (kern s))) (take n data)) [0..<n_chunks 14 n]"
proof -
  let ?c = "dect_case_of Z others (\<lambda>s. True) dst data n s"
  note c = dect_case_valid(1,2)[OF assms(1-8) assms(11) undisturbed_True TrueI, of dst data]
    and c3 = dect_case_valid(3)[OF assms(1-8) assms(11) undisturbed_True TrueI]
  have p: "tx_Z ?c = Z" "tx_others ?c = others" "tx_fragments ?c = n_chunks 14 n"
    "tx_mark ?c = dect_tx_frame (dev_id s) dst (fst (sys_rand16_get Z (kern s))) (take n data)"
    using assms(12) by (simp_all add: dect_case_of_def tx_fragments_def tx_mark_def)
  have "tx_valid ?c \<and> acks_promptly (tx_Z ?c) (tx_others ?c)" using c(1) assms(13) p by simp
  from dect_prompt.sends_once[OF this c(2) tx_first_usable le0] show ?thesis
    unfolding dect_write_loop[OF assms(9-12), where P = "\<lambda>s. True"] Let_def p c3 by blast
qed

text \<open>A link thread that sends everything at once, with and without a peer that acknowledges.\<close>

definition ref_air :: "nat \<Rightarrow> (kworld, 'a) dect_machine_scheme \<Rightarrow> (kworld, 'a) dect_machine_scheme" where
  "ref_air acks s = s\<lparr>kern := (kern s)\<lparr>rk_txq := [], rk_sem := (rk_sem (kern s))(DectAckSem := acks)\<rparr>\<rparr>"

lemma ref_air_drains: "link_drains ref_zephyr (ref_air acks)"
  by (simp add: link_drains_def ref_air_def txq_room_def data_puts_def rk_view_def
      DECT_LINK_LAYER_TX_MSG_QUEUE_DEPTH_def)

lemma ref_air_acks: "acks_promptly ref_zephyr (ref_air 1)"
  by (simp add: acks_promptly_def ref_air_def rk_view_def)

text \<open>C9. Acknowledged transmission: whatever becomes of the frames and the ACKs, a write of a message of 1
  to 512 bytes returns, and the data frames it has queued are those of the message's fragments, in
  order: with result 0 every fragment was queued one to four times; otherwise the result is
  \<open>-EAGAIN\<close>, the fragments up to some fragment were queued one to four times, that fragment exactly
  four times, and none after it.\<close>

theorem dect_sends_in_order:
  assumes "sem_laws Z" and "hwinfo_laws Z" and "rand_laws Z"
    and "msgq_laws Z DECT_LINK_LAYER_TX_MSG_QUEUE_DEPTH" and "link_drains Z others"
    and "li_initialized (ll s)" and "dev_fetched s" and "txq_room Z s"
    and "dt_initialized (dtl s)" and "0 < n" and "n \<le> 512" and "n \<le> length data"
  shows "\<exists>r s' ms. dect_transport_layer_write Z others dst (Some data) n s = Some (r, s') \<and>
     data_puts Z s' = data_puts Z s @ ms \<and>
     sent_in_order (n_chunks 14 n) 4
       (dect_tx_frame (dev_id s) dst (fst (sys_rand16_get Z (kern s))) (take n data)) {} r ms"
  using dect_write_spec[OF assms undisturbed_True TrueI] by blast

theorem dect_sends_in_order_witness:
  "\<exists>r s' ms. dect_transport_layer_write ref_zephyr (ref_air 0) 5 (Some (replicate 20 1)) 20 ref_dect = Some (r, s') \<and>
     data_puts ref_zephyr s' = data_puts ref_zephyr ref_dect @ ms \<and>
     sent_in_order (n_chunks 14 20) 4
       (dect_tx_frame (dev_id ref_dect) 5 (fst (sys_rand16_get ref_zephyr (kern ref_dect))) (take 20 (replicate 20 1))) {} r ms"
  by (rule dect_sends_in_order[OF ref_sem_laws ref_hwinfo_laws ref_rand_laws _ ref_air_drains])
    (simp_all add: ref_msgq_laws txq_room_def DECT_LINK_LAYER_TX_MSG_QUEUE_DEPTH_def)

text \<open>C21. Prompt transmission: when the ACK of every frame comes in time, the write succeeds and each
  fragment is queued exactly once, in order.\<close>

theorem dect_sends_once:
  assumes "sem_laws Z" and "hwinfo_laws Z" and "rand_laws Z"
    and "msgq_laws Z DECT_LINK_LAYER_TX_MSG_QUEUE_DEPTH" and "link_drains Z others"
    and "li_initialized (ll s)" and "dev_fetched s" and "txq_room Z s"
    and "dt_initialized (dtl s)" and "0 < n" and "n \<le> 512" and "n \<le> length data"
    and "acks_promptly Z others"
  shows "\<exists>s'. dect_transport_layer_write Z others dst (Some data) n s = Some (0, s') \<and>
     data_puts Z s' = data_puts Z s @
       map (dect_tx_frame (dev_id s) dst (fst (sys_rand16_get Z (kern s))) (take n data)) [0..<n_chunks 14 n]"
  by (rule dect_write_prompt[OF assms])

theorem dect_sends_once_witness:
  "\<exists>s'. dect_transport_layer_write ref_zephyr (ref_air 1) 5 (Some (replicate 20 1)) 20 ref_dect = Some (0, s') \<and>
     data_puts ref_zephyr s' = data_puts ref_zephyr ref_dect @
       map (dect_tx_frame (dev_id ref_dect) 5 (fst (sys_rand16_get ref_zephyr (kern ref_dect)))
         (take 20 (replicate 20 1))) [0..<n_chunks 14 20]"
  by (rule dect_sends_once[OF ref_sem_laws ref_hwinfo_laws ref_rand_laws _ ref_air_drains _ _ _ _ _ _ _ ref_air_acks])
    (simp_all add: ref_msgq_laws txq_room_def DECT_LINK_LAYER_TX_MSG_QUEUE_DEPTH_def)

text \<open>C22. Every outcome of a write: it always returns; the result is \<open>-ENOLINK\<close> exactly without a running
  transport, \<open>-EINVAL\<close> exactly without data or with an empty message, \<open>-ENOMEM\<close> exactly for a message
  longer than a receive buffer, and otherwise 0 or \<open>-EAGAIN\<close>; a refused write changes nothing.\<close>

theorem dect_write_results:
  assumes "sem_laws Z" and "hwinfo_laws Z" and "rand_laws Z"
    and "msgq_laws Z DECT_LINK_LAYER_TX_MSG_QUEUE_DEPTH" and "link_drains Z others"
    and "li_initialized (ll s)" and "dev_fetched s" and "txq_room Z s"
    and len: "\<And>d. data = Some d \<Longrightarrow> n \<le> length d"
  shows "\<exists>r s'. dect_transport_layer_write Z others dst data n s = Some (r, s') \<and>
     (r = - ENOLINK \<longleftrightarrow> \<not> dt_initialized (dtl s)) \<and>
     (r = - EINVAL \<longleftrightarrow> dt_initialized (dtl s) \<and> (data = None \<or> n = 0)) \<and>
     (r = - ENOMEM \<longleftrightarrow> dt_initialized (dtl s) \<and> data \<noteq> None \<and> 512 < n) \<and>
     (r \<noteq> 0 \<and> r \<noteq> - EAGAIN \<longrightarrow> s' = s)"
proof (cases "dt_initialized (dtl s) \<and> data \<noteq> None \<and> 0 < n \<and> n \<le> 512")
  case True
  then obtain d where d: "data = Some d" by blast
  obtain r s' ms where w: "dect_transport_layer_write Z others dst (Some d) n s = Some (r, s')"
    "sent_in_order (n_chunks 14 n) 4
       (dect_tx_frame (dev_id s) dst (fst (sys_rand16_get Z (kern s))) (take n d)) {} r ms"
    using dect_write_spec[OF assms(1-8) _ _ _ len[OF d] undisturbed_True TrueI] True by blast
  then have "r = 0 \<or> r = - EAGAIN" by (auto simp: sent_in_order_def split: if_splits)
  with w(1) d True show ?thesis by auto
next
  case False
  then show ?thesis by (cases data) (auto simp: dect_transport_layer_write_def)
qed

theorem dect_write_results_witness:
  "\<exists>r s'. dect_transport_layer_write ref_zephyr (ref_air 0) 5 (Some (replicate 600 1)) 600 ref_dect = Some (r, s') \<and>
     (r = - ENOLINK \<longleftrightarrow> \<not> dt_initialized (dtl ref_dect)) \<and>
     (r = - EINVAL \<longleftrightarrow> dt_initialized (dtl ref_dect) \<and> (Some (replicate 600 (1 :: u8)) = None \<or> 600 = (0 :: nat))) \<and>
     (r = - ENOMEM \<longleftrightarrow> dt_initialized (dtl ref_dect) \<and> Some (replicate 600 (1 :: u8)) \<noteq> None \<and> 512 < (600 :: nat)) \<and>
     (r \<noteq> 0 \<and> r \<noteq> - EAGAIN \<longrightarrow> s' = ref_dect)"
  by (rule dect_write_results[OF ref_sem_laws ref_hwinfo_laws ref_rand_laws _ ref_air_drains])
    (auto simp: ref_msgq_laws txq_room_def DECT_LINK_LAYER_TX_MSG_QUEUE_DEPTH_def)

end
