(* ===== verification/Ble_Sending.thy ===== *)
theory Ble_Sending
  imports Alfie_Ble_Service Send_Path
begin

text \<open>
  The transmit path of \<^verbatim>\<open>alfie_ble_service.c\<close> is an \<open>acked_sender\<close> as well: its medium is
  the notification of the connected phone, which may fail, and its trace the history of the data
  frames that were notified. The second half is about the size of a fragment: a full data frame is
  three bytes longer than what a notification can carry.
\<close>

section \<open>The trace\<close>

definition is_ble_data :: "u8 list \<Rightarrow> bool" where
  "is_ble_data d \<longleftrightarrow> (case get_ble_frame_header d of None \<Rightarrow> False
     | Some h \<Rightarrow> bh_frame_type h = ALFIE_BLE_SERVICE_PROTO_FRAME_TYPE_DATA)"

text \<open>The data frames the host was asked to notify, with its answers, and those it accepted.\<close>

definition data_asked :: "'k zephyr \<Rightarrow> ('k, 'a) machine_scheme \<Rightarrow> (u8 list \<times> int) list" where
  "data_asked Z s = filter (\<lambda>a. is_ble_data (fst a)) (map snd (kv_notified (kview Z (kern s))))"

definition accepted :: "(u8 list \<times> int) list \<Rightarrow> u8 list list" where
  "accepted as = map fst (filter (\<lambda>a. snd a = 0) as)"

definition data_notified :: "'k zephyr \<Rightarrow> ('k, 'a) machine_scheme \<Rightarrow> u8 list list" where
  "data_notified Z s = accepted (data_asked Z s)"

lemma accepted_simps [simp]:
  "accepted [] = []" "accepted (xs @ ys) = accepted xs @ accepted ys"
  "accepted (a # as) = (if snd a = 0 then [fst a] else []) @ accepted as"
  "accepted (replicate j (d, 0)) = replicate j d"
  "accepted (concat ass) = concat (map accepted ass)"
  by (simp_all add: accepted_def[abs_def] filter_concat map_concat comp_def)

text \<open>Every attempt of a transmission was answered: what it notified are the accepted frames.\<close>

lemma accepted_attempts:
  assumes "sent_attempts n tries (\<lambda>k. (f k, 0)) (\<lambda>k r. [(f k, r)]) errs r as"
  shows "sent_in_order n tries f errs r (accepted as)"
proof -
  obtain c m j where o: "\<forall>i < m. 1 \<le> c i \<and> c i \<le> tries"
    "as = concat (map (\<lambda>i. replicate (c i) (f i, 0)) [0..<m]) @ replicate j (f m, 0) @
       (if r \<noteq> 0 \<and> j < tries then [(f m, r)] else [])"
    "if r = 0 then m = n \<and> j = 0 else m < n \<and> (r = - EAGAIN \<and> j = tries \<or> r \<in> errs \<and> j < tries)"
    using assms unfolding sent_attempts_def by blast
  have "accepted as = concat (map (\<lambda>i. replicate (c i) (f i)) [0..<m]) @ replicate j (f m)"
    by (simp add: o(2) comp_def)
  with o(1,3) show ?thesis unfolding sent_in_order_def by blast
qed

definition ble_tx_frame :: "u16 \<Rightarrow> u8 list \<Rightarrow> nat \<Rightarrow> u8 list" where
  "ble_tx_frame seq msg k = put_ble_data_frame (ble_data_frame seq msg k)"

lemma is_ble_data_tx_frame [simp]: "is_ble_data (ble_tx_frame seq msg k)"
  by (simp add: is_ble_data_def ble_tx_frame_def put_ble_data_frame_def ble_data_frame_def)

lemma length_ble_tx_frame: "length (ble_tx_frame seq msg k) = ble_frame_len msg k"
  by (simp add: ble_tx_frame_def ble_frame_len_def ble_data_frame_def)

section \<open>The case of a transmission\<close>

record ('k, 'a) ble_tx_case =
  bx_Z :: "'k zephyr"
  bx_others :: "('k, 'a) ble_machine_scheme \<Rightarrow> ('k, 'a) ble_machine_scheme"
  bx_seq :: u16
  bx_msg :: "u8 list"
  bx_rest :: "u8 list"
  bx_inv :: "('k, 'a) ble_machine_scheme \<Rightarrow> bool"

text \<open>
  While the sender waits, the other threads ask for no notification of a data frame. They may close the
  connection.
\<close>

definition notifies_no_data ::
  "'k zephyr \<Rightarrow> (('k, 'a) ble_machine_scheme \<Rightarrow> ('k, 'a) ble_machine_scheme) \<Rightarrow> bool" where
  "notifies_no_data Z others \<longleftrightarrow> (\<forall>s. data_asked Z (others s) = data_asked Z s)"

text \<open>What a write changes by itself, and a property that it and the other threads leave alone.\<close>

definition notify_only ::
  "'k zephyr \<Rightarrow> ('k, 'a) ble_machine_scheme \<Rightarrow> ('k, 'a) ble_machine_scheme \<Rightarrow> bool" where
  "notify_only Z s s' \<longleftrightarrow> s' = s\<lparr>kern := kern s'\<rparr> \<and>
     (\<exists>sem ns. kview Z (kern s') = (kview Z (kern s))\<lparr>kv_sem := sem, kv_notified := ns\<rparr>)"

lemma notify_only_kern:
  assumes "kview Z k = (kview Z (kern s))\<lparr>kv_sem := sem, kv_notified := ns\<rparr>"
  shows "notify_only Z s (s\<lparr>kern := k\<rparr>)"
  unfolding notify_only_def using assms by auto

definition unnotified ::
  "'k zephyr \<Rightarrow> (('k, 'a) ble_machine_scheme \<Rightarrow> ('k, 'a) ble_machine_scheme) \<Rightarrow>
   (('k, 'a) ble_machine_scheme \<Rightarrow> bool) \<Rightarrow> bool" where
  "unnotified Z others P \<longleftrightarrow> (\<forall>s s'. P s \<and> notify_only Z s s' \<longrightarrow> P s') \<and> (\<forall>s. P s \<longrightarrow> P (others s))"

lemma unnotifiedD:
  assumes "unnotified Z others P" and "P s"
  shows "notify_only Z s s' \<Longrightarrow> P s'" and "P (others s)"
  using assms unfolding unnotified_def by blast+

lemma unnotified_True [simp]: "unnotified Z others (\<lambda>s. True)"
  by (simp add: unnotified_def)

definition bx_valid :: "('k, 'a) ble_tx_case \<Rightarrow> bool" where
  "bx_valid c \<longleftrightarrow> sem_laws (bx_Z c) \<and> notify_laws (bx_Z c) \<and> notifies_no_data (bx_Z c) (bx_others c) \<and>
     unnotified (bx_Z c) (bx_others c) (bx_inv c) \<and>
     length (bx_msg c) \<le> ALFIE_BLE_SERVICE_MAX_RX_BUFFER_SIZE_BYTES"

definition bx_usable :: "('k, 'a) ble_tx_case \<Rightarrow> alfie_ble_service_proto_data_frame_t \<Rightarrow> bool" where
  "bx_usable c f \<longleftrightarrow> length (bd_payload f) = 243 \<and> bd_seq_id f = bx_seq c \<and>
     bh_version (bd_header f) = 0 \<and> bh_frame_type (bd_header f) = ALFIE_BLE_SERVICE_PROTO_FRAME_TYPE_DATA \<and>
     bd_frag_total f = of_nat (n_chunks 243 (length (bx_msg c))) \<and>
     bd_total_size_bytes f = of_nat (length (bx_msg c))"

definition bx_mark :: "('k, 'a) ble_tx_case \<Rightarrow> nat \<Rightarrow> u8 list" where
  "bx_mark c = ble_tx_frame (bx_seq c) (bx_msg c)"

definition bx_prepared :: "('k, 'a) ble_tx_case \<Rightarrow> nat \<Rightarrow> alfie_ble_service_proto_data_frame_t \<Rightarrow> bool" where
  "bx_prepared c i f \<longleftrightarrow> mem_read (put_ble_data_frame f) (ble_frame_len (bx_msg c) i) = Some (bx_mark c i)"

definition bx_reset ::
  "('k, 'a) ble_tx_case \<Rightarrow> ('k, 'a) ble_machine_scheme \<Rightarrow> ('k, 'a) ble_machine_scheme" where
  "bx_reset c s = s\<lparr>kern := k_sem_reset (bx_Z c) BleAckSem (kern s)\<rparr>"

definition bx_medium ::
  "('k, 'a) ble_tx_case \<Rightarrow> nat \<Rightarrow> alfie_ble_service_proto_data_frame_t \<Rightarrow> ('k, 'a) ble_machine_scheme \<Rightarrow>
   (int \<times> ('k, 'a) ble_machine_scheme) option" where
  "bx_medium c i f s = do { bytes \<leftarrow> mem_read (put_ble_data_frame f) (ble_frame_len (bx_msg c) i);
     let (ret, k) = bt_gatt_notify (bx_Z c) (bs_conn (bsv s)) bytes (kern s);
     Some (ret, s\<lparr>kern := k\<rparr>) }"

definition bx_take_ack ::
  "('k, 'a) ble_tx_case \<Rightarrow> ('k, 'a) ble_machine_scheme \<Rightarrow> int \<times> ('k, 'a) ble_machine_scheme" where
  "bx_take_ack c s = (let s1 = bx_others c s;
     (ret, k) = k_sem_take (bx_Z c) BleAckSem (K_MSEC ALFIE_BLE_SERVICE_ACK_TIMEOUT_MS) (kern s1)
     in (ret, s1\<lparr>kern := k\<rparr>))"

definition bx_fragments :: "('k, 'a) ble_tx_case \<Rightarrow> nat" where
  "bx_fragments c = n_chunks 243 (length (bx_msg c))"

section \<open>The contract\<close>

lemma next_fragment_ble_chunk:
  assumes "i < n_chunks 243 (length msg)"
  shows "next_fragment_ble (msg @ rest) (length msg) i f =
     Some (f\<lparr>bd_frag_idx := of_nat i, bd_payload := overwrite (chunk 243 i msg) (bd_payload f)\<rparr>)"
proof -
  have i: "i * 243 < length msg" using n_chunks_tight[OF _ assms] by simp
  have "take (min (length msg - 243 * i) 243) (drop (i * 243) (msg @ rest)) = take 243 (drop (i * 243) msg)"
    using i by (simp add: min_def mult.commute)
  then show ?thesis
    using i by (simp add: next_fragment_ble_def chunk_def Let_def mem_read_def)
qed

lemma bx_next:
  assumes "i < bx_fragments c" and f: "bx_usable c f"
  shows "\<exists>f'. next_fragment_ble (bx_msg c @ bx_rest c) (length (bx_msg c)) i f = Some f' \<and>
     bx_prepared c i f' \<and> bx_usable c f'"
proof -
  let ?f = "f\<lparr>bd_frag_idx := of_nat i, bd_payload := overwrite (chunk 243 i (bx_msg c)) (bd_payload f)\<rparr>"
  have len: "length (chunk 243 i (bx_msg c)) \<le> length (bd_payload f)"
    using f length_chunk_le[of 243 i "bx_msg c"] by (simp add: bx_usable_def)
  have us: "bx_usable c ?f" using f len by (simp add: bx_usable_def)
  have "put_ble_data_frame ?f = bx_mark c i @ drop (length (chunk 243 i (bx_msg c))) (bd_payload f)"
    using f by (simp add: bx_usable_def put_ble_data_frame_def bx_mark_def ble_tx_frame_def ble_data_frame_def overwrite_def)
  moreover have "length (bx_mark c i) = ble_frame_len (bx_msg c) i" by (simp add: bx_mark_def length_ble_tx_frame)
  ultimately have "bx_prepared c i ?f" by (simp add: bx_prepared_def mem_read_def)
  with us assms(1) show ?thesis by (simp add: next_fragment_ble_chunk bx_fragments_def)
qed

lemma bx_notifies:
  assumes "bx_valid c" and f: "bx_prepared c i f" and s: "bx_inv c s"
  shows "\<exists>r s'. bx_medium c i f s = Some (r, s') \<and> bx_inv c s' \<and>
     data_asked (bx_Z c) s' = data_asked (bx_Z c) s @ [(bx_mark c i, r)]"
proof -
  obtain r k where n: "bt_gatt_notify (bx_Z c) (bs_conn (bsv s)) (bx_mark c i) (kern s) = (r, k)" by fastforce
  have l: "notify_laws (bx_Z c)" "unnotified (bx_Z c) (bx_others c) (bx_inv c)" using assms(1) by (simp_all add: bx_valid_def)
  note v = notify_view(1)[OF l(1) n]
  have "kview (bx_Z c) k = (kview (bx_Z c) (kern s))\<lparr>kv_sem := kv_sem (kview (bx_Z c) (kern s)),
      kv_notified := kv_notified (kview (bx_Z c) k)\<rparr>" by (simp add: v)
  from unnotifiedD(1)[OF l(2) s notify_only_kern[OF this]] v n f show ?thesis
    by (simp add: bx_medium_def bx_prepared_def data_asked_def) (simp add: bx_mark_def)
qed

lemma bx_takes:
  assumes c: "bx_valid c" and s: "bx_inv c s" and a: "bx_take_ack c s = (r, s')"
  shows "bx_inv c s' \<and> data_asked (bx_Z c) s' = data_asked (bx_Z c) s \<and> (r = 0 \<or> r = - EAGAIN)"
proof -
  let ?s = "bx_others c s"
  have sem: "sem_laws (bx_Z c)" and o: "data_asked (bx_Z c) ?s = data_asked (bx_Z c) s"
    and keep: "unnotified (bx_Z c) (bx_others c) (bx_inv c)"
    using c by (simp_all add: bx_valid_def notifies_no_data_def)
  obtain k where k: "k_sem_take (bx_Z c) BleAckSem (K_MSEC ALFIE_BLE_SERVICE_ACK_TIMEOUT_MS) (kern ?s) = (r, k)"
    "s' = ?s\<lparr>kern := k\<rparr>"
    using a by (auto simp: bx_take_ack_def Let_def split: prod.splits)
  have "kv_notified (kview (bx_Z c) k) = kv_notified (kview (bx_Z c) (kern ?s))" "r = 0 \<or> r = - EAGAIN"
    "kview (bx_Z c) k = (kview (bx_Z c) (kern ?s))\<lparr>kv_sem := kv_sem (kview (bx_Z c) k),
      kv_notified := kv_notified (kview (bx_Z c) (kern ?s))\<rparr>"
    using sem_take_available[OF sem k(1)] sem_take_timeout[OF sem k(1)]
    by (cases "0 < kv_sem (kview (bx_Z c) (kern ?s)) BleAckSem"; simp)+
  with o unnotifiedD(1)[OF keep unnotifiedD(2)[OF keep s] notify_only_kern[OF this(3)]] show ?thesis
    by (simp add: k(2) data_asked_def)
qed

lemma bx_resets:
  assumes "bx_valid c" and s: "bx_inv c s"
  shows "bx_inv c (bx_reset c s) \<and> data_asked (bx_Z c) (bx_reset c s) = data_asked (bx_Z c) s"
proof -
  have l: "sem_laws (bx_Z c)" "unnotified (bx_Z c) (bx_others c) (bx_inv c)" using assms(1) by (simp_all add: bx_valid_def)
  have "notify_only (bx_Z c) s (bx_reset c s)"
    unfolding bx_reset_def by (rule notify_only_kern[where ns = "kv_notified (kview (bx_Z c) (kern s))"])
      (simp add: sem_view(2)[OF l(1)])
  from unnotifiedD(1)[OF l(2) s this] show ?thesis
    by (simp add: bx_reset_def data_asked_def sem_view(2)[OF l(1)])
qed

interpretation ble_tx: acked_sender bx_valid bx_fragments "\<lambda>c. ALFIE_BLE_SERVICE_TX_ATTEMPTS" "\<lambda>c. {r. r \<noteq> 0}"
  bx_inv bx_inv "\<lambda>c. data_asked (bx_Z c)" "\<lambda>c i. (bx_mark c i, 0)" "\<lambda>c i r. [(bx_mark c i, r)]" bx_usable bx_prepared
  "\<lambda>c. next_fragment_ble (bx_msg c @ bx_rest c) (length (bx_msg c))" bx_reset bx_medium bx_take_ack
proof unfold_locales
  fix c :: "('a, 'b) ble_tx_case" and s s' :: "('a, 'b) ble_machine_scheme" and i f r
  assume c: "bx_valid c"
  show "\<exists>f'. next_fragment_ble (bx_msg c @ bx_rest c) (length (bx_msg c)) i f = Some f' \<and> bx_prepared c i f' \<and> bx_usable c f'"
    if "i < bx_fragments c" "bx_usable c f" by (rule bx_next[OF that])
  show "bx_inv c (bx_reset c s) \<and> data_asked (bx_Z c) (bx_reset c s) = data_asked (bx_Z c) s"
    if "bx_inv c s" by (rule bx_resets[OF c that])
  show "\<exists>r s'. bx_medium c i f s = Some (r, s') \<and>
      (if r = 0 then bx_inv c s' \<and> data_asked (bx_Z c) s' = data_asked (bx_Z c) s @ [(bx_mark c i, 0)]
       else r \<in> {r. r \<noteq> 0} \<and> bx_inv c s' \<and> data_asked (bx_Z c) s' = data_asked (bx_Z c) s @ [(bx_mark c i, r)])"
    if "bx_prepared c i f" "bx_inv c s"
    using bx_notifies[OF c that] by fastforce
  show "bx_inv c s' \<and> data_asked (bx_Z c) s' = data_asked (bx_Z c) s \<and> (r = 0 \<or> r = - EAGAIN)"
    if "bx_inv c s" "bx_take_ack c s = (r, s')" by (rule bx_takes[OF c that])
qed simp

section \<open>The write\<close>

definition ble_case_of ::
  "'k zephyr \<Rightarrow> (('k, 'a) ble_machine_scheme \<Rightarrow> ('k, 'a) ble_machine_scheme) \<Rightarrow>
   (('k, 'a) ble_machine_scheme \<Rightarrow> bool) \<Rightarrow> u8 list \<Rightarrow> nat \<Rightarrow>
   ('k, 'a) ble_machine_scheme \<Rightarrow> ('k, 'a) ble_tx_case" where
  "ble_case_of Z others P data n s = \<lparr>bx_Z = Z, bx_others = others,
     bx_seq = fst (sys_rand16_get Z (kern s)), bx_msg = take n data, bx_rest = drop n data, bx_inv = P\<rparr>"

definition bx_first :: "('k, 'a) ble_tx_case \<Rightarrow> alfie_ble_service_proto_data_frame_t" where
  "bx_first c = (ble_data_frame (bx_seq c) (bx_msg c) 0)\<lparr>bd_payload := replicate 243 0\<rparr>"

lemma bx_first_usable: "bx_usable c (bx_first c)"
  by (simp add: bx_usable_def bx_first_def ble_data_frame_def)

lemma ble_write_loop:
  assumes "bs_initialized (bsv s)" and "bs_conn (bsv s) = Some conn"
    and n: "0 < n" "n \<le> 512" "n \<le> length data"
  shows "alfie_ble_service_write Z others dst (Some data) n s =
     (let c = ble_case_of Z others P data n s
      in send_all (next_fragment_ble (bx_msg c @ bx_rest c) (length (bx_msg c)))
           (\<lambda>i f. attempts (bx_reset c) (bx_medium c i f) (bx_take_ack c) ALFIE_BLE_SERVICE_TX_ATTEMPTS 0)
           [0..<bx_fragments c] (bx_first c) (s\<lparr>kern := snd (sys_rand16_get Z (kern s))\<rparr>))"
proof -
  let ?c = "ble_case_of Z others P data n s"
  have nc: "n_chunks 243 n < 256" using n(2) by (simp add: n_chunks_def)
  have len: "length (bx_msg ?c) = n" using n(3) by (simp add: ble_case_of_def)
  have frags: "unat (of_nat (n_chunks 243 n) :: u8) = bx_fragments ?c"
    using nc len by (simp add: bx_fragments_def unat_of_nat)
  have flen: "8 + min (n - 243 * i) 243 = ble_frame_len (bx_msg ?c) i" for i
    using len by (simp add: ble_frame_len_def chunk_def min.commute mult.commute)
  show ?thesis
    using assms n_chunks_def[of 243 n, symmetric]
    by (simp add: alfie_ble_service_write_def prv_write_data_frame_ble_def Let_def case_prod_unfold frags flen
        bx_reset_def[abs_def] bx_medium_def[abs_def] bx_take_ack_def[abs_def] bx_first_def ble_data_frame_def ble_case_of_def)
qed

lemma ble_case_valid:
  assumes "sem_laws Z" and "notify_laws Z" and "notifies_no_data Z others" and "n \<le> 512"
    and "unnotified Z others P"
  shows "bx_valid (ble_case_of Z others P data n s)"
  using assms by (simp add: bx_valid_def ble_case_of_def)

lemma rand_unnotified:
  assumes "rand_laws Z" and "unnotified Z others P" and "P s"
  shows "P (s\<lparr>kern := snd (sys_rand16_get Z (kern s))\<rparr>)"
  by (rule unnotifiedD(1)[OF assms(2,3) notify_only_kern[where sem = "kv_sem (kview Z (kern s))"
      and ns = "kv_notified (kview Z (kern s))"]]) (simp add: rand_view(1)[OF assms(1) prod.collapse[symmetric]])

lemma rand_data_asked:
  assumes "rand_laws Z"
  shows "data_asked Z (s\<lparr>kern := snd (sys_rand16_get Z (kern s))\<rparr>) = data_asked Z s"
  using rand_view(1)[OF assms prod.collapse[symmetric]] by (simp add: data_asked_def)

text \<open>The write with a property it keeps.\<close>

lemma ble_write_attempts:
  assumes "sem_laws Z" and "notify_laws Z" and "rand_laws Z" and "notifies_no_data Z others"
    and "bs_initialized (bsv s)" and "bs_conn (bsv s) = Some conn" and "0 < n" and "n \<le> 512" and "n \<le> length data"
    and "unnotified Z others P" and "P s"
  defines "frame \<equiv> ble_tx_frame (fst (sys_rand16_get Z (kern s))) (take n data)"
  shows "\<exists>r s' as. alfie_ble_service_write Z others dst (Some data) n s = Some (r, s') \<and> P s' \<and>
     data_asked Z s' = data_asked Z s @ as \<and>
     sent_attempts (n_chunks 243 n) 4 (\<lambda>k. (frame k, 0)) (\<lambda>k r. [(frame k, r)]) {r. r \<noteq> 0} r as"
proof -
  let ?c = "ble_case_of Z others P data n s"
  have c: "bx_valid ?c" by (rule ble_case_valid[OF assms(1,2,4,8,10)])
  have i: "bx_inv ?c (s\<lparr>kern := snd (sys_rand16_get Z (kern s))\<rparr>)"
    using rand_unnotified[OF assms(3,10,11)] by (simp add: ble_case_of_def)
  have p: "bx_Z ?c = Z" "bx_fragments ?c = n_chunks 243 n" "bx_inv ?c = P" "bx_mark ?c = frame"
    using assms(9) by (simp_all add: ble_case_of_def bx_fragments_def bx_mark_def frame_def)
  show ?thesis
    using ble_tx.sends_in_order[OF c i bx_first_usable]
    unfolding ble_write_loop[OF assms(5-9), where P = P] Let_def p rand_data_asked[OF assms(3)]
      ALFIE_BLE_SERVICE_TX_ATTEMPTS_def by blast
qed

text \<open>C10. Acknowledged notification: while a phone is connected, a write of a message of 1 to 512 bytes
  returns, and the data frames it has notified are those of the message's fragments, in order: with
  result 0 every fragment was notified one to four times; otherwise the fragments up to some
  fragment were, that fragment four times if its ACK never came or fewer if the host refused to notify
  it, and none after it. An error other than a missing ACK is the host's answer to the last frame it was
  asked to notify.\<close>

theorem ble_sends_in_order:
  assumes "sem_laws Z" and "notify_laws Z" and "rand_laws Z" and "notifies_no_data Z others"
    and "bs_initialized (bsv s)" and "bs_conn (bsv s) = Some conn" and "0 < n" and "n \<le> 512" and "n \<le> length data"
  defines "frame \<equiv> ble_tx_frame (fst (sys_rand16_get Z (kern s))) (take n data)"
  shows "\<exists>r s' as. alfie_ble_service_write Z others dst (Some data) n s = Some (r, s') \<and>
     data_asked Z s' = data_asked Z s @ as \<and>
     sent_attempts (n_chunks 243 n) 4 (\<lambda>k. (frame k, 0)) (\<lambda>k r. [(frame k, r)]) {r. r \<noteq> 0} r as \<and>
     data_notified Z s' = data_notified Z s @ accepted as \<and>
     sent_in_order (n_chunks 243 n) 4 frame {r. r \<noteq> 0} r (accepted as)"
proof -
  obtain r s' as where w: "alfie_ble_service_write Z others dst (Some data) n s = Some (r, s')"
    "data_asked Z s' = data_asked Z s @ as"
    "sent_attempts (n_chunks 243 n) 4 (\<lambda>k. (frame k, 0)) (\<lambda>k r. [(frame k, r)]) {r. r \<noteq> 0} r as"
    using ble_write_attempts[OF assms(1-9) unnotified_True TrueI] unfolding frame_def by blast
  have "data_notified Z s' = data_notified Z s @ accepted as" by (simp add: data_notified_def w(2))
  with w accepted_attempts[OF w(3)] show ?thesis by blast
qed

text \<open>A phone that acknowledges nothing.\<close>

lemma ref_silent: "notifies_no_data ref_zephyr (\<lambda>s. s)"
  by (simp add: notifies_no_data_def)

theorem ble_sends_in_order_witness:
  "\<exists>r s' as. alfie_ble_service_write ref_zephyr (\<lambda>s. s) 0 (Some (replicate 300 1)) 300 ref_ble = Some (r, s') \<and>
     data_asked ref_zephyr s' = data_asked ref_zephyr ref_ble @ as \<and>
     sent_in_order (n_chunks 243 300) 4 (ble_tx_frame (fst (sys_rand16_get ref_zephyr (kern ref_ble)))
       (take 300 (replicate 300 1))) {r. r \<noteq> 0} r (accepted as)"
  using ble_sends_in_order[OF ref_sem_laws ref_notify_laws ref_rand_laws ref_silent, of ref_ble 1 300 "replicate 300 1" 0]
  by auto

text \<open>C23. Long messages cannot reach the phone: a notification carries at most the MTU less three bytes,
  and the host refuses longer ones. The service fills its frames up to the MTU, so a write of any
  message of more than 240 bytes fails at its first fragment, and nothing of it is notified.\<close>

theorem ble_long_message_never_sent:
  assumes "sem_laws Z" and "notify_laws Z" and "rand_laws Z"
    and refuses: "\<And>c d k. CONFIG_BT_L2CAP_TX_MTU - 3 < length d \<Longrightarrow> fst (bt_gatt_notify Z c d k) \<noteq> 0"
    and "bs_initialized (bsv s)" and "bs_conn (bsv s) = Some conn" and "240 < n" and "n \<le> 512" and "n \<le> length data"
  shows "\<exists>r s'. alfie_ble_service_write Z others dst (Some data) n s = Some (r, s') \<and> r \<noteq> 0 \<and>
     data_notified Z s' = data_notified Z s"
proof -
  let ?c = "ble_case_of Z others (\<lambda>s. True) data n s" and ?s = "s\<lparr>kern := snd (sys_rand16_get Z (kern s))\<rparr>"
  have pos: "0 < n" using assms(7) by simp
  have p: "bx_Z ?c = Z" "bx_fragments ?c = n_chunks 243 n" "length (bx_msg ?c) = n"
    using assms(9) by (simp_all add: ble_case_of_def bx_fragments_def)
  have frags: "0 < bx_fragments ?c" using pos p(2) by (simp add: n_chunks_def)
  obtain f where f: "next_fragment_ble (bx_msg ?c @ bx_rest ?c) (length (bx_msg ?c)) 0 (bx_first ?c) = Some f"
    "bx_prepared ?c 0 f"
    using bx_next[OF frags bx_first_usable] by blast
  obtain r k where n: "bt_gatt_notify Z (bs_conn (bsv s)) (bx_mark ?c 0) (kern (bx_reset ?c ?s)) = (r, k)" by fastforce
  have "length (bx_mark ?c 0) = 8 + min n 243"
    using p(3) by (simp add: bx_mark_def length_ble_tx_frame ble_frame_len_def chunk_def min.commute)
  then have r: "r \<noteq> 0"
    using refuses[of "bx_mark ?c 0" "bs_conn (bsv s)" "kern (bx_reset ?c ?s)"] assms(7) n
    by (simp add: CONFIG_BT_L2CAP_TX_MTU_def)
  have "bx_medium ?c 0 f (bx_reset ?c ?s) = Some (r, (bx_reset ?c ?s)\<lparr>kern := k\<rparr>)"
    using f(2) n p(1) by (simp add: bx_medium_def bx_prepared_def) (simp add: bx_reset_def)
  moreover have "[0..<bx_fragments ?c] = 0 # [1..<bx_fragments ?c]" using frags by (simp add: upt_conv_Cons)
  ultimately have w: "alfie_ble_service_write Z others dst (Some data) n s = Some (r, (bx_reset ?c ?s)\<lparr>kern := k\<rparr>)"
    using f(1) r unfolding ble_write_loop[OF assms(5,6) pos assms(8,9), where P = "\<lambda>s. True"] Let_def
    by (simp add: ALFIE_BLE_SERVICE_TX_ATTEMPTS_def eval_nat_numeral)
  have "data_asked Z (bx_reset ?c ?s) = data_asked Z s"
    using sem_view(2)[OF assms(1)] rand_data_asked[OF assms(3), of s] p(1) by (simp add: data_asked_def bx_reset_def)
  then have "data_notified Z ((bx_reset ?c ?s)\<lparr>kern := k\<rparr>) = data_notified Z s"
    using notify_view(1)[OF assms(2) n] r by (simp add: data_notified_def) (simp add: data_asked_def)
  with w r show ?thesis by blast
qed

theorem ble_long_message_never_sent_witness:
  "\<exists>r s'. alfie_ble_service_write ref_zephyr (\<lambda>s. s) 0 (Some (replicate 241 1)) 241 ref_ble = Some (r, s') \<and> r \<noteq> 0 \<and>
     data_notified ref_zephyr s' = data_notified ref_zephyr ref_ble"
  by (rule ble_long_message_never_sent[OF ref_sem_laws ref_notify_laws ref_rand_laws])
    (simp_all add: ref_zephyr_def split: if_splits)

end
