(* ===== verification/Message_Relay.thy ===== *)
theory Message_Relay
  imports App_Main Dect_Sending Ble_Sending
begin

text \<open>
  From a queued message to the other side: one turn of the router's thread in the running firmware.
  The two directions share one proof, the locale \<open>relay_side\<close>: what the router relies on when it
  writes to a transport is that the write returns, that it leaves alone whatever the transport and
  the other threads leave alone, and that it sends. The two transports provide it by the theorems of
  \<open>Dect_Sending\<close> and \<open>Ble_Sending\<close>.
\<close>

section \<open>The running firmware\<close>

definition dect_transport_obj :: alfie_transport_t where
  "dect_transport_obj = \<lparr>tr_api = Some \<lparr>api_write = Some Dect_transport_layer_write,
     api_register_rx_cb = Some Dect_transport_layer_register_rx_callback\<rparr>,
     tr_type = ALFIE_TRANSPORT_TYPE_DOWNSTREAM\<rparr>"

definition ble_transport_obj :: alfie_transport_t where
  "ble_transport_obj = \<lparr>tr_api = Some \<lparr>api_write = Some Alfie_ble_service_write,
     api_register_rx_cb = Some Alfie_ble_service_register_rx_callback\<rparr>,
     tr_type = ALFIE_TRANSPORT_TYPE_UPSTREAM\<rparr>"

definition messaging_endpoint_obj :: alfie_endpoint_t where
  "messaging_endpoint_obj = \<lparr>ep_on_frame_rx = Some Prv_handle_incoming_frame,
     ep_endpoint_id = ALFIE_MESSAGING_ENDPOINT_ENDPOINT_ID\<rparr>"

definition app_wired :: "'k zephyr \<Rightarrow> ('k, 'a) app_machine_scheme \<Rightarrow> bool" where
  "app_wired Z s \<longleftrightarrow> kv_slist (kview Z (kern s)) TransportsList = [DectTransport, BleTransport] \<and>
     kv_slist (kview Z (kern s)) EndpointsList = [MessagingEndpoint] \<and>
     dt_transport (dtl s) = dect_transport_obj \<and> bs_transport (bsv s) = ble_transport_obj \<and>
     endpoints_mem s MessagingEndpoint = messaging_endpoint_obj"

text \<open>The write function behind the transport of a side.\<close>

definition side_write ::
  "'k zephyr \<Rightarrow> (('k, 'a) app_machine_scheme \<Rightarrow> ('k, 'a) app_machine_scheme) \<Rightarrow> alfie_transport_type_t \<Rightarrow>
   u32 \<Rightarrow> u8 list option \<Rightarrow> nat \<Rightarrow> ('k, 'a) app_machine_scheme \<Rightarrow> (int \<times> ('k, 'a) app_machine_scheme) option" where
  "side_write Z others t = (case t of
     ALFIE_TRANSPORT_TYPE_DOWNSTREAM \<Rightarrow> dect_transport_layer_write Z others
   | ALFIE_TRANSPORT_TYPE_UPSTREAM \<Rightarrow> alfie_ble_service_write Z others)"

lemma write_each_wired:
  assumes "app_wired Z s" and "app_wired Z s1"
    and "buffer_header Z p s = Some hdr" and "buffer_data Z p s = Some d"
    and "side_write Z others t (ap_dst_id hdr) (Some d) (unat (tb_total_size_bytes (tb_at s p))) s = Some (r, s1)"
  shows "write_each Z (app_write Z others) t p (kv_slist (kview Z (kern s)) TransportsList) s = Some s1"
  using assms by (cases t)
    (simp_all add: app_wired_def dect_transport_obj_def ble_transport_obj_def side_write_def app_write_def)

section \<open>The endpoint\<close>

text \<open>What the endpoint logs of a message: the text of a text frame addressed to it, up to a zero.\<close>

definition text_of :: "u8 list \<Rightarrow> (u32 \<times> u32 \<times> u8 list) list" where
  "text_of msg = (case get_text_frame msg of None \<Rightarrow> []
     | Some f \<Rightarrow> let h = at_header f; a = am_alfie_header h in
         if ap_endpoint_id a = ALFIE_MESSAGING_ENDPOINT_ENDPOINT_ID \<and>
            am_frame_type h = ALFIE_MESSAGING_PROTO_FRAME_TYPE_TEXT
         then [(ap_src_id a, ap_dst_id a, takeWhile (\<lambda>b. b \<noteq> 0) (at_message f))] else [])"

lemma messaging_logs:
  assumes "buffer_data Z p s = Some msg" and "unat (tb_total_size_bytes (tb_at s p)) = length msg"
    and "get_alfie_header msg = Some hdr" and "ap_endpoint_id hdr = ALFIE_MESSAGING_ENDPOINT_ENDPOINT_ID"
  shows "prv_handle_incoming_frame Z p s = Some (s\<lparr>text_log := text_log s @ text_of msg\<rparr>)"
  using assms
  by (auto simp: prv_handle_incoming_frame_def prv_handle_text_frame_def text_of_def get_text_frame_def
      get_messaging_header_def print_bounded_def Let_def)

lemma notify_wired:
  assumes "app_wired Z s" and "buffer_data Z p s = Some msg"
    and "unat (tb_total_size_bytes (tb_at s p)) = length msg" and hdr: "get_alfie_header msg = Some hdr"
  shows "prv_notify_endpoint Z (app_frame Z) p s = Some (s\<lparr>text_log := text_log s @ text_of msg\<rparr>)"
proof (cases "ap_endpoint_id hdr = ALFIE_MESSAGING_ENDPOINT_ENDPOINT_ID")
  case True
  then show ?thesis using assms messaging_logs[OF assms(2-4) True]
    by (simp add: prv_notify_endpoint_def app_wired_def buffer_header_def messaging_endpoint_obj_def app_frame_def)
next
  case False
  then have "text_of msg = []"
    using hdr by (auto simp: text_of_def get_text_frame_def get_messaging_header_def Let_def
        split: option.splits if_splits)
  with False assms show ?thesis
    by (simp add: prv_notify_endpoint_def app_wired_def buffer_header_def messaging_endpoint_obj_def)
qed

section \<open>A message on its way\<close>

text \<open>The context \<open>p\<close> of pool \<open>inst\<close> holds the message, in buffer \<open>h\<close> and with one reference.\<close>

definition holds_message ::
  "'k zephyr \<Rightarrow> transport_buffer_pool_t \<Rightarrow> tb_ptr \<Rightarrow> nat \<Rightarrow> u8 list \<Rightarrow> ('k, 'a) machine_scheme \<Rightarrow> bool" where
  "holds_message Z inst p h msg s \<longleftrightarrow> pool_inv Z inst s \<and> p \<in> set (pool_ptrs inst) \<and>
     tb_state (tb_at s p) = TRANSPORT_BUFFER_STATE_REFERENCED \<and> tb_buffer (tb_at s p) = Some h \<and>
     unat (tb_total_size_bytes (tb_at s p)) = length msg \<and>
     bufs Z (kern s) h = Some \<lparr>nb_pool = pl_buffer_pool inst, nb_ref = 1, nb_data = msg\<rparr>"

lemma holds_message_cong:
  assumes "mem s' = mem s" and "bufs Z (kern s') = bufs Z (kern s)"
  shows "holds_message Z inst p h msg s' = holds_message Z inst p h msg s"
  using assms by (simp add: holds_message_def pool_inv_def tb_at_def)

text \<open>
  It waits in the router's queue \<open>q\<close>, \<open>ps\<close> behind it, and more may come. \<open>lg\<close> is what the endpoint
  has logged so far.
\<close>

definition in_transit ::
  "'k zephyr \<Rightarrow> transport_buffer_pool_t \<Rightarrow> fifo_id \<Rightarrow> tb_ptr list \<Rightarrow> tb_ptr \<Rightarrow> nat \<Rightarrow> u8 list \<Rightarrow>
   (u32 \<times> u32 \<times> u8 list) list \<Rightarrow> ('k, 'a) app_machine_scheme \<Rightarrow> bool" where
  "in_transit Z inst q ps p h msg lg s \<longleftrightarrow> app_wired Z s \<and> holds_message Z inst p h msg s \<and>
     (\<exists>more. kv_fifo (kview Z (kern s)) q = ps @ more) \<and> text_log s = lg"

lemma in_transit_data:
  assumes "in_transit Z inst q ps p h msg lg s"
  shows "buffer_data Z p s = Some msg" and "buffer_header Z p s = get_alfie_header msg"
  using assms by (simp_all add: in_transit_def holds_message_def buffer_data_def buffer_header_def nb_at_def)

lemma in_transit_cong:
  assumes "mem s' = mem s" and "dtl s' = dtl s" and "bsv s' = bsv s"
    and "endpoints_mem s' = endpoints_mem s" and "text_log s' = text_log s"
    and "bufs Z (kern s') = bufs Z (kern s)" and "kv_slist (kview Z (kern s')) = kv_slist (kview Z (kern s))"
    and "kv_fifo (kview Z (kern s')) = kv_fifo (kview Z (kern s))"
  shows "in_transit Z inst q ps p h msg lg s' = in_transit Z inst q ps p h msg lg s"
  using assms holds_message_cong[OF assms(1,6)] by (simp add: in_transit_def app_wired_def)

text \<open>The message after it was sent: logged, and its context and buffer given back.\<close>

definition passed_on ::
  "'k zephyr \<Rightarrow> transport_buffer_pool_t \<Rightarrow> fifo_id \<Rightarrow> tb_ptr list \<Rightarrow> tb_ptr \<Rightarrow> nat \<Rightarrow> u8 list \<Rightarrow>
   (u32 \<times> u32 \<times> u8 list) list \<Rightarrow> ('k, 'a) app_machine_scheme \<Rightarrow> bool" where
  "passed_on Z inst q ps p h msg lg s \<longleftrightarrow> app_wired Z s \<and> pool_inv Z inst s \<and>
     tb_state (tb_at s p) = TRANSPORT_BUFFER_STATE_FREE \<and> bufs Z (kern s) h = None \<and>
     (\<exists>more. kv_fifo (kview Z (kern s)) q = ps @ more) \<and> text_log s = lg @ text_of msg"

definition same_histories ::
  "'k zephyr \<Rightarrow> ('k, 'a) app_machine_scheme \<Rightarrow> ('k, 'a) app_machine_scheme \<Rightarrow> bool" where
  "same_histories Z s s' \<longleftrightarrow> kv_put (kview Z (kern s')) = kv_put (kview Z (kern s)) \<and>
     kv_notified (kview Z (kern s')) = kv_notified (kview Z (kern s)) \<and> dev_id s' = dev_id s"

lemma only_buffers_app:
  assumes "only_buffers s s'"
  shows "dtl s' = dtl s" "bsv s' = bsv s" "endpoints_mem s' = endpoints_mem s" "text_log s' = text_log s"
    "dev_id s' = dev_id s"
  using assms unfolding only_buffers_def by (cases s; cases s'; simp)+

text \<open>Dropping the last reference after the endpoint was notified.\<close>

lemma release_in_transit:
  assumes laws: "net_buf_laws Z cnt cap" and s: "in_transit Z inst q ps p h msg lg s"
  obtains s' where "transport_buffer_unref Z (Some p) (s\<lparr>text_log := lg @ text_of msg\<rparr>) = Some s'"
    and "passed_on Z inst q ps p h msg lg s'" and "same_histories Z s s'"
proof -
  let ?s = "s\<lparr>text_log := lg @ text_of msg\<rparr>"
  have st: "pool_inv Z inst ?s" "p \<in> set (pool_ptrs inst)" "tb_buffer (tb_at ?s p) = Some h"
    "bufs Z (kern ?s) h = Some \<lparr>nb_pool = pl_buffer_pool inst, nb_ref = 1, nb_data = msg\<rparr>"
    using s by (simp_all add: in_transit_def holds_message_def pool_inv_def tb_at_def)
  from unref_last[OF laws st] obtain s' where s': "transport_buffer_unref Z (Some p) ?s = Some s'"
    "pool_inv Z inst s'" "only_buffers ?s s'" "same_but_bufs (kview Z (kern ?s)) (kview Z (kern s'))"
    "tb_at s' p = release_ctx (tb_at ?s p)" "bufs Z (kern s') = (bufs Z (kern ?s))(h := None)" by auto
  note f = only_buffers_app[OF s'(3)]
  have "passed_on Z inst q ps p h msg lg s'"
    using s s'(2,4,5,6) f by (simp add: passed_on_def in_transit_def holds_message_def app_wired_def same_but_bufs_def release_ctx_def)
  moreover have "same_histories Z s s'"
    using s'(4) f(5) by (simp add: same_histories_def same_but_bufs_def)
  ultimately show ?thesis using s'(1) that by blast
qed

section \<open>The contract of a side\<close>

locale relay_side =
  fixes Z :: "'c \<Rightarrow> 'k zephyr"
    and others :: "'c \<Rightarrow> ('k, 'a) app_machine_scheme \<Rightarrow> ('k, 'a) app_machine_scheme"
    and side :: alfie_transport_type_t
    and sendable :: "'c \<Rightarrow> ('k, 'a) app_machine_scheme \<Rightarrow> bool"
    and keeps :: "'c \<Rightarrow> (('k, 'a) app_machine_scheme \<Rightarrow> bool) \<Rightarrow> bool"
    and sent :: "'c \<Rightarrow> u32 \<Rightarrow> u8 list \<Rightarrow> ('k, 'a) app_machine_scheme \<Rightarrow> ('k, 'a) app_machine_scheme \<Rightarrow> bool"
  assumes side_writes: "sendable c s \<Longrightarrow> keeps c P \<Longrightarrow> P s \<Longrightarrow> 0 < n \<Longrightarrow> n \<le> 512 \<Longrightarrow> n \<le> length d \<Longrightarrow>
      \<exists>r s'. side_write (Z c) (others c) side dst (Some d) n s = Some (r, s') \<and> P s' \<and> sent c dst (take n d) s s'"
    and sent_cong: "sent c dst msg s s' \<Longrightarrow> same_histories (Z c) s0 s \<Longrightarrow> same_histories (Z c) s' s1 \<Longrightarrow>
      sent c dst msg s0 s1"
    and dequeued: "sendable c s \<Longrightarrow> kview (Z c) k = (kview (Z c) (kern s))\<lparr>kv_fifo := f\<rparr> \<Longrightarrow>
      sendable c (s\<lparr>kern := k\<rparr>)"
begin

lemma forwards:
  assumes laws: "net_buf_laws (Z c) cnt cap" and s: "in_transit (Z c) inst q ps p h msg lg s"
    and hdr: "get_alfie_header msg = Some hdr" and len: "length msg \<le> 512"
    and c: "sendable c s" "keeps c (in_transit (Z c) inst q ps p h msg lg)"
  shows "\<exists>s'. forward_to side (Z c) (app_write (Z c) (others c)) (app_frame (Z c)) p s = Some s' \<and>
     passed_on (Z c) inst q ps p h msg lg s' \<and> sent c (ap_dst_id hdr) msg s s'"
proof -
  have n: "0 < length msg" using hdr by (cases msg) simp_all
  obtain r s1 where s1: "side_write (Z c) (others c) side (ap_dst_id hdr) (Some msg) (length msg) s = Some (r, s1)"
    "in_transit (Z c) inst q ps p h msg lg s1" "sent c (ap_dst_id hdr) msg s s1"
    using side_writes[OF c s n len order_refl, of "ap_dst_id hdr", unfolded take_all[OF order_refl]] by blast
  have wired: "app_wired (Z c) s" "app_wired (Z c) s1" using s s1(2) by (simp_all add: in_transit_def)
  have sz: "unat (tb_total_size_bytes (tb_at s p)) = length msg" "unat (tb_total_size_bytes (tb_at s1 p)) = length msg"
    "text_log s1 = lg" using s s1(2) by (simp_all add: in_transit_def holds_message_def)
  note d = in_transit_data[OF s] and d1 = in_transit_data[OF s1(2)]
  have w: "write_each (Z c) (app_write (Z c) (others c)) side p (kv_slist (kview (Z c) (kern s)) TransportsList) s = Some s1"
    by (rule write_each_wired[OF wired]) (use d hdr sz s1(1) in simp_all)
  have e: "prv_notify_endpoint (Z c) (app_frame (Z c)) p s1 = Some (s1\<lparr>text_log := lg @ text_of msg\<rparr>)"
    using notify_wired[OF wired(2) d1(1) sz(2) hdr] sz(3) by simp
  obtain s' where s': "transport_buffer_unref (Z c) (Some p) (s1\<lparr>text_log := lg @ text_of msg\<rparr>) = Some s'"
    "passed_on (Z c) inst q ps p h msg lg s'" "same_histories (Z c) s1 s'"
    by (rule release_in_transit[OF laws s1(2)])
  have "sent c (ap_dst_id hdr) msg s s'"
    by (rule sent_cong[OF s1(3) _ s'(3)]) (simp add: same_histories_def)
  with w e s' show ?thesis by (simp add: forward_to_def)
qed

lemma relays:
  assumes laws: "net_buf_laws (Z c) cnt cap" "fifo_laws (Z c)" "poll_laws (Z c)"
    and q: "(q, other, side) = (FromUpstreamFifo, FromDownstreamFifo, ALFIE_TRANSPORT_TYPE_DOWNSTREAM) \<or>
            (q, other, side) = (FromDownstreamFifo, FromUpstreamFifo, ALFIE_TRANSPORT_TYPE_UPSTREAM)"
    and s: "in_transit (Z c) inst q (p # ps) p h msg lg s" and none: "kv_fifo (kview (Z c) (kern s)) other = []"
    and hdr: "get_alfie_header msg = Some hdr" and len: "length msg \<le> 512"
    and c: "sendable c s" "keeps c (in_transit (Z c) inst q ps p h msg lg)"
  shows "\<exists>s'. prv_router_turn (Z c) (app_write (Z c) (others c)) (app_frame (Z c)) s = Some s' \<and>
     passed_on (Z c) inst q ps p h msg lg s' \<and> sent c (ap_dst_id hdr) msg s s'"
proof -
  obtain more where fifo: "kv_fifo (kview (Z c) (kern s)) q = p # (ps @ more)" using s by (auto simp: in_transit_def)
  obtain k where k: "kview (Z c) k = (kview (Z c) (kern s))\<lparr>kv_fifo := (kv_fifo (kview (Z c) (kern s)))(q := ps @ more)\<rparr>"
    "prv_router_turn (Z c) (app_write (Z c) (others c)) (app_frame (Z c)) s =
       forward_to side (Z c) (app_write (Z c) (others c)) (app_frame (Z c)) p (s\<lparr>kern := k\<rparr>)"
    by (rule router_turn_forwards[OF laws(2,3) q fifo none])
  have "in_transit (Z c) inst q ps p h msg lg (s\<lparr>kern := k\<rparr>)"
    using s by (auto simp: in_transit_def k(1) app_wired_def holds_message_def pool_inv_def tb_at_def)
  from forwards[OF laws(1) this hdr len dequeued[OF c(1) k(1)] c(2)] obtain s' where
    s': "forward_to side (Z c) (app_write (Z c) (others c)) (app_frame (Z c)) p (s\<lparr>kern := k\<rparr>) = Some s'"
    "passed_on (Z c) inst q ps p h msg lg s'" "sent c (ap_dst_id hdr) msg (s\<lparr>kern := k\<rparr>) s'" by blast
  have "sent c (ap_dst_id hdr) msg s s'"
    by (rule sent_cong[OF s'(3)]) (simp_all add: same_histories_def k(1))
  with s'(1,2) k(2) show ?thesis by auto
qed

end

section \<open>The two sides\<close>

record ('k, 'a) relay_case =
  rc_Z :: "'k zephyr"
  rc_others :: "('k, 'a) app_machine_scheme \<Rightarrow> ('k, 'a) app_machine_scheme"

text \<open>The radio can be written to.\<close>

definition radio_up :: "('k, 'a) relay_case \<Rightarrow> ('k, 'a) app_machine_scheme \<Rightarrow> bool" where
  "radio_up c s \<longleftrightarrow> sem_laws (rc_Z c) \<and> hwinfo_laws (rc_Z c) \<and> rand_laws (rc_Z c) \<and>
     msgq_laws (rc_Z c) DECT_LINK_LAYER_TX_MSG_QUEUE_DEPTH \<and> link_drains (rc_Z c) (rc_others c) \<and>
     li_initialized (ll s) \<and> dev_fetched s \<and> txq_room (rc_Z c) s \<and> dt_initialized (dtl s)"

definition sent_by_radio ::
  "('k, 'a) relay_case \<Rightarrow> u32 \<Rightarrow> u8 list \<Rightarrow> ('k, 'a) app_machine_scheme \<Rightarrow> ('k, 'a) app_machine_scheme \<Rightarrow> bool" where
  "sent_by_radio c dst msg s s' \<longleftrightarrow> (\<exists>r seq ms. data_puts (rc_Z c) s' = data_puts (rc_Z c) s @ ms \<and>
     sent_in_order (n_chunks 14 (length msg)) 4 (dect_tx_frame (dev_id s) dst seq msg) {} r ms)"

definition radio_keeps :: "('k, 'a) relay_case \<Rightarrow> (('k, 'a) app_machine_scheme \<Rightarrow> bool) \<Rightarrow> bool" where
  "radio_keeps c P \<longleftrightarrow> undisturbed (rc_Z c) (rc_others c) P"

text \<open>A phone is connected.\<close>

definition phone_up :: "('k, 'a) relay_case \<Rightarrow> ('k, 'a) app_machine_scheme \<Rightarrow> bool" where
  "phone_up c s \<longleftrightarrow> sem_laws (rc_Z c) \<and> notify_laws (rc_Z c) \<and> rand_laws (rc_Z c) \<and>
     notifies_no_data (rc_Z c) (rc_others c) \<and> bs_initialized (bsv s) \<and> bs_conn (bsv s) \<noteq> None"

text \<open>
  The host was asked to notify the fragments of the message, in order and each up to four times: all of
  them, or up to a fragment that was not acknowledged or that the host refused. At least one was asked for.
\<close>

definition sent_to_phone ::
  "('k, 'a) relay_case \<Rightarrow> u32 \<Rightarrow> u8 list \<Rightarrow> ('k, 'a) app_machine_scheme \<Rightarrow> ('k, 'a) app_machine_scheme \<Rightarrow> bool" where
  "sent_to_phone c dst msg s s' \<longleftrightarrow> (\<exists>r seq as. data_asked (rc_Z c) s' = data_asked (rc_Z c) s @ as \<and>
     sent_attempts (n_chunks 243 (length msg)) 4 (\<lambda>k. (ble_tx_frame seq msg k, 0)) (\<lambda>k r. [(ble_tx_frame seq msg k, r)])
       {r. r \<noteq> 0} r as)"

definition phone_keeps :: "('k, 'a) relay_case \<Rightarrow> (('k, 'a) app_machine_scheme \<Rightarrow> bool) \<Rightarrow> bool" where
  "phone_keeps c P \<longleftrightarrow> unnotified (rc_Z c) (rc_others c) P"

interpretation to_radio: relay_side rc_Z rc_others ALFIE_TRANSPORT_TYPE_DOWNSTREAM radio_up radio_keeps sent_by_radio
proof unfold_locales
  fix c :: "('a, 'b) relay_case" and s s' s0 s1 :: "('a, 'b) app_machine_scheme" and P n d dst msg k f
  show "\<exists>r s'. side_write (rc_Z c) (rc_others c) ALFIE_TRANSPORT_TYPE_DOWNSTREAM dst (Some d) n s = Some (r, s') \<and>
      P s' \<and> sent_by_radio c dst (take n d) s s'"
    if a: "radio_up c s" "radio_keeps c P" "P s" "0 < n" "n \<le> 512" "n \<le> length d"
  proof -
    have len: "length (take n d) = n" using a(6) by simp
    show ?thesis
      using dect_write_spec[of "rc_Z c" "rc_others c" s n d P dst] a
      unfolding radio_up_def radio_keeps_def side_write_def sent_by_radio_def len by simp blast
  qed
  show "sent_by_radio c dst msg s0 s1"
    if "sent_by_radio c dst msg s s'" "same_histories (rc_Z c) s0 s" "same_histories (rc_Z c) s' s1"
    using that by (simp add: sent_by_radio_def same_histories_def data_puts_def)
  show "radio_up c (s\<lparr>kern := k\<rparr>)" if "radio_up c s" "kview (rc_Z c) k = (kview (rc_Z c) (kern s))\<lparr>kv_fifo := f\<rparr>"
    using that by (simp add: radio_up_def txq_room_def)
qed

interpretation to_phone: relay_side rc_Z rc_others ALFIE_TRANSPORT_TYPE_UPSTREAM phone_up phone_keeps sent_to_phone
proof unfold_locales
  fix c :: "('a, 'b) relay_case" and s s' s0 s1 :: "('a, 'b) app_machine_scheme" and P n d dst msg k f
  show "\<exists>r s'. side_write (rc_Z c) (rc_others c) ALFIE_TRANSPORT_TYPE_UPSTREAM dst (Some d) n s = Some (r, s') \<and>
      P s' \<and> sent_to_phone c dst (take n d) s s'"
    if a: "phone_up c s" "phone_keeps c P" "P s" "0 < n" "n \<le> 512" "n \<le> length d"
  proof -
    have len: "length (take n d) = n" using a(6) by simp
    obtain conn where "bs_conn (bsv s) = Some conn" using a(1) by (auto simp: phone_up_def)
    then show ?thesis
      using ble_write_attempts[of "rc_Z c" "rc_others c" s conn n d P dst] a
      unfolding phone_up_def phone_keeps_def side_write_def sent_to_phone_def len by simp blast
  qed
  show "sent_to_phone c dst msg s0 s1"
    if "sent_to_phone c dst msg s s'" "same_histories (rc_Z c) s0 s" "same_histories (rc_Z c) s' s1"
    using that by (simp add: sent_to_phone_def same_histories_def data_asked_def)
  show "phone_up c (s\<lparr>kern := k\<rparr>)" if "phone_up c s" "kview (rc_Z c) k = (kview (rc_Z c) (kern s))\<lparr>kv_fifo := f\<rparr>"
    using that by (simp add: phone_up_def)
qed

section \<open>From the last fragment to the queue\<close>

text \<open>
  When a transport hands a complete message to the router and drops its reference, the message ends
  up at the end of the queue of its side, held by the queue's reference alone.
\<close>

lemma handler_queues:
  assumes laws: "net_buf_laws Z cnt cap" "fifo_laws Z" and inv: "pool_inv Z inst s"
    and complete: "assembled Z inst tf s p"
    and t: "transport_at s n = Some t" and size: "10 \<le> length (tf_msg tf)"
    and run: "deliver_release Z (prv_handle_transport_rx Z n) p s = Some s'"
  shows "s' = s\<lparr>kern := kern s'\<rparr> \<and> (\<exists>h. holds_message Z inst p h (tf_msg tf) s') \<and>
     kv_fifo (kview Z (kern s')) = (kv_fifo (kview Z (kern s)))
       (fifo_of (tr_type t) := kv_fifo (kview Z (kern s)) (fifo_of (tr_type t)) @ [p]) \<and>
     kv_slist (kview Z (kern s')) = kv_slist (kview Z (kern s)) \<and>
     kv_txq (kview Z (kern s')) = kv_txq (kview Z (kern s))"
proof -
  obtain h nb where p: "p \<in> set (pool_ptrs inst)" "tb_state (tb_at s p) = TRANSPORT_BUFFER_STATE_REFERENCED"
    "tb_buffer (tb_at s p) = Some h" "bufs Z (kern s) h = Some nb" "nb_ref nb = 1" "nb_data nb = tf_msg tf"
    "unat (tb_total_size_bytes (tb_at s p)) = length (tf_msg tf)"
    using complete unfolding assembled_def by blast
  have "ctx_ok (pl_buffer_pool inst) (bufs Z (kern s)) (tb_at s p)"
    using pool_okD(2)[OF inv[unfolded pool_inv_def] p(1)] by (simp add: tb_at_def)
  then have nbp: "nb_pool nb = pl_buffer_pool inst"
    using p(2-4) by (auto elim!: ctx_ok_buffer)
  have sz: "10 \<le> unat (tb_total_size_bytes (tb_at s p))" using size p(7) by simp
  obtain s1 where s1: "prv_handle_transport_rx Z n p s = Some s1" "pool_inv Z inst s1" "s1 = s\<lparr>kern := kern s1\<rparr>"
    "kview Z (kern s1) = (kview Z (kern s))\<lparr>kv_bufs := (bufs Z (kern s))(h \<mapsto> nb\<lparr>nb_ref := nb_ref nb + 1\<rparr>),
       kv_fifo := (kv_fifo (kview Z (kern s)))
         (fifo_of (tr_type t) := kv_fifo (kview Z (kern s)) (fifo_of (tr_type t)) @ [p])\<rparr>"
    by (rule router_rx_queues[OF laws inv p(1-4) t sz]) blast
  have m1: "mem s1 = mem s" using arg_cong[OF s1(3), of mem] by simp
  have h1: "tb_buffer (tb_at s1 p) = Some h" "bufs Z (kern s1) h = Some (nb\<lparr>nb_ref := 2\<rparr>)"
    using p(3,5) m1 s1(4) by (simp_all add: tb_at_def)
  obtain s2 where s2: "transport_buffer_unref Z (Some p) s1 = Some s2" "pool_inv Z inst s2"
    "s2 = s1\<lparr>kern := kern s2\<rparr>" "same_but_bufs (kview Z (kern s1)) (kview Z (kern s2))"
    "bufs Z (kern s2) = (bufs Z (kern s1))(h \<mapsto> (nb\<lparr>nb_ref := 2\<rparr>)\<lparr>nb_ref := nb_ref (nb\<lparr>nb_ref := 2\<rparr>) - 1\<rparr>)"
    by (rule unref_shared[OF laws(1) s1(2) p(1) h1]) simp_all
  have eq: "s2 = s'" using run s1(1) s2(1) by (simp add: deliver_release_def)
  note s2' = s2[unfolded eq]
  have m: "mem s' = mem s" using arg_cong[OF s2'(3), of mem] m1 by simp
  have "holds_message Z inst p h (tf_msg tf) s'"
    using p m s2'(2,5) nbp by (cases nb) (simp add: holds_message_def tb_at_def)
  moreover have "s' = s\<lparr>kern := kern s'\<rparr>"
    using arg_cong[OF s1(3), of "\<lambda>x. x\<lparr>kern := kern s'\<rparr>"] s2'(3) by simp
  ultimately show ?thesis using s2'(4) s1(4) by (auto simp: same_but_bufs_def)
qed

section \<open>What the other threads leave alone\<close>

text \<open>While the router writes, the other threads leave a message in transit as it is.\<close>

definition others_keep ::
  "'k zephyr \<Rightarrow> (('k, 'a) app_machine_scheme \<Rightarrow> ('k, 'a) app_machine_scheme) \<Rightarrow> transport_buffer_pool_t \<Rightarrow>
   fifo_id \<Rightarrow> bool" where
  "others_keep Z others inst q \<longleftrightarrow> (\<forall>ps p h msg lg s.
     in_transit Z inst q ps p h msg lg s \<longrightarrow> in_transit Z inst q ps p h msg lg (others s))"

lemma radio_only_app:
  assumes "radio_only Z s s'"
  shows "mem s' = mem s" "dtl s' = dtl s" "bsv s' = bsv s" "endpoints_mem s' = endpoints_mem s"
    "text_log s' = text_log s" "bufs Z (kern s') = bufs Z (kern s)"
    "kv_slist (kview Z (kern s')) = kv_slist (kview Z (kern s))"
    "kv_fifo (kview Z (kern s')) = kv_fifo (kview Z (kern s))"
  using assms unfolding radio_only_def by (cases s; cases s'; auto)+

lemma notify_only_app:
  assumes "notify_only Z s s'"
  shows "mem s' = mem s" "dtl s' = dtl s" "bsv s' = bsv s" "endpoints_mem s' = endpoints_mem s"
    "text_log s' = text_log s" "bufs Z (kern s') = bufs Z (kern s)"
    "kv_slist (kview Z (kern s')) = kv_slist (kview Z (kern s))"
    "kv_fifo (kview Z (kern s')) = kv_fifo (kview Z (kern s))"
  using assms unfolding notify_only_def by (cases s; cases s'; auto)+

lemma in_transit_kept:
  assumes "others_keep Z others inst q"
  shows "undisturbed Z others (in_transit Z inst q ps p h msg lg)"
    and "unnotified Z others (in_transit Z inst q ps p h msg lg)"
proof -
  have "in_transit Z inst q ps p h msg lg s'" if "in_transit Z inst q ps p h msg lg s" "radio_only Z s s'" for s s'
    using in_transit_cong[OF radio_only_app[OF that(2)]] that(1) by blast
  then show "undisturbed Z others (in_transit Z inst q ps p h msg lg)"
    using assms unfolding undisturbed_def others_keep_def by blast
  have "in_transit Z inst q ps p h msg lg s'" if "in_transit Z inst q ps p h msg lg s" "notify_only Z s s'" for s s'
    using in_transit_cong[OF notify_only_app[OF that(2)]] that(1) by blast
  then show "unnotified Z others (in_transit Z inst q ps p h msg lg)"
    using assms unfolding unnotified_def others_keep_def by blast
qed

end
