(* ===== verification/Steady_Reception.thy ===== *)
theory Steady_Reception
  imports Message_Relay
begin

text \<open>
  What the two receive paths leave alone while the fragments of a message arrive: the interpretations
  of \<open>steady_receiver\<close>. A case is a case of reception together with the property that is kept.
\<close>

section \<open>From the phone\<close>

text \<open>
  The property does not depend on what a write of the phone changes, and what happens between two writes
  keeps it.
\<close>

definition bl_keeps ::
  "('k, 'a) ble_case \<Rightarrow> (('k, 'a) ble_machine_scheme \<Rightarrow> bool) \<Rightarrow> bool" where
  "bl_keeps c P \<longleftrightarrow>
     (\<forall>s s'. P s \<and> only_rx s s' \<and> same_but_bufs (kview (bl_Z c) (kern s)) (kview (bl_Z c) (kern s')) \<longrightarrow> P s') \<and>
     (\<forall>s s'. P s \<and> notify_only (bl_Z c) s s' \<longrightarrow> P s') \<and> (\<forall>s. P s \<longrightarrow> P (bl_between c s))"

lemma bl_keepsD:
  assumes "bl_keeps c P" and "P s"
  shows "only_rx s s' \<Longrightarrow> same_but_bufs (kview (bl_Z c) (kern s)) (kview (bl_Z c) (kern s')) \<Longrightarrow> P s'"
    and "notify_only (bl_Z c) s s' \<Longrightarrow> P s'" and "P (bl_between c s)"
  using assms unfolding bl_keeps_def by blast+

lemma bl_ack_notify_only:
  assumes "notify_laws (bl_Z c)" and "bl_ack c h s = Some s'"
  shows "notify_only (bl_Z c) s s'"
proof -
  let ?a = "put_ble_data_ack_frame \<lparr>ba_header = \<lparr>bh_version = 0,
      bh_frame_type = ALFIE_BLE_SERVICE_PROTO_FRAME_TYPE_DATA_ACK\<rparr>, ba_seq_id = bd_seq_id h, ba_frag_idx = bd_frag_idx h\<rparr>"
  obtain r k where n: "bt_gatt_notify (bl_Z c) (bs_conn (bsv s)) ?a (kern s) = (r, k)" by fastforce
  have "s' = s\<lparr>kern := k\<rparr>" using assms(2) by (simp add: bl_ack_def prv_write_data_ack_ble_def n)
  moreover have "notify_only (bl_Z c) s (s\<lparr>kern := k\<rparr>)"
    by (rule notify_only_kern[where sem = "kv_sem (kview (bl_Z c) (kern s))"]) (simp add: notify_view(1)[OF assms(1) n])
  ultimately show ?thesis by simp
qed

lemma bl_rest_notify_only:
  assumes sem: "sem_laws (bl_Z c)" and ok: "ble_frame_ok (buf, n)" and none: "ble_frame_frag (buf, n) = None"
    and run: "bl_rx_frame c (buf, n) s = Some s'"
  shows "notify_only (bl_Z c) s s'"
proof -
  have refl: "notify_only (bl_Z c) s s"
    unfolding notify_only_def by (auto intro!: exI[of _ "kv_sem (kview (bl_Z c) (kern s))"]
        exI[of _ "kv_notified (kview (bl_Z c) (kern s))"])
  have ack: "notify_only (bl_Z c) s (s\<lparr>kern := k_sem_give (bl_Z c) BleAckSem (kern s)\<rparr>)"
    by (rule notify_only_kern[where ns = "kv_notified (kview (bl_Z c) (kern s))"]) (simp add: sem_view(3)[OF sem])
  from bl_rest_cases[OF ok none, where c = c and s = s] show ?thesis
    by (cases) (use run refl ack in auto)
qed

interpretation ble_steady: steady_receiver "\<lambda>x. bl_env (fst x)" "\<lambda>x. bl_Z (fst x)" "\<lambda>x. bl_cnt (fst x)" "\<lambda>x. bl_cap (fst x)"
  "\<lambda>x. ble_pool (bl_Z (fst x))" "\<lambda>x. bl_ready (fst x)" "\<lambda>x. bl_ready (fst x)" "\<lambda>x. bl_ack (fst x)"
  "\<lambda>x. ble_callback (bl_call_cb (fst x)) (bl_callback (fst x))"
  "\<lambda>x. prv_handle_complete_incoming_data_transaction_ble (bl_Z (fst x)) (bl_call_cb (fst x))"
  "\<lambda>x. ble_frame_ok" ble_frame_frag "\<lambda>x. bl_rx_frame (fst x)" "\<lambda>x. bl_valid (fst x) \<and> bl_keeps (fst x) (snd x)"
  "\<lambda>x. bl_transfer (fst x)" "\<lambda>x. bl_event (fst x)" "\<lambda>x. bl_between (fst x)" snd
proof unfold_locales
  fix x :: "('a, 'b) ble_case \<times> (('a, 'b) ble_machine_scheme \<Rightarrow> bool)" and s s' h and e :: "u8 list \<times> nat"
  assume x: "bl_valid (fst x) \<and> bl_keeps (fst x) (snd x)" and P: "snd x s"
  note k = bl_keepsD[OF conjunct2[OF x], OF P]
  have env: "sem_laws (bl_Z (fst x))" "notify_laws (bl_Z (fst x))"
    using bl_validD(1)[OF conjunct1[OF x]] by (simp_all add: bl_env_def ble_env_def)
  show "snd x s'" if "only_rx s s'" "same_but_bufs (kview (bl_Z (fst x)) (kern s)) (kview (bl_Z (fst x)) (kern s'))"
    by (rule k(1)[OF that])
  show "snd x s'" if "bl_ack (fst x) h s = Some s'" by (rule k(2)[OF bl_ack_notify_only[OF env(2) that]])
  show "snd x s'" if "ble_frame_ok e" "ble_frame_frag e = None" "bl_rx_frame (fst x) e s = Some s'"
    by (cases e) (use that in \<open>blast intro: k(2) bl_rest_notify_only[OF env(1)]\<close>)
  show "snd x (bl_between (fst x) s)" by (rule k(3))
qed ((drule conjunct1)?, (rule ble_rx.clock ble_rx.net_buf ble_rx.fits ble_rx.consumer ble_rx.settled_inv ble_rx.ready_settled
    ble_rx.ready_rx ble_rx.settled_buffers ble_rx.acks ble_rx.handles ble_rx.frag_ok ble_rx.data ble_rx.rest ble_rx.valid_env
    ble_rx.valid_tf ble_rx.valid_query ble_rx.ev_ok ble_rx.ev_frag ble_rx.drains; assumption))+

text \<open>A frame the service takes that carries no fragment, such as an ACK; the run of a reception that keeps \<open>P\<close>.\<close>

definition bl_plain :: "u8 list \<times> nat \<Rightarrow> bool" where
  "bl_plain e \<longleftrightarrow> ble_frame_ok e \<and> ble_frame_frag e = None"

lemma ble_steady_feed:
  assumes "bl_valid c" and "bl_keeps c P" and "bl_ready c s" and "P s"
    and "received (bl_Z c) (ble_pool (bl_Z c)) (bl_transfer c) 0 s"
    and "expect 0 evs = Some m" and "Suc m = tf_n (bl_transfer c)"
    and "\<And>e. Inl e \<in> set evs \<Longrightarrow> bl_plain e"
  shows "\<exists>s'. feed (bl_other c) (bl_rx c) evs s = Some s' \<and>
     delivered_from (bl_Z c) (ble_pool (bl_Z c)) (bl_transfer c) (bl_ready c) P
       (prv_handle_complete_incoming_data_transaction_ble (bl_Z c) (bl_call_cb c)) (bl_between c) (bl_rx c m s')"
  using ble_steady.steadily.reassembles[of "(c, P)" s evs m] assms
  by (simp add: bl_other_def[abs_def] bl_rx_def[abs_def] steady_def bl_plain_def)

section \<open>From the radio\<close>

definition dc_keeps ::
  "('k, 'a) dect_case \<Rightarrow> (('k, 'a) dect_machine_scheme \<Rightarrow> bool) \<Rightarrow> bool" where
  "dc_keeps c P \<longleftrightarrow>
     (\<forall>s s'. P s \<and> only_rx s s' \<and> same_but_bufs (kview (dc_Z c) (kern s)) (kview (dc_Z c) (kern s')) \<longrightarrow> P s') \<and>
     (\<forall>s s'. P s \<and> radio_only (dc_Z c) s s' \<longrightarrow> P s')"

lemma dc_keepsD:
  assumes "dc_keeps c P" and "P s"
  shows "only_rx s s' \<Longrightarrow> same_but_bufs (kview (dc_Z c) (kern s)) (kview (dc_Z c) (kern s')) \<Longrightarrow> P s'"
    and "radio_only (dc_Z c) s s' \<Longrightarrow> P s'"
  using assms unfolding dc_keeps_def by blast+

lemma dc_ack_radio_only:
  assumes env: "dc_env c" and ready: "dc_ready c s" and ack: "dc_ack c h s = Some s'"
  shows "radio_only (dc_Z c) s s'"
proof -
  note e = dect_envD[OF dc_envD(1)[OF env]]
  obtain dst d where h: "h = (dst, d)" by (cases h)
  have i: "li_initialized (ll s)" "txq_room (dc_Z c) s"
    using ready env by (auto simp: dc_ready_def dc_holds_def dc_env_def txq_room_def)
  obtain s2 m where s2: "prv_write_data_ack_dect (dc_Z c) dst d s = Some s2" "only_dev s s2" "dev_fetched s2"
    "kview (dc_Z c) (kern s2) = (kview (dc_Z c) (kern s))\<lparr>kv_txq := kv_txq (kview (dc_Z c) (kern s)) @ [m],
       kv_put := kv_put (kview (dc_Z c) (kern s)) @ [m]\<rparr>" "dev_fetched s \<Longrightarrow> dev_id s2 = dev_id s"
    by (rule ack_spec_dect[OF e(4,5) i, of dst d]) blast
  have "s2 = s'" using ack s2(1) by (simp add: dc_ack_def h)
  moreover have "kview (dc_Z c) (kern s2) = (kview (dc_Z c) (kern s))\<lparr>kv_sem := kv_sem (kview (dc_Z c) (kern s)),
      kv_txq := kv_txq (kview (dc_Z c) (kern s)) @ [m], kv_put := kv_put (kview (dc_Z c) (kern s)) @ [m]\<rparr>"
    using s2(4) by simp
  ultimately show ?thesis using s2(2,3,5) unfolding radio_only_def only_dev_def by blast
qed

lemma dc_rest_radio_only:
  assumes sem: "sem_laws (dc_Z c)" and ok: "dect_frame_ok buf n" and none: "dect_frame_frag (src, buf, n) = None"
    and run: "dc_rx_frame c (src, buf, n) s = Some s'"
  shows "radio_only (dc_Z c) s s'"
proof -
  let ?v = "kview (dc_Z c) (kern s)"
  have "radio_only (dc_Z c) s (s\<lparr>kern := kern s\<rparr>)"
    by (rule radio_only_kern[where sem = "kv_sem ?v" and q = "kv_txq ?v" and put = "kv_put ?v"]) simp
  then have refl: "radio_only (dc_Z c) s s" by simp
  have ack: "radio_only (dc_Z c) s (prv_handle_data_ack_frame_dect (dc_Z c) buf n s)"
    unfolding prv_handle_data_ack_frame_dect_def
    by (rule radio_only_kern[where q = "kv_txq ?v" and put = "kv_put ?v"]) (simp add: sem_view(3)[OF sem])
  show ?thesis by (rule dc_rest_cases[OF ok none, of c s]) (use run refl ack in auto)
qed

lemma drains_radio_only:
  assumes "drains Z d"
  shows "radio_only Z s (d s)"
proof -
  have d: "d s = s\<lparr>kern := kern (d s)\<rparr>" "kview Z (kern (d s)) = (kview Z (kern s))\<lparr>kv_txq := []\<rparr>"
    using assms unfolding drains_def by blast+
  have "radio_only Z s (s\<lparr>kern := kern (d s)\<rparr>)"
    by (rule radio_only_kern[where sem = "kv_sem (kview Z (kern s))" and put = "kv_put (kview Z (kern s))"]) (simp add: d(2))
  with d(1) show ?thesis by simp
qed

interpretation dect_steady: steady_receiver "\<lambda>x. dc_env (fst x)" "\<lambda>x. dc_Z (fst x)" "\<lambda>x. dc_cnt (fst x)" "\<lambda>x. dc_cap (fst x)"
  "\<lambda>x. dect_pool (dc_Z (fst x))" "\<lambda>x. dc_ready (fst x)" "\<lambda>x. dc_settled (fst x)" "\<lambda>x. dc_ack (fst x)"
  "\<lambda>x. dect_callback (dc_call_cb (fst x)) (dt_transport_rx_callback (dc_state (fst x)))"
  "\<lambda>x. prv_handle_complete_incoming_data_transaction_dect (dc_Z (fst x)) (dc_call_cb (fst x))"
  "\<lambda>x (src, buf, n). dect_frame_ok buf n" dect_frame_frag "\<lambda>x. dc_rx_frame (fst x)"
  "\<lambda>x. dc_valid (fst x) \<and> dc_keeps (fst x) (snd x)"
  "\<lambda>x. dc_transfer (fst x)" "\<lambda>x. dc_event (fst x)" "\<lambda>x. dc_drain (fst x)" snd
proof unfold_locales
  fix x :: "('a, 'b) dect_case \<times> (('a, 'b) dect_machine_scheme \<Rightarrow> bool)" and s s' h and e :: "u32 \<times> u8 list \<times> nat"
  assume x: "dc_valid (fst x) \<and> dc_keeps (fst x) (snd x)" and P: "snd x s"
  note k = dc_keepsD[OF conjunct2[OF x], OF P]
  note v = dc_validD[OF conjunct1[OF x]]
  note sem = dect_envD(3)[OF dc_envD(1)[OF v(2)]]
  show "snd x s'" if "only_rx s s'" "same_but_bufs (kview (dc_Z (fst x)) (kern s)) (kview (dc_Z (fst x)) (kern s'))"
    by (rule k(1)[OF that])
  show "snd x s'" if "dc_ready (fst x) s" "dc_ack (fst x) h s = Some s'" by (rule k(2)[OF dc_ack_radio_only[OF v(2) that]])
  show "snd x s'" if "case e of (src, buf, n) \<Rightarrow> dect_frame_ok buf n" "dect_frame_frag e = None" "dc_rx_frame (fst x) e s = Some s'"
    by (cases e) (use that in \<open>auto intro: k(2) dc_rest_radio_only[OF sem]\<close>)
  show "snd x (dc_drain (fst x) s)" by (rule k(2)[OF drains_radio_only[OF v(3)]])
qed ((drule conjunct1)?, (rule dect_rx.clock dect_rx.net_buf dect_rx.fits dect_rx.consumer dect_rx.settled_inv
    dect_rx.ready_settled dect_rx.ready_rx dect_rx.settled_buffers dect_rx.acks dect_rx.handles dect_rx.frag_ok dect_rx.data
    dect_rx.rest dect_rx.valid_env dect_rx.valid_tf dect_rx.valid_query dect_rx.ev_ok dect_rx.ev_frag dect_rx.drains; assumption))+

definition dc_plain :: "u32 \<times> u8 list \<times> nat \<Rightarrow> bool" where
  "dc_plain e \<longleftrightarrow> (case e of (src, buf, n) \<Rightarrow> dect_frame_ok buf n) \<and> dect_frame_frag e = None"

lemma dect_steady_feed:
  assumes "dc_valid c" and "dc_keeps c P" and "dc_ready c s" and "P s"
    and "received (dc_Z c) (dect_pool (dc_Z c)) (dc_transfer c) 0 s"
    and "expect 0 evs = Some m" and "Suc m = tf_n (dc_transfer c)"
    and "\<And>e. Inl e \<in> set evs \<Longrightarrow> dc_plain e"
  shows "\<exists>s'. feed (dc_other c) (dc_rx c) evs s = Some s' \<and>
     delivered_from (dc_Z c) (dect_pool (dc_Z c)) (dc_transfer c) (dc_settled c) P
       (prv_handle_complete_incoming_data_transaction_dect (dc_Z c) (dc_call_cb c)) (dc_drain c) (dc_rx c m s')"
  using dect_steady.steadily.reassembles[of "(c, P)" s evs m] assms
  by (simp add: dc_other_def[abs_def] dc_rx_def[abs_def] steady_def dc_plain_def)

section \<open>The background\<close>

text \<open>
  Everything the rest of the firmware does between two frames: the link thread sends what is queued
  and fills its frame buffer, the kernel counts time and semaphores, phones connect and disconnect,
  the advertising is renewed. It leaves the messages and the router's queues alone.
\<close>

definition background :: "'k zephyr \<Rightarrow> ('k, 'a) app_machine_scheme \<Rightarrow> ('k, 'a) app_machine_scheme \<Rightarrow> bool" where
  "background Z s s' \<longleftrightarrow>
     s' = s\<lparr>kern := kern s', ll := ll s', bcore := bcore s', ctl := ctl s', bsv := (bsv s)\<lparr>bs_conn := bs_conn (bsv s')\<rparr>\<rparr> \<and>
     li_initialized (ll s') = li_initialized (ll s) \<and> bufs Z (kern s') = bufs Z (kern s) \<and>
     kv_slist (kview Z (kern s')) = kv_slist (kview Z (kern s)) \<and> kv_fifo (kview Z (kern s')) = kv_fifo (kview Z (kern s))"

end
