(* ===== verification/End_To_End.thy ===== *)
theory End_To_End
  imports Steady_Reception
begin

text \<open>
  The whole path of a message through the firmware: from the frames of one transport, through the
  reassembly of its driver, the router's queue and the router's thread, to the frames of the other.
\<close>

section \<open>The end of a reception\<close>

text \<open>Nothing waits in the router's queues, and the endpoint has logged \<open>lg\<close>.\<close>

definition quiet_router :: "'k zephyr \<Rightarrow> (u32 \<times> u32 \<times> u8 list) list \<Rightarrow> ('k, 'a) app_machine_scheme \<Rightarrow> bool" where
  "quiet_router Z lg s \<longleftrightarrow> app_wired Z s \<and> kv_fifo (kview Z (kern s)) FromUpstreamFifo = [] \<and>
     kv_fifo (kview Z (kern s)) FromDownstreamFifo = [] \<and> text_log s = lg"

text \<open>The message is alone in the queue of its side, in the context \<open>p\<close>.\<close>

definition queued_alone ::
  "'k zephyr \<Rightarrow> transport_buffer_pool_t \<Rightarrow> fifo_id \<Rightarrow> u8 list \<Rightarrow> ('k, 'a) machine_scheme \<Rightarrow> tb_ptr \<Rightarrow> nat \<Rightarrow> bool" where
  "queued_alone Z inst q msg s p h \<longleftrightarrow> holds_message Z inst p h msg s \<and> kv_fifo (kview Z (kern s)) q = [p]"

lemma quiet_router_cong:
  assumes "dtl s' = dtl s" and "bs_transport (bsv s') = bs_transport (bsv s)" and "endpoints_mem s' = endpoints_mem s"
    and "text_log s' = text_log s" and "kv_slist (kview Z (kern s')) = kv_slist (kview Z (kern s))"
    and "kv_fifo (kview Z (kern s')) = kv_fifo (kview Z (kern s))"
  shows "quiet_router Z lg s' = quiet_router Z lg s"
  using assms by (simp add: quiet_router_def app_wired_def)

lemma background_app:
  assumes "background Z s s'"
  shows "mem s' = mem s" "dtl s' = dtl s" "endpoints_mem s' = endpoints_mem s" "text_log s' = text_log s"
    "dev_fetched s' = dev_fetched s" "dev_id s' = dev_id s" "bs_transport (bsv s') = bs_transport (bsv s)"
    "bs_initialized (bsv s') = bs_initialized (bsv s)" "li_initialized (ll s') = li_initialized (ll s)"
    "bufs Z (kern s') = bufs Z (kern s)" "kv_slist (kview Z (kern s')) = kv_slist (kview Z (kern s))"
    "kv_fifo (kview Z (kern s')) = kv_fifo (kview Z (kern s))"
proof -
  have e: "s' = s\<lparr>kern := kern s', ll := ll s', bcore := bcore s', ctl := ctl s', bsv := (bsv s)\<lparr>bs_conn := bs_conn (bsv s')\<rparr>\<rparr>"
    using assms by (simp add: background_def)
  show "mem s' = mem s" by (rule trans[OF arg_cong[OF e, of mem]]) simp
  show "dtl s' = dtl s" by (rule trans[OF arg_cong[OF e, of dtl]]) simp
  show "endpoints_mem s' = endpoints_mem s" by (rule trans[OF arg_cong[OF e, of endpoints_mem]]) simp
  show "text_log s' = text_log s" by (rule trans[OF arg_cong[OF e, of text_log]]) simp
  show "dev_fetched s' = dev_fetched s" by (rule trans[OF arg_cong[OF e, of dev_fetched]]) simp
  show "dev_id s' = dev_id s" by (rule trans[OF arg_cong[OF e, of dev_id]]) simp
  show "bs_transport (bsv s') = bs_transport (bsv s)" by (rule trans[OF arg_cong[OF e, of "\<lambda>s. bs_transport (bsv s)"]]) simp
  show "bs_initialized (bsv s') = bs_initialized (bsv s)" by (rule trans[OF arg_cong[OF e, of "\<lambda>s. bs_initialized (bsv s)"]]) simp
qed (use assms in \<open>simp_all add: background_def\<close>)

lemma only_rx_app:
  assumes "only_rx s s'"
  shows "dtl s' = dtl s" "bsv s' = bsv s" "endpoints_mem s' = endpoints_mem s" "text_log s' = text_log s"
    "ll s' = ll s" "dev_fetched s' = dev_fetched s"
  using assms unfolding only_rx_def by (cases s; cases s'; simp)+

text \<open>What no reception by the one driver touches of the other driver and of the router.\<close>

lemma phone_reception_keeps:
  assumes between: "\<And>s. background (bl_Z c) s (bl_between c s)"
    and room: "\<And>s. txq_room (bl_Z c) s \<Longrightarrow> txq_room (bl_Z c) (bl_between c s)" and r: "rc_Z r = bl_Z c"
  shows "bl_keeps c (\<lambda>s. quiet_router (bl_Z c) lg s \<and> radio_up r s)"
proof -
  have up: "radio_up r s'" if "radio_up r s" "dtl s' = dtl s" "li_initialized (ll s') = li_initialized (ll s)"
    "dev_fetched s' = dev_fetched s" "txq_room (bl_Z c) s \<Longrightarrow> txq_room (bl_Z c) s'" for s s'
    using that by (simp add: radio_up_def r)
  have "quiet_router (bl_Z c) lg s' \<and> radio_up r s'"
    if "quiet_router (bl_Z c) lg s \<and> radio_up r s" "only_rx s s'" "same_but_bufs (kview (bl_Z c) (kern s)) (kview (bl_Z c) (kern s'))"
    for s s'
    using that only_rx_app[OF that(2)] up[of s s'] quiet_router_cong[of s' s "bl_Z c" lg] by (simp add: same_but_bufs_def txq_room_def)
  moreover have "quiet_router (bl_Z c) lg s' \<and> radio_up r s'"
    if s: "quiet_router (bl_Z c) lg s \<and> radio_up r s" and n: "notify_only (bl_Z c) s s'" for s s'
  proof -
    have "ll s' = ll s" "dev_fetched s' = dev_fetched s" "kv_txq (kview (bl_Z c) (kern s')) = kv_txq (kview (bl_Z c) (kern s))"
      using n unfolding notify_only_def by (cases s; cases s'; auto)+
    with s notify_only_app[OF n] up[of s s'] quiet_router_cong[of s' s "bl_Z c" lg] show ?thesis by (simp add: txq_room_def)
  qed
  moreover have "quiet_router (bl_Z c) lg (bl_between c s) \<and> radio_up r (bl_between c s)"
    if "quiet_router (bl_Z c) lg s \<and> radio_up r s" for s
    using that background_app[OF between[of s]] up[of s "bl_between c s"] quiet_router_cong[of "bl_between c s" s "bl_Z c" lg]
      room[of s] by simp
  ultimately show ?thesis unfolding bl_keeps_def by blast
qed

lemma radio_reception_keeps:
  assumes r: "rc_Z r = dc_Z c"
  shows "dc_keeps c (\<lambda>s. quiet_router (dc_Z c) lg s \<and> phone_up r s)"
proof -
  have "quiet_router (dc_Z c) lg s' \<and> phone_up r s'"
    if "quiet_router (dc_Z c) lg s \<and> phone_up r s" "only_rx s s'" "same_but_bufs (kview (dc_Z c) (kern s)) (kview (dc_Z c) (kern s'))"
    for s s'
    using that only_rx_app[OF that(2)] quiet_router_cong[of s' s "dc_Z c" lg] by (simp add: same_but_bufs_def phone_up_def)
  moreover have "quiet_router (dc_Z c) lg s' \<and> phone_up r s'"
    if "quiet_router (dc_Z c) lg s \<and> phone_up r s" "radio_only (dc_Z c) s s'" for s s'
    using that radio_only_app[OF that(2)] quiet_router_cong[of s' s "dc_Z c" lg] by (simp add: phone_up_def)
  ultimately show ?thesis unfolding dc_keeps_def by blast
qed

text \<open>The delivery to the router, and what happens before its thread runs.\<close>

lemma delivery_queues:
  assumes laws: "net_buf_laws Z cnt cap" "fifo_laws Z" and inv: "pool_inv Z inst s1"
    and complete: "assembled Z inst tf s1 p" and quiet: "quiet_router Z lg s1"
    and t: "transport_at s1 n = Some t" "fifo_of (tr_type t) = q" and size: "10 \<le> length (tf_msg tf)"
    and run: "deliver_release Z (prv_handle_transport_rx Z n) p s1 = Some s2" and bg: "background Z s2 s3"
  obtains h where "queued_alone Z inst q (tf_msg tf) s3 p h" and "in_transit Z inst q [p] p h (tf_msg tf) lg s3"
    and "\<And>other. other \<noteq> q \<Longrightarrow> kv_fifo (kview Z (kern s3)) other = []"
    and "s2 = s1\<lparr>kern := kern s2\<rparr>" and "kv_txq (kview Z (kern s2)) = kv_txq (kview Z (kern s1))"
proof -
  obtain h where d: "s2 = s1\<lparr>kern := kern s2\<rparr>" "holds_message Z inst p h (tf_msg tf) s2"
    "kv_fifo (kview Z (kern s2)) = (kv_fifo (kview Z (kern s1)))(q := kv_fifo (kview Z (kern s1)) q @ [p])"
    "kv_slist (kview Z (kern s2)) = kv_slist (kview Z (kern s1))" "kv_txq (kview Z (kern s2)) = kv_txq (kview Z (kern s1))"
    using handler_queues[OF laws inv complete t(1) size run] t(2) by blast
  have empty: "kv_fifo (kview Z (kern s1)) x = []" for x using quiet by (cases x) (simp_all add: quiet_router_def)
  have same: "dtl s2 = dtl s1" "bsv s2 = bsv s1" "endpoints_mem s2 = endpoints_mem s1" "text_log s2 = text_log s1"
    by (subst d(1), simp)+
  note b = background_app[OF bg]
  have h3: "holds_message Z inst p h (tf_msg tf) s3" using d(2) holds_message_cong[OF b(1,10)] by simp
  have w3: "app_wired Z s3" "text_log s3 = lg" using quiet d(4) same b by (simp_all add: quiet_router_def app_wired_def)
  show thesis
    by (rule that[of h, OF _ _ _ d(1,5)]) (use h3 w3 in \<open>simp_all add: queued_alone_def in_transit_def b(12) d(3) empty\<close>)
qed

lemma ble_delivery_queues:
  assumes laws: "net_buf_laws (bl_Z c) cnt cap" "fifo_laws (bl_Z c)"
    and c: "bl_callback c = Some Prv_handle_transport_rx" "bl_transport c = ble_transport_obj"
      "bl_call_cb c = app_cb (bl_Z c)"
    and size: "10 \<le> length (bl_msg c)" and s1: "bl_ready c s1" "quiet_router (bl_Z c) lg s1" "radio_up r s1" "rc_Z r = bl_Z c"
    and p: "assembled (bl_Z c) (ble_pool (bl_Z c)) (bl_transfer c) s1 p"
    and run: "prv_handle_complete_incoming_data_transaction_ble (bl_Z c) (bl_call_cb c) p s1 = Some s2"
    and bg: "background (bl_Z c) s2 s3" and room: "txq_room (bl_Z c) s2 \<Longrightarrow> txq_room (bl_Z c) s3"
  obtains h where "queued_alone (bl_Z c) (ble_pool (bl_Z c)) FromUpstreamFifo (bl_msg c) s3 p h"
    and "in_transit (bl_Z c) (ble_pool (bl_Z c)) FromUpstreamFifo [p] p h (bl_msg c) lg s3"
    and "kv_fifo (kview (bl_Z c) (kern s3)) FromDownstreamFifo = []" and "radio_up r s3"
proof -
  have st: "pool_inv (bl_Z c) (ble_pool (bl_Z c)) s1" "transport_at s1 BleTransport = Some ble_transport_obj"
    "bs_transport_rx_callback (bsv s1) = Some Prv_handle_transport_rx"
    using s1(1) c(1,2) by (simp_all add: bl_ready_def ble_ready_def)
  have run': "deliver_release (bl_Z c) (prv_handle_transport_rx (bl_Z c) BleTransport) p s1 = Some s2"
    using run st(3) c(3) by (simp add: handle_complete_ble_alt ble_callback_def app_cb_def)
  obtain h where h: "queued_alone (bl_Z c) (ble_pool (bl_Z c)) FromUpstreamFifo (tf_msg (bl_transfer c)) s3 p h"
    "in_transit (bl_Z c) (ble_pool (bl_Z c)) FromUpstreamFifo [p] p h (tf_msg (bl_transfer c)) lg s3"
    "\<And>other. other \<noteq> FromUpstreamFifo \<Longrightarrow> kv_fifo (kview (bl_Z c) (kern s3)) other = []"
    "s2 = s1\<lparr>kern := kern s2\<rparr>" "kv_txq (kview (bl_Z c) (kern s2)) = kv_txq (kview (bl_Z c) (kern s1))"
    by (rule delivery_queues[OF laws st(1) p s1(2) st(2) _ _ run' bg]) (use size in \<open>auto simp: ble_transport_obj_def fifo_of_def\<close>)
  have same: "dtl s2 = dtl s1" "ll s2 = ll s1" "dev_fetched s2 = dev_fetched s1" by (subst h(4), simp)+
  have "radio_up r s3"
    using s1(3,4) same h(5) background_app[OF bg] room by (simp add: radio_up_def txq_room_def)
  with h that show thesis by simp
qed

lemma dect_delivery_queues:
  assumes laws: "net_buf_laws (dc_Z c) cnt cap" "fifo_laws (dc_Z c)"
    and c: "dt_transport_rx_callback (dc_state c) = Some Prv_handle_transport_rx"
      "dt_transport (dc_state c) = dect_transport_obj" "dc_call_cb c = app_cb (dc_Z c)"
    and size: "10 \<le> length (dc_msg c)" and s1: "dc_settled c s1" "quiet_router (dc_Z c) lg s1" "phone_up r s1" "rc_Z r = dc_Z c"
    and p: "assembled (dc_Z c) (dect_pool (dc_Z c)) (dc_transfer c) s1 p"
    and run: "prv_handle_complete_incoming_data_transaction_dect (dc_Z c) (dc_call_cb c) p s1 = Some s2"
    and d: "drains (dc_Z c) d"
  obtains h where "queued_alone (dc_Z c) (dect_pool (dc_Z c)) FromDownstreamFifo (dc_msg c) (d s2) p h"
    and "in_transit (dc_Z c) (dect_pool (dc_Z c)) FromDownstreamFifo [p] p h (dc_msg c) lg (d s2)"
    and "kv_fifo (kview (dc_Z c) (kern (d s2))) FromUpstreamFifo = []" and "phone_up r (d s2)"
proof -
  have st: "pool_inv (dc_Z c) (dect_pool (dc_Z c)) s1" "transport_at s1 DectTransport = Some dect_transport_obj"
    "dt_transport_rx_callback (dtl s1) = Some Prv_handle_transport_rx"
    using s1(1) c(1,2) by (simp_all add: dc_settled_def dc_holds_def)
  have run': "deliver_release (dc_Z c) (prv_handle_transport_rx (dc_Z c) DectTransport) p s1 = Some s2"
    using run st(3) c(3) by (simp add: handle_complete_dect_alt dect_callback_def app_cb_def)
  have e: "d s2 = s2\<lparr>kern := kern (d s2)\<rparr>" "kview (dc_Z c) (kern (d s2)) = (kview (dc_Z c) (kern s2))\<lparr>kv_txq := []\<rparr>"
    using d unfolding drains_def by blast+
  have bk: "background (dc_Z c) s2 (s2\<lparr>kern := kern (d s2)\<rparr>)" by (simp add: background_def e(2))
  have bg: "background (dc_Z c) s2 (d s2)" by (subst e(1)) (rule bk)
  obtain h where h: "queued_alone (dc_Z c) (dect_pool (dc_Z c)) FromDownstreamFifo (tf_msg (dc_transfer c)) (d s2) p h"
    "in_transit (dc_Z c) (dect_pool (dc_Z c)) FromDownstreamFifo [p] p h (tf_msg (dc_transfer c)) lg (d s2)"
    "\<And>other. other \<noteq> FromDownstreamFifo \<Longrightarrow> kv_fifo (kview (dc_Z c) (kern (d s2))) other = []"
    "s2 = s1\<lparr>kern := kern s2\<rparr>"
    by (rule delivery_queues[OF laws st(1) p s1(2) st(2) _ _ run' bg]) (use size in \<open>auto simp: dect_transport_obj_def fifo_of_def\<close>)
  have "bsv (d s2) = bsv s2" "bsv s2 = bsv s1" by (subst e(1), simp, subst h(4), simp)
  then have "phone_up r (d s2)" using s1(3) by (simp add: phone_up_def)
  with h that show thesis by simp
qed

lemma header_size: "get_alfie_header msg = Some hdr \<Longrightarrow> 10 \<le> length msg"
  by (cases msg rule: get_alfie_header.cases) simp_all

section \<open>A running firmware, for the witnesses\<close>

definition ref_app :: "kworld app_machine" where
  "ref_app = \<lparr>kern = rk_init\<lparr>rk_slist := (\<lambda>l. case l of TransportsList \<Rightarrow> [DectTransport, BleTransport]
       | EndpointsList \<Rightarrow> [MessagingEndpoint])\<rparr>,
     mem = boot_mem, dev_fetched = True, dev_id = 0x04030201, ll = ll ref_dect,
     dtl = (dtl ref_dect)\<lparr>dt_transport_rx_callback := Some Prv_handle_transport_rx, dt_transport := dect_transport_obj\<rparr>,
     bcore = ble_core_inst_init, ctl = \<lparr>cs_fetched = False, cs_dev_id = 0\<rparr>,
     bsv = (bsv ref_ble)\<lparr>bs_transport_rx_callback := Some Prv_handle_transport_rx, bs_transport := ble_transport_obj\<rparr>,
     rtr = \<lparr>rt_initialized = True\<rparr>, endpoints_mem = (\<lambda>n. messaging_endpoint_obj),
     msi = \<lparr>mi_initialized = True\<rparr>, text_log = []\<rparr>"

lemma ref_app_simps [simp]:
  "mem ref_app = boot_mem" "bs_initialized (bsv ref_app)" "bs_rx_pool (bsv ref_app) = ble_pool ref_zephyr"
  "bs_transport_rx_callback (bsv ref_app) = Some Prv_handle_transport_rx" "bs_transport (bsv ref_app) = ble_transport_obj"
  "dt_initialized (dtl ref_app)" "dt_rx_pool (dtl ref_app) = dect_pool ref_zephyr"
  "dt_transport_rx_callback (dtl ref_app) = Some Prv_handle_transport_rx" "dt_transport (dtl ref_app) = dect_transport_obj"
  "li_initialized (ll ref_app)" "rk_bufs (kern ref_app) = []" "kv_txq (rk_view (kern ref_app)) = []"
  "rk_time (kern ref_app) = 0"
  by (simp_all add: ref_app_def rk_view_def rk_init_def)

lemma ref_others_keep: "others_keep ref_zephyr (ref_air n) inst q"
proof -
  have "in_transit ref_zephyr inst q ps p h msg lg (ref_air n s) = in_transit ref_zephyr inst q ps p h msg lg s"
    for ps p h msg lg and s :: "(kworld, 'a) app_machine_scheme"
    by (rule in_transit_cong) (simp_all add: ref_air_def rk_view_def)
  then show ?thesis by (simp add: others_keep_def)
qed

definition ref_relay_case :: "(kworld, unit) relay_case" where
  "ref_relay_case = \<lparr>rc_Z = ref_zephyr, rc_others = ref_air 0\<rparr>"

lemma ref_relay_case_simps [simp]: "rc_Z ref_relay_case = ref_zephyr" "rc_others ref_relay_case = ref_air 0"
  by (simp_all add: ref_relay_case_def)

definition ref_phone_case :: "(kworld, \<lparr>rtr :: router_inst, endpoints_mem :: node_ptr \<Rightarrow> alfie_endpoint_t, msi :: messaging_inst,
    text_log :: (u32 \<times> u32 \<times> u8 list) list\<rparr>) ble_case" where
  "ref_phone_case = \<lparr>bl_Z = ref_zephyr, bl_cnt = ref_cnt, bl_cap = ref_cap, bl_call_cb = app_cb ref_zephyr,
     bl_callback = Some Prv_handle_transport_rx, bl_transport = ble_transport_obj, bl_between = (\<lambda>s. s),
     bl_seq = 7, bl_msg = replicate 300 0,
     bl_frame = (\<lambda>k. put_ble_data_frame (ble_data_frame 7 (replicate 300 0) k)), bl_since = 0\<rparr>"

definition ref_air_case :: "(kworld, \<lparr>bcore :: ble_core_inst, ctl :: control_inst, bsv :: ble_service_inst,
    rtr :: router_inst, endpoints_mem :: node_ptr \<Rightarrow> alfie_endpoint_t, msi :: messaging_inst,
    text_log :: (u32 \<times> u32 \<times> u8 list) list\<rparr>) dect_case" where
  "ref_air_case = \<lparr>dc_Z = ref_zephyr, dc_cnt = ref_cnt, dc_cap = ref_cap, dc_call_cb = app_cb ref_zephyr,
     dc_state = dtl ref_app, dc_queued = 0, dc_drain = (\<lambda>s. s\<lparr>kern := (kern s)\<lparr>rk_txq := []\<rparr>\<rparr>),
     dc_src = 0x0A0B0C0D, dc_seq = 7, dc_msg = replicate 30 0,
     dc_frame = (\<lambda>k. put_dect_data_frame (dect_data_frame 7 (replicate 30 0) k)), dc_since = 0\<rparr>"

lemma ref_router_consumes:
  "consumes ref_zephyr inst (prv_handle_transport_rx ref_zephyr BleTransport)"
  "consumes ref_zephyr inst (prv_handle_transport_rx ref_zephyr DectTransport)"
  by (rule router_consumes[OF ref_net_buf_laws ref_fifo_laws], simp)+

lemma ref_app_pools: "pool_inv ref_zephyr (ble_pool ref_zephyr) ref_app" "pool_inv ref_zephyr (dect_pool ref_zephyr) ref_app"
  by (auto simp: live_bufs_def tb_at_def intro!: fresh_pool_inv)

lemma ref_phone_case_valid: "bl_valid ref_phone_case" "bl_ready ref_phone_case ref_app"
  "received (bl_Z ref_phone_case) (ble_pool (bl_Z ref_phone_case)) (bl_transfer ref_phone_case) 0 ref_app"
proof -
  have env: "bl_env ref_phone_case"
    by (simp add: bl_env_def ref_phone_case_def ref_ble_env ble_callback_def app_cb_def ref_router_consumes)
  show "bl_valid ref_phone_case"
    unfolding bl_valid_def
    by (rule conjI[OF env]) (simp add: ref_phone_case_def bl_quiet_def same_rx_def)
  show "bl_ready ref_phone_case ref_app"
    using ref_app_pools by (simp add: bl_ready_def ble_ready_def ref_phone_case_def)
  have "awaited ref_zephyr (ble_pool ref_zephyr) (bl_transfer ref_phone_case) ref_app"
    by (auto simp: awaited_def tf_matches_def matches_def tb_at_def pool_ptrs_def
        ble_pool_def rk_init_def bl_transfer_def ref_phone_case_def)
  then show "received (bl_Z ref_phone_case) (ble_pool (bl_Z ref_phone_case)) (bl_transfer ref_phone_case) 0 ref_app"
    by (simp add: received_def ref_phone_case_def)
qed

lemma ref_air_case_valid: "dc_valid ref_air_case" "dc_ready ref_air_case ref_app"
  "received (dc_Z ref_air_case) (dect_pool (dc_Z ref_air_case)) (dc_transfer ref_air_case) 0 ref_app"
proof -
  have env: "dc_env ref_air_case"
    by (simp add: dc_env_def ref_air_case_def ref_dect_env dect_callback_def app_cb_def ref_router_consumes
        DECT_LINK_LAYER_TX_MSG_QUEUE_DEPTH_def)
  show "dc_valid ref_air_case"
    unfolding dc_valid_def dc_message_def
    by (rule conjI[OF conjI[OF env]]) (simp_all add: ref_air_case_def drains_def rk_view_def)
  show "dc_ready ref_air_case ref_app"
    using ref_app_pools by (simp add: dc_ready_def dc_holds_def ref_air_case_def)
  have "awaited ref_zephyr (dect_pool ref_zephyr) (dc_transfer ref_air_case) ref_app"
    by (auto simp: awaited_def tf_matches_def matches_def tb_at_def pool_ptrs_def
        dect_pool_def rk_init_def dc_transfer_def ref_air_case_def)
  then show "received (dc_Z ref_air_case) (dect_pool (dc_Z ref_air_case)) (dc_transfer ref_air_case) 0 ref_app"
    by (simp add: received_def ref_air_case_def)
qed

text \<open>The same firmware with a message from one side waiting in the router's queue.\<close>

definition ref_queued :: "pool_id \<Rightarrow> fifo_id \<Rightarrow> kworld app_machine" where
  "ref_queued pool q = ref_app\<lparr>kern := (kern ref_app)\<lparr>
       rk_bufs := [(1, \<lparr>nb_pool = pool, nb_ref = 1, nb_data = replicate 30 0\<rparr>)],
       rk_fifo := (\<lambda>f. if f = q then [Tb_ptr pool 0] else [])\<rparr>,
     mem := boot_mem\<lparr>tbs := (tbs boot_mem)(Tb_ptr pool 0 := (tbs boot_mem (Tb_ptr pool 0))
       \<lparr>tb_state := TRANSPORT_BUFFER_STATE_REFERENCED, tb_buffer := Some 1, tb_total_size_bytes := 30\<rparr>)\<rparr>\<rparr>"

lemma ref_queued_holds:
  assumes "0 < pl_context_size_bytes inst" and "pl_buffer_pool inst = pool" and "pl_contexts inst = pool"
    and "0 < pl_num_buffers inst"
  shows "holds_message ref_zephyr inst (Tb_ptr pool 0) 1 (replicate 30 0) (ref_queued pool q)"
proof -
  have ptr: "Tb_ptr pool 0 \<in> set (pool_ptrs inst)" using assms by (auto simp: pool_ptrs_def)
  have "pool_inv ref_zephyr inst (ref_queued pool q)"
    unfolding pool_inv_def
    by (rule pool_okI) (use assms ptr in \<open>auto simp: ref_queued_def rk_view_def ctx_ok_referenced ctx_ok_free boot_mem_def
        split: if_splits\<close>)
  with ptr assms show ?thesis by (simp add: holds_message_def ref_queued_def tb_at_def rk_view_def)
qed

lemma ref_queued_transit:
  assumes "0 < pl_context_size_bytes inst" and "pl_buffer_pool inst = pool" and "pl_contexts inst = pool"
    and "0 < pl_num_buffers inst"
  shows "in_transit ref_zephyr inst q [Tb_ptr pool 0] (Tb_ptr pool 0) 1 (replicate 30 0) [] (ref_queued pool q)"
  using ref_queued_holds[OF assms, of q]
  by (simp add: in_transit_def app_wired_def) (simp add: ref_queued_def rk_view_def, simp add: ref_app_def)

lemma ref_queued_up:
  "radio_up ref_relay_case (ref_queued pool q)" "phone_up ref_relay_case (ref_queued pool q)"
  "kv_fifo (rk_view (kern (ref_queued pool q))) q' = (if q' = q then [Tb_ptr pool 0] else [])"
  "get_alfie_header (replicate 30 0) = Some \<lparr>ap_version = 0, ap_endpoint_id = 0, ap_src_id = 0, ap_dst_id = 0\<rparr>"
proof -
  show "radio_up ref_relay_case (ref_queued pool q)"
    by (simp add: radio_up_def ref_relay_case_def ref_sem_laws ref_hwinfo_laws ref_rand_laws ref_msgq_laws
        ref_air_drains DECT_LINK_LAYER_TX_MSG_QUEUE_DEPTH_def) (simp add: ref_queued_def txq_room_def rk_view_def ref_app_def
        rk_init_def DECT_LINK_LAYER_TX_MSG_QUEUE_DEPTH_def)
  show "phone_up ref_relay_case (ref_queued pool q)"
    by (simp add: phone_up_def ref_relay_case_def ref_sem_laws ref_notify_laws ref_rand_laws)
      (simp add: ref_queued_def ref_app_def notifies_no_data_def data_asked_def ref_air_def rk_view_def)
qed (simp_all add: ref_queued_def rk_view_def numeral_eq_Suc mk32_def)

lemma ref_app_quiet:
  "quiet_router ref_zephyr [] ref_app" "radio_up ref_relay_case ref_app" "phone_up ref_relay_case ref_app"
proof -
  show "quiet_router ref_zephyr [] ref_app"
    by (simp add: quiet_router_def app_wired_def) (simp add: ref_app_def rk_view_def rk_init_def)
  show "radio_up ref_relay_case ref_app"
    by (simp add: radio_up_def ref_sem_laws ref_hwinfo_laws ref_rand_laws ref_msgq_laws ref_air_drains txq_room_def
        DECT_LINK_LAYER_TX_MSG_QUEUE_DEPTH_def) (simp add: ref_app_def)
  show "phone_up ref_relay_case ref_app"
    by (simp add: phone_up_def ref_sem_laws ref_notify_laws ref_rand_laws)
      (simp add: ref_app_def notifies_no_data_def data_asked_def ref_air_def rk_view_def)
qed

lemma background_refl: "background Z s s"
  by (simp add: background_def)

lemma ref_phone_simps:
  "bl_Z ref_phone_case = ref_zephyr" "bl_msg ref_phone_case = replicate 300 0" "bl_between ref_phone_case = (\<lambda>s. s)"
  "bl_callback ref_phone_case = Some Prv_handle_transport_rx" "bl_transport ref_phone_case = ble_transport_obj"
  "bl_call_cb ref_phone_case = app_cb ref_zephyr"
  by (simp_all add: ref_phone_case_def)

lemma ref_air_case_simps:
  "dc_Z ref_air_case = ref_zephyr" "dc_msg ref_air_case = replicate 30 0"
  "dt_transport_rx_callback (dc_state ref_air_case) = Some Prv_handle_transport_rx"
  "dt_transport (dc_state ref_air_case) = dect_transport_obj" "dc_call_cb ref_air_case = app_cb ref_zephyr"
  by (simp_all add: ref_air_case_def)

lemma ref_header_zeros:
  "get_alfie_header (replicate 300 0) = Some \<lparr>ap_version = 0, ap_endpoint_id = 0, ap_src_id = 0, ap_dst_id = 0\<rparr>"
  "get_alfie_header (replicate 30 0) = Some \<lparr>ap_version = 0, ap_endpoint_id = 0, ap_src_id = 0, ap_dst_id = 0\<rparr>"
  by (simp_all add: numeral_eq_Suc mk32_def)

section \<open>Properties\<close>

text \<open>C24. From the phone's queue to the radio: when the router's thread takes a complete message from the
  queue of the upstream side (and the other queue is empty), its turn returns; the radio has been given
  the fragments of exactly that message, for the device its header names, in order and each one to
  four times (up to one that was given up, if it was); a text addressed to the endpoint is logged; and
  the context and its buffer are free again.\<close>

theorem relays_to_radio:
  assumes "net_buf_laws (rc_Z c) cnt cap" and "fifo_laws (rc_Z c)" and "poll_laws (rc_Z c)"
    and "in_transit (rc_Z c) inst FromUpstreamFifo (p # ps) p h msg lg s"
    and "kv_fifo (kview (rc_Z c) (kern s)) FromDownstreamFifo = []"
    and "get_alfie_header msg = Some hdr" and "length msg \<le> 512"
    and "radio_up c s" and "others_keep (rc_Z c) (rc_others c) inst FromUpstreamFifo"
  shows "\<exists>s'. prv_router_turn (rc_Z c) (app_write (rc_Z c) (rc_others c)) (app_frame (rc_Z c)) s = Some s' \<and>
     passed_on (rc_Z c) inst FromUpstreamFifo ps p h msg lg s' \<and> sent_by_radio c (ap_dst_id hdr) msg s s'"
  by (rule to_radio.relays[OF assms(1-3) disjI1[OF refl] assms(4-8)])
    (simp add: radio_keeps_def in_transit_kept(1)[OF assms(9)])

theorem relays_to_radio_witness:
  "\<exists>s'. prv_router_turn (rc_Z ref_relay_case) (app_write (rc_Z ref_relay_case) (rc_others ref_relay_case))
       (app_frame (rc_Z ref_relay_case)) (ref_queued BleRxPool FromUpstreamFifo) = Some s' \<and>
     passed_on (rc_Z ref_relay_case) (ble_pool ref_zephyr) FromUpstreamFifo [] (Tb_ptr BleRxPool 0) 1 (replicate 30 0) [] s' \<and>
     sent_by_radio ref_relay_case (ap_dst_id \<lparr>ap_version = 0, ap_endpoint_id = 0, ap_src_id = 0, ap_dst_id = 0\<rparr>)
       (replicate 30 0) (ref_queued BleRxPool FromUpstreamFifo) s'"
  by (rule relays_to_radio[where cnt = ref_cnt and cap = ref_cap])
    (use ref_queued_transit[of "ble_pool ref_zephyr" BleRxPool FromUpstreamFifo] in
      \<open>simp_all add: ble_pool_def[THEN arg_cong[where f = pl_contexts]] dect_pool_def[THEN arg_cong[where f = pl_contexts]]
        ref_queued_up ref_net_buf_laws ref_fifo_laws ref_poll_laws ref_others_keep\<close>)

text \<open>C25. From the radio's queue to the phone: when the router's thread takes a complete message from the queue
  of the downstream side (and the other queue is empty), with a phone connected, its turn returns; the Bluetooth
  host has been asked to notify the fragments of exactly that message, in order: all of them one to four times, or
  up to one that was not acknowledged four times or that the host refused to notify. The first fragment was asked
  for in any case. A text addressed to the endpoint is logged; and the context and its buffer are free again.\<close>

theorem relays_to_phone:
  assumes "net_buf_laws (rc_Z c) cnt cap" and "fifo_laws (rc_Z c)" and "poll_laws (rc_Z c)"
    and "in_transit (rc_Z c) inst FromDownstreamFifo (p # ps) p h msg lg s"
    and "kv_fifo (kview (rc_Z c) (kern s)) FromUpstreamFifo = []"
    and "get_alfie_header msg = Some hdr" and "length msg \<le> 512"
    and "phone_up c s" and "others_keep (rc_Z c) (rc_others c) inst FromDownstreamFifo"
  shows "\<exists>s'. prv_router_turn (rc_Z c) (app_write (rc_Z c) (rc_others c)) (app_frame (rc_Z c)) s = Some s' \<and>
     passed_on (rc_Z c) inst FromDownstreamFifo ps p h msg lg s' \<and> sent_to_phone c (ap_dst_id hdr) msg s s'"
  by (rule to_phone.relays[OF assms(1-3) disjI2[OF refl] assms(4-8)])
    (simp add: phone_keeps_def in_transit_kept(2)[OF assms(9)])

theorem relays_to_phone_witness:
  "\<exists>s'. prv_router_turn (rc_Z ref_relay_case) (app_write (rc_Z ref_relay_case) (rc_others ref_relay_case))
       (app_frame (rc_Z ref_relay_case)) (ref_queued DectRxPool FromDownstreamFifo) = Some s' \<and>
     passed_on (rc_Z ref_relay_case) (dect_pool ref_zephyr) FromDownstreamFifo [] (Tb_ptr DectRxPool 0) 1 (replicate 30 0) [] s' \<and>
     sent_to_phone ref_relay_case (ap_dst_id \<lparr>ap_version = 0, ap_endpoint_id = 0, ap_src_id = 0, ap_dst_id = 0\<rparr>)
       (replicate 30 0) (ref_queued DectRxPool FromDownstreamFifo) s'"
  by (rule relays_to_phone[where cnt = ref_cnt and cap = ref_cap])
    (use ref_queued_transit[of "dect_pool ref_zephyr" DectRxPool FromDownstreamFifo] in
      \<open>simp_all add: ble_pool_def[THEN arg_cong[where f = pl_contexts]] dect_pool_def[THEN arg_cong[where f = pl_contexts]]
        ref_queued_up ref_net_buf_laws ref_fifo_laws ref_poll_laws ref_others_keep\<close>)

text \<open>C8. From the phone to the radio: in a firmware with empty router queues and a running radio, the phone writes
  the fragments of a message in order, each any positive number of times and with ACKs and unintelligible frames
  in between, while connections come and go. Every write is handled. After the last one, unless the transfer is
  past its deadline, exactly that message is alone in the router's upstream queue; the next turn of the router's
  thread returns, and it has given the radio the fragments of exactly that message for the device its header
  names, in order and each one to four times (up to one that was given up, if it was), logged the message if it
  is a text for the endpoint, and freed its context.\<close>

theorem phone_message_reaches_radio:
  assumes "bl_valid c" and "bl_ready c s"
    and "received (bl_Z c) (ble_pool (bl_Z c)) (bl_transfer c) 0 s"
    and "expect 0 evs = Some m" and "Suc m = tf_n (bl_transfer c)"
    and "\<And>e. Inl e \<in> set evs \<Longrightarrow> bl_plain e"
    and "bl_callback c = Some Prv_handle_transport_rx" and "bl_transport c = ble_transport_obj"
    and "bl_call_cb c = app_cb (bl_Z c)" and "get_alfie_header (bl_msg c) = Some hdr"
    and "fifo_laws (bl_Z c)" and "poll_laws (bl_Z c)"
    and "rc_Z r = bl_Z c" and "others_keep (bl_Z c) (rc_others r) (ble_pool (bl_Z c)) FromUpstreamFifo"
    and "\<And>s. background (bl_Z c) s (bl_between c s)" and "\<And>s. txq_room (bl_Z c) s \<Longrightarrow> txq_room (bl_Z c) (bl_between c s)"
    and "quiet_router (bl_Z c) lg s" and "radio_up r s"
  shows "\<exists>s' s2. feed (bl_other c) (bl_rx c) evs s = Some s' \<and> bl_rx c m s' = Some s2 \<and>
     (late (bl_Z c) (ble_pool (bl_Z c)) (bl_transfer c) s2 \<or>
      (\<exists>p h s3. queued_alone (bl_Z c) (ble_pool (bl_Z c)) FromUpstreamFifo (bl_msg c) s2 p h \<and>
         prv_router_turn (bl_Z c) (app_write (bl_Z c) (rc_others r)) (app_frame (bl_Z c)) s2 = Some s3 \<and>
         passed_on (bl_Z c) (ble_pool (bl_Z c)) FromUpstreamFifo [] p h (bl_msg c) lg s3 \<and>
         sent_by_radio r (ap_dst_id hdr) (bl_msg c) s2 s3))"
proof -
  let ?Z = "bl_Z c" and ?P = "\<lambda>s. quiet_router (bl_Z c) lg s \<and> radio_up r s"
  note nb = ble_envD(2)[OF conjunct1[OF bl_validD(1)[OF assms(1), unfolded bl_env_def]]]
  have len: "length (bl_msg c) \<le> 512" using assms(1) by (simp add: bl_valid_def)
  obtain s' s2 where s': "feed (bl_other c) (bl_rx c) evs s = Some s'" "bl_rx c m s' = Some (bl_between c s2)"
    and cases: "late ?Z (ble_pool ?Z) (bl_transfer c) s2 \<or> (\<exists>s1 p. bl_ready c s1 \<and> ?P s1 \<and>
      assembled ?Z (ble_pool ?Z) (bl_transfer c) s1 p \<and>
      prv_handle_complete_incoming_data_transaction_ble ?Z (bl_call_cb c) p s1 = Some s2)"
    using ble_steady_feed[OF assms(1) phone_reception_keeps[OF assms(15,16,13)] assms(2) _ assms(3-6)] assms(17,18)
    unfolding delivered_from_def by blast
  have t: "ktime ?Z (kern s2) \<le> ktime ?Z (kern (bl_between c s2))"
    using bl_validD(2)[OF assms(1)] by (simp add: bl_quiet_def same_rx_def)
  show ?thesis
  proof (cases "late ?Z (ble_pool ?Z) (bl_transfer c) s2")
    case False
    with cases obtain s1 p where s1: "bl_ready c s1" "quiet_router ?Z lg s1" "radio_up r s1"
      "assembled ?Z (ble_pool ?Z) (bl_transfer c) s1 p"
      "prv_handle_complete_incoming_data_transaction_ble ?Z (bl_call_cb c) p s1 = Some s2" by blast
    obtain h where h: "queued_alone ?Z (ble_pool ?Z) FromUpstreamFifo (bl_msg c) (bl_between c s2) p h"
      "in_transit ?Z (ble_pool ?Z) FromUpstreamFifo [p] p h (bl_msg c) lg (bl_between c s2)"
      "kv_fifo (kview ?Z (kern (bl_between c s2))) FromDownstreamFifo = []" "radio_up r (bl_between c s2)"
      by (rule ble_delivery_queues[OF nb assms(11,7-9) header_size[OF assms(10)] s1(1-3) assms(13) s1(4,5) assms(15,16)])
    have "\<exists>s3. prv_router_turn ?Z (app_write ?Z (rc_others r)) (app_frame ?Z) (bl_between c s2) = Some s3 \<and>
        passed_on ?Z (ble_pool ?Z) FromUpstreamFifo [] p h (bl_msg c) lg s3 \<and>
        sent_by_radio r (ap_dst_id hdr) (bl_msg c) (bl_between c s2) s3"
      unfolding assms(13)[symmetric]
      by (rule to_radio.relays[OF _ _ _ disjI1[OF refl]])
        (use nb assms(10-12) len h in \<open>simp_all add: assms(13) radio_keeps_def in_transit_kept(1)[OF assms(14)]\<close>)
    with s' h(1) show ?thesis by blast
  qed (use s' late_mono[OF _ t] in blast)
qed

theorem phone_message_reaches_radio_witness:
  "\<exists>s' s2. feed (bl_other ref_phone_case) (bl_rx ref_phone_case) [Inr 0, Inr 0] ref_app = Some s' \<and>
     bl_rx ref_phone_case 1 s' = Some s2 \<and>
     (late ref_zephyr (ble_pool ref_zephyr) (bl_transfer ref_phone_case) s2 \<or>
      (\<exists>p h s3. queued_alone ref_zephyr (ble_pool ref_zephyr) FromUpstreamFifo (replicate 300 0) s2 p h \<and>
         prv_router_turn ref_zephyr (app_write ref_zephyr (ref_air 0)) (app_frame ref_zephyr) s2 = Some s3 \<and>
         passed_on ref_zephyr (ble_pool ref_zephyr) FromUpstreamFifo [] p h (replicate 300 0) [] s3 \<and>
         sent_by_radio ref_relay_case 0 (replicate 300 0) s2 s3))"
  using phone_message_reaches_radio[OF ref_phone_case_valid, where evs = "[Inr 0, Inr 0]" and m = 1 and r = ref_relay_case
      and lg = "[]" and hdr = "\<lparr>ap_version = 0, ap_endpoint_id = 0, ap_src_id = 0, ap_dst_id = 0\<rparr>"] ref_app_quiet
  by (simp add: bl_transfer_n ref_phone_simps ref_header_zeros background_refl ref_fifo_laws ref_poll_laws ref_others_keep n_chunks_def)

text \<open>C7. From the radio to the phone: the same in the other direction, for fragments that arrive by radio in a
  firmware with empty router queues and a connected phone. The next turn of the router's thread has asked the
  Bluetooth host to notify the fragments of exactly that message, in order: all of them one to four times, or up to
  one that was not acknowledged four times or that the host refused; the first one was asked for in any case.\<close>

theorem radio_message_reaches_phone:
  assumes "dc_valid c" and "dc_ready c s"
    and "received (dc_Z c) (dect_pool (dc_Z c)) (dc_transfer c) 0 s"
    and "expect 0 evs = Some m" and "Suc m = tf_n (dc_transfer c)"
    and "\<And>e. Inl e \<in> set evs \<Longrightarrow> dc_plain e"
    and "dt_transport_rx_callback (dc_state c) = Some Prv_handle_transport_rx"
    and "dt_transport (dc_state c) = dect_transport_obj"
    and "dc_call_cb c = app_cb (dc_Z c)" and "get_alfie_header (dc_msg c) = Some hdr"
    and "fifo_laws (dc_Z c)" and "poll_laws (dc_Z c)"
    and "rc_Z r = dc_Z c" and "others_keep (dc_Z c) (rc_others r) (dect_pool (dc_Z c)) FromDownstreamFifo"
    and "quiet_router (dc_Z c) lg s" and "phone_up r s"
  shows "\<exists>s' s2. feed (dc_other c) (dc_rx c) evs s = Some s' \<and> dc_rx c m s' = Some s2 \<and>
     (late (dc_Z c) (dect_pool (dc_Z c)) (dc_transfer c) s2 \<or>
      (\<exists>p h s3. queued_alone (dc_Z c) (dect_pool (dc_Z c)) FromDownstreamFifo (dc_msg c) s2 p h \<and>
         prv_router_turn (dc_Z c) (app_write (dc_Z c) (rc_others r)) (app_frame (dc_Z c)) s2 = Some s3 \<and>
         passed_on (dc_Z c) (dect_pool (dc_Z c)) FromDownstreamFifo [] p h (dc_msg c) lg s3 \<and>
         sent_to_phone r (ap_dst_id hdr) (dc_msg c) s2 s3))"
proof -
  let ?Z = "dc_Z c" and ?P = "\<lambda>s. quiet_router (dc_Z c) lg s \<and> phone_up r s"
  note v = dc_validD[OF assms(1)]
  note nb = dect_envD(2)[OF dc_envD(1)[OF v(2)]]
  have len: "length (dc_msg c) \<le> 512" using v(1) by (simp add: dc_message_def)
  obtain s' s2 where s': "feed (dc_other c) (dc_rx c) evs s = Some s'" "dc_rx c m s' = Some (dc_drain c s2)"
    and cases: "late ?Z (dect_pool ?Z) (dc_transfer c) s2 \<or> (\<exists>s1 p. dc_settled c s1 \<and> ?P s1 \<and>
      assembled ?Z (dect_pool ?Z) (dc_transfer c) s1 p \<and>
      prv_handle_complete_incoming_data_transaction_dect ?Z (dc_call_cb c) p s1 = Some s2)"
    using dect_steady_feed[OF assms(1) radio_reception_keeps[OF assms(13)] assms(2) _ assms(3-6)] assms(15,16)
    unfolding delivered_from_def by blast
  have t: "ktime ?Z (kern s2) \<le> ktime ?Z (kern (dc_drain c s2))" using v(3) by (simp add: drains_def)
  show ?thesis
  proof (cases "late ?Z (dect_pool ?Z) (dc_transfer c) s2")
    case False
    with cases obtain s1 p where s1: "dc_settled c s1" "quiet_router ?Z lg s1" "phone_up r s1"
      "assembled ?Z (dect_pool ?Z) (dc_transfer c) s1 p"
      "prv_handle_complete_incoming_data_transaction_dect ?Z (dc_call_cb c) p s1 = Some s2" by blast
    obtain h where h: "queued_alone ?Z (dect_pool ?Z) FromDownstreamFifo (dc_msg c) (dc_drain c s2) p h"
      "in_transit ?Z (dect_pool ?Z) FromDownstreamFifo [p] p h (dc_msg c) lg (dc_drain c s2)"
      "kv_fifo (kview ?Z (kern (dc_drain c s2))) FromUpstreamFifo = []" "phone_up r (dc_drain c s2)"
      by (rule dect_delivery_queues[OF nb assms(11,7-9) header_size[OF assms(10)] s1(1-3) assms(13) s1(4,5) v(3)])
    have "\<exists>s3. prv_router_turn ?Z (app_write ?Z (rc_others r)) (app_frame ?Z) (dc_drain c s2) = Some s3 \<and>
        passed_on ?Z (dect_pool ?Z) FromDownstreamFifo [] p h (dc_msg c) lg s3 \<and>
        sent_to_phone r (ap_dst_id hdr) (dc_msg c) (dc_drain c s2) s3"
      unfolding assms(13)[symmetric]
      by (rule to_phone.relays[OF _ _ _ disjI2[OF refl]])
        (use nb assms(10-12) len h in \<open>simp_all add: assms(13) phone_keeps_def in_transit_kept(2)[OF assms(14)]\<close>)
    with s' h(1) show ?thesis by blast
  qed (use s' late_mono[OF _ t] in blast)
qed

theorem radio_message_reaches_phone_witness:
  "\<exists>s' s2. feed (dc_other ref_air_case) (dc_rx ref_air_case) [Inr 0, Inr 1, Inr 0] ref_app = Some s' \<and>
     dc_rx ref_air_case 2 s' = Some s2 \<and>
     (late ref_zephyr (dect_pool ref_zephyr) (dc_transfer ref_air_case) s2 \<or>
      (\<exists>p h s3. queued_alone ref_zephyr (dect_pool ref_zephyr) FromDownstreamFifo (replicate 30 0) s2 p h \<and>
         prv_router_turn ref_zephyr (app_write ref_zephyr (ref_air 0)) (app_frame ref_zephyr) s2 = Some s3 \<and>
         passed_on ref_zephyr (dect_pool ref_zephyr) FromDownstreamFifo [] p h (replicate 30 0) [] s3 \<and>
         sent_to_phone ref_relay_case 0 (replicate 30 0) s2 s3))"
  using radio_message_reaches_phone[OF ref_air_case_valid, where evs = "[Inr 0, Inr 1, Inr 0]" and m = 2 and r = ref_relay_case
      and lg = "[]" and hdr = "\<lparr>ap_version = 0, ap_endpoint_id = 0, ap_src_id = 0, ap_dst_id = 0\<rparr>"] ref_app_quiet
  by (simp add: dc_transfer_n ref_air_case_simps ref_header_zeros ref_fifo_laws ref_poll_laws ref_others_keep n_chunks_def)

end
