(* ===== verification/Start_Up.thy ===== *)
theory Start_Up
  imports End_To_End
begin

text \<open>
  The start of the whole firmware: \<open>main\<close> from static memory, up to the state in which the theorems on
  single components and on the way of a message begin.
\<close>

definition app_boot :: "'k zephyr \<Rightarrow> ('k, 'a) app_machine_scheme \<Rightarrow> bool" where
  "app_boot Z s \<longleftrightarrow> \<not> li_initialized (ll s) \<and> dtl s = dect_transport_inst_init \<and> bcore s = ble_core_inst_init \<and>
     bsv s = ble_service_inst_init \<and> rtr s = router_inst_init \<and> msi s = messaging_inst_init \<and> mem s = boot_mem \<and>
     live_bufs DectRxPool (kview Z (kern s)) = {} \<and> live_bufs BleRxPool (kview Z (kern s)) = {}"

text \<open>The modem and the Bluetooth host start.\<close>

definition parts_start :: "'k zephyr \<Rightarrow> bool" where
  "parts_start Z \<longleftrightarrow> (\<forall>k. fst (nrf_modem_lib_init Z k) = 0 \<and> fst (nrf_modem_dect_phy_event_handler_set Z k) = 0 \<and>
     fst (nrf_modem_dect_phy_init Z k) = 0 \<and> fst (nrf_modem_dect_phy_configure Z prv_dect_config_params k) = 0 \<and>
     fst (nrf_modem_dect_phy_activate Z k) = 0 \<and> fst (bt_enable Z k) = 0)"

definition boot_laws :: "'k zephyr \<Rightarrow> bool" where
  "boot_laws Z \<longleftrightarrow> sem_laws Z \<and> phy_laws Z \<and> host_laws Z \<and> msgq_laws Z DECT_LINK_LAYER_TX_MSG_QUEUE_DEPTH \<and>
     layout_laws Z \<and> hwinfo_laws Z \<and> fifo_laws Z \<and> slist_laws Z"

text \<open>The firmware after start-up.\<close>

definition app_started :: "'k zephyr \<Rightarrow> ('k, 'a) app_machine_scheme \<Rightarrow> bool" where
  "app_started Z s \<longleftrightarrow> app_wired Z s \<and> dect_ready Z s \<and> ble_ready Z s \<and> dev_fetched s \<and>
     li_rx_callback (ll s) = Some Prv_on_data_layer_rx \<and>
     dt_transport_rx_callback (dtl s) = Some Prv_handle_transport_rx \<and>
     bs_transport_rx_callback (bsv s) = Some Prv_handle_transport_rx \<and>
     kv_fifo (kview Z (kern s)) FromUpstreamFifo = [] \<and> kv_fifo (kview Z (kern s)) FromDownstreamFifo = [] \<and>
     kv_txq (kview Z (kern s)) = [] \<and> mem s = boot_mem"

section \<open>The drivers\<close>

lemma drivers_start:
  assumes laws: "boot_laws Z" and up: "parts_start Z" and boot: "app_boot Z s"
  obtains s1 s2 s3 s4 where "dect_link_layer_init Z [NRF_MODEM_DECT_PHY_EVT_INIT 0,
       NRF_MODEM_DECT_PHY_EVT_CONFIGURE 0, NRF_MODEM_DECT_PHY_EVT_ACTIVATE 0] s = Some (0, [], s1)"
    and "dect_transport_layer_init Z s1 = (0, s2)" and "ble_core_init Z s2 = (0, s3)"
    and "alfie_ble_service_init Z s3 = (0, s4)"
    and "dect_ready Z s4" and "ble_ready Z s4" and "dev_fetched s4"
    and "li_rx_callback (ll s4) = Some Prv_on_data_layer_rx"
    and "dt_transport (dtl s4) = dect_transport_obj" and "bs_transport (bsv s4) = ble_transport_obj"
    and "rtr s4 = router_inst_init" and "msi s4 = messaging_inst_init" and "kv_txq (kview Z (kern s4)) = []"
    and "mem s4 = boot_mem"
proof -
  have l: "sem_laws Z" "phy_laws Z" "host_laws Z" "msgq_laws Z DECT_LINK_LAYER_TX_MSG_QUEUE_DEPTH" "layout_laws Z"
    "hwinfo_laws Z" using laws by (simp_all add: boot_laws_def)
  have u: "\<And>k. fst (nrf_modem_lib_init Z k) = 0" "\<And>k. fst (nrf_modem_dect_phy_event_handler_set Z k) = 0"
    "\<And>k. fst (nrf_modem_dect_phy_init Z k) = 0" "\<And>k. fst (nrf_modem_dect_phy_configure Z prv_dect_config_params k) = 0"
    "\<And>k. fst (nrf_modem_dect_phy_activate Z k) = 0" "\<And>k. fst (bt_enable Z k) = 0"
    using up by (simp_all add: parts_start_def)
  have b: "\<not> li_initialized (ll s)" "dtl s = dect_transport_inst_init" "bcore s = ble_core_inst_init"
    "bsv s = ble_service_inst_init" "rtr s = router_inst_init" "msi s = messaging_inst_init" "mem s = boot_mem"
    "live_bufs DectRxPool (kview Z (kern s)) = {}" "live_bufs BleRxPool (kview Z (kern s)) = {}"
    using boot by (simp_all add: app_boot_def)
  obtain s1 where s1: "dect_link_layer_init Z [NRF_MODEM_DECT_PHY_EVT_INIT 0,
       NRF_MODEM_DECT_PHY_EVT_CONFIGURE 0, NRF_MODEM_DECT_PHY_EVT_ACTIVATE 0] s = Some (0, [], s1)"
    "s1 = s\<lparr>kern := kern s1, ll := ll s1\<rparr>" "li_initialized (ll s1)"
    "kview Z (kern s1) = (kview Z (kern s))\<lparr>kv_txq := [], kv_sem := (kv_sem (kview Z (kern s)))(LinkOpSem := 0)\<rparr>"
    by (rule link_init_started[OF l(1-4) b(1) u(1-5)])
  have b1: "dtl s1 = dect_transport_inst_init" "bcore s1 = ble_core_inst_init" "bsv s1 = ble_service_inst_init"
    "rtr s1 = router_inst_init" "msi s1 = messaging_inst_init" "mem s1 = boot_mem"
    by (subst s1(2), simp add: b)+
  have live1: "live_bufs p (kview Z (kern s1)) = live_bufs p (kview Z (kern s))" for p
    by (simp add: s1(4) live_bufs_def)
  have new1: "\<not> dt_initialized (dtl s1)" "dt_rx_pool (dtl s1) = pool_zero DectRxPool"
    "live_bufs DectRxPool (kview Z (kern s1)) = {}"
    "\<And>p. tb_buffer (tb_at s1 p) = None" "\<And>p. tb_state (tb_at s1 p) = TRANSPORT_BUFFER_STATE_FREE"
    by (simp_all add: b1 dect_transport_inst_init_def tb_at_def live1 b(8))
  obtain s2 where s2: "dect_transport_layer_init Z s1 = (0, s2)" "dect_ready Z s2"
    "li_rx_callback (ll s2) = Some Prv_on_data_layer_rx"
    "dt_transport (dtl s2) = \<lparr>tr_api = Some \<lparr>api_write = Some Dect_transport_layer_write,
           api_register_rx_cb = Some Dect_transport_layer_register_rx_callback\<rparr>,
           tr_type = ALFIE_TRANSPORT_TYPE_DOWNSTREAM\<rparr>"
    "mem s2 = mem s1"
    "kview Z (kern s2) = (kview Z (kern s1))\<lparr>kv_sem := (kv_sem (kview Z (kern s1)))(DectAckSem := 0)\<rparr>"
    "s2 = s1\<lparr>kern := kern s2, ll := ll s2, dtl := dtl s2\<rparr>"
    by (rule dect_init_spec[OF l(5,1) new1(1) s1(3) new1(2-5)])
  have b2: "bcore s2 = ble_core_inst_init" "bsv s2 = ble_service_inst_init" "rtr s2 = router_inst_init"
    "msi s2 = messaging_inst_init" by (subst s2(7), simp add: b1)+
  obtain r s3 where init3: "ble_core_init Z s2 = (r, s3)" by fastforce
  have name: "length (bc_device_name (bcore s2)) = 16" by (simp add: b2(1) ble_core_inst_init_def)
  obtain k where s3: "r = fst (bt_enable Z k)"
    "bcore s3 = (bcore s2)\<lparr>bc_device_name := device_name_text (dev_id s3) @ 0 # drop 15 (bc_device_name (bcore s2)),
           bc_ad_name_len := Some 14\<rparr>"
    "kview Z (kern s3) = kview Z (kern s2)" "mem s3 = mem s2" "dtl s3 = dtl s2" "ll s3 = ll s2"
    "s3 = s2\<lparr>kern := kern s3, dev_fetched := True, dev_id := dev_id s3, bcore := bcore s3\<rparr>"
    by (rule ble_core_init_spec[OF name init3]) (use l(3,6) in blast)
  have r: "r = 0" using s3(1) u(6) by simp
  have b3: "bsv s3 = ble_service_inst_init" "rtr s3 = router_inst_init" "msi s3 = messaging_inst_init" "dev_fetched s3"
    by (subst s3(7), simp add: b2)+
  have new3: "bcore s3 = ble_core_inst_init\<lparr>bc_device_name := device_name_text (dev_id s3) @ 0 # drop 15 (bc_device_name (bcore s2)),
           bc_ad_name_len := Some 14\<rparr>"
    "live_bufs BleRxPool (kview Z (kern s3)) = {}"
    "\<And>p. tb_buffer (tb_at s3 p) = None" "\<And>p. tb_state (tb_at s3 p) = TRANSPORT_BUFFER_STATE_FREE"
    using live1[of BleRxPool] b(9) by (simp_all add: s3(2-4) b2(1) s2(5,6) b1(6) tb_at_def live_bufs_def)
  obtain s4 where s4: "alfie_ble_service_init Z s3 = (0, s4)" "ble_ready Z s4"
    "bs_transport (bsv s4) = \<lparr>tr_api = Some \<lparr>api_write = Some Alfie_ble_service_write,
           api_register_rx_cb = Some Alfie_ble_service_register_rx_callback\<rparr>,
           tr_type = ALFIE_TRANSPORT_TYPE_UPSTREAM\<rparr>"
    "mem s4 = mem s3" "dtl s4 = dtl s3" "ll s4 = ll s3"
    "kview Z (kern s4) = (kview Z (kern s3))\<lparr>kv_sem := (kv_sem (kview Z (kern s3)))(BleAckSem := 0)\<rparr>"
    "s4 = s3\<lparr>kern := kern s4, bcore := bcore s4, bsv := bsv s4\<rparr>"
    by (rule ble_init_spec[OF l(5,1) b3(1) new3(1-4)])
  have b4: "rtr s4 = router_inst_init" "msi s4 = messaging_inst_init" "dev_fetched s4"
    by (subst s4(8), simp add: b3)+
  show thesis
  proof (rule that[OF s1(1) s2(1) _ s4(1) _ s4(2) b4(3) _ _ _ b4(1,2)])
    show "ble_core_init Z s2 = (0, s3)" using init3 r by simp
    show "dect_ready Z s4"
      using s2(2) by (simp add: dect_ready_def pool_inv_def s4(4-7) s3(3-6))
    show "li_rx_callback (ll s4) = Some Prv_on_data_layer_rx" by (simp add: s4(6) s3(6) s2(3))
    show "dt_transport (dtl s4) = dect_transport_obj" by (simp add: s4(5) s3(5) s2(4) dect_transport_obj_def)
    show "bs_transport (bsv s4) = ble_transport_obj" by (simp add: s4(3) ble_transport_obj_def)
    show "kv_txq (kview Z (kern s4)) = []" by (simp add: s4(7) s3(3) s2(6) s1(4))
    show "mem s4 = boot_mem" by (simp add: s4(4) s3(4) s2(5) b1(6))
  qed
qed

section \<open>The router and the endpoint\<close>

text \<open>Registering a transport that is ready: its receive callback becomes the router's, and it is the last
  of the list.\<close>

lemma register_dect:
  assumes "rt_initialized (rtr s)" and "dt_initialized (dtl s)" and "dt_transport (dtl s) = dect_transport_obj"
  shows "alfie_router_register_transport Z app_register (dect_transport_layer_get_transport s) s =
     Some (0, s\<lparr>dtl := (dtl s)\<lparr>dt_transport_rx_callback := Some Prv_handle_transport_rx\<rparr>,
       kern := sys_slist_append Z TransportsList DectTransport (kern s)\<rparr>)"
  using assms by (simp add: alfie_router_register_transport_def dect_transport_layer_get_transport_def
      dect_transport_obj_def app_register_def dect_transport_layer_register_rx_callback_def)

lemma register_ble:
  assumes "rt_initialized (rtr s)" and "bs_initialized (bsv s)" and "bs_transport (bsv s) = ble_transport_obj"
  shows "alfie_router_register_transport Z app_register (alfie_ble_service_get_transport s) s =
     Some (0, s\<lparr>bsv := (bsv s)\<lparr>bs_transport_rx_callback := Some Prv_handle_transport_rx\<rparr>,
       kern := sys_slist_append Z TransportsList BleTransport (kern s)\<rparr>)"
  using assms by (simp add: alfie_router_register_transport_def alfie_ble_service_get_transport_def
      ble_transport_obj_def app_register_def alfie_ble_service_register_rx_callback_def)

lemma router_start:
  assumes laws: "boot_laws Z" and ready: "dect_ready Z s" "ble_ready Z s" "dev_fetched s"
    and rx: "li_rx_callback (ll s) = Some Prv_on_data_layer_rx"
    and obj: "dt_transport (dtl s) = dect_transport_obj" "bs_transport (bsv s) = ble_transport_obj"
    and new: "rtr s = router_inst_init" "msi s = messaging_inst_init" and txq: "kv_txq (kview Z (kern s)) = []"
    and boot: "mem s = boot_mem"
  obtains s5 s6 s7 s8 s9 where "ble_core_start_advertising Z s = (0, s5)" and "alfie_router_init Z s5 = (0, s6)"
    and "alfie_router_register_transport Z app_register (dect_transport_layer_get_transport s6) s6 = Some (0, s7)"
    and "alfie_router_register_transport Z app_register (alfie_ble_service_get_transport s7) s7 = Some (0, s8)"
    and "alfie_messaging_endpoint_init Z s8 = (0, s9)" and "app_started Z s9"
proof -
  have l: "host_laws Z" "fifo_laws Z" "slist_laws Z" using laws by (simp_all add: boot_laws_def)
  define k6 where "k6 = k_thread_create Z Prv_router_thread (k_fifo_init Z FromDownstreamFifo
      (k_fifo_init Z FromUpstreamFifo (sys_slist_init Z TransportsList (sys_slist_init Z EndpointsList
        (k_work_submit Z (kern s))))))"
  let ?s5 = "s\<lparr>kern := k_work_submit Z (kern s)\<rparr>"
  let ?s6 = "s\<lparr>kern := k6, rtr := (rtr s)\<lparr>rt_initialized := True\<rparr>\<rparr>"
  let ?s7 = "?s6\<lparr>dtl := (dtl s)\<lparr>dt_transport_rx_callback := Some Prv_handle_transport_rx\<rparr>,
      kern := sys_slist_append Z TransportsList DectTransport k6\<rparr>"
  let ?k8 = "sys_slist_append Z TransportsList BleTransport (sys_slist_append Z TransportsList DectTransport k6)"
  let ?s8 = "?s7\<lparr>bsv := (bsv s)\<lparr>bs_transport_rx_callback := Some Prv_handle_transport_rx\<rparr>, kern := ?k8\<rparr>"
  let ?s9 = "?s8\<lparr>endpoints_mem := (endpoints_mem s)(MessagingEndpoint := messaging_endpoint_obj),
      kern := sys_slist_append Z EndpointsList MessagingEndpoint ?k8, msi := (msi s)\<lparr>mi_initialized := True\<rparr>\<rparr>"
  have v6: "kview Z k6 = (kview Z (kern s))\<lparr>kv_slist := (\<lambda>_. []), kv_fifo := (\<lambda>_. [])\<rparr>"
  proof -
    have sl: "((kv_slist (kview Z (kern s)))(EndpointsList := [], TransportsList := [])) x = []" for x by (cases x) simp_all
    have ff: "((kv_fifo (kview Z (kern s)))(FromUpstreamFifo := [], FromDownstreamFifo := [])) x = []" for x
      by (cases x) simp_all
    have "(kv_slist (kview Z (kern s)))(EndpointsList := [], TransportsList := []) = (\<lambda>_. [])"
      "(kv_fifo (kview Z (kern s)))(FromUpstreamFifo := [], FromDownstreamFifo := []) = (\<lambda>_. [])"
      by (rule ext, rule sl, rule ext, rule ff)
    then show ?thesis
      by (simp add: k6_def host_view(9,10)[OF l(1)] fifo_view(1)[OF l(2)] slist_view(1)[OF l(3)])
  qed
  have v9: "kview Z (kern ?s9) = (kview Z (kern s))\<lparr>kv_slist := (\<lambda>_. [])(TransportsList := [DectTransport, BleTransport],
      EndpointsList := [MessagingEndpoint]), kv_fifo := (\<lambda>_. [])\<rparr>"
    by (simp add: slist_view(2)[OF l(3)] v6)
  show thesis
  proof (rule that)
    show "ble_core_start_advertising Z s = (0, ?s5)" by (simp add: ble_core_start_advertising_def)
    show "alfie_router_init Z ?s5 = (0, ?s6)" by (simp add: alfie_router_init_def new(1) router_inst_init_def k6_def Let_def)
    show "alfie_router_register_transport Z app_register (dect_transport_layer_get_transport ?s6) ?s6 = Some (0, ?s7)"
      by (subst register_dect) (use ready(1) obj(1) in \<open>simp_all add: dect_ready_def\<close>)
    show "alfie_router_register_transport Z app_register (alfie_ble_service_get_transport ?s7) ?s7 = Some (0, ?s8)"
      by (subst register_ble) (use ready(2) obj(2) in \<open>simp_all add: ble_ready_def\<close>)
    show "alfie_messaging_endpoint_init Z ?s8 = (0, ?s9)"
      by (simp add: alfie_messaging_endpoint_init_def alfie_router_register_endpoint_def new(2) messaging_inst_init_def
          messaging_endpoint_obj_def Let_def)
    have "app_wired Z ?s9" unfolding app_wired_def v9 using obj by simp
    moreover have "dect_ready Z ?s9" "ble_ready Z ?s9"
      using ready unfolding dect_ready_def ble_ready_def pool_inv_def v9 by simp_all
    moreover have "kv_fifo (kview Z (kern ?s9)) q = []" "kv_txq (kview Z (kern ?s9)) = []" for q
      unfolding v9 using txq by simp_all
    ultimately show "app_started Z ?s9" using ready(3) rx boot unfolding app_started_def by simp
  qed
qed

section \<open>Properties\<close>

text \<open>C14. Start-up: on a modem and a Bluetooth host that start, \<open>main\<close> returns 0 from static memory, and then
  both transports are ready to receive and hand their messages to the router, the router knows both
  transports and the messaging endpoint, and all queues are empty.\<close>

theorem app_main_starts:
  assumes "boot_laws Z" and "parts_start Z" and "app_boot Z s"
  shows "\<exists>s'. app_main Z [NRF_MODEM_DECT_PHY_EVT_INIT 0, NRF_MODEM_DECT_PHY_EVT_CONFIGURE 0,
      NRF_MODEM_DECT_PHY_EVT_ACTIVATE 0] s = Some (0, s') \<and> app_started Z s'"
proof -
  obtain s1 s2 s3 s4 where d: "dect_link_layer_init Z [NRF_MODEM_DECT_PHY_EVT_INIT 0,
       NRF_MODEM_DECT_PHY_EVT_CONFIGURE 0, NRF_MODEM_DECT_PHY_EVT_ACTIVATE 0] s = Some (0, [], s1)"
    "dect_transport_layer_init Z s1 = (0, s2)" "ble_core_init Z s2 = (0, s3)" "alfie_ble_service_init Z s3 = (0, s4)"
    and r: "dect_ready Z s4" "ble_ready Z s4" "dev_fetched s4" "li_rx_callback (ll s4) = Some Prv_on_data_layer_rx"
    "dt_transport (dtl s4) = dect_transport_obj" "bs_transport (bsv s4) = ble_transport_obj"
    "rtr s4 = router_inst_init" "msi s4 = messaging_inst_init" "kv_txq (kview Z (kern s4)) = []" "mem s4 = boot_mem"
    by (rule drivers_start[OF assms])
  obtain s5 s6 s7 s8 s9 where "ble_core_start_advertising Z s4 = (0, s5)" "alfie_router_init Z s5 = (0, s6)"
    "alfie_router_register_transport Z app_register (dect_transport_layer_get_transport s6) s6 = Some (0, s7)"
    "alfie_router_register_transport Z app_register (alfie_ble_service_get_transport s7) s7 = Some (0, s8)"
    "alfie_messaging_endpoint_init Z s8 = (0, s9)" "app_started Z s9"
    by (rule router_start[OF assms(1) r])
  with d show ?thesis by (simp add: app_main_def)
qed

definition ref_boot :: "kworld app_machine" where
  "ref_boot = \<lparr>kern = rk_init, mem = boot_mem, dev_fetched = False, dev_id = 0, ll = link_inst_init,
     dtl = dect_transport_inst_init, bcore = ble_core_inst_init, ctl = \<lparr>cs_fetched = False, cs_dev_id = 0\<rparr>,
     bsv = ble_service_inst_init, rtr = router_inst_init, endpoints_mem = (\<lambda>_. endpoint_zero),
     msi = messaging_inst_init, text_log = []\<rparr>"

theorem app_main_starts_witness:
  "\<exists>s'. app_main ref_zephyr [NRF_MODEM_DECT_PHY_EVT_INIT 0, NRF_MODEM_DECT_PHY_EVT_CONFIGURE 0,
      NRF_MODEM_DECT_PHY_EVT_ACTIVATE 0] ref_boot = Some (0, s') \<and> app_started ref_zephyr s'"
proof (rule app_main_starts)
  show "boot_laws ref_zephyr"
    by (simp add: boot_laws_def ref_sem_laws ref_phy_laws ref_host_laws ref_msgq_laws ref_layout_laws ref_hwinfo_laws
        ref_fifo_laws ref_slist_laws DECT_LINK_LAYER_TX_MSG_QUEUE_DEPTH_def)
  show "parts_start ref_zephyr" by (simp add: parts_start_def ref_zephyr_def)
  show "app_boot ref_zephyr ref_boot"
    by (simp add: app_boot_def ref_boot_def link_inst_init_def live_bufs_def rk_init_def)
qed

end
