(* ===== verification/Accounting.thy ===== *)
theory Accounting
  imports Start_Up
begin

text \<open>
  Who owns the receive contexts. A complete message is held by exactly one owner: the driver that
  just completed it, the router's queue of its side, or the router's thread that is sending it. Each
  step of the firmware hands messages from one owner to the next, and none of them touches the
  contexts of the other side.
\<close>

section \<open>The account of one side\<close>

text \<open>
  \<open>own\<close> are the messages in the hands of the running code, with their contexts; the rest of the
  complete messages are in the queue \<open>q\<close>.
\<close>

definition complete_ctx ::
  "transport_buffer_pool_t \<Rightarrow> ('k, 'a) machine_scheme \<Rightarrow> tb_ptr \<Rightarrow> bool" where
  "complete_ctx inst s p \<longleftrightarrow> p \<in> set (pool_ptrs inst) \<and> tb_state (tb_at s p) = TRANSPORT_BUFFER_STATE_REFERENCED"

definition accounted ::
  "'k zephyr \<Rightarrow> transport_buffer_pool_t \<Rightarrow> fifo_id \<Rightarrow> (tb_ptr \<times> u8 list) list \<Rightarrow> ('k, 'a) machine_scheme \<Rightarrow> bool" where
  "accounted Z inst q own s \<longleftrightarrow> pool_inv Z inst s \<and>
     distinct (map fst own @ kv_fifo (kview Z (kern s)) q) \<and>
     (\<forall>p. p \<in> set (map fst own @ kv_fifo (kview Z (kern s)) q) \<longleftrightarrow> complete_ctx inst s p) \<and>
     (\<forall>p msg. (p, msg) \<in> set own \<longrightarrow> length msg \<le> 512 \<and> (\<exists>h. holds_message Z inst p h msg s)) \<and>
     (\<forall>p \<in> set (kv_fifo (kview Z (kern s)) q). \<exists>h msg. holds_message Z inst p h msg s \<and>
        10 \<le> length msg \<and> length msg \<le> 512)"

lemma accountedD:
  assumes "accounted Z inst q own s"
  shows "pool_inv Z inst s" and "distinct (map fst own @ kv_fifo (kview Z (kern s)) q)"
    and "p \<in> set (map fst own @ kv_fifo (kview Z (kern s)) q) \<longleftrightarrow> complete_ctx inst s p"
    and "(p, msg) \<in> set own \<Longrightarrow> length msg \<le> 512 \<and> (\<exists>h. holds_message Z inst p h msg s)"
    and "p \<in> set (kv_fifo (kview Z (kern s)) q) \<Longrightarrow>
      \<exists>h msg. holds_message Z inst p h msg s \<and> 10 \<le> length msg \<and> length msg \<le> 512"
  using assms unfolding accounted_def by blast+

text \<open>
  A step that leaves the complete messages of a side as they are: none becomes complete, and the
  complete ones keep their context and their buffer.
\<close>

definition keeps_complete ::
  "'k zephyr \<Rightarrow> transport_buffer_pool_t \<Rightarrow> ('k, 'a) machine_scheme \<Rightarrow> ('k, 'a) machine_scheme \<Rightarrow> bool" where
  "keeps_complete Z inst s s' \<longleftrightarrow> pool_inv Z inst s' \<and>
     (\<forall>p. complete_ctx inst s p \<longrightarrow> tb_at s' p = tb_at s p \<and>
        (\<forall>h. tb_buffer (tb_at s p) = Some h \<longrightarrow> bufs Z (kern s') h = bufs Z (kern s) h))"

lemma keeps_complete_refl: "pool_inv Z inst s \<Longrightarrow> keeps_complete Z inst s s"
  by (simp add: keeps_complete_def)

lemma keeps_complete_trans:
  assumes "keeps_complete Z inst s t" and "keeps_complete Z inst t u"
  shows "keeps_complete Z inst s u"
  using assms unfolding keeps_complete_def complete_ctx_def by metis

lemma keeps_complete_ctx:
  "keeps_complete Z inst s s' \<Longrightarrow> complete_ctx inst s p \<Longrightarrow> complete_ctx inst s' p"
  unfolding keeps_complete_def complete_ctx_def by metis

lemma keeps_message:
  assumes "keeps_complete Z inst s s'" and "holds_message Z inst p h msg s"
  shows "holds_message Z inst p h msg s'"
proof -
  have "complete_ctx inst s p" "tb_buffer (tb_at s p) = Some h"
    using assms(2) by (simp_all add: holds_message_def complete_ctx_def)
  then have "tb_at s' p = tb_at s p" "bufs Z (kern s') h = bufs Z (kern s) h" "pool_inv Z inst s'"
    using assms(1) unfolding keeps_complete_def by blast+
  with assms(2) show ?thesis by (simp add: holds_message_def)
qed

text \<open>A step that completes at most \<open>new\<close> and puts nothing into the queue.\<close>

lemma accounted_step:
  assumes acc: "accounted Z inst q own s" and keep: "keeps_complete Z inst s s'"
    and fifo: "kv_fifo (kview Z (kern s')) q = kv_fifo (kview Z (kern s)) q"
    and new: "\<And>p. complete_ctx inst s' p \<Longrightarrow> complete_ctx inst s p \<or> p \<in> fst ` set new"
    and fresh: "\<And>p msg. (p, msg) \<in> set new \<Longrightarrow>
      \<not> complete_ctx inst s p \<and> length msg \<le> 512 \<and> (\<exists>h. holds_message Z inst p h msg s')"
    and dist: "distinct (map fst new)"
  shows "accounted Z inst q (new @ own) s'"
proof -
  note a = accountedD[OF acc]
  have new_complete: "complete_ctx inst s' p" if "p \<in> fst ` set new" for p
    using fresh that by (auto simp: holds_message_def complete_ctx_def)
  have old: "complete_ctx inst s p" if "p \<in> set (map fst own @ kv_fifo (kview Z (kern s)) q)" for p
    using a(3) that by blast
  have "set (map fst new) \<inter> set (map fst own @ kv_fifo (kview Z (kern s)) q) = {}"
    using fresh old by fastforce
  then have "distinct (map fst (new @ own) @ kv_fifo (kview Z (kern s')) q)"
    using a(2) dist fifo by auto
  moreover have "p \<in> set (map fst (new @ own) @ kv_fifo (kview Z (kern s')) q) \<longleftrightarrow> complete_ctx inst s' p" for p
  proof -
    have "p \<in> set (map fst (new @ own) @ kv_fifo (kview Z (kern s')) q) \<longleftrightarrow>
        p \<in> fst ` set new \<or> complete_ctx inst s p"
      using a(3)[of p] fifo by auto
    also have "\<dots> \<longleftrightarrow> complete_ctx inst s' p"
      using new[of p] new_complete[of p] keeps_complete_ctx[OF keep] by blast
    finally show ?thesis .
  qed
  moreover have "length msg \<le> 512 \<and> (\<exists>h. holds_message Z inst p h msg s')" if "(p, msg) \<in> set (new @ own)" for p msg
    using that fresh[of p msg] a(4)[of p msg] keeps_message[OF keep] by auto
  moreover have "\<exists>h msg. holds_message Z inst p h msg s' \<and> 10 \<le> length msg \<and> length msg \<le> 512"
    if "p \<in> set (kv_fifo (kview Z (kern s')) q)" for p
    using that a(5)[of p] fifo keeps_message[OF keep] by metis
  moreover have "pool_inv Z inst s'" using keep by (simp add: keeps_complete_def)
  ultimately show ?thesis unfolding accounted_def by blast
qed

lemmas accounted_same = accounted_step[where new = "[]", simplified]

text \<open>A held message goes into the queue, or comes out of it.\<close>

lemma accounted_put:
  assumes acc: "accounted Z inst q ((p, msg) # own) s" and size: "10 \<le> length msg"
    and same: "mem s' = mem s" "bufs Z (kern s') = bufs Z (kern s)"
    and fifo: "kv_fifo (kview Z (kern s')) q = kv_fifo (kview Z (kern s)) q @ [p]"
  shows "accounted Z inst q own s'"
proof -
  have hm: "holds_message Z inst x h m s' = holds_message Z inst x h m s" for x h m
    by (rule holds_message_cong[OF same])
  have cc: "complete_ctx inst s' x = complete_ctx inst s x" for x
    using same(1) by (simp add: complete_ctx_def tb_at_def)
  have pi: "pool_inv Z inst s'" using acc same by (simp add: accounted_def pool_inv_def)
  show ?thesis
    unfolding accounted_def hm cc fifo
    using acc size pi accountedD(4)[OF acc, of p msg] unfolding accounted_def by (auto 0 3)
qed

lemma accounted_get:
  assumes acc: "accounted Z inst q own s"
    and same: "mem s' = mem s" "bufs Z (kern s') = bufs Z (kern s)"
    and fifo: "kv_fifo (kview Z (kern s)) q = p # kv_fifo (kview Z (kern s')) q"
  obtains msg where "accounted Z inst q ((p, msg) # own) s'" and "10 \<le> length msg"
proof -
  have hm: "holds_message Z inst x h m s' = holds_message Z inst x h m s" for x h m
    by (rule holds_message_cong[OF same])
  have cc: "complete_ctx inst s' x = complete_ctx inst s x" for x
    using same(1) by (simp add: complete_ctx_def tb_at_def)
  have pi: "pool_inv Z inst s'" using acc same by (simp add: accounted_def pool_inv_def)
  obtain h msg where m: "holds_message Z inst p h msg s" "10 \<le> length msg" "length msg \<le> 512"
    using accountedD(5)[OF acc, of p] fifo by auto
  have "accounted Z inst q ((p, msg) # own) s'"
    unfolding accounted_def hm cc
    using acc pi m unfolding accounted_def fifo by (auto 0 3)
  with m(2) that show ?thesis by blast
qed

text \<open>The last reference to a held message is dropped: its context is free.\<close>

lemma accounted_drop:
  assumes laws: "net_buf_laws Z cnt cap" and acc: "accounted Z inst q ((p, msg) # own) s"
  obtains s' where "transport_buffer_unref Z (Some p) s = Some s'" and "accounted Z inst q own s'"
    and "only_buffers s s'" and "same_but_bufs (kview Z (kern s)) (kview Z (kern s'))"
    and "ktime Z (kern s) \<le> ktime Z (kern s')" and "tb_state (tb_at s' p) = TRANSPORT_BUFFER_STATE_FREE"
    and "\<And>x. x \<noteq> p \<Longrightarrow> tb_at s' x = tb_at s x"
    and "\<exists>h b. bufs Z (kern s) h = Some b \<and> nb_pool b = pl_buffer_pool inst \<and> bufs Z (kern s') = (bufs Z (kern s))(h := None)"
proof -
  note a = accountedD[OF acc]
  obtain h where m: "holds_message Z inst p h msg s" using a(4)[of p msg] by auto
  then have st: "p \<in> set (pool_ptrs inst)" "tb_buffer (tb_at s p) = Some h"
    "bufs Z (kern s) h = Some \<lparr>nb_pool = pl_buffer_pool inst, nb_ref = 1, nb_data = msg\<rparr>"
    by (simp_all add: holds_message_def)
  obtain s' where s': "transport_buffer_unref Z (Some p) s = Some s'" "pool_inv Z inst s'" "only_buffers s s'"
    "same_but_bufs (kview Z (kern s)) (kview Z (kern s'))" "ktime Z (kern s) \<le> ktime Z (kern s')"
    "tb_at s' p = release_ctx (tb_at s p)" "\<And>x. x \<noteq> p \<Longrightarrow> tb_at s' x = tb_at s x"
    "bufs Z (kern s') = (bufs Z (kern s))(h := None)"
    by (rule unref_last[OF laws a(1) st]) auto
  have free: "\<not> complete_ctx inst s' p" using s'(6) by (simp add: complete_ctx_def release_ctx_def)
  have other: "complete_ctx inst s' x = complete_ctx inst s x" if "x \<noteq> p" for x
    using s'(7)[OF that] by (simp add: complete_ctx_def)
  have hm: "holds_message Z inst x g m s'" if x: "holds_message Z inst x g m s" "x \<noteq> p" for x g m
  proof -
    have "x \<in> set (pool_ptrs inst)" "tb_buffer (tb_at s x) = Some g" using x(1) by (simp_all add: holds_message_def)
    with x(2) st(1,2) a(1) have "g \<noteq> h"
      using pool_okD(3)[of inst "tbs (mem s)" "bufs Z (kern s)" x p h] by (auto simp: pool_inv_def tb_at_def)
    with x s'(2,7,8) show ?thesis by (simp add: holds_message_def)
  qed
  have fifo: "kv_fifo (kview Z (kern s')) q = kv_fifo (kview Z (kern s)) q" using s'(4) by (simp add: same_but_bufs_def)
  have np: "p \<notin> set (map fst own @ kv_fifo (kview Z (kern s)) q)" using a(2) by auto
  have "accounted Z inst q own s'"
    unfolding accounted_def fifo
  proof (intro conjI allI ballI impI)
    show "x \<in> set (map fst own @ kv_fifo (kview Z (kern s)) q) \<longleftrightarrow> complete_ctx inst s' x" for x
      using a(3)[of x] np free other[of x] by (cases "x = p") auto
    fix x m assume "(x, m) \<in> set own"
    moreover from this have "x \<noteq> p" using np by force
    ultimately show "length m \<le> 512" "\<exists>g. holds_message Z inst x g m s'" using a(4)[of x m] hm by auto
  next
    fix x assume x: "x \<in> set (kv_fifo (kview Z (kern s)) q)"
    then have "x \<noteq> p" using np by auto
    with a(5)[OF x] hm show "\<exists>h msg. holds_message Z inst x h msg s' \<and> 10 \<le> length msg \<and> length msg \<le> 512"
      by blast
  qed (use a(2) s'(2) in auto)
  moreover have "tb_state (tb_at s' p) = TRANSPORT_BUFFER_STATE_FREE" using s'(6) by (simp add: release_ctx_def)
  ultimately show thesis using s'(1,3-5,7,8) st(3) by (intro that) (assumption | fastforce)+
qed

section \<open>The other side\<close>

text \<open>What a step on one pool leaves alone: the contexts and the buffers of the others.\<close>

definition apart ::
  "'k zephyr \<Rightarrow> transport_buffer_pool_t \<Rightarrow> ('k, 'a) machine_scheme \<Rightarrow> ('k, 'a) machine_scheme \<Rightarrow> bool" where
  "apart Z inst s s' \<longleftrightarrow> (\<forall>p. p \<notin> set (pool_ptrs inst) \<longrightarrow> tb_at s' p = tb_at s p) \<and>
     (\<forall>h b. nb_pool b \<noteq> pl_buffer_pool inst \<longrightarrow> (bufs Z (kern s') h = Some b \<longleftrightarrow> bufs Z (kern s) h = Some b))"

lemma apart_refl [simp]: "apart Z inst s s"
  by (simp add: apart_def)

lemma apart_trans: "apart Z inst s t \<Longrightarrow> apart Z inst t u \<Longrightarrow> apart Z inst s u"
  by (simp add: apart_def)

lemma apart_same: "mem s' = mem s \<Longrightarrow> bufs Z (kern s') = bufs Z (kern s) \<Longrightarrow> apart Z inst s s'"
  by (simp add: apart_def tb_at_def)

text \<open>One context and one buffer of the pool changed.\<close>

lemma apart_update:
  assumes "p \<in> set (pool_ptrs inst)" and "\<And>x. x \<noteq> p \<Longrightarrow> tb_at s' x = tb_at s x"
    and "\<And>g. g \<noteq> h \<Longrightarrow> bufs Z (kern s') g = bufs Z (kern s) g"
    and "\<And>b. bufs Z (kern s) h = Some b \<Longrightarrow> nb_pool b = pl_buffer_pool inst"
    and "\<And>b. bufs Z (kern s') h = Some b \<Longrightarrow> nb_pool b = pl_buffer_pool inst"
  shows "apart Z inst s s'"
  unfolding apart_def
proof (intro conjI allI impI)
  fix x assume "x \<notin> set (pool_ptrs inst)"
  with assms(1) have "x \<noteq> p" by blast
  then show "tb_at s' x = tb_at s x" by (rule assms(2))
next
  fix g and b :: net_buf assume b: "nb_pool b \<noteq> pl_buffer_pool inst"
  show "bufs Z (kern s') g = Some b \<longleftrightarrow> bufs Z (kern s) g = Some b"
    by (cases "g = h") (use b assms(3)[of g] assms(4,5)[of b] in auto)
qed

lemma apart_keeps:
  assumes "apart Z inst s s'" and inv: "pool_inv Z inst' s"
    and pools: "pl_buffer_pool inst' \<noteq> pl_buffer_pool inst" "set (pool_ptrs inst') \<inter> set (pool_ptrs inst) = {}"
  shows "keeps_complete Z inst' s s'" and "complete_ctx inst' s' = complete_ctx inst' s"
proof -
  have at: "tb_at s' p = tb_at s p" if "p \<in> set (pool_ptrs inst')" for p
    using assms(1) that pools(2) by (auto simp: apart_def)
  have b: "bufs Z (kern s') h = Some b \<longleftrightarrow> bufs Z (kern s) h = Some b" if "nb_pool b = pl_buffer_pool inst'" for h b
    using assms(1) that pools(1) by (simp add: apart_def)
  have ok: "pool_ok inst' (tbs (mem s)) (bufs Z (kern s))" using inv by (simp add: pool_inv_def)
  have pi: "pool_inv Z inst' s'"
    unfolding pool_inv_def by (rule pool_ok_mono[OF ok]) (use at b in \<open>simp_all add: tb_at_def\<close>)
  show "complete_ctx inst' s' = complete_ctx inst' s"
    using at by (auto simp: complete_ctx_def fun_eq_iff)
  show "keeps_complete Z inst' s s'"
    unfolding keeps_complete_def
  proof (intro conjI allI impI)
    fix p h assume p: "complete_ctx inst' s p"
    then show "tb_at s' p = tb_at s p" by (simp add: complete_ctx_def at)
    assume h: "tb_buffer (tb_at s p) = Some h"
    have "ctx_ok (pl_buffer_pool inst') (bufs Z (kern s)) (tb_at s p)"
      using pool_okD(2)[OF ok, of p] p by (simp add: complete_ctx_def tb_at_def)
    then obtain g nb where "tb_buffer (tb_at s p) = Some g" "bufs Z (kern s) g = Some nb"
      "nb_pool nb = pl_buffer_pool inst'"
      by (rule ctx_ok_buffer) (use p in \<open>auto simp: complete_ctx_def\<close>)
    with h b[of nb g] show "bufs Z (kern s') h = bufs Z (kern s) h" by simp
  qed (rule pi)
qed

lemma accounted_apart:
  assumes "accounted Z inst' q own s" and "apart Z inst s s'"
    and "pl_buffer_pool inst' \<noteq> pl_buffer_pool inst" and "set (pool_ptrs inst') \<inter> set (pool_ptrs inst) = {}"
    and "kv_fifo (kview Z (kern s')) q = kv_fifo (kview Z (kern s)) q"
  shows "accounted Z inst' q own s'"
  by (rule accounted_same[OF assms(1) apart_keeps(1)[OF assms(2) accountedD(1)[OF assms(1)] assms(3,4)] assms(5)])
    (simp add: apart_keeps(2)[OF assms(2) accountedD(1)[OF assms(1)] assms(3,4)])

section \<open>One received fragment\<close>

lemma expire_apart:
  assumes "expire_frame Z inst s s1" shows "apart Z inst s s1"
  unfolding apart_def
proof (intro conjI allI impI)
  fix h and b :: net_buf assume b: "nb_pool b \<noteq> pl_buffer_pool inst"
  have "bufs Z (kern s1) h = bufs Z (kern s) h \<or> (bufs Z (kern s1) h = None \<and>
      (\<exists>b. bufs Z (kern s) h = Some b \<and> nb_pool b = pl_buffer_pool inst))"
    using assms by (simp add: expire_frame_def)
  with b show "bufs Z (kern s1) h = Some b \<longleftrightarrow> bufs Z (kern s) h = Some b" by auto
qed (use assms in \<open>simp add: expire_frame_def\<close>)

text \<open>The message a fragment completes, if it does.\<close>

definition completes :: "(tb_ptr \<times> transport_buffer_write_ret_t) option \<Rightarrow> tb_ptr option" where
  "completes out = (case out of Some (p, TRANSPORT_BUFFER_WRITE_RET_COMPLETE) \<Rightarrow> Some p | _ \<Rightarrow> None)"

lemma completes_iff: "completes out = Some p \<longleftrightarrow> out = Some (p, TRANSPORT_BUFFER_WRITE_RET_COMPLETE)"
  by (auto simp: completes_def split: option.splits transport_buffer_write_ret_t.splits)

lemma rx_step_effect:
  assumes laws: "clock_laws Z" "net_buf_laws Z cnt cap"
    and inv: "pool_inv Z inst s" and fits: "pool_fits cnt cap inst" and query: "src_query inst (rf_src f)"
    and small: "unat (rf_total f) \<le> cap (pl_buffer_pool inst)"
    and len: "rf_len f \<le> length (rf_payload f)" "rf_len f < 2 ^ 16"
  obtains out s' where "rx_step Z inst f s = Some (out, s')" and "keeps_complete Z inst s s'" and "apart Z inst s s'"
    and "only_rx s s'" and "same_but_bufs (kview Z (kern s)) (kview Z (kern s'))" and "ktime Z (kern s) \<le> ktime Z (kern s')"
    and "\<And>p. complete_ctx inst s' p \<longleftrightarrow> complete_ctx inst s p \<or> completes out = Some p"
    and "\<And>p. completes out = Some p \<Longrightarrow> \<not> complete_ctx inst s p \<and>
           (\<exists>h msg. length msg \<le> cap (pl_buffer_pool inst) \<and> holds_message Z inst p h msg s')"
proof (rule rx_step_cases[OF laws inv fits query small len], goal_cases)
  case (1 s1 r s2 out s')
  note run = 1(3) and inv1 = 1(4) and fr = 1(5) and exp = 1(6) and inv2 = 1(7) and got = 1(10) and none = 1(11)
    and some = 1(12) and inv' = 1(13)
  have e1: "complete_ctx inst s1 p \<longleftrightarrow> complete_ctx inst s p" for p
  proof (cases "p \<in> set (pool_ptrs inst)")
    case True
    obtain t where "tb_at s1 p = (if expired inst (of_nat t) (tb_at s p) then release_ctx (tb_at s p) else tb_at s p)"
      using exp[OF True] by (auto simp: expire_effect_def)
    then show ?thesis by (auto simp: complete_ctx_def expired_def release_ctx_def split: if_splits)
  qed (simp add: complete_ctx_def)
  have k1: "keeps_complete Z inst s s1"
    unfolding keeps_complete_def
  proof (intro conjI allI impI)
    fix p h assume p: "complete_ctx inst s p"
    then have p1: "p \<in> set (pool_ptrs inst)" "tb_state (tb_at s1 p) \<noteq> TRANSPORT_BUFFER_STATE_FREE"
      using e1[of p] by (simp_all add: complete_ctx_def)
    show at: "tb_at s1 p = tb_at s p" by (rule expiry_only_frees[OF exp[OF p1(1)] p1(2)])
    show "bufs Z (kern s1) h = bufs Z (kern s) h" if "tb_buffer (tb_at s p) = Some h"
      by (rule expiry_keeps_buffer[OF inv1 fr p1]) (simp add: at that)
  qed (rule inv1)
  show thesis
  proof (cases r)
    case None
    with none have o: "out = None" "s' = s1" by simp_all
    show thesis
      by (rule that[OF run]) (use o k1 e1 expire_apart[OF fr] 1(14,15,16) fr 1(8) none None in
          \<open>simp_all add: completes_def expire_frame_def\<close>)
  next
    case (Some p)
    obtain ret where w: "out = Some (p, ret)" "tb_state (tb_at s2 p) = TRANSPORT_BUFFER_STATE_RECEIVING"
      "ret = TRANSPORT_BUFFER_WRITE_RET_COMPLETE \<longleftrightarrow> tb_state (tb_at s' p) = TRANSPORT_BUFFER_STATE_REFERENCED"
      "\<And>x. x \<noteq> p \<Longrightarrow> tb_at s' x = tb_at s2 x" "tb_buffer (tb_at s' p) = tb_buffer (tb_at s2 p)"
      "unat (tb_total_size_bytes (tb_at s' p)) = unat (rf_total f)"
      "\<And>g. tb_buffer (tb_at s2 p) \<noteq> Some g \<Longrightarrow> bufs Z (kern s') g = bufs Z (kern s2) g"
      "\<exists>h nb. tb_buffer (tb_at s2 p) = Some h \<and> bufs Z (kern s') h = Some nb \<and> nb_ref nb = 1"
      using some[OF Some] by blast
    have p: "p \<in> set (pool_ptrs inst)" and at2: "\<And>x. x \<noteq> p \<Longrightarrow> tb_at s2 x = tb_at s1 x" using got Some by blast+
    have np1: "\<not> complete_ctx inst s1 p"
    proof -
      from got Some have "s2 = s1 \<or> tb_state (tb_at s1 p) = TRANSPORT_BUFFER_STATE_FREE" by blast
      with w(2) show ?thesis by (auto simp: complete_ctx_def)
    qed
    obtain h nb where h: "tb_buffer (tb_at s2 p) = Some h" "bufs Z (kern s') h = Some nb" "nb_ref nb = 1" using w(8) by blast
    have ok2: "pool_ok inst (tbs (mem s2)) (bufs Z (kern s2))" using inv2 by (simp add: pool_inv_def)
    have b2: "bufs Z (kern s2) g = bufs Z (kern s1) g" if g: "g \<noteq> h" for g
    proof -
      from got Some consider "s2 = s1" | h' where "tb_at s2 p = fresh_ctx (rf_seq f) (unat (rf_total f)) (rf_frag_total f) h' (of_nat (ktime Z (kern s2)))"
          "bufs Z (kern s2) = (bufs Z (kern s1))(h' \<mapsto> \<lparr>nb_pool = pl_buffer_pool inst, nb_ref = 1, nb_data = []\<rparr>)" by blast
      then show ?thesis using g h(1) by cases (auto simp: fresh_ctx_def)
    qed
    have hb1: "nb_pool b = pl_buffer_pool inst" if "bufs Z (kern s1) h = Some b" for b
    proof -
      have "ctx_ok (pl_buffer_pool inst) (bufs Z (kern s2)) (tb_at s2 p)"
        using pool_okD(2)[OF ok2 p] by (simp add: tb_at_def)
      then obtain nb2 where "bufs Z (kern s2) h = Some nb2" "nb_pool nb2 = pl_buffer_pool inst"
        by (rule ctx_ok_buffer) (use w(2) h(1) in auto)
      moreover have "s2 = s1 \<or> bufs Z (kern s1) h = None"
      proof -
        from got Some consider "s2 = s1" | h' where "bufs Z (kern s1) h' = None"
          "tb_at s2 p = fresh_ctx (rf_seq f) (unat (rf_total f)) (rf_frag_total f) h' (of_nat (ktime Z (kern s2)))" by blast
        then show ?thesis using h(1) by cases (auto simp: fresh_ctx_def)
      qed
      ultimately show ?thesis using that by auto
    qed
    have ctx': "ctx_ok (pl_buffer_pool inst) (bufs Z (kern s')) (tb_at s' p)"
      using pool_okD(2)[OF inv'[unfolded pool_inv_def] p] by (simp add: tb_at_def)
    have hb': "nb_pool nb = pl_buffer_pool inst"
    proof -
      have "tb_state (tb_at s' p) \<noteq> TRANSPORT_BUFFER_STATE_FREE"
        using ctx' h(1) w(5) by (auto simp: ctx_ok_free)
      then obtain g b where "tb_buffer (tb_at s' p) = Some g" "bufs Z (kern s') g = Some b"
        "nb_pool b = pl_buffer_pool inst" by (rule ctx_ok_buffer[OF ctx'])
      with h(1,2) w(5) show ?thesis by simp
    qed
    have b': "bufs Z (kern s') g = bufs Z (kern s1) g" if "g \<noteq> h" for g
      using w(7)[of g] b2[OF that] h(1) that by simp
    have apart1: "apart Z inst s1 s'"
    proof (rule apart_update[OF p, where h = h])
      show "tb_at s' x = tb_at s1 x" if "x \<noteq> p" for x using w(4)[OF that] at2[OF that] by simp
      show "nb_pool b = pl_buffer_pool inst" if "bufs Z (kern s') h = Some b" for b using that h(2) hb' by simp
    qed (rule b' hb1; assumption)+
    have c1: "complete_ctx inst s' x \<longleftrightarrow> complete_ctx inst s1 x \<or> completes out = Some x" for x
      using np1 w(1,3,4) at2 p by (cases "x = p") (auto simp: complete_ctx_def completes_iff)
    have k2: "keeps_complete Z inst s1 s'"
      unfolding keeps_complete_def
    proof (intro conjI allI impI)
      fix x g assume x: "complete_ctx inst s1 x"
      then have xp: "x \<noteq> p" using np1 by blast
      show "tb_at s' x = tb_at s1 x" using w(4)[OF xp] at2[OF xp] by simp
      assume g: "tb_buffer (tb_at s1 x) = Some g"
      have "g \<noteq> h"
        using pool_okD(3)[OF ok2, of x p h] x xp p h(1) g at2[OF xp] by (auto simp: complete_ctx_def tb_at_def)
      then show "bufs Z (kern s') g = bufs Z (kern s1) g" by (rule b')
    qed (rule inv')
    have msg: "length (nb_data nb) \<le> cap (pl_buffer_pool inst) \<and> holds_message Z inst p h (nb_data nb) s'"
      if "completes out = Some p"
    proof -
      have st: "tb_state (tb_at s' p) = TRANSPORT_BUFFER_STATE_REFERENCED" using that w(1,3) by (simp add: completes_iff)
      then have "length (nb_data nb) = unat (tb_total_size_bytes (tb_at s' p))"
        using ctx' h(1,2) w(5) by (auto simp: ctx_ok_referenced)
      with st inv' p h w(5,6) hb' small show ?thesis by (cases nb) (simp add: holds_message_def)
    qed
    show thesis
    proof (rule that[OF run keeps_complete_trans[OF k1 k2] apart_trans[OF expire_apart[OF fr] apart1] 1(14,16)])
      show "ktime Z (kern s) \<le> ktime Z (kern s')" using fr 1(8,15) by (simp add: expire_frame_def)
      show "complete_ctx inst s' x \<longleftrightarrow> complete_ctx inst s x \<or> completes out = Some x" for x
        using c1[of x] e1[of x] by simp
      show "\<not> complete_ctx inst s x \<and>
           (\<exists>h msg. length msg \<le> cap (pl_buffer_pool inst) \<and> holds_message Z inst x h msg s')"
        if "completes out = Some x" for x
      proof -
        have "x = p" using that w(1) by (simp add: completes_iff)
        with np1 e1[of p] msg that show ?thesis by auto
      qed
    qed
  qed
qed

end
