(* ===== verification/Firmware_Run.thy ===== *)
theory Firmware_Run
  imports Accounting
begin

text \<open>
  The running firmware as a step relation: frames arrive by radio, the phone writes, the router's
  thread takes turns, and while that thread waits for an ACK anything else may happen. The invariant
  is the account of both sides: every complete message has exactly one owner, so none is lost, sent
  twice by the router or leaked, and no step faults.
\<close>

section \<open>Steps of one side\<close>

text \<open>What receiving on one side may change: its pool, its queue, the ACKs and the cached device id.\<close>

definition side_step ::
  "'k zephyr \<Rightarrow> transport_buffer_pool_t \<Rightarrow> fifo_id \<Rightarrow> ('k, 'a) app_machine_scheme \<Rightarrow>
   ('k, 'a) app_machine_scheme \<Rightarrow> bool" where
  "side_step Z inst q s s' \<longleftrightarrow>
     s' = s\<lparr>kern := kern s', mem := mem s', dev_fetched := dev_fetched s', dev_id := dev_id s'\<rparr> \<and>
     (dev_fetched s \<longrightarrow> dev_fetched s') \<and> apart Z inst s s' \<and>
     kv_slist (kview Z (kern s')) = kv_slist (kview Z (kern s)) \<and>
     (\<forall>x. x \<noteq> q \<longrightarrow> kv_fifo (kview Z (kern s')) x = kv_fifo (kview Z (kern s)) x)"

lemma side_step_refl: "side_step Z inst q s s"
  by (simp add: side_step_def)

lemma side_step_trans:
  assumes "side_step Z inst q s t" and "side_step Z inst q t u"
  shows "side_step Z inst q s u"
proof -
  have "u = s\<lparr>kern := kern u, mem := mem u, dev_fetched := dev_fetched u, dev_id := dev_id u\<rparr>"
    using assms unfolding side_step_def by (cases s; cases t; cases u) simp
  with assms show ?thesis using apart_trans[of Z inst s t u] by (simp add: side_step_def)
qed

text \<open>A step that leaves all messages and queues alone.\<close>

definition calm :: "'k zephyr \<Rightarrow> ('k, 'a) app_machine_scheme \<Rightarrow> ('k, 'a) app_machine_scheme \<Rightarrow> bool" where
  "calm Z s s' \<longleftrightarrow> s' = s\<lparr>kern := kern s', dev_fetched := dev_fetched s', dev_id := dev_id s'\<rparr> \<and>
     (dev_fetched s \<longrightarrow> dev_fetched s') \<and> bufs Z (kern s') = bufs Z (kern s) \<and>
     kv_slist (kview Z (kern s')) = kv_slist (kview Z (kern s)) \<and> kv_fifo (kview Z (kern s')) = kv_fifo (kview Z (kern s))"

lemma calm_kern:
  assumes "bufs Z k = bufs Z (kern s)" and "kv_slist (kview Z k) = kv_slist (kview Z (kern s))"
    and "kv_fifo (kview Z k) = kv_fifo (kview Z (kern s))"
  shows "calm Z s (s\<lparr>kern := k\<rparr>)"
  using assms by (simp add: calm_def)

lemma calm_mem: "calm Z s s' \<Longrightarrow> mem s' = mem s"
  unfolding calm_def by (cases s; cases s') simp

lemma calm_side:
  assumes "calm Z s s'" shows "side_step Z inst q s s'"
proof -
  have m: "mem s' = mem s" by (rule calm_mem[OF assms])
  have "s' = s\<lparr>kern := kern s', mem := mem s', dev_fetched := dev_fetched s', dev_id := dev_id s'\<rparr>"
    using assms unfolding calm_def by (cases s; cases s') simp
  with assms m show ?thesis by (simp add: side_step_def calm_def apart_same)
qed

lemma calm_accounted:
  assumes "calm Z s s'" and "accounted Z inst q own s"
  shows "accounted Z inst q own s'"
proof -
  have m: "mem s' = mem s" by (rule calm_mem[OF assms(1)])
  have b: "bufs Z (kern s') = bufs Z (kern s)" "kv_fifo (kview Z (kern s')) = kv_fifo (kview Z (kern s))"
    using assms(1) by (simp_all add: calm_def)
  have "pool_inv Z inst s'" using accountedD(1)[OF assms(2)] m b by (simp add: pool_inv_def)
  then have "keeps_complete Z inst s s'" using m b by (simp add: keeps_complete_def tb_at_def)
  then show ?thesis
    by (rule accounted_same[OF assms(2)]) (use m b in \<open>simp_all add: complete_ctx_def tb_at_def\<close>)
qed

text \<open>A transport hands a complete message to the router and drops its reference.\<close>

lemma deliver_accounts:
  assumes laws: "net_buf_laws Z cnt cap" "fifo_laws Z" and acc: "accounted Z inst q ((p, msg) # own) s"
    and t: "transport_at s n = Some t" "fifo_of (tr_type t) = q"
  obtains s' where "deliver_release Z (prv_handle_transport_rx Z n) p s = Some s'" and "accounted Z inst q own s'"
    and "side_step Z inst q s s'"
proof -
  obtain h where m: "holds_message Z inst p h msg s" using accountedD(4)[OF acc, of p msg] by auto
  then have st: "p \<in> set (pool_ptrs inst)" "tb_state (tb_at s p) = TRANSPORT_BUFFER_STATE_REFERENCED"
    "tb_buffer (tb_at s p) = Some h" "unat (tb_total_size_bytes (tb_at s p)) = length msg"
    "bufs Z (kern s) h = Some \<lparr>nb_pool = pl_buffer_pool inst, nb_ref = 1, nb_data = msg\<rparr>"
    by (simp_all add: holds_message_def)
  show thesis
  proof (cases "10 \<le> length msg")
    case True
    then have sz: "10 \<le> unat (tb_total_size_bytes (tb_at s p))" using st(4) by simp
    obtain s1 where s1: "prv_handle_transport_rx Z n p s = Some s1" "pool_inv Z inst s1" "s1 = s\<lparr>kern := kern s1\<rparr>"
      "kview Z (kern s1) = (kview Z (kern s))\<lparr>kv_bufs := (bufs Z (kern s))(h \<mapsto> \<lparr>nb_pool = pl_buffer_pool inst, nb_ref = 2, nb_data = msg\<rparr>),
         kv_fifo := (kv_fifo (kview Z (kern s)))(q := kv_fifo (kview Z (kern s)) q @ [p])\<rparr>"
      by (rule router_rx_queues[OF laws accountedD(1)[OF acc] st(1-3,5) t(1) sz]) (use t(2) in \<open>auto simp: numeral_2_eq_2\<close>)
    have m1: "mem s1 = mem s" using arg_cong[OF s1(3), of mem] by simp
    have h1: "tb_buffer (tb_at s1 p) = Some h"
      "bufs Z (kern s1) h = Some \<lparr>nb_pool = pl_buffer_pool inst, nb_ref = 2, nb_data = msg\<rparr>"
      using st(3) m1 s1(4) by (simp_all add: tb_at_def)
    obtain s2 where s2: "transport_buffer_unref Z (Some p) s1 = Some s2" "s2 = s1\<lparr>kern := kern s2\<rparr>"
      "same_but_bufs (kview Z (kern s1)) (kview Z (kern s2))"
      "bufs Z (kern s2) = (bufs Z (kern s1))(h \<mapsto> \<lparr>nb_pool = pl_buffer_pool inst, nb_ref = 1, nb_data = msg\<rparr>)"
      by (rule unref_shared[OF laws(1) s1(2) st(1) h1]) auto
    have run: "deliver_release Z (prv_handle_transport_rx Z n) p s = Some s2" by (simp add: deliver_release_def s1(1) s2(1))
    have eq: "s2 = s\<lparr>kern := kern s2\<rparr>" using s2(2) arg_cong[OF s1(3), of "\<lambda>x. x\<lparr>kern := kern s2\<rparr>"] by simp
    have m2: "mem s2 = mem s" using arg_cong[OF eq, of mem] by simp
    have b2: "bufs Z (kern s2) = bufs Z (kern s)" using s2(4) s1(4) st(5) by auto
    have f2: "kv_fifo (kview Z (kern s2)) = (kv_fifo (kview Z (kern s)))(q := kv_fifo (kview Z (kern s)) q @ [p])"
      "kv_slist (kview Z (kern s2)) = kv_slist (kview Z (kern s))"
      using s2(3) s1(4) by (simp_all add: same_but_bufs_def)
    have "accounted Z inst q own s2" by (rule accounted_put[OF acc True m2 b2]) (simp add: f2(1))
    moreover have "side_step Z inst q s s2"
      unfolding side_step_def using f2 apart_same[OF m2 b2] eq by (cases s; cases s2) auto
    ultimately show thesis using run that by blast
  next
    case False
    obtain s' where s': "transport_buffer_unref Z (Some p) s = Some s'" "accounted Z inst q own s'" "only_buffers s s'"
      "same_but_bufs (kview Z (kern s)) (kview Z (kern s'))" "\<And>x. x \<noteq> p \<Longrightarrow> tb_at s' x = tb_at s x"
      "\<exists>h b. bufs Z (kern s) h = Some b \<and> nb_pool b = pl_buffer_pool inst \<and> bufs Z (kern s') = (bufs Z (kern s))(h := None)"
      by (rule accounted_drop[OF laws(1) acc]) blast
    then obtain g b where g: "bufs Z (kern s) g = Some b" "nb_pool b = pl_buffer_pool inst"
      "bufs Z (kern s') = (bufs Z (kern s))(g := None)" by blast
    have "apart Z inst s s'" by (rule apart_update[OF st(1) s'(5), where h = g]) (use g in auto)
    then have "side_step Z inst q s s'"
      using s'(3,4) unfolding side_step_def only_buffers_def same_but_bufs_def by (cases s; cases s') auto
    moreover have "deliver_release Z (prv_handle_transport_rx Z n) p s = Some s'"
      using False st(4) s'(1) by (simp add: deliver_release_def prv_handle_transport_rx_def)
    ultimately show thesis using s'(2) that by blast
  qed
qed

section \<open>Receiving\<close>

text \<open>What the start-up sets up and nothing changes afterwards.\<close>

definition app_base :: "'k zephyr \<Rightarrow> ('k, 'a) app_machine_scheme \<Rightarrow> bool" where
  "app_base Z s \<longleftrightarrow> app_wired Z s \<and> dev_fetched s \<and> li_initialized (ll s) \<and>
     dt_initialized (dtl s) \<and> dt_rx_pool (dtl s) = dect_pool Z \<and>
     dt_transport_rx_callback (dtl s) = Some Prv_handle_transport_rx \<and>
     bs_initialized (bsv s) \<and> bs_rx_pool (bsv s) = ble_pool Z \<and>
     bs_transport_rx_callback (bsv s) = Some Prv_handle_transport_rx"

lemma side_step_base:
  assumes "side_step Z inst q s s'" and "app_base Z s"
  shows "app_base Z s'"
proof -
  have "dtl s' = dtl s" "bsv s' = bsv s" "ll s' = ll s" "endpoints_mem s' = endpoints_mem s"
    using assms(1) unfolding side_step_def by (cases s; cases s'; simp)+
  with assms show ?thesis by (simp add: app_base_def app_wired_def side_step_def)
qed

text \<open>From what the pool did with a fragment to the end of the handler.\<close>

lemma outcome_accounts:
  fixes s :: "('k, 'a) app_machine_scheme"
  assumes laws: "net_buf_laws Z cnt cap" "fifo_laws Z" "clock_laws Z"
    and acc: "accounted Z inst q own s" and base: "app_base Z s"
    and fits: "pool_fits cnt cap inst" "cap (pl_buffer_pool inst) = 512" and query: "src_query inst (rf_src f)"
    and small: "unat (rf_total f) \<le> 512" and len: "rf_len f \<le> length (rf_payload f)" "rf_len f < 2 ^ 16"
    and ack: "\<And>s2. app_base Z s2 \<Longrightarrow> kv_txq (kview Z (kern s2)) = kv_txq (kview Z (kern s)) \<Longrightarrow>
      \<exists>s3. ack h s2 = Some s3 \<and> calm Z s2 s3"
    and handle: "\<And>p s3. app_base Z s3 \<Longrightarrow> handle p s3 = deliver_release Z (prv_handle_transport_rx Z n) p s3"
    and t: "\<And>s3 :: ('k, 'a) app_machine_scheme. app_base Z s3 \<Longrightarrow> \<exists>t. transport_at s3 n = Some t \<and> fifo_of (tr_type t) = q"
  obtains s' where "do { (out, s2) \<leftarrow> rx_step Z inst f s; rx_outcome ack handle h out s2 } = Some s'"
    and "accounted Z inst q own s'" and "side_step Z inst q s s'"
proof -
  have small': "unat (rf_total f) \<le> cap (pl_buffer_pool inst)" using small fits(2) by simp
  obtain out s2 where o: "rx_step Z inst f s = Some (out, s2)" "keeps_complete Z inst s s2" "apart Z inst s s2"
    "only_rx s s2" "same_but_bufs (kview Z (kern s)) (kview Z (kern s2))"
    and c: "\<And>p. complete_ctx inst s2 p \<longleftrightarrow> complete_ctx inst s p \<or> completes out = Some p"
    "\<And>p. completes out = Some p \<Longrightarrow> \<not> complete_ctx inst s p \<and>
           (\<exists>h msg. length msg \<le> cap (pl_buffer_pool inst) \<and> holds_message Z inst p h msg s2)"
    by (rule rx_step_effect[OF laws(3,1) accountedD(1)[OF acc] fits(1) query small' len]) blast
  have side2: "side_step Z inst q s s2"
    using o(3-5) unfolding side_step_def only_rx_def same_but_bufs_def by (cases s; cases s2) auto
  have base2: "app_base Z s2" by (rule side_step_base[OF side2 base])
  have fifo2: "kv_fifo (kview Z (kern s2)) q = kv_fifo (kview Z (kern s)) q"
    "kv_txq (kview Z (kern s2)) = kv_txq (kview Z (kern s))" using o(5) by (simp_all add: same_but_bufs_def)
  show thesis
  proof (cases "completes out")
    case nc: None
    have acc2: "accounted Z inst q own s2" by (rule accounted_same[OF acc o(2) fifo2(1)]) (use c(1) nc in simp)
    obtain s3 where s3: "ack h s2 = Some s3" "calm Z s2 s3" using ack[OF base2 fifo2(2)] by blast
    have "rx_outcome ack handle h out s2 = Some s2 \<or> rx_outcome ack handle h out s2 = Some s3"
      by (cases rule: rx_outcome_cases[where out = out and ack = ack and handle = handle and h = h])
        (use nc s3(1) in \<open>auto simp: rx_outcome_acked completes_def\<close>)
    then show thesis
      using o(1) acc2 side2 calm_accounted[OF s3(2) acc2] side_step_trans[OF side2 calm_side[OF s3(2)]]
      by (elim disjE) (auto intro: that)
  next
    case cp: (Some p)
    then have complete: "out = Some (p, TRANSPORT_BUFFER_WRITE_RET_COMPLETE)" by (simp add: completes_iff)
    obtain hb msg where m: "length msg \<le> 512" "holds_message Z inst p hb msg s2" "\<not> complete_ctx inst s p"
      using c(2)[OF cp] fits(2) by auto
    have "accounted Z inst q ([(p, msg)] @ own) s2"
      by (rule accounted_step[OF acc o(2) fifo2(1)]) (use c(1) cp m in auto)
    then have acc2: "accounted Z inst q ((p, msg) # own) s2" by simp
    obtain s3 where s3: "ack h s2 = Some s3" "calm Z s2 s3" using ack[OF base2 fifo2(2)] by blast
    note side3 = side_step_trans[OF side2 calm_side[OF s3(2)]]
    note base3 = side_step_base[OF side3 base]
    obtain t where t3: "transport_at s3 n = Some t" "fifo_of (tr_type t) = q" using t[OF base3] by blast
    obtain s4 where s4: "deliver_release Z (prv_handle_transport_rx Z n) p s3 = Some s4" "accounted Z inst q own s4"
      "side_step Z inst q s3 s4"
      by (rule deliver_accounts[OF laws(1,2) calm_accounted[OF s3(2) acc2] t3])
    show thesis
      by (rule that[OF _ s4(2) side_step_trans[OF side3 s4(3)]])
        (simp add: o(1) complete rx_outcome_complete s3(1) handle[OF base3] s4(1))
  qed
qed

text \<open>A frame received by radio.\<close>

lemma radio_rx_accounts:
  assumes env: "dect_env Z cnt cap" and fifo: "fifo_laws Z" and base: "app_base Z s"
    and acc: "accounted Z (dect_pool Z) FromDownstreamFifo own s" and room: "txq_room Z s"
    and ok: "dect_frame_ok buf n"
  obtains s' where "prv_on_data_layer_rx Z (app_cb Z) src buf n s = Some s'"
    and "accounted Z (dect_pool Z) FromDownstreamFifo own s'" and "side_step Z (dect_pool Z) FromDownstreamFifo s s'"
proof -
  note e = dect_envD[OF env]
  let ?c = "\<lparr>dc_Z = Z, dc_cnt = cnt, dc_cap = cap, dc_call_cb = app_cb Z, dc_state = dtl s,
    dc_queued = length (kv_txq (kview Z (kern s))), dc_drain = id, dc_src = src, dc_seq = 0, dc_msg = [],
    dc_frame = (\<lambda>k. []), dc_since = 0\<rparr>"
  have b: "dt_initialized (dtl s)" "dt_rx_pool (dtl s) = dect_pool Z" "li_initialized (ll s)"
    "dt_transport_rx_callback (dtl s) = Some Prv_handle_transport_rx" using base by (simp_all add: app_base_def)
  have "consumes Z (dect_pool Z) (dect_callback (app_cb Z) (dt_transport_rx_callback (dtl s)))"
    using router_consumes[OF e(2) fifo, of DectTransport] by (simp add: b(4) dect_callback_def app_cb_def)
  then have c: "dc_env ?c" "dc_ready ?c s"
    using env b room accountedD(1)[OF acc] by (simp_all add: dc_env_def dc_ready_def dc_holds_def txq_room_def)
  show thesis
  proof (cases "dect_frame_frag (src, buf, n)")
    case None
    obtain s' where s': "prv_on_data_layer_rx Z (app_cb Z) src buf n s = Some s'"
      using dc_rest[OF c ok None] by (auto simp: dc_rx_frame_def)
    have cases: "s' = s \<or> s' = prv_handle_data_ack_frame_dect Z buf n s"
      by (rule dc_rest_cases[OF ok None, of ?c s]) (use s' in \<open>simp_all add: dc_rx_frame_def\<close>)
    have "calm Z s (prv_handle_data_ack_frame_dect Z buf n s)"
      unfolding prv_handle_data_ack_frame_dect_def by (rule calm_kern) (simp_all add: sem_view(3)[OF e(3)])
    with cases have "calm Z s s'" by (auto simp: calm_def)
    with s' show thesis by (intro that[of s'] calm_accounted[OF _ acc] calm_side)
  next
    case (Some fh)
    obtain f h where "fh = (f, h)" by (cases fh)
    with Some have f: "dect_frame_frag (src, buf, n) = Some (f, h)" by simp
    have fo: "unat (rf_total f) \<le> 512" "rf_len f \<le> length (rf_payload f)" "rf_len f < 2 ^ 16"
      "src_query (dect_pool Z) (rf_src f)"
      using dect_rx.frag_ok[OF c(1) _ f] ok e(7) by simp_all
    have "prv_on_data_layer_rx Z (app_cb Z) src buf n s = dc_rx_frame ?c (src, buf, n) s"
      by (simp add: dc_rx_frame_def)
    also have "\<dots> = do { (out, s2) \<leftarrow> rx_step Z (dect_pool Z) f s; rx_outcome (dc_ack ?c)
        (prv_handle_complete_incoming_data_transaction_dect Z (app_cb Z)) h out s2 }"
      using dc_data[OF c f] by simp
    finally have run: "prv_on_data_layer_rx Z (app_cb Z) src buf n s = \<dots>" .
    have ack: "\<exists>s3. dc_ack ?c h s2 = Some s3 \<and> calm Z s2 s3"
      if "app_base Z s2" "kv_txq (kview Z (kern s2)) = kv_txq (kview Z (kern s))" for s2
    proof -
      obtain dst d where h: "h = (dst, d)" by (cases h)
      have i: "li_initialized (ll s2)" "txq_room Z s2" using that room by (simp_all add: app_base_def txq_room_def)
      obtain s3 m where s3: "prv_write_data_ack_dect Z dst d s2 = Some s3" "only_dev s2 s3" "dev_fetched s3"
        "kview Z (kern s3) = (kview Z (kern s2))\<lparr>kv_txq := kv_txq (kview Z (kern s2)) @ [m],
           kv_put := kv_put (kview Z (kern s2)) @ [m]\<rparr>"
        by (rule ack_spec_dect[OF e(4,5) i, of dst d]) blast
      then show ?thesis by (simp add: h dc_ack_def calm_def only_dev_def)
    qed
    have handle: "prv_handle_complete_incoming_data_transaction_dect Z (app_cb Z) p s3 =
        deliver_release Z (prv_handle_transport_rx Z DectTransport) p s3" if "app_base Z s3" for p s3
      using that by (simp add: handle_complete_dect_alt app_base_def dect_callback_def app_cb_def)
    have t: "\<exists>t. transport_at s3 DectTransport = Some t \<and> fifo_of (tr_type t) = FromDownstreamFifo"
      if "app_base Z s3" for s3 :: "('a, 'b) app_machine_scheme"
      using that by (simp add: app_base_def app_wired_def dect_transport_obj_def fifo_of_def)
    show thesis
      by (rule outcome_accounts[where ack = "dc_ack ?c" and h = h and n = DectTransport and
            handle = "prv_handle_complete_incoming_data_transaction_dect Z (app_cb Z)",
            OF e(2) fifo e(1) acc base e(6) _ fo(4,1-3) ack handle t])
        (use e(7) that run in simp_all)
  qed
qed

text \<open>A write of the phone.\<close>

lemma phone_rx_accounts:
  assumes env: "ble_env Z cnt cap" and fifo: "fifo_laws Z" and base: "app_base Z s"
    and acc: "accounted Z (ble_pool Z) FromUpstreamFifo own s" and ok: "ble_frame_ok (buf, n)"
  obtains ret s' where "prv_on_data_write Z (app_cb Z) buf n s = Some (ret, s')"
    and "accounted Z (ble_pool Z) FromUpstreamFifo own s'" and "side_step Z (ble_pool Z) FromUpstreamFifo s s'"
proof -
  note e = ble_envD[OF env]
  let ?c = "\<lparr>bl_Z = Z, bl_cnt = cnt, bl_cap = cap, bl_call_cb = app_cb Z,
    bl_callback = bs_transport_rx_callback (bsv s), bl_transport = bs_transport (bsv s), bl_between = id, bl_seq = 0,
    bl_msg = [], bl_frame = (\<lambda>k. []), bl_since = 0\<rparr>"
  have b: "bs_initialized (bsv s)" "bs_rx_pool (bsv s) = ble_pool Z"
    "bs_transport_rx_callback (bsv s) = Some Prv_handle_transport_rx" using base by (simp_all add: app_base_def)
  have "consumes Z (ble_pool Z) (ble_callback (app_cb Z) (bs_transport_rx_callback (bsv s)))"
    using router_consumes[OF e(2) fifo, of BleTransport] by (simp add: b(3) ble_callback_def app_cb_def)
  then have c: "bl_env ?c" "bl_ready ?c s"
    using env b accountedD(1)[OF acc] by (simp_all add: bl_env_def bl_ready_def ble_ready_def)
  have run: "\<exists>ret. prv_on_data_write Z (app_cb Z) buf n s = Some (ret, s')" if "bl_rx_frame ?c (buf, n) s = Some s'" for s'
    using that by (auto simp: bl_rx_frame_def bind_Some_iff)
  show thesis
  proof (cases "ble_frame_frag (buf, n)")
    case None
    obtain s' where s': "bl_rx_frame ?c (buf, n) s = Some s'" using bl_rest[OF c ok None] by blast
    obtain ret where r: "prv_on_data_write Z (app_cb Z) buf n s = Some (ret, s')" using run[OF s'] by blast
    have cases: "s' = s \<or> s' = s\<lparr>kern := k_sem_give Z BleAckSem (kern s)\<rparr>"
      by (rule bl_rest_cases[OF ok None, of ?c s]) (use s' in simp_all)
    have "calm Z s (s\<lparr>kern := k_sem_give Z BleAckSem (kern s)\<rparr>)"
      by (rule calm_kern) (simp_all add: sem_view(3)[OF e(3)])
    with cases have "calm Z s s'" by (auto simp: calm_def)
    with r show thesis by (intro that[of ret s'] calm_accounted[OF _ acc] calm_side)
  next
    case (Some fh)
    obtain f h where "fh = (f, h)" by (cases fh)
    with Some have f: "ble_frame_frag (buf, n) = Some (f, h)" by simp
    have fo: "unat (rf_total f) \<le> 512" "rf_len f \<le> length (rf_payload f)" "rf_len f < 2 ^ 16"
      "src_query (ble_pool Z) (rf_src f)"
      using ble_rx.frag_ok[OF c(1) ok f] e(6) by simp_all
    have eq: "bl_rx_frame ?c (buf, n) s = do { (out, s2) \<leftarrow> rx_step Z (ble_pool Z) f s; rx_outcome (bl_ack ?c)
        (prv_handle_complete_incoming_data_transaction_ble Z (app_cb Z)) h out s2 }"
      using bl_data[OF c(2) f] by simp
    have ack: "\<exists>s3. bl_ack ?c h s2 = Some s3 \<and> calm Z s2 s3"
      if "app_base Z s2" "kv_txq (kview Z (kern s2)) = kv_txq (kview Z (kern s))" for s2
    proof -
      let ?a = "put_ble_data_ack_frame \<lparr>ba_header = \<lparr>bh_version = 0,
          bh_frame_type = ALFIE_BLE_SERVICE_PROTO_FRAME_TYPE_DATA_ACK\<rparr>, ba_seq_id = bd_seq_id h, ba_frag_idx = bd_frag_idx h\<rparr>"
      obtain r k where nt: "bt_gatt_notify Z (bs_conn (bsv s2)) ?a (kern s2) = (r, k)" by fastforce
      have "calm Z s2 (s2\<lparr>kern := k\<rparr>)"
        by (rule calm_kern) (use notify_view(1)[OF e(4) nt] in simp_all)
      then show ?thesis by (simp add: bl_ack_def prv_write_data_ack_ble_def nt)
    qed
    have handle: "prv_handle_complete_incoming_data_transaction_ble Z (app_cb Z) p s3 =
        deliver_release Z (prv_handle_transport_rx Z BleTransport) p s3" if "app_base Z s3" for p s3
      using that by (simp add: handle_complete_ble_alt app_base_def ble_callback_def app_cb_def)
    have t: "\<exists>t. transport_at s3 BleTransport = Some t \<and> fifo_of (tr_type t) = FromUpstreamFifo"
      if "app_base Z s3" for s3 :: "('a, 'b) app_machine_scheme"
      using that by (simp add: app_base_def app_wired_def ble_transport_obj_def fifo_of_def)
    show thesis
    proof (rule outcome_accounts[where ack = "bl_ack ?c" and h = h and n = BleTransport and
            handle = "prv_handle_complete_incoming_data_transaction_ble Z (app_cb Z)",
            OF e(2) fifo e(1) acc base e(5) _ fo(4,1-3) ack handle t])
      fix s' assume s': "do { (out, s2) \<leftarrow> rx_step Z (ble_pool Z) f s; rx_outcome (bl_ack ?c)
          (prv_handle_complete_incoming_data_transaction_ble Z (app_cb Z)) h out s2 } = Some s'"
        "accounted Z (ble_pool Z) FromUpstreamFifo own s'" "side_step Z (ble_pool Z) FromUpstreamFifo s s'"
      with run[of s'] eq that show thesis by auto
    qed (use e(6) in simp_all)
  qed
qed

section \<open>Events\<close>

inductive rx_event :: "'k zephyr \<Rightarrow> ('k, 'a) app_machine_scheme \<Rightarrow> ('k, 'a) app_machine_scheme \<Rightarrow> bool" for Z where
  radio_frame: "dect_frame_ok buf n \<Longrightarrow> txq_room Z s \<Longrightarrow> prv_on_data_layer_rx Z (app_cb Z) src buf n s = Some s' \<Longrightarrow>
    rx_event Z s s'"
| phone_write: "ble_frame_ok (buf, n) \<Longrightarrow> prv_on_data_write Z (app_cb Z) buf n s = Some (ret, s') \<Longrightarrow> rx_event Z s s'"
| in_background: "background Z s s' \<Longrightarrow> rx_event Z s s'"

text \<open>Phones that come and go are part of the background.\<close>

lemma connection_background:
  assumes "host_laws Z"
  shows "background Z s (prv_device_connected Z conn err s)" and "background Z s (prv_device_disconnected Z conn err s)"
proof -
  have "kview Z k' = kview Z (kern s)" if "bt_conn_ref Z conn (kern s) = (c, k')" for c k'
    using host_view(1)[OF assms, of conn "kern s"] that by simp
  then show "background Z s (prv_device_connected Z conn err s)"
    by (auto simp: background_def prv_device_connected_def split: prod.splits)
  show "background Z s (prv_device_disconnected Z conn err s)"
    by (simp add: background_def prv_device_disconnected_def host_view(2)[OF assms])
qed

text \<open>The state of the running firmware, with the messages in the hands of the router's thread.\<close>

definition running ::
  "'k zephyr \<Rightarrow> (tb_ptr \<times> u8 list) list \<Rightarrow> (tb_ptr \<times> u8 list) list \<Rightarrow> ('k, 'a) app_machine_scheme \<Rightarrow> bool" where
  "running Z up down s \<longleftrightarrow> app_base Z s \<and> accounted Z (ble_pool Z) FromUpstreamFifo up s \<and>
     accounted Z (dect_pool Z) FromDownstreamFifo down s"

definition app_env :: "'k zephyr \<Rightarrow> (pool_id \<Rightarrow> nat) \<Rightarrow> (pool_id \<Rightarrow> nat) \<Rightarrow> bool" where
  "app_env Z cnt cap \<longleftrightarrow> dect_env Z cnt cap \<and> ble_env Z cnt cap \<and> fifo_laws Z \<and> poll_laws Z \<and> rand_laws Z"

lemma pools_disjoint:
  "set (pool_ptrs (ble_pool Z)) \<inter> set (pool_ptrs (dect_pool Z)) = {}"
  by (auto simp: pool_ptrs_def ble_pool_def dect_pool_def)

lemma background_running:
  assumes "background Z s s'" and "running Z up down s"
  shows "running Z up down s'"
proof -
  have eq: "s' = s\<lparr>kern := kern s', ll := ll s', bcore := bcore s', ctl := ctl s', bsv := (bsv s)\<lparr>bs_conn := bs_conn (bsv s')\<rparr>\<rparr>"
    and v: "li_initialized (ll s') = li_initialized (ll s)" "bufs Z (kern s') = bufs Z (kern s)"
      "kv_slist (kview Z (kern s')) = kv_slist (kview Z (kern s))" "kv_fifo (kview Z (kern s')) = kv_fifo (kview Z (kern s))"
    using assms(1) by (simp_all add: background_def)
  have m: "mem s' = mem s" "dtl s' = dtl s" "endpoints_mem s' = endpoints_mem s" "dev_fetched s' = dev_fetched s"
    "bsv s' = (bsv s)\<lparr>bs_conn := bs_conn (bsv s')\<rparr>" by (subst eq, simp)+
  have b: "bs_initialized (bsv s') = bs_initialized (bsv s)" "bs_rx_pool (bsv s') = bs_rx_pool (bsv s)"
    "bs_transport_rx_callback (bsv s') = bs_transport_rx_callback (bsv s)" "bs_transport (bsv s') = bs_transport (bsv s)"
    by (subst m(5), simp)+
  have acc: "accounted Z inst q own s'" if "accounted Z inst q own s" for inst q own
  proof -
    have "pool_inv Z inst s'" using accountedD(1)[OF that] m(1) v(2) by (simp add: pool_inv_def)
    then have "keeps_complete Z inst s s'" using m(1) v(2) by (simp add: keeps_complete_def tb_at_def)
    then show ?thesis
      by (rule accounted_same[OF that]) (use m(1) v(4) in \<open>simp_all add: complete_ctx_def tb_at_def\<close>)
  qed
  show ?thesis
    using assms(2) acc by (simp add: running_def app_base_def app_wired_def m(2-4) b v(1,3))
qed

lemma rx_event_running:
  assumes env: "app_env Z cnt cap" and ev: "rx_event Z s s'" and run: "running Z up down s"
  shows "running Z up down s'"
proof -
  have e: "dect_env Z cnt cap" "ble_env Z cnt cap" "fifo_laws Z" using env by (simp_all add: app_env_def)
  have r: "app_base Z s" "accounted Z (ble_pool Z) FromUpstreamFifo up s"
    "accounted Z (dect_pool Z) FromDownstreamFifo down s" using run by (simp_all add: running_def)
  show ?thesis
    using ev
  proof cases
    case (radio_frame buf n src)
    obtain t where t: "prv_on_data_layer_rx Z (app_cb Z) src buf n s = Some t"
      "accounted Z (dect_pool Z) FromDownstreamFifo down t" "side_step Z (dect_pool Z) FromDownstreamFifo s t"
      by (rule radio_rx_accounts[OF e(1,3) r(1,3) radio_frame(2,1)])
    have "accounted Z (ble_pool Z) FromUpstreamFifo up t"
      by (rule accounted_apart[OF r(2), where inst = "dect_pool Z"])
        (use t(3) pools_disjoint[of Z] in \<open>auto simp: side_step_def\<close>)
    with t side_step_base[OF t(3) r(1)] radio_frame(3) show ?thesis by (simp add: running_def)
  next
    case (phone_write buf n ret)
    obtain ret' t where t: "prv_on_data_write Z (app_cb Z) buf n s = Some (ret', t)"
      "accounted Z (ble_pool Z) FromUpstreamFifo up t" "side_step Z (ble_pool Z) FromUpstreamFifo s t"
      by (rule phone_rx_accounts[OF e(2,3) r(1,2) phone_write(1)])
    have "accounted Z (dect_pool Z) FromDownstreamFifo down t"
      by (rule accounted_apart[OF r(3), where inst = "ble_pool Z"])
        (use t(3) pools_disjoint[of Z] in \<open>auto simp: side_step_def\<close>)
    with t side_step_base[OF t(3) r(1)] phone_write(2) show ?thesis by (simp add: running_def)
  next
    case in_background
    then show ?thesis using run by (rule background_running)
  qed
qed

lemma rx_events_running:
  assumes "app_env Z cnt cap" and "(rx_event Z)\<^sup>*\<^sup>* s s'" and "running Z up down s"
  shows "running Z up down s'"
  using assms(2,3) by (induction rule: rtranclp_induct) (auto intro: rx_event_running[OF assms(1)])

end
