(* ===== verification/Router_Run.thy ===== *)
theory Router_Run
  imports Firmware_Run
begin

text \<open>
  The router's thread among the other events of the running firmware, and the invariant of the whole
  firmware.
\<close>

section \<open>The thread's environment\<close>

text \<open>
  While the router waits for an ACK, other events happen: \<open>others\<close> is any run of them that sends what
  is queued for the radio and sends no data frames of its own.
\<close>

definition runs_events :: "'k zephyr \<Rightarrow> (('k, 'a) app_machine_scheme \<Rightarrow> ('k, 'a) app_machine_scheme) \<Rightarrow> bool" where
  "runs_events Z others \<longleftrightarrow> (\<forall>s. (rx_event Z)\<^sup>*\<^sup>* s (others s)) \<and> link_drains Z others \<and> notifies_no_data Z others"

lemma running_calm: "calm Z s s' \<Longrightarrow> running Z up down s \<Longrightarrow> running Z up down s'"
  using calm_accounted[of Z s s'] side_step_base[OF calm_side] by (auto simp: running_def)

lemma running_kept:
  assumes env: "app_env Z cnt cap" and others: "runs_events Z others"
  shows "undisturbed Z others (running Z up down)" and "unnotified Z others (running Z up down)"
proof -
  have o: "running Z up down (others s)" if "running Z up down s" for s
    by (rule rx_events_running[OF env _ that]) (use others in \<open>simp add: runs_events_def\<close>)
  have "calm Z s s'" if "radio_only Z s s'" for s s' :: "('a, 'b) app_machine_scheme"
    using that by (auto simp: radio_only_def calm_def)
  with o running_calm[of Z _ _ up down] show "undisturbed Z others (running Z up down)"
    unfolding undisturbed_def by blast
  have "calm Z s s'" if n: "notify_only Z s s'" for s s' :: "('a, 'b) app_machine_scheme"
  proof -
    have "s' = s\<lparr>kern := kern s', dev_fetched := dev_fetched s', dev_id := dev_id s'\<rparr>"
      "dev_fetched s' = dev_fetched s" using n unfolding notify_only_def by (cases s; cases s'; simp)+
    with n show ?thesis by (auto simp: notify_only_def calm_def)
  qed
  with o running_calm[of Z _ _ up down] show "unnotified Z others (running Z up down)"
    unfolding unnotified_def by blast
qed

section \<open>Forwarding a message\<close>

text \<open>The message in the hands of the thread, by the side it came from.\<close>

definition serving ::
  "'k zephyr \<Rightarrow> alfie_transport_type_t \<Rightarrow> (tb_ptr \<times> u8 list) list \<Rightarrow> ('k, 'a) app_machine_scheme \<Rightarrow> bool" where
  "serving Z t own s = (case t of
     ALFIE_TRANSPORT_TYPE_DOWNSTREAM \<Rightarrow> running Z own [] s
   | ALFIE_TRANSPORT_TYPE_UPSTREAM \<Rightarrow> running Z [] own s)"

definition source_pool :: "'k zephyr \<Rightarrow> alfie_transport_type_t \<Rightarrow> transport_buffer_pool_t" where
  "source_pool Z t = (case t of ALFIE_TRANSPORT_TYPE_DOWNSTREAM \<Rightarrow> ble_pool Z
     | ALFIE_TRANSPORT_TYPE_UPSTREAM \<Rightarrow> dect_pool Z)"

definition source_fifo :: "alfie_transport_type_t \<Rightarrow> fifo_id" where
  "source_fifo t = (case t of ALFIE_TRANSPORT_TYPE_DOWNSTREAM \<Rightarrow> FromUpstreamFifo
     | ALFIE_TRANSPORT_TYPE_UPSTREAM \<Rightarrow> FromDownstreamFifo)"

definition other_side :: "alfie_transport_type_t \<Rightarrow> alfie_transport_type_t" where
  "other_side t = (case t of ALFIE_TRANSPORT_TYPE_DOWNSTREAM \<Rightarrow> ALFIE_TRANSPORT_TYPE_UPSTREAM
     | ALFIE_TRANSPORT_TYPE_UPSTREAM \<Rightarrow> ALFIE_TRANSPORT_TYPE_DOWNSTREAM)"

lemma serving_iff:
  "serving Z t own s \<longleftrightarrow> app_base Z s \<and> accounted Z (source_pool Z t) (source_fifo t) own s \<and>
     accounted Z (source_pool Z (other_side t)) (source_fifo (other_side t)) [] s"
  by (cases t) (auto simp: serving_def running_def source_pool_def source_fifo_def other_side_def)

lemma sides_apart:
  "pl_buffer_pool (source_pool Z (other_side t)) \<noteq> pl_buffer_pool (source_pool Z t)"
  "set (pool_ptrs (source_pool Z (other_side t))) \<inter> set (pool_ptrs (source_pool Z t)) = {}"
  "source_fifo (other_side t) \<noteq> source_fifo t"
  using pools_disjoint[of Z]
  by (cases t; auto simp: source_pool_def other_side_def source_fifo_def)+

text \<open>Whether the radio or a phone takes it, gives it up or is not there, the write returns.\<close>

lemma side_write_serves:
  assumes env: "app_env Z cnt cap" and others: "runs_events Z others"
    and s: "serving Z t own s" and room: "t = ALFIE_TRANSPORT_TYPE_DOWNSTREAM \<Longrightarrow> txq_room Z s"
    and msg: "0 < length msg" "length msg \<le> 512"
  shows "\<exists>r s'. side_write Z others t dst (Some msg) (length msg) s = Some (r, s') \<and> serving Z t own s'"
proof -
  let ?c = "\<lparr>rc_Z = Z, rc_others = others\<rparr>"
  have e: "sem_laws Z" "hwinfo_laws Z" "msgq_laws Z DECT_LINK_LAYER_TX_MSG_QUEUE_DEPTH" "notify_laws Z" "rand_laws Z"
    using env by (simp_all add: app_env_def dect_env_def ble_env_def)
  have o: "link_drains Z others" "notifies_no_data Z others" using others by (simp_all add: runs_events_def)
  have b: "app_base Z s" using s by (simp add: serving_iff)
  show ?thesis
  proof (cases t)
    case ALFIE_TRANSPORT_TYPE_DOWNSTREAM
    have "radio_up ?c s" using e o(1) b room[OF ALFIE_TRANSPORT_TYPE_DOWNSTREAM] by (simp add: radio_up_def app_base_def)
    moreover have "radio_keeps ?c (running Z own [])" using running_kept(1)[OF env others] by (simp add: radio_keeps_def)
    ultimately show ?thesis
      using to_radio.side_writes[of ?c s "running Z own []" "length msg" msg dst] s msg
        ALFIE_TRANSPORT_TYPE_DOWNSTREAM by (auto simp: serving_def)
  next
    case ALFIE_TRANSPORT_TYPE_UPSTREAM
    show ?thesis
    proof (cases "bs_conn (bsv s)")
      case None
      then show ?thesis
        using s b msg by (simp add: ALFIE_TRANSPORT_TYPE_UPSTREAM side_write_def alfie_ble_service_write_def app_base_def)
    next
      case (Some conn)
      then have "phone_up ?c s" using e o(2) b by (simp add: phone_up_def app_base_def)
      moreover have "phone_keeps ?c (running Z [] own)" using running_kept(2)[OF env others] by (simp add: phone_keeps_def)
      ultimately show ?thesis
        using to_phone.side_writes[of ?c s "running Z [] own" "length msg" msg dst] s msg
          ALFIE_TRANSPORT_TYPE_UPSTREAM by (auto simp: serving_def)
    qed
  qed
qed

lemma forward_serves:
  assumes env: "app_env Z cnt cap" and others: "runs_events Z others"
    and s: "serving Z t [(p, msg)] s" and room: "t = ALFIE_TRANSPORT_TYPE_DOWNSTREAM \<Longrightarrow> txq_room Z s"
    and size: "10 \<le> length msg"
  shows "\<exists>s'. forward_to t Z (app_write Z others) (app_frame Z) p s = Some s' \<and> serving Z t [] s'"
proof -
  have nb: "net_buf_laws Z cnt cap" using env by (simp add: app_env_def dect_env_def)
  obtain hdr where hdr: "get_alfie_header msg = Some hdr"
    using size get_alfie_header_None[of msg] by (cases "get_alfie_header msg") auto
  have data: "\<exists>h. holds_message Z (source_pool Z t) p h msg s'" "length msg \<le> 512" "app_base Z s'"
    if "serving Z t [(p, msg)] s'" for s'
    using accountedD(4)[of Z "source_pool Z t" "source_fifo t" "[(p, msg)]" s' p msg] that by (simp_all add: serving_iff)
  have rd: "buffer_data Z p s' = Some msg" "buffer_header Z p s' = Some hdr"
    "unat (tb_total_size_bytes (tb_at s' p)) = length msg" if "serving Z t [(p, msg)] s'" for s'
    using data(1)[OF that] hdr by (auto simp: holds_message_def buffer_data_def buffer_header_def nb_at_def)
  have len: "0 < length msg" "length msg \<le> 512" using size data(2)[OF s] by auto
  obtain r s1 where s1: "side_write Z others t (ap_dst_id hdr) (Some msg) (length msg) s = Some (r, s1)"
    "serving Z t [(p, msg)] s1" using side_write_serves[OF env others s room len] by blast
  have w: "app_wired Z s" "app_wired Z s1" using data(3)[OF s] data(3)[OF s1(2)] by (simp_all add: app_base_def)
  have we: "write_each Z (app_write Z others) t p (kv_slist (kview Z (kern s)) TransportsList) s = Some s1"
    by (rule write_each_wired[OF w]) (use rd[OF s] s1(1) in simp_all)
  let ?s2 = "s1\<lparr>text_log := text_log s1 @ text_of msg\<rparr>"
  have ne: "prv_notify_endpoint Z (app_frame Z) p s1 = Some ?s2"
    by (rule notify_wired[OF w(2) rd(1)[OF s1(2)] rd(3)[OF s1(2)] hdr])
  have acc2: "accounted Z inst q own ?s2 = accounted Z inst q own s1" for inst q own
    by (simp add: accounted_def holds_message_def complete_ctx_def pool_inv_def tb_at_def)
  have base2: "app_base Z ?s2" using data(3)[OF s1(2)] by (simp add: app_base_def app_wired_def)
  have a2: "accounted Z (source_pool Z t) (source_fifo t) [(p, msg)] ?s2"
    "accounted Z (source_pool Z (other_side t)) (source_fifo (other_side t)) [] ?s2"
    unfolding acc2 using s1(2) by (simp_all add: serving_iff)
  obtain s' where s': "transport_buffer_unref Z (Some p) ?s2 = Some s'"
    "accounted Z (source_pool Z t) (source_fifo t) [] s'" "only_buffers ?s2 s'"
    "same_but_bufs (kview Z (kern ?s2)) (kview Z (kern s'))" "\<And>x. x \<noteq> p \<Longrightarrow> tb_at s' x = tb_at ?s2 x"
    "\<exists>h b. bufs Z (kern ?s2) h = Some b \<and> nb_pool b = pl_buffer_pool (source_pool Z t) \<and>
       bufs Z (kern s') = (bufs Z (kern ?s2))(h := None)"
    by (rule accounted_drop[OF nb a2(1)]) blast
  then obtain g b where g: "bufs Z (kern ?s2) g = Some b" "nb_pool b = pl_buffer_pool (source_pool Z t)"
    "bufs Z (kern s') = (bufs Z (kern ?s2))(g := None)" by blast
  have p: "p \<in> set (pool_ptrs (source_pool Z t))" using data(1)[OF s] by (auto simp: holds_message_def)
  have ap: "apart Z (source_pool Z t) ?s2 s'" by (rule apart_update[OF p s'(5), where h = g]) (use g in auto)
  then have side: "side_step Z (source_pool Z t) (source_fifo t) ?s2 s'"
    using s'(3,4) unfolding side_step_def only_buffers_def same_but_bufs_def by (cases s1; cases s') auto
  have "accounted Z (source_pool Z (other_side t)) (source_fifo (other_side t)) [] s'"
    by (rule accounted_apart[OF a2(2) ap sides_apart(1,2)]) (use s'(4) in \<open>simp add: same_but_bufs_def\<close>)
  with s'(2) side_step_base[OF side base2] have "serving Z t [] s'" by (simp add: serving_iff)
  then show ?thesis using we ne s'(1) by (simp add: forward_to_def)
qed

section \<open>A turn of the thread\<close>

lemma serve_fifo_serves:
  assumes env: "app_env Z cnt cap" and others: "runs_events Z others"
    and s: "serving Z t [] s" and room: "t = ALFIE_TRANSPORT_TYPE_DOWNSTREAM \<Longrightarrow> txq_room Z s"
  shows "\<exists>s'. serve_fifo Z (source_fifo t) (forward_to t Z (app_write Z others) (app_frame Z)) ready s = Some s' \<and>
     serving Z t [] s'"
proof (cases ready)
  case False
  with s show ?thesis by (simp add: serve_fifo_def)
next
  case True
  have fl: "fifo_laws Z" using env by (simp add: app_env_def)
  obtain r k where get: "k_fifo_get Z (source_fifo t) (kern s) = (r, k)" by fastforce
  let ?s = "s\<lparr>kern := k\<rparr>"
  show ?thesis
  proof (cases "kv_fifo (kview Z (kern s)) (source_fifo t)")
    case Nil
    with fifo_get_view(1)[OF fl get] have v: "r = None" "kview Z k = kview Z (kern s)" by simp_all
    have "calm Z s ?s" by (rule calm_kern) (simp_all add: v(2))
    then have "serving Z t [] ?s" using s running_calm[of Z s ?s] by (cases t) (simp_all add: serving_def)
    with True get v(1) show ?thesis by (simp add: serve_fifo_def)
  next
    case (Cons p ps)
    with fifo_get_view(2)[OF fl get] have v: "r = Some p"
      "kview Z k = (kview Z (kern s))\<lparr>kv_fifo := (kv_fifo (kview Z (kern s)))(source_fifo t := ps)\<rparr>" by simp_all
    have a: "app_base Z s" "accounted Z (source_pool Z t) (source_fifo t) [] s"
      "accounted Z (source_pool Z (other_side t)) (source_fifo (other_side t)) [] s" using s by (simp_all add: serving_iff)
    obtain msg where m: "accounted Z (source_pool Z t) (source_fifo t) [(p, msg)] ?s" "10 \<le> length msg"
      by (rule accounted_get[OF a(2), of ?s p]) (use v(2) Cons in simp_all)
    have "accounted Z (source_pool Z (other_side t)) (source_fifo (other_side t)) [] ?s"
      by (rule accounted_apart[OF a(3) apart_same sides_apart(1,2)]) (use v(2) sides_apart(3)[of t] in simp_all)
    moreover have "app_base Z ?s" using a(1) v(2) by (simp add: app_base_def app_wired_def)
    ultimately have "serving Z t [(p, msg)] ?s" using m(1) by (simp add: serving_iff)
    moreover have "txq_room Z ?s" if "t = ALFIE_TRANSPORT_TYPE_DOWNSTREAM" using room[OF that] v(2) by (simp add: txq_room_def)
    ultimately show ?thesis
      using forward_serves[OF env others _ _ m(2)] True get v(1) by (simp add: serve_fifo_def)
  qed
qed

lemma router_turn_runs:
  assumes env: "app_env Z cnt cap" and others: "runs_events Z others" and s: "running Z [] [] s" and room: "txq_room Z s"
    and work: "kv_fifo (kview Z (kern s)) FromUpstreamFifo \<noteq> [] \<or> kv_fifo (kview Z (kern s)) FromDownstreamFifo \<noteq> []"
  shows "\<exists>s'. prv_router_turn Z (app_write Z others) (app_frame Z) s = Some s' \<and> running Z [] [] s'"
proof -
  have pl: "poll_laws Z" using env by (simp add: app_env_def)
  have "\<exists>q \<in> set [FromUpstreamFifo, FromDownstreamFifo]. kv_fifo (kview Z (kern s)) q \<noteq> []" using work by auto
  then obtain flags k where k: "k_poll Z [FromUpstreamFifo, FromDownstreamFifo] (kern s) = Some (flags, k)"
    "kview Z k = kview Z (kern s)" by (rule poll_view[OF pl]) blast
  let ?s = "s\<lparr>kern := k\<rparr>"
  have "calm Z s ?s" by (rule calm_kern) (simp_all add: k(2))
  then have s0: "serving Z ALFIE_TRANSPORT_TYPE_DOWNSTREAM [] ?s" using running_calm[of Z s ?s] s by (simp add: serving_def)
  have "txq_room Z ?s" using room k(2) by (simp add: txq_room_def)
  then obtain s1 where s1: "serve_fifo Z FromUpstreamFifo
      (forward_to ALFIE_TRANSPORT_TYPE_DOWNSTREAM Z (app_write Z others) (app_frame Z)) (flags ! 0) ?s = Some s1"
    "serving Z ALFIE_TRANSPORT_TYPE_DOWNSTREAM [] s1"
    using serve_fifo_serves[OF env others s0, of "flags ! 0"] by (auto simp: source_fifo_def)
  have "serving Z ALFIE_TRANSPORT_TYPE_UPSTREAM [] s1" using s1(2) by (simp add: serving_def)
  then obtain s2 where "serve_fifo Z FromDownstreamFifo
      (forward_to ALFIE_TRANSPORT_TYPE_UPSTREAM Z (app_write Z others) (app_frame Z)) (flags ! 1) s1 = Some s2"
    "serving Z ALFIE_TRANSPORT_TYPE_UPSTREAM [] s2"
    using serve_fifo_serves[OF env others, of ALFIE_TRANSPORT_TYPE_UPSTREAM s1 "flags ! 1"]
    by (auto simp: source_fifo_def)
  with s1(1) k(1) show ?thesis by (auto simp: prv_router_turn_def forward_alt serving_def)
qed

section \<open>The running firmware\<close>

text \<open>The router's thread takes a turn when a queue holds a message; a turn that has to send by radio begins
  when the link layer's queue has room (a full queue makes the thread wait for the link thread).\<close>

inductive fw_step ::
  "'k zephyr \<Rightarrow> (('k, 'a) app_machine_scheme \<Rightarrow> ('k, 'a) app_machine_scheme) \<Rightarrow> ('k, 'a) app_machine_scheme \<Rightarrow>
   ('k, 'a) app_machine_scheme \<Rightarrow> bool" for Z others where
  event: "rx_event Z s s' \<Longrightarrow> fw_step Z others s s'"
| router_turn: "txq_room Z s \<Longrightarrow>
    kv_fifo (kview Z (kern s)) FromUpstreamFifo \<noteq> [] \<or> kv_fifo (kview Z (kern s)) FromDownstreamFifo \<noteq> [] \<Longrightarrow>
    prv_router_turn Z (app_write Z others) (app_frame Z) s = Some s' \<Longrightarrow> fw_step Z others s s'"

lemma started_running:
  assumes "app_started Z s"
  shows "running Z [] [] s"
proof -
  have b: "app_base Z s" "mem s = boot_mem" "pool_inv Z (ble_pool Z) s" "pool_inv Z (dect_pool Z) s"
    "kv_fifo (kview Z (kern s)) FromUpstreamFifo = []" "kv_fifo (kview Z (kern s)) FromDownstreamFifo = []"
    using assms by (simp_all add: app_started_def app_base_def dect_ready_def ble_ready_def)
  have "\<not> complete_ctx inst s p" for inst p by (simp add: complete_ctx_def tb_at_def b(2))
  with b show ?thesis by (simp add: running_def accounted_def)
qed

lemma fw_running:
  assumes env: "app_env Z cnt cap" and others: "runs_events Z others"
    and "(fw_step Z others)\<^sup>*\<^sup>* s s'" and "running Z [] [] s"
  shows "running Z [] [] s'"
  using assms(3,4)
proof (induction rule: rtranclp_induct)
  case (step t u)
  from step.hyps(2) show ?case
  proof cases
    case event
    then show ?thesis using step by (blast intro: rx_event_running[OF env])
  next
    case router_turn
    then show ?thesis using router_turn_runs[OF env others _ router_turn(1,2)] step by auto
  qed
qed

text \<open>What the account of a side says between two steps.\<close>

definition settled_side :: "'k zephyr \<Rightarrow> transport_buffer_pool_t \<Rightarrow> fifo_id \<Rightarrow> ('k, 'a) machine_scheme \<Rightarrow> bool" where
  "settled_side Z inst q s \<longleftrightarrow> distinct (kv_fifo (kview Z (kern s)) q) \<and>
     (\<forall>p. p \<in> set (kv_fifo (kview Z (kern s)) q) \<longleftrightarrow> complete_ctx inst s p) \<and>
     (\<forall>p \<in> set (kv_fifo (kview Z (kern s)) q). \<exists>h msg. holds_message Z inst p h msg s \<and>
        10 \<le> length msg \<and> length msg \<le> 512) \<and>
     (\<forall>h b. bufs Z (kern s) h = Some b \<and> nb_pool b = pl_buffer_pool inst \<longrightarrow>
        (\<exists>!p. p \<in> set (pool_ptrs inst) \<and> tb_buffer (tb_at s p) = Some h) \<and>
        (\<exists>p. tb_buffer (tb_at s p) = Some h \<and> (p \<in> set (kv_fifo (kview Z (kern s)) q) \<or>
           p \<in> set (pool_ptrs inst) \<and> tb_state (tb_at s p) = TRANSPORT_BUFFER_STATE_RECEIVING)))"

lemma accounted_settled:
  assumes acc: "accounted Z inst q [] s"
  shows "settled_side Z inst q s"
proof -
  note a = accountedD[OF acc]
  have ok: "pool_ok inst (tbs (mem s)) (bufs Z (kern s))" using a(1) by (simp add: pool_inv_def)
  have owner: "(\<exists>!p. p \<in> set (pool_ptrs inst) \<and> tb_buffer (tb_at s p) = Some h) \<and>
        (\<exists>p. tb_buffer (tb_at s p) = Some h \<and> (p \<in> set (kv_fifo (kview Z (kern s)) q) \<or>
           p \<in> set (pool_ptrs inst) \<and> tb_state (tb_at s p) = TRANSPORT_BUFFER_STATE_RECEIVING))"
    if b: "bufs Z (kern s) h = Some b" "nb_pool b = pl_buffer_pool inst" for h b
  proof -
    obtain p where p: "p \<in> set (pool_ptrs inst)" "tb_buffer (tb_at s p) = Some h"
      using pool_okD(4)[OF ok b] by (auto simp: tb_at_def)
    have "ctx_ok (pl_buffer_pool inst) (bufs Z (kern s)) (tb_at s p)"
      using pool_okD(2)[OF ok p(1)] by (simp add: tb_at_def)
    then have "tb_state (tb_at s p) \<noteq> TRANSPORT_BUFFER_STATE_FREE" using p(2) by (auto simp: ctx_ok_free)
    then have "p \<in> set (kv_fifo (kview Z (kern s)) q) \<or> tb_state (tb_at s p) = TRANSPORT_BUFFER_STATE_RECEIVING"
      using a(3)[of p] p(1) by (cases "tb_state (tb_at s p)") (auto simp: complete_ctx_def)
    moreover have "x = p" if "x \<in> set (pool_ptrs inst)" "tb_buffer (tb_at s x) = Some h" for x
      using pool_okD(3)[OF ok that(1) p(1)] that(2) p(2) by (simp add: tb_at_def)
    ultimately show ?thesis using p by blast
  qed
  have "\<forall>p. p \<in> set (kv_fifo (kview Z (kern s)) q) \<longleftrightarrow> complete_ctx inst s p" using a(3) by simp
  moreover have "distinct (kv_fifo (kview Z (kern s)) q)" using a(2) by simp
  ultimately show ?thesis using a(5) owner unfolding settled_side_def by blast
qed

lemma ref_air_runs: "runs_events ref_zephyr (ref_air n)"
proof -
  have "background ref_zephyr s (ref_air n s)" for s :: "(kworld, 'a) app_machine_scheme"
    by (cases s) (simp add: background_def ref_air_def rk_view_def)
  then have "(rx_event ref_zephyr)\<^sup>*\<^sup>* s (ref_air n s)" for s :: "(kworld, 'a) app_machine_scheme"
    by (blast intro: in_background)
  moreover have "notifies_no_data ref_zephyr (ref_air n :: (kworld, 'a) app_machine_scheme \<Rightarrow> _)"
    by (simp add: notifies_no_data_def data_asked_def ref_air_def rk_view_def)
  ultimately show ?thesis by (simp add: runs_events_def ref_air_drains)
qed

lemma ref_app_env: "app_env ref_zephyr ref_cnt ref_cap"
  by (simp add: app_env_def ref_dect_env ref_ble_env ref_fifo_laws ref_poll_laws ref_rand_laws)

lemma ref_app_started: "app_started ref_zephyr ref_app"
  using ref_app_pools
  by (simp add: app_started_def app_wired_def dect_ready_def ble_ready_def)
    (simp add: ref_app_def rk_view_def rk_init_def ref_dect_def ref_link_def)

section \<open>Properties\<close>

text \<open>C2. The running firmware does not fault on well-formed frames: after any run in which radio frames
  and phone writes with true lengths and declared totals of at most 512 bytes arrive, however they
  interleave with the turns of the router's thread and with each other, also while that thread waits for
  ACKs, the next such write of the phone is handled, and if the transmit queue has room for a frame, so is
  the next such radio frame, and the next turn of the thread with a message to forward returns. (A frame
  that is not well-formed can fault, see the limits of the radio's receive path; with a full transmit
  queue the handler of a radio frame would wait for its own thread.)\<close>

theorem firmware_never_faults:
  assumes "app_env Z cnt cap" and "runs_events Z others" and "app_started Z s0" and "(fw_step Z others)\<^sup>*\<^sup>* s0 s"
  shows "(\<forall>src buf n. dect_frame_ok buf n \<and> txq_room Z s \<longrightarrow>
       (\<exists>s'. prv_on_data_layer_rx Z (app_cb Z) src buf n s = Some s')) \<and>
     (\<forall>buf n. ble_frame_ok (buf, n) \<longrightarrow> (\<exists>ret s'. prv_on_data_write Z (app_cb Z) buf n s = Some (ret, s'))) \<and>
     (txq_room Z s \<and> (kv_fifo (kview Z (kern s)) FromUpstreamFifo \<noteq> [] \<or>
         kv_fifo (kview Z (kern s)) FromDownstreamFifo \<noteq> []) \<longrightarrow>
       (\<exists>s'. prv_router_turn Z (app_write Z others) (app_frame Z) s = Some s'))"
proof -
  have run: "running Z [] [] s" by (rule fw_running[OF assms(1,2,4) started_running[OF assms(3)]])
  then have r: "app_base Z s" "accounted Z (ble_pool Z) FromUpstreamFifo [] s"
    "accounted Z (dect_pool Z) FromDownstreamFifo [] s" by (simp_all add: running_def)
  have e: "dect_env Z cnt cap" "ble_env Z cnt cap" "fifo_laws Z" using assms(1) by (simp_all add: app_env_def)
  have "\<exists>s'. prv_on_data_layer_rx Z (app_cb Z) src buf n s = Some s'" if "dect_frame_ok buf n" "txq_room Z s" for src buf n
    by (rule radio_rx_accounts[OF e(1,3) r(1,3) that(2,1), of src]) blast
  moreover have "\<exists>ret s'. prv_on_data_write Z (app_cb Z) buf n s = Some (ret, s')" if "ble_frame_ok (buf, n)" for buf n
    by (rule phone_rx_accounts[OF e(2,3) r(1,2) that]) blast
  moreover have "\<exists>s'. prv_router_turn Z (app_write Z others) (app_frame Z) s = Some s'" if "txq_room Z s"
    "kv_fifo (kview Z (kern s)) FromUpstreamFifo \<noteq> [] \<or> kv_fifo (kview Z (kern s)) FromDownstreamFifo \<noteq> []"
    using router_turn_runs[OF assms(1,2) run that] by blast
  ultimately show ?thesis by blast
qed

theorem firmware_never_faults_witness:
  "\<exists>s'. prv_on_data_layer_rx ref_zephyr (app_cb ref_zephyr) 9 [0, 0, 7, 0, 2, 1, 20, 0, 1, 2, 3] 11 ref_app = Some s'"
  using firmware_never_faults[OF ref_app_env ref_air_runs[of 0] ref_app_started rtranclp.rtrancl_refl]
  by (simp add: dect_frame_ok_def mk16_def txq_room_def DECT_LINK_LAYER_TX_MSG_QUEUE_DEPTH_def)

text \<open>C1. No message is lost, duplicated or leaked on its way through the firmware: in every state the running
  firmware reaches between two of its steps, on both sides, the router's queue holds every complete
  message exactly once and nothing else, each with its one reference and with a header's to a receive
  buffer's bytes; and every allocated buffer belongs to exactly one context, of a queued message or of
  one that is still being received. So with empty queues no context and no buffer is lost.\<close>

theorem firmware_accounts_for_messages:
  assumes "app_env Z cnt cap" and "runs_events Z others" and "app_started Z s0" and "(fw_step Z others)\<^sup>*\<^sup>* s0 s"
  shows "settled_side Z (ble_pool Z) FromUpstreamFifo s \<and> settled_side Z (dect_pool Z) FromDownstreamFifo s"
proof -
  have "running Z [] [] s" by (rule fw_running[OF assms(1,2,4) started_running[OF assms(3)]])
  then show ?thesis by (simp add: running_def accounted_settled)
qed

theorem firmware_accounts_for_messages_witness:
  "\<exists>s'. prv_on_data_write ref_zephyr (app_cb ref_zephyr) [0, 0, 0, 0, 10, 0, 0, 1, 0, 0, 0, 0, 0, 0, 0, 0, 0, 0] 18 ref_app = Some s' \<and>
     settled_side ref_zephyr (ble_pool ref_zephyr) FromUpstreamFifo (snd s') \<and>
     settled_side ref_zephyr (dect_pool ref_zephyr) FromDownstreamFifo (snd s')"
proof -
  let ?f = "[0, 0, 0, 0, 10, 0, 0, 1, 0, 0, 0, 0, 0, 0, 0, 0, 0, 0] :: u8 list"
  have ok: "ble_frame_ok (?f, 18)" by (simp add: ble_frame_ok_def mk16_def)
  obtain ret s' where s': "prv_on_data_write ref_zephyr (app_cb ref_zephyr) ?f 18 ref_app = Some (ret, s')"
    by (rule phone_rx_accounts[OF ref_ble_env ref_fifo_laws _ _ ok])
      (use started_running[OF ref_app_started] in \<open>auto simp: running_def\<close>)
  have "(fw_step ref_zephyr (ref_air 0))\<^sup>*\<^sup>* ref_app s'"
    by (rule r_into_rtranclp, rule fw_step.event, rule phone_write[OF ok s'])
  from firmware_accounts_for_messages[OF ref_app_env ref_air_runs ref_app_started this] s' show ?thesis by simp
qed

end
