(* ===== verification/Link_Turns.thy ===== *)
theory Link_Turns
  imports Dect_Link_Layer
begin

text \<open>
  A whole turn of the link layer's thread: it gives the oldest queued frame to the modem, if there is
  one, opens a receive window, and hands an acceptable frame heard in it to the registered callback.
  The theory states the turn for a modem that starts every operation and reports its completion, with
  whatever error.
\<close>

section \<open>The events of a turn\<close>

text \<open>
  What happens on the air during one turn: the frame heard in the receive window, if any, and the
  errors with which the modem completes the transmission and the reception.
\<close>

record air_window =
  aw_heard :: "u8 list option"
  aw_tx_err :: int
  aw_rx_err :: int

text \<open>A transmission is reported only if there was a frame to transmit.\<close>

definition turn_events :: "dect_link_layer_frame_t list \<Rightarrow> air_window \<Rightarrow> phy_event list" where
  "turn_events q w = (if q = [] then [] else [NRF_MODEM_DECT_PHY_EVT_COMPLETED (aw_tx_err w)]) @
     window_events (aw_heard w) (aw_rx_err w)"

definition modem_starts :: "'k zephyr \<Rightarrow> bool" where
  "modem_starts Z \<longleftrightarrow> (\<forall>k. fst (nrf_modem_dect_phy_rx Z rx_op_params k) = 0) \<and>
     (\<forall>p k. fst (nrf_modem_dect_phy_tx Z p k) = 0)"

section \<open>Transmitting\<close>

lemma transmit_completes:
  assumes laws: "sem_laws Z" "phy_laws Z" "modem_starts Z"
    and idle: "op_idle Z s" and fetched: "dev_fetched s"
  obtains r k where "prv_link_layer_write_frame Z (NRF_MODEM_DECT_PHY_EVT_COMPLETED err # es) x s =
       Some (r, es, s\<lparr>kern := k, ll := op_finished err (ll s)\<rparr>)"
    and "kview Z k = kview Z (kern s)" and "ktime Z (kern s) \<le> ktime Z k"
proof -
  let ?p = "\<lparr>tx_start_time = 0, tx_handle = 0, tx_network_id = CONFIG_NETWORK_ID,
    tx_phy_type = 0, tx_lbt_rssi_threshold_max = 0, tx_carrier = CONFIG_CARRIER,
    tx_phy_header = put_phy_ctrl_field (tx_phy_ctrl (dev_id s) (dev_id s)),
    tx_data = put_link_frame x, tx_data_size = sizeof_link_frame\<rparr>"
  obtain k where call: "nrf_modem_dect_phy_tx Z ?p (kern s) = (0, k)"
    using laws(3) by (cases "nrf_modem_dect_phy_tx Z ?p (kern s)") (metis modem_starts_def fst_conv)
  have view: "kview Z k = kview Z (kern s)" "ktime Z (kern s) \<le> ktime Z k"
    using phy_view(7,9)[OF laws(2), where txp = ?p and k = "kern s"] call by simp_all
  have c: "completion (NRF_MODEM_DECT_PHY_EVT_COMPLETED err) = Some err" by (simp add: completion_def)
  have idle1: "op_idle Z (s\<lparr>kern := k\<rparr>)" using idle view(1) by (simp add: op_idle_def)
  obtain k' where k': "await_op_sem Z (NRF_MODEM_DECT_PHY_EVT_COMPLETED err # es) (s\<lparr>kern := k\<rparr>) =
      Some (es, s\<lparr>kern := k', ll := op_finished err (ll s)\<rparr>)" "kview Z k' = kview Z k" "ktime Z k \<le> ktime Z k'"
    using await_completion[OF laws(1) idle1 c, of es] by auto
  have "prv_link_layer_write_frame Z (NRF_MODEM_DECT_PHY_EVT_COMPLETED err # es) x s =
      finish_op Z (NRF_MODEM_DECT_PHY_EVT_COMPLETED err # es) (0, k) s"
    using fetched call by (simp add: prv_link_layer_write_frame_def)
  with finish_op_awaited[OF k'(1)] k'(2,3) view show thesis by (intro that[where k = k']) simp_all
qed

text \<open>The first half of a turn: the queue loses its oldest frame.\<close>

lemma turn_transmits:
  assumes laws: "sem_laws Z" "phy_laws Z" "modem_starts Z" "msgq_laws Z depth"
    and idle: "op_idle Z s" and fetched: "dev_fetched s"
  obtains k i where
    "(let (got, k) = k_msgq_get Z (kern s); s1 = s\<lparr>kern := k\<rparr>
      in if fst got = 0
         then do { tx_obj \<leftarrow> snd got;
                   (ret, evs', s') \<leftarrow> prv_link_layer_write_frame Z (turn_events (kv_txq (kview Z (kern s))) w) tx_obj s1;
                   Some (evs', s') }
         else Some (turn_events (kv_txq (kview Z (kern s))) w, s1)) =
     Some (window_events (aw_heard w) (aw_rx_err w), s\<lparr>kern := k, ll := i\<rparr>)"
    and "i = ll s \<or> i = op_finished (aw_tx_err w) (ll s)"
    and "kview Z k = (kview Z (kern s))\<lparr>kv_txq := tl (kv_txq (kview Z (kern s)))\<rparr>"
    and "ktime Z (kern s) \<le> ktime Z k"
proof -
  obtain r k where get: "k_msgq_get Z (kern s) = (r, k)" by fastforce
  have time: "ktime Z (kern s) \<le> ktime Z k" using msgq_get_time[OF laws(4), of "kern s"] get by simp
  show thesis
  proof (cases "kv_txq (kview Z (kern s))")
    case Nil
    then have g: "fst r \<noteq> 0" "kview Z k = kview Z (kern s)"
      using msgq_get_view(1)[OF laws(4) get] by simp_all
    show ?thesis by (rule that[where k = k and i = "ll s"]) (use g time Nil in \<open>simp_all add: get turn_events_def\<close>)
  next
    case (Cons x q)
    then have g: "r = (0, Some x)" "kview Z k = (kview Z (kern s))\<lparr>kv_txq := q\<rparr>"
      using msgq_get_view(2)[OF laws(4) get, of x q] by simp_all
    have idle1: "op_idle Z (s\<lparr>kern := k\<rparr>)" using idle g(2) by (simp add: op_idle_def)
    obtain ret k' where "prv_link_layer_write_frame Z (NRF_MODEM_DECT_PHY_EVT_COMPLETED (aw_tx_err w) #
         window_events (aw_heard w) (aw_rx_err w)) x (s\<lparr>kern := k\<rparr>) =
       Some (ret, window_events (aw_heard w) (aw_rx_err w), s\<lparr>kern := k', ll := op_finished (aw_tx_err w) (ll s)\<rparr>)"
      "kview Z k' = kview Z k" "ktime Z k \<le> ktime Z k'"
      using transmit_completes[OF laws(1-3) idle1, where err = "aw_tx_err w" and x = x
          and es = "window_events (aw_heard w) (aw_rx_err w)"] fetched by auto
    then show ?thesis
      by (intro that[where k = k' and i = "op_finished (aw_tx_err w) (ll s)"])
        (use g time Cons in \<open>simp_all add: get turn_events_def\<close>)
  qed
qed

section \<open>The turn\<close>

lemma turn_window:
  assumes laws: "sem_laws Z" "hwinfo_laws Z" "phy_laws Z" "modem_starts Z" "msgq_laws Z depth"
    and idle: "op_idle Z s" and fetched: "dev_fetched s" and cb: "li_rx_callback (ll s) = Some f"
  obtains s3 where
    "prv_link_layer_turn Z call_rx (turn_events (kv_txq (kview Z (kern s))) w) s =
       (if window_kept (dev_id s) (aw_heard w)
        then do { header \<leftarrow> get_link_header (li_rx_frame (ll s3));
                  s4 \<leftarrow> call_rx f (ll_src_id header) (drop DECT_LINK_LAYER_HEADER_SIZE_BYTES (li_rx_frame (ll s3)))
                          (unat (ll_payload_size header)) s3;
                  Some ([], s4) }
        else Some ([], s3))"
    and "li_rx_frame (ll s3) = (if window_kept (dev_id s) (aw_heard w)
           then overwrite (the (aw_heard w)) (li_rx_frame (ll s)) else li_rx_frame (ll s))"
    and "only_link s s3"
    and "kview Z (kern s3) = (kview Z (kern s))\<lparr>kv_txq := tl (kv_txq (kview Z (kern s)))\<rparr>"
    and "ktime Z (kern s) \<le> ktime Z (kern s3)"
    and "li_rx_callback (ll s3) = Some f" and "li_initialized (ll s3) = li_initialized (ll s)"
    and "dev_fetched s3" and "dev_id s3 = dev_id s"
proof -
  obtain k i where t: "(let (got, k) = k_msgq_get Z (kern s); s1 = s\<lparr>kern := k\<rparr>
      in if fst got = 0
         then do { tx_obj \<leftarrow> snd got;
                   (ret, evs', s') \<leftarrow> prv_link_layer_write_frame Z (turn_events (kv_txq (kview Z (kern s))) w) tx_obj s1;
                   Some (evs', s') }
         else Some (turn_events (kv_txq (kview Z (kern s))) w, s1)) =
     Some (window_events (aw_heard w) (aw_rx_err w), s\<lparr>kern := k, ll := i\<rparr>)"
    "i = ll s \<or> i = op_finished (aw_tx_err w) (ll s)"
    "kview Z k = (kview Z (kern s))\<lparr>kv_txq := tl (kv_txq (kview Z (kern s)))\<rparr>"
    "ktime Z (kern s) \<le> ktime Z k"
    by (rule turn_transmits[OF laws(1,3,4,5) idle fetched])
  let ?s2 = "s\<lparr>kern := k, ll := i\<rparr>"
  have i: "li_rx_frame i = li_rx_frame (ll s)" "li_rx_callback i = Some f" "li_initialized i = li_initialized (ll s)"
    using t(2) cb by auto
  have idle2: "op_idle Z ?s2" and fetched2: "dev_fetched ?s2"
    using idle fetched t(3) by (simp_all add: op_idle_def)
  have rx: "\<And>k. fst (nrf_modem_dect_phy_rx Z rx_op_params k) = 0" using laws(4) by (simp add: modem_starts_def)
  obtain s3 where s3: "prv_dect_receive Z (window_events (aw_heard w) (aw_rx_err w) @ []) ?s2 = Some (aw_rx_err w, [], s3)"
    "li_valid_rx_data (ll s3) = window_kept (dev_id ?s2) (aw_heard w)"
    "li_rx_frame (ll s3) = (if window_kept (dev_id ?s2) (aw_heard w)
       then overwrite (the (aw_heard w)) (li_rx_frame (ll ?s2)) else li_rx_frame (ll ?s2))"
    "li_rx_callback (ll s3) = li_rx_callback (ll ?s2)" "li_initialized (ll s3) = li_initialized (ll ?s2)"
    "only_link ?s2 s3" "kview Z (kern s3) = kview Z (kern ?s2)" "ktime Z (kern ?s2) \<le> ktime Z (kern s3)"
    "dev_fetched s3" "dev_id s3 = dev_id ?s2"
    by (rule receive_window[OF laws(1-3) idle2 fetched2 rx])
  have "prv_link_layer_turn Z call_rx (turn_events (kv_txq (kview Z (kern s))) w) s =
       (if window_kept (dev_id s) (aw_heard w)
        then do { header \<leftarrow> get_link_header (li_rx_frame (ll s3));
                  s4 \<leftarrow> call_rx f (ll_src_id header) (drop DECT_LINK_LAYER_HEADER_SIZE_BYTES (li_rx_frame (ll s3)))
                          (unat (ll_payload_size header)) s3;
                  Some ([], s4) }
        else Some ([], s3))"
    using t(1) s3(1,2,4) i(2)
    by (cases "k_msgq_get Z (kern s)") (simp add: prv_link_layer_turn_def Let_def)
  then show thesis
    by (rule that) (use s3 t(3,4) i in \<open>auto simp: only_link_def\<close>)
qed

end
