(* ===== verification/Over_The_Air.thy ===== *)
theory Over_The_Air
  imports Dect_Sending Link_Turns "HOL-Library.Sublist"
begin

text \<open>
  Two devices: the transport layer of one queues the frames of a message, the air loses some of the
  copies and adds frames of other devices, and the link layer's thread of the other device hears the
  rest, window by window. The theory follows the message from the one call to the other device's
  callback, through both layers of both devices.

  The receive path is the contract \<open>message_transfer\<close> of \<open>Receive_Path\<close>, with a state that includes the
  variables of the link layer; a turn of the thread is \<open>turn_window\<close> of \<open>Link_Turns\<close>.
\<close>

section \<open>The receiving device\<close>

text \<open>
  A case of reception as in \<open>Dect_Transport_Layer\<close>, on the device with the id \<open>ac_me\<close>. Its frames are
  those the transport of the sender makes.
\<close>

record ('k, 'a) air_case =
  ac_dect :: "('k, 'a) dect_case"
  ac_me :: u32

definition ac_fragments :: "('k, 'a) air_case \<Rightarrow> nat" where
  "ac_fragments a = n_chunks 14 (length (dc_msg (ac_dect a)))"

definition ac_frame :: "('k, 'a) air_case \<Rightarrow> nat \<Rightarrow> dect_link_layer_frame_t" where
  "ac_frame a = dect_tx_frame (dc_src (ac_dect a)) (ac_me a) (dc_seq (ac_dect a)) (dc_msg (ac_dect a))"

definition air_valid :: "('k, 'a) air_case \<Rightarrow> bool" where
  "air_valid a \<longleftrightarrow> dc_env (ac_dect a) \<and> phy_laws (dc_Z (ac_dect a)) \<and> modem_starts (dc_Z (ac_dect a)) \<and>
     dc_msg (ac_dect a) \<noteq> [] \<and> length (dc_msg (ac_dect a)) \<le> DECT_TRANSPORT_LAYER_MAX_RX_BUFFER_SIZE_BYTES \<and>
     (\<forall>k. dc_frame (ac_dect a) k = lf_payload (ac_frame a k))"

text \<open>
  The state of the device between two turns (\<open>air_settled\<close>), and in a turn just before the callback of
  the link layer is called (\<open>air_ready\<close>).
\<close>

definition air_holds :: "('k, 'a) air_case \<Rightarrow> nat \<Rightarrow> ('k, 'a) dect_machine_scheme \<Rightarrow> bool" where
  "air_holds a n s \<longleftrightarrow> dc_holds (ac_dect a) n s \<and> op_idle (dc_Z (ac_dect a)) s \<and>
     dev_fetched s \<and> dev_id s = ac_me a \<and> li_rx_callback (ll s) = Some Prv_on_data_layer_rx \<and>
     length (li_rx_frame (ll s)) = sizeof_link_frame"

definition air_ready :: "('k, 'a) air_case \<Rightarrow> ('k, 'a) dect_machine_scheme \<Rightarrow> bool" where
  "air_ready a = air_holds a (dc_queued (ac_dect a))"

definition air_settled :: "('k, 'a) air_case \<Rightarrow> ('k, 'a) dect_machine_scheme \<Rightarrow> bool" where
  "air_settled a = air_holds a (Suc (dc_queued (ac_dect a)))"

lemma air_ready_dc: "air_ready a s \<Longrightarrow> dc_ready (ac_dect a) s"
  by (simp add: air_ready_def air_holds_def dc_ready_def)

lemma air_holds_other:
  assumes "air_holds a n s" and "dtl s' = dtl s" and "ll s' = ll s" and "dev_fetched s'" and "dev_id s' = dev_id s"
    and "pool_inv (dc_Z (ac_dect a)) (dect_pool (dc_Z (ac_dect a))) s'"
    and "length (kv_txq (kview (dc_Z (ac_dect a)) (kern s'))) \<le> m"
    and "kv_sem (kview (dc_Z (ac_dect a)) (kern s')) LinkOpSem = kv_sem (kview (dc_Z (ac_dect a)) (kern s)) LinkOpSem"
  shows "air_holds a m s'"
  using assms by (simp add: air_holds_def dc_holds_def op_idle_def)

lemma only_buffers_dev: "only_buffers s s' \<Longrightarrow> dtl s' = dtl s \<and> ll s' = ll s \<and>
    dev_fetched s' = dev_fetched s \<and> dev_id s' = dev_id s"
  using only_rx_dect[OF only_rx_buffers] by blast

lemma air_validD:
  assumes "air_valid a"
  shows "dc_env (ac_dect a)" and "dc_message (ac_dect a)"
proof -
  let ?c = "ac_dect a"
  show env: "dc_env ?c" using assms by (simp add: air_valid_def)
  have "take (dect_frame_len (dc_msg ?c) k) (lf_payload (ac_frame a k)) =
      put_dect_data_frame (dect_data_frame (dc_seq ?c) (dc_msg ?c) k)" for k
    using lf_link_frame_for(3)[of "put_dect_data_frame (dect_data_frame (dc_seq ?c) (dc_msg ?c) k)" "dc_src ?c" "ac_me a"
        "dect_frame_len (dc_msg ?c) k"]
    unfolding length_put_dect_data by (simp only: ac_frame_def dect_tx_frame_def)
  with assms env show "dc_message ?c" by (simp add: air_valid_def dc_message_def)
qed

lemma air_acks:
  assumes env: "dc_env (ac_dect a)" and ready: "air_ready a s"
  shows "\<exists>s'. dc_ack (ac_dect a) h s = Some s' \<and> same_rx (dc_Z (ac_dect a)) s s' \<and> air_settled a s'"
proof -
  let ?Z = "dc_Z (ac_dect a)"
  obtain dst f where h: "h = (dst, f)" by (cases h)
  note e = dect_envD[OF dc_envD(1)[OF env]]
  have hold: "air_holds a (dc_queued (ac_dect a)) s" using ready by (simp add: air_ready_def)
  then have init: "li_initialized (ll s)" and fetched: "dev_fetched s" and room: "txq_room ?Z s"
    and inv: "pool_inv ?Z (dect_pool ?Z) s"
    using dc_envD(3)[OF env] by (simp_all add: air_holds_def dc_holds_def txq_room_def)
  obtain s' ack where s': "prv_write_data_ack_dect ?Z dst f s = Some s'" "only_dev s s'" "same_rx ?Z s s'" "dev_fetched s'"
    "kview ?Z (kern s') = (kview ?Z (kern s))\<lparr>kv_txq := kv_txq (kview ?Z (kern s)) @ [ack],
       kv_put := kv_put (kview ?Z (kern s)) @ [ack]\<rparr>" "dev_id s' = dev_id s"
    using ack_spec_dect[OF e(4,5) init room, of dst f] fetched by metis
  have "air_settled a s'"
    unfolding air_settled_def
    by (rule air_holds_other[OF hold])
      (use s' hold inv only_dev_dtl[OF s'(2)] only_dev_ll[OF s'(2)] same_rx_pool(1)[OF s'(3)] in
        \<open>simp_all add: air_holds_def dc_holds_def\<close>)
  with s'(1,3) h show ?thesis by (auto simp: dc_ack_def)
qed

lemma air_rest:
  assumes env: "dc_env (ac_dect a)" and ready: "air_ready a s" and ok: "dect_frame_ok buf n"
    and none: "dect_frame_frag (src, buf, n) = None"
  shows "\<exists>s'. dc_rx_frame (ac_dect a) (src, buf, n) s = Some s' \<and> same_rx (dc_Z (ac_dect a)) s s' \<and> air_settled a s'"
proof -
  let ?Z = "dc_Z (ac_dect a)"
  let ?s = "prv_handle_data_ack_frame_dect ?Z buf n s"
  have hold: "air_holds a (dc_queued (ac_dect a)) s" using ready by (simp add: air_ready_def)
  then have set: "air_settled a s" by (simp add: air_settled_def air_holds_def dc_holds_def)
  note v = ack_frame_same_rx[OF dect_envD(3)[OF dc_envD(1)[OF env]], where buf = buf and n = n and s = s]
  have "dtl ?s = dtl s" "ll ?s = ll s" "dev_fetched ?s = dev_fetched s" "dev_id ?s = dev_id s"
    by (simp_all add: prv_handle_data_ack_frame_dect_def)
  then have "air_settled a ?s"
    unfolding air_settled_def
    by (intro air_holds_other[OF hold])
      (use v(1) same_rx_pool(1)[OF v(2)] hold in \<open>simp_all add: air_holds_def dc_holds_def\<close>)
  with set v(2) dc_rest_cases[OF ok none, of "ac_dect a" s] show ?thesis by (metis same_rx_refl)
qed

interpretation air_rx: message_transfer "\<lambda>a. dc_env (ac_dect a)" "\<lambda>a. dc_Z (ac_dect a)" "\<lambda>a. dc_cnt (ac_dect a)"
  "\<lambda>a. dc_cap (ac_dect a)" "\<lambda>a. dect_pool (dc_Z (ac_dect a))" air_ready air_settled "\<lambda>a. dc_ack (ac_dect a)"
  "\<lambda>a. dect_callback (dc_call_cb (ac_dect a)) (dt_transport_rx_callback (dc_state (ac_dect a)))"
  "\<lambda>a. prv_handle_complete_incoming_data_transaction_dect (dc_Z (ac_dect a)) (dc_call_cb (ac_dect a))"
  "\<lambda>a (src, buf, n). dect_frame_ok buf n" dect_frame_frag "\<lambda>a. dc_rx_frame (ac_dect a)"
  air_valid "\<lambda>a. dc_transfer (ac_dect a)" "\<lambda>a. dc_event (ac_dect a)"
proof unfold_locales
  fix a :: "('a, 'b) air_case" and s s' :: "('a, 'b) dect_machine_scheme" and p
  let ?Z = "dc_Z (ac_dect a)"
  show "clock_laws ?Z" "net_buf_laws ?Z (dc_cnt (ac_dect a)) (dc_cap (ac_dect a))"
    "pool_fits (dc_cnt (ac_dect a)) (dc_cap (ac_dect a)) (dect_pool ?Z)" if "dc_env (ac_dect a)"
    using dect_envD(1,2,6)[OF dc_envD(1)[OF that]] by auto
  show "consumes ?Z (dect_pool ?Z)
      (dect_callback (dc_call_cb (ac_dect a)) (dt_transport_rx_callback (dc_state (ac_dect a))))"
    if "dc_env (ac_dect a)" by (rule dc_envD(4)[OF that])
  show "pool_inv ?Z (dect_pool ?Z) s" if "air_settled a s"
    using that by (simp add: air_settled_def air_holds_def dc_holds_def)
  show "air_settled a s" if "air_ready a s"
    using that by (simp add: air_ready_def air_settled_def air_holds_def dc_holds_def)
  show "air_ready a s'" if "air_ready a s" "only_rx s s'" "pool_inv ?Z (dect_pool ?Z) s'"
    "same_but_bufs (kview ?Z (kern s)) (kview ?Z (kern s'))"
    unfolding air_ready_def
    by (rule air_holds_other[OF that(1)[unfolded air_ready_def]])
      (use that only_rx_dect[OF that(2)] in \<open>simp_all add: air_ready_def air_holds_def dc_holds_def same_but_bufs_def\<close>)
  show "air_settled a s'" if "air_settled a s" "only_buffers s s'" "pool_inv ?Z (dect_pool ?Z) s'"
    "kv_txq (kview ?Z (kern s')) = kv_txq (kview ?Z (kern s))" "kv_sem (kview ?Z (kern s')) = kv_sem (kview ?Z (kern s))"
    unfolding air_settled_def
    by (rule air_holds_other[OF that(1)[unfolded air_settled_def]])
      (use that only_buffers_dev[OF that(2)] in \<open>simp_all add: air_settled_def air_holds_def dc_holds_def\<close>)
  show "\<exists>s'. dc_ack (ac_dect a) h s = Some s' \<and> same_rx ?Z s s' \<and> air_settled a s'"
    if "dc_env (ac_dect a)" "air_ready a s" for h by (rule air_acks[OF that])
  show "prv_handle_complete_incoming_data_transaction_dect ?Z (dc_call_cb (ac_dect a)) p s =
      deliver_release ?Z (dect_callback (dc_call_cb (ac_dect a)) (dt_transport_rx_callback (dc_state (ac_dect a)))) p s"
    if "air_settled a s"
    using that by (simp add: handle_complete_dect_alt air_settled_def air_holds_def dc_holds_def)
  fix e :: "u32 \<times> u8 list \<times> nat"
  show "unat (rf_total f) \<le> dc_cap (ac_dect a) (pl_buffer_pool (dect_pool ?Z)) \<and> rf_len f \<le> length (rf_payload f) \<and>
      rf_len f < 2 ^ 16 \<and> src_query (dect_pool ?Z) (rf_src f)"
    if "dc_env (ac_dect a)" "case e of (src, buf, n) \<Rightarrow> dect_frame_ok buf n" "dect_frame_frag e = Some (f, h)" for f h
    by (rule dect_rx.frag_ok[OF that])
  show "dc_rx_frame (ac_dect a) e s = do { (out, s2) \<leftarrow> rx_step ?Z (dect_pool ?Z) f s;
     rx_outcome (dc_ack (ac_dect a)) (prv_handle_complete_incoming_data_transaction_dect ?Z (dc_call_cb (ac_dect a))) h out s2 }"
    if "dc_env (ac_dect a)" "air_ready a s" "dect_frame_frag e = Some (f, h)" for f h
    by (rule dc_data[OF that(1) air_ready_dc[OF that(2)] that(3)])
  show "\<exists>s'. dc_rx_frame (ac_dect a) e s = Some s' \<and> same_rx ?Z s s' \<and> air_settled a s'"
    if "dc_env (ac_dect a)" "air_ready a s" "case e of (src, buf, n) \<Rightarrow> dect_frame_ok buf n" "dect_frame_frag e = None"
    using that air_rest[of a s] by (cases e) auto
  fix k
  show "dc_env (ac_dect a)" "tf_ok (dc_cap (ac_dect a)) (dect_pool ?Z) (dc_transfer (ac_dect a))" if "air_valid a"
    using air_validD(1)[OF that] dc_messageD(2)[OF air_validD(2)[OF that]] by auto
  show "src_query (dect_pool ?Z) (tf_src (dc_transfer (ac_dect a)))" by simp
  show "case dc_event (ac_dect a) k of (src, buf, n) \<Rightarrow> dect_frame_ok buf n"
    if "air_valid a" "k < tf_n (dc_transfer (ac_dect a))"
    by (rule dc_event_decoded[OF air_validD(2)[OF that(1)] that(2)]) (simp add: dc_event_def)
  show "\<exists>f h. dect_frame_frag (dc_event (ac_dect a) k) = Some (f, h) \<and> is_frag (dc_transfer (ac_dect a)) k f"
    if "air_valid a" "k < tf_n (dc_transfer (ac_dect a))"
    by (rule dc_event_decoded[OF air_validD(2)[OF that(1)] that(2)]) blast
qed

section \<open>A turn of the receiving device\<close>

definition hears :: "('k, 'a) air_case \<Rightarrow> air_window \<Rightarrow> ('k, 'a) dect_machine_scheme \<Rightarrow>
  ('k, 'a) dect_machine_scheme option" where
  "hears a w s = do {
     (evs, s') \<leftarrow> prv_link_layer_turn (dc_Z (ac_dect a))
        (\<lambda>f. prv_on_data_layer_rx (dc_Z (ac_dect a)) (dc_call_cb (ac_dect a)))
        (turn_events (kv_txq (kview (dc_Z (ac_dect a)) (kern s))) w) s;
     Some s' }"

text \<open>A frame as the transport's callback gets it from the link layer: sender, payload, claimed length.\<close>

definition air_event :: "u8 list \<Rightarrow> (u32 \<times> u8 list \<times> nat) option" where
  "air_event data = do { h \<leftarrow> get_link_header data;
     Some (ll_src_id h, drop DECT_LINK_LAYER_HEADER_SIZE_BYTES data, unat (ll_payload_size h)) }"

lemma hears_turn:
  assumes a: "air_valid a" and s: "air_settled a s"
  obtains s3 where "air_ready a s3" and "same_rx (dc_Z (ac_dect a)) s s3"
    and "\<not> window_kept (ac_me a) (aw_heard w) \<Longrightarrow> hears a w s = Some s3"
    and "\<And>data e. aw_heard w = Some data \<Longrightarrow> link_accepts (ac_me a) data \<Longrightarrow>
      length data = sizeof_link_frame \<Longrightarrow> air_event data = Some e \<Longrightarrow>
      hears a w s = dc_rx_frame (ac_dect a) e s3"
proof -
  let ?Z = "dc_Z (ac_dect a)"
  let ?call = "\<lambda>f. prv_on_data_layer_rx ?Z (dc_call_cb (ac_dect a))"
  note e = dect_envD[OF dc_envD(1)[OF air_validD(1)[OF a]]]
  have m: "phy_laws ?Z" "modem_starts ?Z" using a by (simp_all add: air_valid_def)
  have st: "op_idle ?Z s" "dev_fetched s" "dev_id s = ac_me a" "li_rx_callback (ll s) = Some Prv_on_data_layer_rx"
    "length (li_rx_frame (ll s)) = 37" "dc_holds (ac_dect a) (Suc (dc_queued (ac_dect a))) s"
    using s by (simp_all add: air_settled_def air_holds_def)
  obtain s3 where t: "prv_link_layer_turn ?Z ?call (turn_events (kv_txq (kview ?Z (kern s))) w) s =
       (if window_kept (dev_id s) (aw_heard w)
        then do { header \<leftarrow> get_link_header (li_rx_frame (ll s3));
                  s4 \<leftarrow> ?call Prv_on_data_layer_rx (ll_src_id header)
                          (drop DECT_LINK_LAYER_HEADER_SIZE_BYTES (li_rx_frame (ll s3)))
                          (unat (ll_payload_size header)) s3;
                  Some ([], s4) }
        else Some ([], s3))"
    "li_rx_frame (ll s3) = (if window_kept (dev_id s) (aw_heard w)
       then overwrite (the (aw_heard w)) (li_rx_frame (ll s)) else li_rx_frame (ll s))"
    "only_link s s3" "kview ?Z (kern s3) = (kview ?Z (kern s))\<lparr>kv_txq := tl (kv_txq (kview ?Z (kern s)))\<rparr>"
    "ktime ?Z (kern s) \<le> ktime ?Z (kern s3)" "li_rx_callback (ll s3) = Some Prv_on_data_layer_rx"
    "li_initialized (ll s3) = li_initialized (ll s)" "dev_fetched s3" "dev_id s3 = dev_id s"
    by (rule turn_window[OF e(3,4) m e(5) st(1,2,4)])
  have o: "mem s3 = mem s" "dtl s3 = dtl s"
    using arg_cong[OF t(3)[unfolded only_link_def], of mem] arg_cong[OF t(3)[unfolded only_link_def], of dtl] by simp_all
  have same: "same_rx ?Z s s3" using o(1) t(4,5) by (simp add: same_rx_def)
  have len: "length (li_rx_frame (ll s3)) = 37"
    using t(2) st(5) by (auto simp: window_kept_def link_accepts_def split: option.splits)
  have "length (kv_txq (kview ?Z (kern s))) - Suc 0 \<le> dc_queued (ac_dect a)"
    using st(6) unfolding dc_holds_def by linarith
  then have "air_ready a s3"
    using t(4,6-9) o(2) len st same_rx_pool(1)[OF same]
    by (simp add: air_ready_def air_holds_def dc_holds_def op_idle_def)
  moreover have "hears a w s = dc_rx_frame (ac_dect a) ev s3"
    if "aw_heard w = Some data" "link_accepts (ac_me a) data" "length data = sizeof_link_frame" "air_event data = Some ev"
    for data ev
  proof -
    have "li_rx_frame (ll s3) = data"
      using that(1-3) t(2) st(3,5) by (simp add: window_kept_def overwrite_all)
    with that t(1) st(3) show ?thesis
      by (auto simp: hears_def air_event_def dc_rx_frame_def window_kept_def bind_eq_Some_conv split: Option.bind_splits)
  qed
  moreover have "hears a w s = Some s3" if "\<not> window_kept (ac_me a) (aw_heard w)"
    using that t(1) st(3) by (simp add: hears_def)
  ultimately show thesis using same that by blast
qed

text \<open>The frames of the message pass the link layer of the receiver.\<close>

lemma ac_frame_heard:
  assumes "air_valid a"
  shows "link_accepts (ac_me a) (put_link_frame (ac_frame a k))"
    and "length (put_link_frame (ac_frame a k)) = sizeof_link_frame"
    and "air_event (put_link_frame (ac_frame a k)) = Some (dc_event (ac_dect a) k)"
proof -
  let ?c = "ac_dect a"
  let ?p = "put_dect_data_frame (dect_data_frame (dc_seq ?c) (dc_msg ?c) k)"
  have fr: "ac_frame a k = link_frame_for (dc_src ?c) (ac_me a) ?p (dect_frame_len (dc_msg ?c) k)"
    by (simp add: ac_frame_def dect_tx_frame_def)
  have len: "length ?p \<le> 22" by (simp only: length_put_dect_data dect_frame_len_le)
  show "link_accepts (ac_me a) (put_link_frame (ac_frame a k))"
    unfolding fr link_accepts_frame_for[OF len] ..
  show l: "length (put_link_frame (ac_frame a k)) = sizeof_link_frame"
    unfolding fr length_put_link_frame_for[OF len] by simp
  have "get_link_header (put_link_frame (ac_frame a k)) = Some (lf_header (ac_frame a k))"
    by (simp add: put_link_frame_def wire)
  moreover have "drop 15 (put_link_frame (ac_frame a k)) = lf_payload (ac_frame a k)"
    by (simp add: put_link_frame_def)
  moreover have "unat (of_nat (dect_frame_len (dc_msg ?c) k) :: u16) = dect_frame_len (dc_msg ?c) k"
    using dect_frame_len_le[of "dc_msg ?c" k] by (simp add: unat_of_nat_u16)
  moreover have "dc_frame ?c k = lf_payload (ac_frame a k)" using assms by (simp add: air_valid_def)
  ultimately show "air_event (put_link_frame (ac_frame a k)) = Some (dc_event ?c k)"
    by (simp add: air_event_def dc_event_def fr)
qed

section \<open>A run of the receiving device\<close>

primrec hear_all :: "('k, 'a) air_case \<Rightarrow> air_window list \<Rightarrow> ('k, 'a) dect_machine_scheme \<Rightarrow>
  ('k, 'a) dect_machine_scheme option" where
  "hear_all a [] s = Some s"
| "hear_all a (w # ws) s = do { s' \<leftarrow> hears a w s; hear_all a ws s' }"

text \<open>Which fragment of the message is heard in a window, if one is.\<close>

definition air_label :: "('k, 'a) air_case \<Rightarrow> air_window \<Rightarrow> air_window + nat" where
  "air_label a w = (case find (\<lambda>k. aw_heard w = Some (put_link_frame (ac_frame a k))) [0..<ac_fragments a] of
     None \<Rightarrow> Inl w | Some k \<Rightarrow> Inr k)"

text \<open>
  Any other window: nothing is heard, or a frame for another device or of another kind, or a frame of
  full size of another message or an ACK for this device.
\<close>

definition air_foreign :: "('k, 'a) air_case \<Rightarrow> air_window \<Rightarrow> bool" where
  "air_foreign a w \<longleftrightarrow> (case aw_heard w of None \<Rightarrow> True | Some data \<Rightarrow> link_accepts (ac_me a) data \<longrightarrow>
     length data = sizeof_link_frame \<and>
     (case air_event data of None \<Rightarrow> False | Some e \<Rightarrow> dc_admits (ac_dect a) e))"

definition air_rep :: "('k, 'a) air_case \<Rightarrow> nat \<Rightarrow> ('k, 'a) dect_machine_scheme \<Rightarrow> bool" where
  "air_rep a k s \<longleftrightarrow> air_settled a s \<and>
     received (dc_Z (ac_dect a)) (dect_pool (dc_Z (ac_dect a))) (dc_transfer (ac_dect a)) k s"

definition air_delivered :: "('k, 'a) air_case \<Rightarrow> ('k, 'a) dect_machine_scheme option \<Rightarrow> bool" where
  "air_delivered a = delivered (dc_Z (ac_dect a)) (dect_pool (dc_Z (ac_dect a))) (dc_transfer (ac_dect a)) (air_settled a)
     (prv_handle_complete_incoming_data_transaction_dect (dc_Z (ac_dect a)) (dc_call_cb (ac_dect a))) (\<lambda>s. s)"

lemma air_label_Inr:
  assumes "air_label a w = Inr k"
  shows "k < ac_fragments a" and "aw_heard w = Some (put_link_frame (ac_frame a k))"
proof -
  have f: "find (\<lambda>k. aw_heard w = Some (put_link_frame (ac_frame a k))) [0..<ac_fragments a] = Some k"
    using assms by (auto simp: air_label_def split: option.splits)
  show "k < ac_fragments a" and "aw_heard w = Some (put_link_frame (ac_frame a k))"
    using find_SomeD[OF f] by simp_all
qed

lemma ac_fragments_tf: "tf_n (dc_transfer (ac_dect a)) = ac_fragments a"
  by (simp add: dc_transfer_n ac_fragments_def)

text \<open>The window of a fragment is the arrival of its frame at the transport.\<close>

lemma hears_fragment:
  assumes a: "air_valid a" and r: "air_rep a k s" and w: "air_label a w = Inr i"
  obtains s3 where "air_ready a s3"
    and "received (dc_Z (ac_dect a)) (dect_pool (dc_Z (ac_dect a))) (dc_transfer (ac_dect a)) k s3"
    and "hears a w s = dc_rx_frame (ac_dect a) (dc_event (ac_dect a) i) s3"
proof -
  have s: "air_settled a s" using r by (simp add: air_rep_def)
  note h = ac_frame_heard[OF a, of i]
  obtain s3 where s3: "air_ready a s3" "same_rx (dc_Z (ac_dect a)) s s3"
    "\<And>data e. aw_heard w = Some data \<Longrightarrow> link_accepts (ac_me a) data \<Longrightarrow>
      length data = sizeof_link_frame \<Longrightarrow> air_event data = Some e \<Longrightarrow> hears a w s = dc_rx_frame (ac_dect a) e s3"
    by (rule hears_turn[OF a s, of w]) blast
  show thesis
    by (rule that[OF s3(1) received_same[OF s3(2)] s3(3)[OF air_label_Inr(2)[OF w] h]])
      (use r in \<open>simp add: air_rep_def\<close>)
qed

lemma air_steps:
  assumes a: "air_valid a" and r: "air_rep a k s"
  shows "air_label a w = Inr k \<Longrightarrow> Suc k < ac_fragments a \<Longrightarrow> \<exists>s'. hears a w s = Some s' \<and> air_rep a (Suc k) s'"
    and "air_label a w = Inr i \<Longrightarrow> i < k \<Longrightarrow> k < ac_fragments a \<Longrightarrow> \<exists>s'. hears a w s = Some s' \<and> air_rep a k s'"
    and "air_foreign a w \<Longrightarrow> 0 < k \<Longrightarrow> \<exists>s'. hears a w s = Some s' \<and> air_rep a k s'"
    and "air_label a w = Inr k \<Longrightarrow> Suc k = ac_fragments a \<Longrightarrow> air_delivered a (hears a w s)"
proof -
  show "\<exists>s'. hears a w s = Some s' \<and> air_rep a (Suc k) s'" if "air_label a w = Inr k" "Suc k < ac_fragments a"
    using that air_rx.advances[OF a] by (metis hears_fragment[OF a r] air_rep_def ac_fragments_tf)
  show "\<exists>s'. hears a w s = Some s' \<and> air_rep a k s'" if "air_label a w = Inr i" "i < k" "k < ac_fragments a"
    using that air_rx.repeats[OF a] by (metis hears_fragment[OF a r] air_rep_def ac_fragments_tf)
  show "air_delivered a (hears a w s)" if "air_label a w = Inr k" "Suc k = ac_fragments a"
    unfolding air_delivered_def
    using that air_rx.finishes[OF a] by (metis hears_fragment[OF a r] ac_fragments_tf)
  show "\<exists>s'. hears a w s = Some s' \<and> air_rep a k s'" if w: "air_foreign a w" and k: "0 < k"
  proof -
    let ?rec = "received (dc_Z (ac_dect a)) (dect_pool (dc_Z (ac_dect a))) (dc_transfer (ac_dect a)) k"
    have s: "air_settled a s" "?rec s" using r by (simp_all add: air_rep_def)
    obtain s3 where s3: "air_ready a s3" "same_rx (dc_Z (ac_dect a)) s s3"
      "\<not> window_kept (ac_me a) (aw_heard w) \<Longrightarrow> hears a w s = Some s3"
      "\<And>data e. aw_heard w = Some data \<Longrightarrow> link_accepts (ac_me a) data \<Longrightarrow>
        length data = sizeof_link_frame \<Longrightarrow> air_event data = Some e \<Longrightarrow> hears a w s = dc_rx_frame (ac_dect a) e s3"
      by (rule hears_turn[OF a s(1), of w]) blast
    have rec: "?rec s3" by (rule received_same[OF s3(2) s(2)])
    show ?thesis
    proof (cases "window_kept (ac_me a) (aw_heard w)")
      case False
      with s3(3) rec air_rx.ready_settled[OF s3(1)] show ?thesis by (simp add: air_rep_def)
    next
      case True
      then obtain data e where d: "aw_heard w = Some data" "link_accepts (ac_me a) data"
        "length data = sizeof_link_frame" "air_event data = Some e" "dc_admits (ac_dect a) e"
        using w by (auto simp: air_foreign_def window_kept_def split: option.splits)
      from d(5) have ok: "case e of (src, buf, n) \<Rightarrow> dect_frame_ok buf n"
        and key: "\<And>f h. dect_frame_frag e = Some (f, h) \<Longrightarrow> \<not> same_key (dc_transfer (ac_dect a)) f"
        unfolding dc_admits_alt by blast+
      show ?thesis
        using air_rx.others_pass[OF a s3(1) rec k ok key] s3(4)[OF d(1-4)] by (simp add: air_rep_def)
    qed
  qed
qed

lemma air_run:
  assumes a: "air_valid a" and "air_rep a k s" and "expect k (map (air_label a) ws) = Some m" and "m < ac_fragments a"
    and "\<And>w. w \<in> set ws \<Longrightarrow> air_label a w = Inl w \<Longrightarrow> air_foreign a w"
  shows "\<exists>s'. hear_all a ws s = Some s' \<and> air_rep a m s'"
  using assms(2-5)
proof (induction ws arbitrary: k s)
  case Nil
  then show ?case by simp
next
  case (Cons w ws)
  have foreign: "air_foreign a w" if "air_label a w = Inl v" for v
    using Cons.prems(4)[of w] that by (auto simp: air_label_def split: option.splits)
  have step: "\<exists>s' k'. hears a w s = Some s' \<and> air_rep a k' s' \<and> expect k' (map (air_label a) ws) = Some m"
  proof (cases "air_label a w")
    case (Inl v)
    with Cons.prems(2) have "0 < k" "expect k (map (air_label a) ws) = Some m" by (auto split: if_splits)
    with air_steps(3)[OF a Cons.prems(1) foreign[OF Inl]] show ?thesis by blast
  next
    case (Inr i)
    with Cons.prems(2) consider "i < k" "expect k (map (air_label a) ws) = Some m"
      | "i = k" "expect (Suc k) (map (air_label a) ws) = Some m" by (auto split: if_splits)
    then show ?thesis
    proof cases
      case 1
      moreover from this(2) have "k < ac_fragments a" using expect_mono Cons.prems(3) by fastforce
      ultimately show ?thesis using air_steps(2)[OF a Cons.prems(1) Inr] by blast
    next
      case 2
      moreover from this(2) have "Suc k < ac_fragments a" using expect_mono Cons.prems(3) by fastforce
      ultimately show ?thesis using air_steps(1)[OF a Cons.prems(1)] Inr by blast
    qed
  qed
  then obtain s' k' where "hears a w s = Some s'" "air_rep a k' s'" "expect k' (map (air_label a) ws) = Some m" by blast
  with Cons.IH[of k' s'] Cons.prems(3,4) show ?case by simp
qed

text \<open>Whatever the state of the transfer, the window of a fragment and a foreign window return.\<close>

lemma hears_returns:
  assumes a: "air_valid a" and s: "air_settled a s" and w: "air_label a w = Inr i \<or> air_foreign a w"
  shows "\<exists>s'. hears a w s = Some s' \<and> air_settled a s'"
proof -
  note env = air_validD(1)[OF a]
  obtain s3 where s3: "air_ready a s3" "\<not> window_kept (ac_me a) (aw_heard w) \<Longrightarrow> hears a w s = Some s3"
    "\<And>data e. aw_heard w = Some data \<Longrightarrow> link_accepts (ac_me a) data \<Longrightarrow>
      length data = sizeof_link_frame \<Longrightarrow> air_event data = Some e \<Longrightarrow> hears a w s = dc_rx_frame (ac_dect a) e s3"
    by (rule hears_turn[OF a s, of w]) blast
  show ?thesis
  proof (cases "window_kept (ac_me a) (aw_heard w)")
    case False
    with s3(2) air_rx.ready_settled[OF s3(1)] show ?thesis by simp
  next
    case True
    have "\<exists>data e. aw_heard w = Some data \<and> link_accepts (ac_me a) data \<and> length data = sizeof_link_frame \<and>
        air_event data = Some e \<and> (case e of (src, buf, n) \<Rightarrow> dect_frame_ok buf n)"
    proof (cases "air_foreign a w")
      case True
      with \<open>window_kept _ _\<close> show ?thesis
        by (auto simp: air_foreign_def window_kept_def dc_admits_alt split: option.splits)
    next
      case False
      then have l: "air_label a w = Inr i" using w by blast
      have "i < tf_n (dc_transfer (ac_dect a))" using air_label_Inr(1)[OF l] by (simp add: ac_fragments_tf)
      from air_rx.ev_ok[OF a this] show ?thesis
        by (intro exI[of _ "put_link_frame (ac_frame a i)"] exI[of _ "dc_event (ac_dect a) i"] conjI
            air_label_Inr(2)[OF l] ac_frame_heard[OF a])
    qed
    with s3(3) air_rx.rx_total[OF env s3(1)] show ?thesis by metis
  qed
qed

lemma hear_all_returns:
  assumes "air_valid a" and "air_settled a s" and "\<And>w. w \<in> set ws \<Longrightarrow> (\<exists>i. air_label a w = Inr i) \<or> air_foreign a w"
  shows "\<exists>s'. hear_all a ws s = Some s'"
  using assms(2,3)
proof (induction ws arbitrary: s)
  case (Cons w ws)
  then obtain s1 where "hears a w s = Some s1" "air_settled a s1"
    using hears_returns[OF assms(1) Cons.prems(1), of w] by (metis list.set_intros(1))
  with Cons.IH[of s1] Cons.prems(2) show ?case by simp
qed simp

section \<open>From the order of sending to the order of arrival\<close>

fun arrived :: "('e + nat) list \<Rightarrow> nat list" where
  "arrived [] = []"
| "arrived (Inl e # evs) = arrived evs"
| "arrived (Inr i # evs) = i # arrived evs"

lemma arrived_append [simp]: "arrived (xs @ ys) = arrived xs @ arrived ys"
  by (induction xs rule: arrived.induct) simp_all

lemma expect_arrived: "0 < k \<Longrightarrow> expect k evs = expect k (map Inr (arrived evs) :: (unit + nat) list)"
  by (induction k evs rule: expect.induct) auto

lemma expect_sorted:
  assumes "sorted js" and "set js \<subseteq> {..<m}" and "{k..<m} \<subseteq> set js" and "k \<le> m"
  shows "expect k (map Inr js) = Some m"
  using assms
proof (induction js arbitrary: k)
  case Nil
  then show ?case by simp
next
  case (Cons i js)
  consider "i < k" | "i = k" "k < m" | "k < i" using Cons.prems(2) by force
  then show ?case
  proof cases
    case 1
    have "{k..<m} \<subseteq> set js" using 1 Cons.prems(3) by auto
    with 1 Cons show ?thesis by simp
  next
    case 2
    have "{Suc k..<m} \<subseteq> set js"
    proof
      fix x assume "x \<in> {Suc k..<m}"
      then have "x \<in> {k..<m}" "x \<noteq> i" using 2 by auto
      then show "x \<in> set js" using Cons.prems(3) by auto
    qed
    with 2 Cons show ?thesis by simp
  next
    case 3
    then have "k \<in> {k..<m}" using Cons.prems(2) by auto
    then have "k \<in> set (i # js)" using Cons.prems(3) by blast
    with 3 Cons.prems(1) show ?thesis by auto
  qed
qed

lemma sent_indices_sorted:
  assumes "sent_in_order n tries (\<lambda>i. i) errs r is"
  shows "sorted is" and "set is \<subseteq> {..<n}"
proof -
  obtain c m j where o: "is = concat (map (\<lambda>i. replicate (c i) i) [0..<m]) @ replicate j m"
    "if r = 0 then m = n \<and> j = 0 else m < n \<and> (r = - EAGAIN \<and> j = tries \<or> r \<in> errs \<and> j < tries)"
    using assms unfolding sent_in_order_def by blast
  have up: "sorted (concat (map (\<lambda>i. replicate (c i) i) [0..<k]))" for k
    by (induction k) (auto simp: sorted_append)
  show "sorted is" unfolding o(1) by (auto simp: sorted_append up)
  show "set is \<subseteq> {..<n}" using o(2) unfolding o(1) by (auto split: if_splits)
qed

lemma subseq_map_inj:
  assumes "subseq (map f xs) (map f ys)" and "inj_on f (set xs \<union> set ys)"
  shows "subseq xs ys"
proof -
  have "map (the_inv_into (set xs \<union> set ys) f) (map f zs) = zs" if "set zs \<subseteq> set xs \<union> set ys" for zs
    using that by (auto intro!: map_idI simp: the_inv_into_f_f[OF assms(2)])
  with subseq_map[OF assms(1), of "the_inv_into (set xs \<union> set ys) f"] show ?thesis by simp
qed

lemma subseq_sorted: "subseq xs ys \<Longrightarrow> sorted ys \<Longrightarrow> sorted xs"
  by (auto simp: subseq_conv_nths intro: sorted_nths)

text \<open>The first arrival of the last fragment comes after all the others.\<close>

lemma first_arrival_of_last:
  assumes js: "sorted (js1 @ m # js2)" "set (js1 @ m # js2) = {..m}" and first: "m \<notin> set js1"
  shows "set js1 = {..<m}"
proof -
  have "x < m" if x: "x \<in> set js1" for x
  proof -
    have "x \<in> set (js1 @ m # js2)" using x by simp
    then have "x \<le> m" unfolding js(2) by simp
    moreover have "x \<noteq> m" using x first by blast
    ultimately show ?thesis by simp
  qed
  moreover have "x \<in> set js1" if "x < m" for x
  proof -
    have "x \<in> set (js1 @ m # js2)" unfolding js(2) using that by simp
    with that js(1) show ?thesis by (auto simp: sorted_append)
  qed
  ultimately show ?thesis by auto
qed

section \<open>The air\<close>

text \<open>The frames of the message among those a device hears.\<close>

definition heard_of :: "('k, 'a) air_case \<Rightarrow> air_window list \<Rightarrow> u8 list list" where
  "heard_of a ws = filter (\<lambda>d. \<exists>k < ac_fragments a. d = put_link_frame (ac_frame a k)) (List.map_filter aw_heard ws)"

text \<open>
  The air between a sender that has queued the frames \<open>ms\<close> and the windows of a receiver. What arrives of
  the message is a subsequence of what was sent: copies get lost, nothing is reordered or made up.
  Of every fragment at least one copy arrives. The first window is that of the first fragment; in
  between anything foreign may be heard.
\<close>

definition air_carries ::
  "('k, 'a) air_case \<Rightarrow> dect_link_layer_frame_t list \<Rightarrow> air_window list \<Rightarrow> bool" where
  "air_carries a ms ws \<longleftrightarrow> subseq (heard_of a ws) (map put_link_frame ms) \<and>
     (\<forall>k < ac_fragments a. put_link_frame (ac_frame a k) \<in> set (heard_of a ws)) \<and>
     (case ws of [] \<Rightarrow> False | w # _ \<Rightarrow> aw_heard w = Some (put_link_frame (ac_frame a 0))) \<and>
     (\<forall>w \<in> set ws. heard_of a [w] \<noteq> [] \<or> air_foreign a w)"

lemma ac_frame_inj:
  assumes "air_valid a"
  shows "inj_on (\<lambda>k. put_link_frame (ac_frame a k)) {..<ac_fragments a}"
proof (rule inj_onI)
  fix j k assume jk: "j \<in> {..<ac_fragments a}" "k \<in> {..<ac_fragments a}"
    "put_link_frame (ac_frame a j) = put_link_frame (ac_frame a k)"
  let ?c = "ac_dect a"
  note m = air_validD(2)[OF assms]
  have "ac_fragments a < 256" using dc_messageD(2)[OF m] by (simp add: tf_ok_def ac_fragments_tf[symmetric])
  then have small: "j < 256" "k < 256" using jk(1,2) by simp_all
  have "dc_event ?c j = dc_event ?c k"
    using ac_frame_heard(3)[OF assms, of j] ac_frame_heard(3)[OF assms, of k] jk(3) by simp
  then have "put_dect_data_frame (dect_data_frame (dc_seq ?c) (dc_msg ?c) j) =
      put_dect_data_frame (dect_data_frame (dc_seq ?c) (dc_msg ?c) k)"
    using dc_messageD(3)[OF m, of j] dc_messageD(3)[OF m, of k] jk(1,2)
    by (simp add: dc_event_def ac_fragments_tf)
  then have "dect_data_frame (dc_seq ?c) (dc_msg ?c) j = dect_data_frame (dc_seq ?c) (dc_msg ?c) k"
    by (metis get_put_dect_data_frame option.inject)
  then have "(of_nat j :: u8) = of_nat k" by (simp add: dect_data_frame_def)
  then show "j = k" using small by (metis unat_of_nat_u8)
qed

lemma heard_of_label:
  assumes "air_valid a"
  shows "heard_of a ws = map (\<lambda>k. put_link_frame (ac_frame a k)) (arrived (map (air_label a) ws))"
proof (induction ws)
  case Nil
  then show ?case by (simp add: heard_of_def List.map_filter_simps)
next
  case (Cons w ws)
  show ?case
  proof (cases "air_label a w")
    case (Inl v)
    then have "find (\<lambda>k. aw_heard w = Some (put_link_frame (ac_frame a k))) [0..<ac_fragments a] = None"
      by (auto simp: air_label_def split: option.splits)
    then have "\<forall>k < ac_fragments a. aw_heard w \<noteq> Some (put_link_frame (ac_frame a k))" by (auto simp: find_None_iff)
    with Inl Cons show ?thesis by (cases "aw_heard w") (auto simp: heard_of_def List.map_filter_simps)
  next
    case (Inr k)
    with Cons air_label_Inr[OF Inr] show ?thesis by (auto simp: heard_of_def List.map_filter_simps)
  qed
qed

lemma arrived_range: "set (arrived (map (air_label a) ws)) \<subseteq> {..<ac_fragments a}"
proof (induction ws)
  case (Cons w ws)
  then show ?case using air_label_Inr(1)[of a w] by (cases "air_label a w") auto
qed simp

text \<open>What the air carries arrives in order and completely.\<close>

lemma carried_in_order:
  assumes a: "air_valid a" and air: "air_carries a ms ws"
    and sent: "sent_in_order (ac_fragments a) tries (ac_frame a) errs r ms"
  shows "sorted (arrived (map (air_label a) ws))" and "set (arrived (map (air_label a) ws)) = {..<ac_fragments a}"
proof -
  let ?f = "\<lambda>k. put_link_frame (ac_frame a k)" and ?js = "arrived (map (air_label a) ws)"
  obtain xs where xs: "sent_in_order (ac_fragments a) tries (\<lambda>i. i) errs r xs" "ms = map (ac_frame a) xs"
    using sent_in_order_map[OF sent] by blast
  note i = sent_indices_sorted[OF xs(1)]
  have "subseq (map ?f ?js) (map ?f xs)"
    using air unfolding air_carries_def heard_of_label[OF a] xs(2) by (simp add: comp_def)
  then have "subseq ?js xs"
    by (rule subseq_map_inj) (rule inj_on_subset[OF ac_frame_inj[OF a]], use i(2) arrived_range[of a ws] in blast)
  then show "sorted ?js" by (rule subseq_sorted[OF _ i(1)])
  have "k \<in> set ?js" if k: "k < ac_fragments a" for k
  proof -
    have "?f k \<in> ?f ` set ?js" using air k unfolding air_carries_def heard_of_label[OF a] by simp
    then show ?thesis
      using inj_on_image_mem_iff[OF ac_frame_inj[OF a], of k "set ?js"] k arrived_range[of a ws] by simp
  qed
  with arrived_range[of a ws] show "set ?js = {..<ac_fragments a}" by auto
qed

lemma arrived_split:
  assumes "m \<in> set (arrived (map f ws))"
  obtains ws1 w ws2 where "ws = ws1 @ w # ws2" and "f w = Inr m" and "m \<notin> set (arrived (map f ws1))"
  using assms
proof (induction ws arbitrary: thesis)
  case (Cons v ws)
  show ?case
  proof (cases "f v = Inr m")
    case True
    then show ?thesis by (intro Cons.prems(1)[of "[]" v ws]) simp_all
  next
    case False
    then have no: "m \<in> set (arrived (map f ws))" using Cons.prems(2) by (cases "f v") auto
    obtain ws1 w ws2 where "ws = ws1 @ w # ws2" "f w = Inr m" "m \<notin> set (arrived (map f ws1))"
      by (rule Cons.IH[OF _ no])
    then show ?thesis using False by (intro Cons.prems(1)[of "v # ws1" w ws2]) (cases "f v"; simp)+
  qed
qed simp

text \<open>The last fragment is heard.\<close>

definition hears_last :: "('k, 'a) air_case \<Rightarrow> air_window \<Rightarrow> bool" where
  "hears_last a w \<longleftrightarrow> aw_heard w = Some (put_link_frame (ac_frame a (ac_fragments a - 1)))"

lemma hears_last_label:
  assumes "air_valid a" and "0 < ac_fragments a"
  shows "hears_last a w \<longleftrightarrow> air_label a w = Inr (ac_fragments a - 1)"
proof
  assume l: "hears_last a w"
  have "heard_of a [w] = [put_link_frame (ac_frame a (ac_fragments a - 1))]"
    using l assms(2) by (auto simp: hears_last_def heard_of_def List.map_filter_simps intro: exI[of _ "ac_fragments a - 1"])
  then obtain k where k: "air_label a w = Inr k"
    "put_link_frame (ac_frame a k) = put_link_frame (ac_frame a (ac_fragments a - 1))"
    by (cases "air_label a w") (auto simp: heard_of_label[OF assms(1)])
  with inj_onD[OF ac_frame_inj[OF assms(1)] k(2)] air_label_Inr(1)[OF k(1)] assms(2)
  show "air_label a w = Inr (ac_fragments a - 1)" by simp
next
  assume "air_label a w = Inr (ac_fragments a - 1)"
  from air_label_Inr(2)[OF this] show "hears_last a w" by (simp add: hears_last_def)
qed

lemma arrived_label: "w \<in> set ws \<Longrightarrow> f w = Inr m \<Longrightarrow> m \<in> set (arrived (map f ws))"
proof (induction ws)
  case (Cons v ws)
  then show ?case by (cases "f v") auto
qed simp

lemma carried_delivers:
  assumes a: "air_valid a" and rep: "air_rep a 0 s" and air: "air_carries a ms ws"
    and sent: "sent_in_order (ac_fragments a) tries (ac_frame a) errs r ms"
  shows "\<exists>ws1 w ws2 s1 s2 s3. ws = ws1 @ w # ws2 \<and> hears_last a w \<and> \<not> list_ex (hears_last a) ws1 \<and>
     hear_all a ws1 s = Some s1 \<and> hears a w s1 = Some s2 \<and> air_delivered a (Some s2) \<and> hear_all a ws2 s2 = Some s3"
proof -
  let ?l = "air_label a"
  note js = carried_in_order[OF a air sent]
  have "dc_msg (ac_dect a) \<noteq> []" using a by (simp add: air_valid_def)
  then obtain m where m: "ac_fragments a = Suc m"
    using n_chunks_pos[of 14 "length (dc_msg (ac_dect a))"] by (cases "ac_fragments a") (auto simp: ac_fragments_def)
  have "m \<in> set (arrived (map ?l ws))" using js(2) m by simp
  then obtain ws1 w ws2 where ws: "ws = ws1 @ w # ws2" "?l w = Inr m" "m \<notin> set (arrived (map ?l ws1))"
    by (rule arrived_split)
  have split: "arrived (map ?l ws) = arrived (map ?l ws1) @ m # arrived (map ?l ws2)" using ws(1,2) by simp
  have before: "set (arrived (map ?l ws1)) = {..<m}"
    by (rule first_arrival_of_last[OF js(1)[unfolded split] js(2)[unfolded split m lessThan_Suc_atMost] ws(3)])
  have ex: "expect 0 (map ?l ws1) = Some m"
  proof (cases ws1)
    case Nil
    with before show ?thesis by (cases m) auto
  next
    case (Cons v vs)
    have "aw_heard v = Some (put_link_frame (ac_frame a 0))" using air ws(1) Cons by (simp add: air_carries_def)
    then have "find (\<lambda>k. aw_heard v = Some (put_link_frame (ac_frame a k))) [0..<ac_fragments a] = Some 0"
      by (simp add: m upt_rec)
    then have v: "?l v = Inr 0" by (simp add: air_label_def)
    have sorted: "sorted (arrived (map ?l ws1))" using js(1)[unfolded split] by (simp only: sorted_append)
    have "expect 0 (map Inr (arrived (map ?l ws1)) :: (unit + nat) list) = Some m"
      by (rule expect_sorted[OF sorted]) (simp_all add: before lessThan_atLeast0)
    then show ?thesis using v Cons by (simp add: expect_arrived[of "Suc 0" "map ?l vs"])
  qed
  have foreign: "air_foreign a v" if "v \<in> set ws1" "?l v = Inl v" for v
  proof -
    have "heard_of a [v] = []" using that(2) by (simp add: heard_of_label[OF a])
    moreover have "v \<in> set ws" using that(1) ws(1) by simp
    ultimately show ?thesis using air unfolding air_carries_def by blast
  qed
  have "m < ac_fragments a" using m by simp
  then obtain s1 where s1: "hear_all a ws1 s = Some s1" "air_rep a m s1"
    using air_run[OF a rep ex _ foreign] by blast
  have del: "air_delivered a (hears a w s1)" by (rule air_steps(4)[OF a s1(2) ws(2) m[symmetric]])
  then obtain s2 where s2: "hears a w s1 = Some s2" "air_settled a s2"
    by (auto simp: air_delivered_def delivered_def)
  have "(\<exists>i. ?l v = Inr i) \<or> air_foreign a v" if "v \<in> set ws2" for v
    using air that ws(1) by (cases "?l v") (auto simp: air_carries_def heard_of_label[OF a])
  then obtain s3 where s3: "hear_all a ws2 s2 = Some s3" using hear_all_returns[OF a s2(2)] by blast
  have "hears_last a w" using air_label_Inr(2)[OF ws(2)] m by (simp add: hears_last_def)
  moreover have "\<not> list_ex (hears_last a) ws1"
    using ws(3) m arrived_label[where f = ?l] by (auto simp: list_ex_iff hears_last_label[OF a])
  moreover have "air_delivered a (Some s2)" using del s2(1) by simp
  ultimately show ?thesis using ws(1) s1(1) s2(1) s3 by blast
qed

section \<open>Properties\<close>

text \<open>The sender is running.\<close>

definition sender_up ::
  "'k zephyr \<Rightarrow> (('k, 'a) dect_machine_scheme \<Rightarrow> ('k, 'a) dect_machine_scheme) \<Rightarrow> ('k, 'a) dect_machine_scheme \<Rightarrow> bool" where
  "sender_up Z others s \<longleftrightarrow> sem_laws Z \<and> hwinfo_laws Z \<and> rand_laws Z \<and>
     msgq_laws Z DECT_LINK_LAYER_TX_MSG_QUEUE_DEPTH \<and> link_drains Z others \<and>
     li_initialized (ll s) \<and> dev_fetched s \<and> txq_room Z s \<and> dt_initialized (dtl s)"

text \<open>C5. From device to device: when one device has written a message for another, and the air loses,
  but neither reorders nor invents, copies of its frames, and lets at least one copy of each through -
  with silence, frames for others, ACKs and frames of other messages in between - then every turn of
  the other device's link thread returns, before, in and after the window in which the last fragment is
  heard first, and the turn of that window delivers: the callback runs on a context that holds exactly
  the bytes written, their number and the sender's id. That holds whatever the write returned, and with
  any errors the modem reports for its operations. A transfer that takes longer than its ten-second
  deadline is exempt from the delivery, not from the returns: its context may have expired.\<close>

theorem message_crosses_the_air:
  assumes "sender_up Z others sa" and "0 < n" and "n \<le> length data"
    and "dect_transport_layer_write Z others (ac_me a) (Some data) n sa = Some (r, sa')"
    and "data_puts Z sa' = data_puts Z sa @ ms"
    and "dc_src (ac_dect a) = dev_id sa" and "dc_seq (ac_dect a) = fst (sys_rand16_get Z (kern sa))"
    and "dc_msg (ac_dect a) = take n data"
    and "air_valid a" and "air_rep a 0 sb" and "air_carries a ms ws"
  shows "\<exists>ws1 w ws2 s1 s2 s3. ws = ws1 @ w # ws2 \<and> hears_last a w \<and> \<not> list_ex (hears_last a) ws1 \<and>
     hear_all a ws1 sb = Some s1 \<and> hears a w s1 = Some s2 \<and> air_delivered a (Some s2) \<and> hear_all a ws2 s2 = Some s3"
proof -
  have n: "n \<le> 512" "ac_fragments a = n_chunks 14 n" "length (dc_msg (ac_dect a)) = n"
    using assms(3,8,9) by (simp_all add: air_valid_def ac_fragments_def)
  have up: "sem_laws Z" "hwinfo_laws Z" "rand_laws Z" "msgq_laws Z DECT_LINK_LAYER_TX_MSG_QUEUE_DEPTH"
    "link_drains Z others" "li_initialized (ll sa)" "dev_fetched sa" "txq_room Z sa" "dt_initialized (dtl sa)"
    using assms(1) by (simp_all add: sender_up_def)
  obtain r' s' ms' where w: "dect_transport_layer_write Z others (ac_me a) (Some data) n sa = Some (r', s')"
    "data_puts Z s' = data_puts Z sa @ ms'"
    "sent_in_order (n_chunks 14 n) 4
       (dect_tx_frame (dev_id sa) (ac_me a) (fst (sys_rand16_get Z (kern sa))) (take n data)) {} r' ms'"
    using dect_write_spec[OF up assms(2) n(1) assms(3) undisturbed_True TrueI] by blast
  have frame: "ac_frame a =
      dect_tx_frame (dev_id sa) (ac_me a) (fst (sys_rand16_get Z (kern sa))) (take n data)"
    unfolding ac_frame_def assms(6-8) ..
  have "ms' = ms" using w(1,2) assms(4,5) by simp
  with w(3) have "sent_in_order (ac_fragments a) 4 (ac_frame a) {} r' ms" unfolding frame n(2) by blast
  then show ?thesis by (rule carried_delivers[OF assms(9-11)])
qed

text \<open>Two devices for the witness: the second hears the two frames of a message of 20 bytes, with a silent window
  in between.\<close>

definition ref_pair :: "(kworld, unit) air_case" where
  "ref_pair = \<lparr>ac_dect = ref_dect_case\<lparr>dc_seq := 0x1234,
       dc_frame := (\<lambda>k. lf_payload (dect_tx_frame 0x0A0B0C0D 0x04030201 0x1234 (map of_nat [0..<20]) k))\<rparr>,
     ac_me = 0x04030201\<rparr>"

definition ref_heard :: "air_window list" where
  "ref_heard = map (\<lambda>h. \<lparr>aw_heard = h, aw_tx_err = 0, aw_rx_err = 0\<rparr>)
     [Some (put_link_frame (ac_frame ref_pair 0)), None, Some (put_link_frame (ac_frame ref_pair 1))]"

lemma ref_pair_simps [simp]:
  "dc_Z (ac_dect ref_pair) = ref_zephyr" "dc_src (ac_dect ref_pair) = 0x0A0B0C0D" "dc_seq (ac_dect ref_pair) = 0x1234"
  "dc_msg (ac_dect ref_pair) = map of_nat [0..<20]" "ac_me ref_pair = 0x04030201"
  by (simp_all add: ref_pair_def ref_dect_case_def)

lemma ref_pair_fragments: "ac_fragments ref_pair = 2"
  by (simp add: ac_fragments_def n_chunks_def)

lemma ref_modem_starts: "modem_starts ref_zephyr"
  by (simp add: modem_starts_def ref_zephyr_def)

lemma ref_pair_valid: "air_valid ref_pair" "air_rep ref_pair 0 ref_dect"
proof -
  have env: "dc_env (ac_dect ref_pair)"
    using ref_dect_case_valid(1) by (simp add: dc_valid_def dc_message_def dc_env_def ref_pair_def)
  show "air_valid ref_pair"
    unfolding air_valid_def
    using env by (simp add: ref_phy_laws ref_modem_starts ac_frame_def) (simp add: ref_pair_def)
  have "dc_holds (ac_dect ref_pair) 1 ref_dect"
    using ref_dect_case_valid(2) by (simp add: dc_ready_def dc_holds_def ref_pair_def) (simp add: ref_dect_case_def)
  then have "air_settled ref_pair ref_dect"
    by (simp add: air_settled_def air_holds_def op_idle_def dc_holds_def ref_pair_def ref_dect_case_def)
      (simp add: ref_dect_def link_inst_init_def)
  moreover have "received ref_zephyr (dect_pool ref_zephyr) (dc_transfer (ac_dect ref_pair)) 0 ref_dect"
    by (auto simp: received_def awaited_def tf_matches_def matches_def tb_at_def pool_ptrs_def
        dect_pool_def rk_init_def dc_transfer_def ref_pair_def ref_dect_case_def)
  ultimately show "air_rep ref_pair 0 ref_dect" by (simp add: air_rep_def)
qed

lemma ref_pair_carries: "air_carries ref_pair (map (ac_frame ref_pair) [0..<2]) ref_heard"
proof -
  have heard: "heard_of ref_pair ref_heard = map (\<lambda>k. put_link_frame (ac_frame ref_pair k)) [0, 1]"
    by (auto simp: heard_of_def ref_heard_def ref_pair_fragments List.map_filter_simps less_2_cases_iff)
  show ?thesis
    unfolding air_carries_def heard
    by (auto simp: ref_pair_fragments less_2_cases_iff ref_heard_def heard_of_def List.map_filter_simps upt_rec air_foreign_def)
qed

theorem message_crosses_the_air_witness:
  "\<exists>sa' ws1 w ws2 s1 s2 s3. dect_transport_layer_write ref_zephyr (ref_air 1) (ac_me ref_pair) (Some (map of_nat [0..<20])) 20
       (ref_dect\<lparr>dev_id := 0x0A0B0C0D\<rparr>) = Some (0, sa') \<and>
     ref_heard = ws1 @ w # ws2 \<and> hears_last ref_pair w \<and> \<not> list_ex (hears_last ref_pair) ws1 \<and>
     hear_all ref_pair ws1 ref_dect = Some s1 \<and> hears ref_pair w s1 = Some s2 \<and> air_delivered ref_pair (Some s2) \<and>
     hear_all ref_pair ws2 s2 = Some s3"
proof -
  let ?sa = "ref_dect\<lparr>dev_id := 0x0A0B0C0D\<rparr>"
  have up: "sender_up ref_zephyr (ref_air 1) ?sa"
    by (simp add: sender_up_def ref_sem_laws ref_hwinfo_laws ref_rand_laws ref_air_drains ref_msgq_laws txq_room_def
        DECT_LINK_LAYER_TX_MSG_QUEUE_DEPTH_def)
  have seq: "fst (sys_rand16_get ref_zephyr (kern ?sa)) = 0x1234" by (simp add: rk_init_def)
  obtain sa' where w: "dect_transport_layer_write ref_zephyr (ref_air 1) (ac_me ref_pair) (Some (map of_nat [0..<20])) 20 ?sa =
      Some (0, sa')"
    "data_puts ref_zephyr sa' = data_puts ref_zephyr ?sa @ map (ac_frame ref_pair) [0..<2]"
    using dect_write_prompt[where Z = ref_zephyr and others = "ref_air 1" and s = ?sa and n = 20
        and data = "map of_nat [0..<20]" and dst = "ac_me ref_pair"] up ref_air_acks seq
    by (auto simp: sender_up_def ac_frame_def n_chunks_def)
  show ?thesis
    using message_crosses_the_air[OF up _ _ w _ _ _ ref_pair_valid ref_pair_carries] seq w(1) by simp
qed

end
