(* ===== verification/Radio_Limits.thy ===== *)
theory Radio_Limits
  imports Dect_Transport_Layer
begin

text \<open>
  What the radio protocol does not promise. A message of one fragment whose ACK is lost is handed up
  again by its retransmission: nothing remembers it once it has been delivered. And the length the
  header of a frame claims is passed on unchecked, so a frame that claims more than it carries makes
  the receive path read past the frame.
\<close>

section \<open>Receiving a message of one fragment again\<close>

text \<open>Starting a transfer leaves the other contexts alone, apart from those that time out.\<close>

lemma rx_first_others:
  assumes laws: "clock_laws Z" "net_buf_laws Z cnt cap"
    and inv: "pool_inv Z inst s" and fits: "pool_fits cnt cap inst"
    and query: "src_query inst (tf_src tf)" and tf: "tf_ok cap inst tf"
    and f: "is_frag tf 0 f" and aw: "awaited Z inst tf s"
    and run: "rx_step Z inst f s = Some (Some (p, ret), s')"
    and q: "q \<in> set (pool_ptrs inst)" "q \<noteq> p"
  shows "\<not> tf_matches inst tf s' q"
    and "tb_state (tb_at s q) = TRANSPORT_BUFFER_STATE_FREE \<Longrightarrow> tb_state (tb_at s' q) = TRANSPORT_BUFFER_STATE_FREE"
proof -
  have k: "0 < tf_n tf" using tf n_chunks_pos by (simp add: tf_ok_def tf_n_def)
  note fD = is_fragD[OF tf f k]
  have query': "src_query inst (rf_src f)" using query fD(5) by simp
  obtain s1 r s2 where tr: "rx_trace Z inst f s s1 r s2 (Some (p, ret)) s'"
    by (rule rx_step_trace[OF laws inv fits query' fD(10,7,9) run])
  have fr: "expire_frame Z inst s s1" and eff: "expire_effect Z inst s s1 q"
    using tr q(1) by (auto simp: rx_trace_def)
  have r: "r = Some p" using tr by (cases r) (auto simp: rx_trace_def)
  have at: "tb_at s' q = tb_at s1 q" using tr q(2) unfolding rx_trace_def r by auto
  have ids: "src_ids (mem s') q = src_ids (mem s1) q"
    using tr q(2) fr unfolding rx_trace_def r
    by (auto simp: src_ids_mark_src expire_frame_def only_buffers_def split: option.splits)
  have "\<not> tf_matches inst tf s1 q"
    using aw expire_keeps_matching[OF query eff fr] q(1) by (auto simp: awaited_def)
  with tf_matches_cong[OF query at ids] show "\<not> tf_matches inst tf s' q" by simp
  show "tb_state (tb_at s' q) = TRANSPORT_BUFFER_STATE_FREE" if "tb_state (tb_at s q) = TRANSPORT_BUFFER_STATE_FREE"
    using expiry_keeps_free[OF eff that] at by simp
qed

context message_receiver
begin

text \<open>The whole message in one fragment: it is handed up, and everything is ready for it again.\<close>

lemma one_fragment:
  assumes c: "valid c" and ready: "ready c s" and one: "tf_n (tf c) = 1" and aw: "awaited (Z c) (inst c) (tf c) s"
  obtains s1 p s' where "rx c (ev c 0) s = Some s'" and "settled c s1" and "assembled (Z c) (inst c) (tf c) s1 p"
    and "handle c p s1 = Some s'" and "ready c (drain c s')"
    and "\<And>q. q \<in> set (pool_ptrs (inst c)) \<Longrightarrow> q \<noteq> p \<Longrightarrow> tb_state (tb_at s q) = TRANSPORT_BUFFER_STATE_FREE \<Longrightarrow>
           awaited (Z c) (inst c) (tf c) (drain c s')"
proof -
  note env = valid_env[OF c]
  note inv = settled_inv[OF ready_settled[OF ready]]
  have k: "0 < tf_n (tf c)" using one by simp
  obtain f h where f: "frag (ev c 0) = Some (f, h)" "is_frag (tf c) 0 f" using ev_frag[OF c k] by blast
  obtain out s2 s' where o: "rx_step (Z c) (inst c) f s = Some (out, s2)"
    "rx c (ev c 0) s = rx_outcome (ack c) (handle c) h out s2" "ready c s2"
    "deliverable (Z c) (inst c) out s2" "ktime (Z c) (kern s) \<le> ktime (Z c) (kern s2)"
    "rx c (ev c 0) s = Some s'" "settled c s'" "ktime (Z c) (kern s2) \<le> ktime (Z c) (kern s')"
    by (rule step[OF env ready ev_ok[OF c k] f(1)])
  note start = clock[OF env] net_buf[OF env] inv fits[OF env] valid_query[OF c] valid_tf[OF c] f(2) aw
  obtain p where p: "out = Some (p, TRANSPORT_BUFFER_WRITE_RET_COMPLETE)" "assembled (Z c) (inst c) (tf c) s2 p"
    using rx_first[OF start o(1)] one by (auto simp: advanced_def)
  then obtain g nb where hn: "p \<in> set (pool_ptrs (inst c))"
    "tb_state (tb_at s2 p) = TRANSPORT_BUFFER_STATE_REFERENCED"
    "tb_buffer (tb_at s2 p) = Some g" "bufs (Z c) (kern s2) g = Some nb" "nb_ref nb = 1"
    by (auto simp: assembled_def)
  obtain s1 s'' where s1: "rx_outcome (ack c) (handle c) h (Some (p, TRANSPORT_BUFFER_WRITE_RET_COMPLETE)) s2 = Some s''"
    "same_rx (Z c) s2 s1" "settled c s1" "handle c p s1 = Some s''" "deliver_release (Z c) (cb c) p s1 = Some s''"
    "tb_state (tb_at s1 p) = TRANSPORT_BUFFER_STATE_REFERENCED" "tb_buffer (tb_at s1 p) = Some g"
    "bufs (Z c) (kern s1) g = Some nb"
    by (rule complete_outcome[OF env o(3) hn, of h])
  have eq: "s'' = s'" using s1(1) o(2,6) p(1) by simp
  note s1 = s1[unfolded eq]
  have asm: "assembled (Z c) (inst c) (tf c) s1 p" by (rule same_rx_transfer(3)[OF s1(2) p(2)])
  note dr = drains[OF c o(7)]
  obtain s3 r where d: "deliver_release (Z c) (cb c) p s1 = Some s3" "pool_inv (Z c) (inst c) s3" "only_buffers s1 s3"
    "ktime (Z c) (kern s1) \<le> ktime (Z c) (kern s3)"
    "kv_txq (kview (Z c) (kern s3)) = kv_txq (kview (Z c) (kern s1))"
    "kv_sem (kview (Z c) (kern s3)) = kv_sem (kview (Z c) (kern s1))"
    "r = 0 \<Longrightarrow> tb_at s3 p = release_ctx (tb_at s1 p) \<and> bufs (Z c) (kern s3) g = None"
    "0 < r \<Longrightarrow> tb_at s3 p = tb_at s1 p \<and> bufs (Z c) (kern s3) g = Some (nb\<lparr>nb_ref := r\<rparr>)"
    "\<And>q. q \<noteq> p \<Longrightarrow> tb_at s3 q = tb_at s1 q" "\<And>x. x \<noteq> g \<Longrightarrow> bufs (Z c) (kern s3) x = bufs (Z c) (kern s1) x"
    by (rule deliver_release_spec[OF net_buf[OF env] consumer[OF env] settled_inv[OF s1(3)] hn(1) s1(6-8) hn(5)], rule that)
  have eq3: "s3 = s'" using d(1) s1(5) by simp
  note d = d[unfolded eq3]
  have at: "tb_at s' q = tb_at s2 q" "src_ids (mem s') q = src_ids (mem s2) q" if "q \<noteq> p" for q
    using d(3,9) same_rx_pool(2)[OF s1(2)] s1(2) that by (simp_all add: only_buffers_def same_rx_def)
  have "tb_state (tb_at s' p) \<noteq> TRANSPORT_BUFFER_STATE_RECEIVING"
    using d(7,8) s1(6) by (cases "r = 0") (simp_all add: release_ctx_def)
  then have no: "\<not> tf_matches (inst c) (tf c) s' q" if "q \<in> set (pool_ptrs (inst c))" for q
    using rx_first_others(1)[OF start o(1)[unfolded p(1)] that] tf_matches_receiving[OF valid_query[OF c]]
      tf_matches_cong[OF valid_query[OF c] at] by (cases "q = p") blast+
  have since: "tf_since (tf c) \<le> ktime (Z c) (kern s')" using aw o(5,8) by (simp add: awaited_def)
  show thesis
  proof (rule that[OF o(6) s1(3) asm s1(4) conjunct1[OF dr]])
    fix q assume q: "q \<in> set (pool_ptrs (inst c))" "q \<noteq> p" "tb_state (tb_at s q) = TRANSPORT_BUFFER_STATE_FREE"
    have "tb_state (tb_at s' q) = TRANSPORT_BUFFER_STATE_FREE"
      using rx_first_others(2)[OF start o(1)[unfolded p(1)] q(1,2) q(3)] at(1)[OF q(2)] by simp
    with q(1) no since have "awaited (Z c) (inst c) (tf c) s'" by (auto simp: awaited_def)
    then show "awaited (Z c) (inst c) (tf c) (drain c s')" by (rule same_rx_transfer(2)[OF conjunct2[OF dr]])
  qed
qed

end

text \<open>The delivery of a message of one fragment over the radio.\<close>

definition delivers_once ::
  "('k, 'a) dect_case \<Rightarrow> ('k, 'a) dect_machine_scheme \<Rightarrow> ('k, 'a) dect_machine_scheme \<Rightarrow> bool" where
  "delivers_once c s s' \<longleftrightarrow> dc_rx c 0 s = Some s' \<and>
     (\<exists>s1 p s2. assembled (dc_Z c) (dect_pool (dc_Z c)) (dc_transfer c) s1 p \<and>
        prv_handle_complete_incoming_data_transaction_dect (dc_Z c) (dc_call_cb c) p s1 = Some s2 \<and>
        s' = dc_drain c s2)"

section \<open>Properties\<close>

text \<open>C37. Duplicates: a message of one fragment whose ACK is lost is delivered twice. When the frame
  arrives a second time, and the pool had two free contexts before the first time, the callback
  runs again, on a context that holds the message once more.\<close>

theorem dect_delivers_twice:
  assumes "dc_valid c" and "dc_ready c s" and "tf_n (dc_transfer c) = 1"
    and "awaited (dc_Z c) (dect_pool (dc_Z c)) (dc_transfer c) s"
    and "p \<in> set (pool_ptrs (dect_pool (dc_Z c)))" "q \<in> set (pool_ptrs (dect_pool (dc_Z c)))" "p \<noteq> q"
    and "tb_state (tb_at s p) = TRANSPORT_BUFFER_STATE_FREE" "tb_state (tb_at s q) = TRANSPORT_BUFFER_STATE_FREE"
  shows "\<exists>s1 s2. delivers_once c s s1 \<and> delivers_once c s1 s2"
proof -
  obtain t1 x s' where a: "dc_rx_frame c (dc_event c 0) s = Some s'"
    "assembled (dc_Z c) (dect_pool (dc_Z c)) (dc_transfer c) t1 x"
    "prv_handle_complete_incoming_data_transaction_dect (dc_Z c) (dc_call_cb c) x t1 = Some s'"
    "dc_ready c (dc_drain c s')"
    and again: "\<And>y. y \<in> set (pool_ptrs (dect_pool (dc_Z c))) \<Longrightarrow> y \<noteq> x \<Longrightarrow>
       tb_state (tb_at s y) = TRANSPORT_BUFFER_STATE_FREE \<Longrightarrow>
       awaited (dc_Z c) (dect_pool (dc_Z c)) (dc_transfer c) (dc_drain c s')"
    by (rule dect_rx.one_fragment[OF assms(1-4)]) blast
  have aw: "awaited (dc_Z c) (dect_pool (dc_Z c)) (dc_transfer c) (dc_drain c s')"
    using again[of p] again[of q] assms(5-9) by (cases "p = x") auto
  obtain t2 y s'' where b: "dc_rx_frame c (dc_event c 0) (dc_drain c s') = Some s''"
    "assembled (dc_Z c) (dect_pool (dc_Z c)) (dc_transfer c) t2 y"
    "prv_handle_complete_incoming_data_transaction_dect (dc_Z c) (dc_call_cb c) y t2 = Some s''"
    by (rule dect_rx.one_fragment[OF assms(1) a(4) assms(3) aw]) blast
  have "delivers_once c s (dc_drain c s')" "delivers_once c (dc_drain c s') (dc_drain c s'')"
    using a(1-3) b by (auto simp: delivers_once_def dc_rx_def)
  then show ?thesis by blast
qed

definition ref_short_case :: "(kworld, unit) dect_case" where
  "ref_short_case = ref_dect_case\<lparr>dc_msg := [1, 2, 3], dc_frame := (\<lambda>k. put_dect_data_frame (dect_data_frame 7 [1, 2, 3] k))\<rparr>"

theorem dect_delivers_twice_witness:
  "\<exists>s1 s2. delivers_once ref_short_case ref_dect s1 \<and> delivers_once ref_short_case s1 s2"
proof (rule dect_delivers_twice[where p = "Tb_ptr DectRxPool 0" and q = "Tb_ptr DectRxPool 24"])
  have "dc_env ref_short_case" using ref_dect_case_valid(1) by (simp add: dc_valid_def dc_message_def dc_env_def ref_short_case_def)
  then show "dc_valid ref_short_case"
    using ref_dect_case_valid(1) by (simp add: dc_valid_def dc_message_def ref_short_case_def) (simp add: ref_dect_case_def)
  show "dc_ready ref_short_case ref_dect"
    using ref_dect_case_valid(2) by (simp add: dc_ready_def dc_holds_def ref_short_case_def)
  show "tf_n (dc_transfer ref_short_case) = 1"
    by (simp add: dc_transfer_n ref_short_case_def n_chunks_def)
  show "awaited (dc_Z ref_short_case) (dect_pool (dc_Z ref_short_case)) (dc_transfer ref_short_case) ref_dect"
    by (auto simp: awaited_def tf_matches_def matches_def tb_at_def pool_ptrs_def
        dect_pool_def rk_init_def dc_transfer_def ref_short_case_def ref_dect_case_def)
qed (simp_all add: ref_short_case_def ref_dect_case_def dect_pool_def pool_ptrs_def upt_rec tb_at_def)

section \<open>A frame that claims more than it carries\<close>

text \<open>The first fragment of a message, of which fewer bytes are there than the caller says, faults.\<close>

lemma short_fragment_faults:
  assumes env: "dect_env Z cnt cap" and inv: "pool_inv Z (dect_pool Z) s"
    and free: "\<And>p. p \<in> set (pool_ptrs (dect_pool Z)) \<Longrightarrow> tb_state (tb_at s p) = TRANSPORT_BUFFER_STATE_FREE"
    and f: "rf_src f = Some src" "rf_idx f = 0" "length (rf_payload f) < rf_len f" "rf_len f \<le> unat (rf_total f)"
  shows "rx_step Z (dect_pool Z) f s = None"
proof -
  note laws = dect_envD(1,2)[OF env]
  have tot: "unat (rf_total f) < 2 ^ 16" using unat_u16_less[of "rf_total f"] by simp
  let ?P = "set (pool_ptrs (dect_pool Z))"
  obtain s1 r s2 where g: "transport_buffer_pool_get Z (Some (dect_pool Z)) (rf_seq f) (unat (rf_total f)) (rf_idx f)
       (rf_frag_total f) (rf_src f) s = Some (r, s2)"
    "\<And>p. p \<in> ?P \<Longrightarrow> expire_effect Z (dect_pool Z) s s1 p" "pool_inv Z (dect_pool Z) s2"
    and which: "find (matches (dect_pool Z) (rf_seq f) (unat (rf_total f)) (rf_frag_total f) (rf_src f) s1) (pool_ptrs (dect_pool Z)) = r \<and> r \<noteq> None \<and> s2 = s1 \<or>
       find (matches (dect_pool Z) (rf_seq f) (unat (rf_total f)) (rf_frag_total f) (rf_src f) s1) (pool_ptrs (dect_pool Z)) = None \<and>
       (rf_idx f \<noteq> 0 \<and> r = None \<or>
        rf_idx f = 0 \<and> r = find (\<lambda>p. tb_state (tb_at s1 p) = TRANSPORT_BUFFER_STATE_FREE) (pool_ptrs (dect_pool Z)))"
    and got: "\<forall>p. r = Some p \<longrightarrow> p \<in> ?P \<and> (\<forall>q. q \<noteq> p \<longrightarrow> tb_at s2 q = tb_at s1 q) \<and>
       (s2 = s1 \<and> matches (dect_pool Z) (rf_seq f) (unat (rf_total f)) (rf_frag_total f) (rf_src f) s1 p \<or>
        tb_state (tb_at s1 p) = TRANSPORT_BUFFER_STATE_FREE \<and>
        (\<exists>h. bufs Z (kern s1) h = None \<and>
           tb_at s2 p = fresh_ctx (rf_seq f) (unat (rf_total f)) (rf_frag_total f) h (of_nat (ktime Z (kern s2))) \<and>
           bufs Z (kern s2) = (bufs Z (kern s1))
             (h \<mapsto> \<lparr>nb_pool = pl_buffer_pool (dect_pool Z), nb_ref = 1, nb_data = []\<rparr>)))"
    by (rule pool_get_cases[OF laws inv dect_envD(6)[OF env] _ tot, of "rf_src f" "rf_seq f" "rf_idx f" "rf_frag_total f"])
      (simp add: f(1), rule that)
  have free1: "tb_state (tb_at s1 p) = TRANSPORT_BUFFER_STATE_FREE" if "p \<in> ?P" for p
    by (rule expiry_keeps_free[OF g(2)[OF that] free[OF that]])
  then have nomatch: "\<not> matches (dect_pool Z) seq n ft params s1 p" if "p \<in> ?P" for p seq n ft params
    using that by (simp add: matches_def)
  have "Tb_ptr DectRxPool 0 \<in> ?P" by (simp add: pool_ptrs_def dect_pool_def upt_rec)
  then have "find (\<lambda>p. tb_state (tb_at s1 p) = TRANSPORT_BUFFER_STATE_FREE) (pool_ptrs (dect_pool Z)) \<noteq> None"
    using free1 by (auto simp: find_None_iff)
  with which f(2) obtain p where p: "r = Some p" by (cases r) auto
  with got nomatch obtain h where h: "p \<in> ?P"
    "tb_at s2 p = fresh_ctx (rf_seq f) (unat (rf_total f)) (rf_frag_total f) h (of_nat (ktime Z (kern s2)))"
    "bufs Z (kern s2) h = Some \<lparr>nb_pool = pl_buffer_pool (dect_pool Z), nb_ref = 1, nb_data = []\<rparr>" by fastforce
  let ?m = "mark_src (rf_src f) p s2"
  have "transport_buffer_write Z (Some p) (rf_idx f) (Some (rf_payload f)) (rf_len f) ?m = None"
    by (subst write_fault_iff[OF laws, where inst = "dect_pool Z" and h = h and
          nb = "\<lparr>nb_pool = pl_buffer_pool (dect_pool Z), nb_ref = 1, nb_data = []\<rparr>"])
      (use g(3) h f tot in \<open>simp_all add: fresh_ctx_def unat_of_nat_u16\<close>)
  with g(1) p show ?thesis by (simp add: rx_step_def)
qed

text \<open>C38. The length a frame claims is trusted: a frame of the right network and destination whose link
  header claims more payload bytes than a frame can carry, and whose transport header opens a
  message at least that long, makes the receive path read past the end of the frame. One such frame
  faults the link layer's thread when the pool is free.\<close>

theorem claimed_length_trusted:
  assumes env: "dect_env Z cnt cap" "phy_laws Z"
    and link: "op_idle Z s" "dev_fetched s" "kv_txq (kview Z (kern s)) = []" "li_rx_callback (ll s) = Some f"
      "length (li_rx_frame (ll s)) = sizeof_link_frame" "\<And>k. fst (nrf_modem_dect_phy_rx Z rx_op_params k) = 0"
    and pool: "dt_rx_pool (dtl s) = dect_pool Z" "pool_inv Z (dect_pool Z) s"
      "\<And>p. p \<in> set (pool_ptrs (dect_pool Z)) \<Longrightarrow> tb_state (tb_at s p) = TRANSPORT_BUFFER_STATE_FREE"
    and hdr: "ll_magic h = DECT_LINK_LAYER_HEADER_MAGIC" "ll_dst_id h = dev_id s"
    and frame: "dh_frame_type (dd_header fr) = DECT_TRANSPORT_LAYER_FRAME_TYPE_DATA" "dd_frag_idx fr = 0"
      "length (dd_payload fr) = DECT_TRANSPORT_LAYER_DATA_FRAME_MAX_PAYLOAD_SIZE_BYTES"
    and claim: "DECT_LINK_LAYER_MAX_PAYLOAD_SIZE_BYTES < unat (ll_payload_size h)"
      "unat (ll_payload_size h) \<le> sizeof_dect_data_frame + unat (dd_total_size_bytes fr)"
  defines "data \<equiv> put_link_header h @ put_dect_data_frame fr"
  shows "length data = DECT_LINK_LAYER_MTU_SIZE_BYTES \<and>
     prv_link_layer_turn Z (\<lambda>f. prv_on_data_layer_rx Z call_cb)
       [NRF_MODEM_DECT_PHY_EVT_PDC (length data) data, NRF_MODEM_DECT_PHY_EVT_COMPLETED err] s = None"
proof
  show len: "length data = DECT_LINK_LAYER_MTU_SIZE_BYTES" using frame(3) by (simp add: data_def)
  have get: "get_link_header data = Some h" by (simp add: data_def wire)
  have acc: "link_accepts (dev_id s) data" using len get hdr by (simp add: link_accepts_def)
  have pl: "drop 15 (overwrite data (li_rx_frame (ll s))) = put_dect_data_frame fr"
    using len link(5) by (simp add: overwrite_all data_def)
  obtain s3 where s3: "prv_link_layer_turn Z (\<lambda>f. prv_on_data_layer_rx Z call_cb)
       [NRF_MODEM_DECT_PHY_EVT_PDC (length data) data, NRF_MODEM_DECT_PHY_EVT_COMPLETED err] s =
     do { s4 \<leftarrow> prv_on_data_layer_rx Z call_cb (ll_src_id h) (put_dect_data_frame fr) (unat (ll_payload_size h)) s3;
          Some ([], s4) }"
    "only_link s s3" "kview Z (kern s3) = kview Z (kern s)"
    by (rule turn_delivers[OF dect_envD(3,4)[OF env(1)] env(2) dect_envD(5)[OF env(1)] link(1,2,6,3,4) acc get,
          of "\<lambda>f. prv_on_data_layer_rx Z call_cb" err "[]", unfolded pl]) blast
  have mem: "mem s3 = mem s" "dtl s3 = dtl s"
    using arg_cong[OF s3(2)[unfolded only_link_def], of mem] arg_cong[OF s3(2)[unfolded only_link_def], of dtl] by simp_all
  have dec: "get_dect_data_frame (put_dect_data_frame fr) = Some fr" by (simp add: wire)
  have "rx_step Z (dect_pool Z) (dect_frag (ll_src_id h) fr (unat (ll_payload_size h))) s3 = None"
    by (rule short_fragment_faults[OF env(1)])
      (use pool(2,3) s3(3) mem frame claim in \<open>simp_all add: pool_inv_def tb_at_def\<close>)
  then have "prv_on_data_layer_rx Z call_cb (ll_src_id h) (put_dect_data_frame fr) (unat (ll_payload_size h)) s3 = None"
    using claim(1) mem(2) pool(1) dec
    by (simp add: on_rx_data_frame[OF dec _ frame(1)] handle_data_frame_dect_alt)
  then show "prv_link_layer_turn Z (\<lambda>f. prv_on_data_layer_rx Z call_cb)
       [NRF_MODEM_DECT_PHY_EVT_PDC (length data) data, NRF_MODEM_DECT_PHY_EVT_COMPLETED err] s = None"
    by (simp add: s3(1))
qed

theorem claimed_length_trusted_witness:
  "\<exists>data. length data = 37 \<and> prv_link_layer_turn ref_zephyr (\<lambda>f. prv_on_data_layer_rx ref_zephyr (\<lambda>f n p. Some))
     [NRF_MODEM_DECT_PHY_EVT_PDC (length data) data, NRF_MODEM_DECT_PHY_EVT_COMPLETED 0] ref_dect = None"
proof (rule exI, rule claimed_length_trusted[OF ref_dect_env ref_phy_laws, unfolded link_sizes(2)])
  show "ll_dst_id \<lparr>ll_magic = DECT_LINK_LAYER_HEADER_MAGIC, ll_version = 0, ll_src_id = 5,
      ll_dst_id = dev_id ref_dect, ll_payload_size = 100\<rparr> = dev_id ref_dect" by simp
  show "dd_frag_idx \<lparr>dd_header = \<lparr>dh_version = 0, dh_frame_type = DECT_TRANSPORT_LAYER_FRAME_TYPE_DATA\<rparr>, dd_seq_id = 1,
      dd_frag_total = 8, dd_frag_idx = 0, dd_total_size_bytes = 100, dd_payload = replicate 14 0\<rparr> = 0" by simp
  show "li_rx_callback (ll ref_dect) = Some Prv_on_data_layer_rx" by (simp add: ref_dect_def)
  show "op_idle ref_zephyr ref_dect" by (simp add: op_idle_def)
  show "pool_inv ref_zephyr (dect_pool ref_zephyr) ref_dect" using ref_dect_ready by (simp add: dect_ready_def)
qed (simp_all add: ref_phy_started tb_at_def, simp add: ref_dect_def link_inst_init_def)

end
