(* ===== verification/Pool_Refinement.thy ===== *)
theory Pool_Refinement
  imports Reassembly
begin

text \<open>
  The pool of reassembly contexts against an abstract pool of slots: a slot is vacant, collects a
  message (what has arrived of it is a list of bytes), or holds a complete one with a count of its
  references. No buffers, kernel or clock: which collecting slots time out is left open. Every
  operation of the code on a well-formed pool does what the abstract one does, and keeps the pool
  well-formed.
\<close>

section \<open>The abstract pool\<close>

datatype slot =
    Vacant
  | Collecting u16 nat u8 u8 "u8 list"
  | Complete "u8 list" nat

record slot_pool =
  slots :: "tb_ptr \<Rightarrow> slot"
  srcs :: "tb_ptr \<Rightarrow> u32"

fun is_collecting :: "slot \<Rightarrow> bool" where
  "is_collecting (Collecting seq tot ft idx d) = True"
| "is_collecting _ = False"

fun slot_matches :: "u16 \<Rightarrow> nat \<Rightarrow> u8 \<Rightarrow> slot \<Rightarrow> bool" where
  "slot_matches seq tot ft (Collecting seq' tot' ft' idx d) = (seq' = seq \<and> ft' = ft \<and> tot' = tot)"
| "slot_matches seq tot ft _ = False"

definition sl_matches :: "u16 \<Rightarrow> nat \<Rightarrow> u8 \<Rightarrow> u32 option \<Rightarrow> slot_pool \<Rightarrow> tb_ptr \<Rightarrow> bool" where
  "sl_matches seq tot ft params a p \<longleftrightarrow> slot_matches seq tot ft (slots a p) \<and>
     (\<forall>src. params = Some src \<longrightarrow> srcs a p = src)"

text \<open>Expiry of the slots \<open>X\<close>, looking a fragment's slot up, writing, and counting references.\<close>

definition sl_expire :: "tb_ptr set \<Rightarrow> slot_pool \<Rightarrow> slot_pool" where
  "sl_expire X a = a\<lparr>slots := (\<lambda>p. if p \<in> X then Vacant else slots a p)\<rparr>"

definition sl_get ::
  "tb_ptr list \<Rightarrow> u16 \<Rightarrow> nat \<Rightarrow> u8 \<Rightarrow> u8 \<Rightarrow> u32 option \<Rightarrow> slot_pool \<Rightarrow> tb_ptr option \<times> slot_pool" where
  "sl_get ps seq tot idx ft params a =
     (case find (sl_matches seq tot ft params a) ps of
        Some p \<Rightarrow> (Some p, a)
      | None \<Rightarrow>
          if idx \<noteq> 0 then (None, a)
          else (case find (\<lambda>p. slots a p = Vacant) ps of
              None \<Rightarrow> (None, a)
            | Some p \<Rightarrow> (Some p, a\<lparr>slots := (slots a)(p := Collecting seq tot ft 0 [])\<rparr>)))"

fun slot_write :: "u8 \<Rightarrow> u8 list \<Rightarrow> slot \<Rightarrow> transport_buffer_write_ret_t \<times> slot" where
  "slot_write fi bs (Collecting seq tot ft idx d) =
     (if bs = [] then (TRANSPORT_BUFFER_WRITE_RET_INVALID_ARGS, Collecting seq tot ft idx d)
      else if idx < fi then (TRANSPORT_BUFFER_WRITE_RET_OUT_OF_ORDER_FRAGMENT, Collecting seq tot ft idx d)
      else if fi < idx then (TRANSPORT_BUFFER_WRITE_RET_DUPLICATE, Collecting seq tot ft idx d)
      else if tot < length (d @ bs) then (TRANSPORT_BUFFER_WRITE_RET_OVERRUN, Collecting seq tot ft idx d)
      else if idx + 1 \<noteq> ft then (TRANSPORT_BUFFER_WRITE_RET_SUCCESS, Collecting seq tot ft (idx + 1) (d @ bs))
      else if length (d @ bs) = tot then (TRANSPORT_BUFFER_WRITE_RET_COMPLETE, Complete (d @ bs) 1)
      else (TRANSPORT_BUFFER_WRITE_RET_INVALID_FINAL_SIZE, Collecting seq tot ft (idx + 1) (d @ bs)))"
| "slot_write fi bs sl = (TRANSPORT_BUFFER_WRITE_RET_INVALID_ARGS, sl)"

fun slot_ref :: "slot \<Rightarrow> slot" where
  "slot_ref (Complete d n) = Complete d (n + 1)"
| "slot_ref sl = sl"

fun slot_unref :: "slot \<Rightarrow> slot" where
  "slot_unref (Complete d n) = (if n = 1 then Vacant else Complete d (n - 1))"
| "slot_unref sl = sl"

text \<open>What the pool's operations do, as steps that are labelled by the call and its result.\<close>

datatype pool_call =
    Get u16 nat u8 u8 "u32 option" "tb_ptr option"
  | Note_src tb_ptr u32
  | Write tb_ptr u8 "u8 list" transport_buffer_write_ret_t
  | Ref tb_ptr
  | Unref tb_ptr

inductive slot_step :: "tb_ptr list \<Rightarrow> slot_pool \<Rightarrow> pool_call \<Rightarrow> slot_pool \<Rightarrow> bool" for ps where
  sl_Get: "(\<And>p. p \<in> X \<Longrightarrow> is_collecting (slots a p)) \<Longrightarrow> sl_get ps seq tot idx ft params (sl_expire X a) = (r, a') \<Longrightarrow>
    slot_step ps a (Get seq tot idx ft params r) a'"
| sl_Src: "slot_step ps a (Note_src p src) (a\<lparr>srcs := (srcs a)(p := src)\<rparr>)"
| sl_Write: "slot_write fi bs (slots a p) = (ret, sl) \<Longrightarrow>
    slot_step ps a (Write p fi bs ret) (a\<lparr>slots := (slots a)(p := sl)\<rparr>)"
| sl_Ref: "slot_step ps a (Ref p) (a\<lparr>slots := (slots a)(p := slot_ref (slots a p))\<rparr>)"
| sl_Unref: "slot_step ps a (Unref p) (a\<lparr>slots := (slots a)(p := slot_unref (slots a p))\<rparr>)"

section \<open>The calls of the code\<close>

text \<open>
  The calls on a pool: fragments of messages the buffers can hold are written to contexts that are
  being received (a lookup returns no others), from objects that hold the bytes, and the references
  of complete messages are taken and dropped.
\<close>

inductive pool_step ::
  "'k zephyr \<Rightarrow> (pool_id \<Rightarrow> nat) \<Rightarrow> transport_buffer_pool_t \<Rightarrow> ('k, 'a) machine_scheme \<Rightarrow> pool_call \<Rightarrow>
   ('k, 'a) machine_scheme \<Rightarrow> bool" for Z cap inst where
  st_Get: "src_query inst params \<Longrightarrow> tot < 2 ^ 16 \<Longrightarrow> tot \<le> cap (pl_buffer_pool inst) \<Longrightarrow>
    transport_buffer_pool_get Z (Some inst) seq tot idx ft params s = Some (r, s') \<Longrightarrow>
    pool_step Z cap inst s (Get seq tot idx ft params r) s'"
| st_Src: "p \<in> set (pool_ptrs inst) \<Longrightarrow> pool_step Z cap inst s (Note_src p src) (set_src_id p src s)"
| st_Write: "p \<in> set (pool_ptrs inst) \<Longrightarrow> tb_state (tb_at s p) = TRANSPORT_BUFFER_STATE_RECEIVING \<Longrightarrow>
    len \<le> length d \<Longrightarrow> len < 2 ^ 16 \<Longrightarrow> transport_buffer_write Z (Some p) fi (Some d) len s = Some (ret, s') \<Longrightarrow>
    pool_step Z cap inst s (Write p fi (take len d) ret) s'"
| st_Ref: "p \<in> set (pool_ptrs inst) \<Longrightarrow> tb_state (tb_at s p) = TRANSPORT_BUFFER_STATE_REFERENCED \<Longrightarrow>
    transport_buffer_ref Z (Some p) s = (Some p, s') \<Longrightarrow> pool_step Z cap inst s (Ref p) s'"
| st_Unref: "p \<in> set (pool_ptrs inst) \<Longrightarrow> tb_state (tb_at s p) = TRANSPORT_BUFFER_STATE_REFERENCED \<Longrightarrow>
    transport_buffer_unref Z (Some p) s = Some s' \<Longrightarrow> pool_step Z cap inst s (Unref p) s'"

section \<open>The abstraction\<close>

definition buf_of :: "'k zephyr \<Rightarrow> ('k, 'a) machine_scheme \<Rightarrow> tb_ptr \<Rightarrow> net_buf option" where
  "buf_of Z s p = do { h \<leftarrow> tb_buffer (tb_at s p); bufs Z (kern s) h }"

definition slot_of :: "transport_buffer_t \<Rightarrow> net_buf option \<Rightarrow> slot" where
  "slot_of b nb = (case tb_state b of
     TRANSPORT_BUFFER_STATE_FREE \<Rightarrow> Vacant
   | TRANSPORT_BUFFER_STATE_RECEIVING \<Rightarrow>
       Collecting (tb_seq_id b) (unat (tb_total_size_bytes b)) (tb_frag_total b) (tb_frag_idx b)
         (case nb of None \<Rightarrow> [] | Some nb \<Rightarrow> nb_data nb)
   | TRANSPORT_BUFFER_STATE_REFERENCED \<Rightarrow>
       (case nb of None \<Rightarrow> Vacant | Some nb \<Rightarrow> Complete (nb_data nb) (nb_ref nb)))"

definition abs_pool :: "'k zephyr \<Rightarrow> transport_buffer_pool_t \<Rightarrow> ('k, 'a) machine_scheme \<Rightarrow> slot_pool" where
  "abs_pool Z inst s = \<lparr>slots = (\<lambda>p. if p \<in> set (pool_ptrs inst) then slot_of (tb_at s p) (buf_of Z s p) else Vacant),
     srcs = src_ids (mem s)\<rparr>"

lemma slots_abs: "p \<in> set (pool_ptrs inst) \<Longrightarrow> slots (abs_pool Z inst s) p = slot_of (tb_at s p) (buf_of Z s p)"
  by (simp add: abs_pool_def)

text \<open>Slots change one at a time: a step on \<open>p\<close> that leaves the other contexts and their buffers alone.\<close>

lemma abs_update:
  assumes ok: "pool_inv Z inst s" and p: "p \<in> set (pool_ptrs inst)" and h: "tb_buffer (tb_at s p) = Some h"
    and other: "\<And>q. q \<noteq> p \<Longrightarrow> tb_at s' q = tb_at s q" "\<And>g. g \<noteq> h \<Longrightarrow> bufs Z (kern s') g = bufs Z (kern s) g"
    and src: "src_ids (mem s') = src_ids (mem s)"
  shows "abs_pool Z inst s' =
     (abs_pool Z inst s)\<lparr>slots := (slots (abs_pool Z inst s))(p := slot_of (tb_at s' p) (buf_of Z s' p))\<rparr>"
proof -
  have "buf_of Z s' q = buf_of Z s q" if q: "q \<in> set (pool_ptrs inst)" "q \<noteq> p" for q
  proof (cases "tb_buffer (tb_at s q)")
    case None
    then show ?thesis by (simp add: buf_of_def other(1)[OF q(2)])
  next
    case (Some g)
    then have "g \<noteq> h"
      using pool_okD(3)[OF ok[unfolded pool_inv_def] q(1) p, of h] h q(2) by (auto simp: tb_at_def)
    with Some show ?thesis by (simp add: buf_of_def other(1)[OF q(2)] other(2))
  qed
  then show ?thesis
    using p other(1) src by (auto simp: abs_pool_def fun_eq_iff)
qed

section \<open>The operations refine the slots\<close>

lemma write_refines:
  assumes laws: "clock_laws Z" "net_buf_laws Z cnt cap" and inv: "pool_inv Z inst s" and fits: "pool_fits cnt cap inst"
    and p: "p \<in> set (pool_ptrs inst)" and st: "tb_state (tb_at s p) = TRANSPORT_BUFFER_STATE_RECEIVING"
    and small: "unat (tb_total_size_bytes (tb_at s p)) \<le> cap (pl_buffer_pool inst)"
    and len: "len \<le> length d" "len < 2 ^ 16"
    and run: "transport_buffer_write Z (Some p) fi (Some d) len s = Some (ret, s')"
  shows "pool_inv Z inst s' \<and> slot_step (pool_ptrs inst) (abs_pool Z inst s) (Write p fi (take len d) ret) (abs_pool Z inst s')"
proof -
  obtain h nb where h: "tb_buffer (tb_at s p) = Some h" "bufs Z (kern s) h = Some nb"
    "nb_ref nb = 1" "length (nb_data nb) \<le> unat (tb_total_size_bytes (tb_at s p))"
    by (rule receiving_buffer[OF inv p st])
  let ?b = "tb_at s p" and ?n = "length (nb_data nb) + len"
  have n32: "?n < 2 ^ 32" using unat_u16_less[of "tb_total_size_bytes ?b"] h(4) len by simp
  have sl: "slots (abs_pool Z inst s) p =
      Collecting (tb_seq_id ?b) (unat (tb_total_size_bytes ?b)) (tb_frag_total ?b) (tb_frag_idx ?b) (nb_data nb)"
    using st h(1,2) by (simp add: slots_abs[OF p] slot_of_def buf_of_def)
  have taken: "length (take len d) = len" "take len d = [] \<longleftrightarrow> len = 0" using len(1) by auto
  have step: "slot_step (pool_ptrs inst) (abs_pool Z inst s) (Write p fi (take len d) ret) (abs_pool Z inst s')"
    if "slot_write fi (take len d) (slots (abs_pool Z inst s) p) = (ret, x)"
      "abs_pool Z inst s' = (abs_pool Z inst s)\<lparr>slots := (slots (abs_pool Z inst s))(p := x)\<rparr>" for x
    unfolding that(2) by (rule sl_Write[OF that(1)])
  have same: "slot_step (pool_ptrs inst) (abs_pool Z inst s) (Write p fi (take len d) r) (abs_pool Z inst s)"
    if "slot_write fi (take len d) (slots (abs_pool Z inst s) p) = (r, slots (abs_pool Z inst s) p)" for r
    using sl_Write[OF that] by simp
  consider (zero) "len = 0" | (ahead) "0 < len" "tb_frag_idx ?b < fi" | (dup) "0 < len" "fi < tb_frag_idx ?b"
    | (over) "0 < len" "fi = tb_frag_idx ?b" "unat (tb_total_size_bytes ?b) < ?n"
    | (acc) "0 < len" "fi = tb_frag_idx ?b" "?n \<le> unat (tb_total_size_bytes ?b)" by fastforce
  then show ?thesis
  proof cases
    case zero
    then have "s' = s" "ret = TRANSPORT_BUFFER_WRITE_RET_INVALID_ARGS" using run by (simp_all add: write_reject)
    with inv zero same[of ret] show ?thesis by (simp add: sl)
  next
    case ahead
    then have "s' = s" "ret = TRANSPORT_BUFFER_WRITE_RET_OUT_OF_ORDER_FRAGMENT" using run by (simp_all add: write_reject)
    with inv ahead taken same[of ret] show ?thesis by (auto simp: sl)
  next
    case dup
    then have "s' = s" "ret = TRANSPORT_BUFFER_WRITE_RET_DUPLICATE" using run by (simp_all add: write_reject)
    with inv dup taken same[of ret] show ?thesis by (auto simp: sl)
  next
    case over
    have "s' = s" "ret = TRANSPORT_BUFFER_WRITE_RET_OVERRUN"
      using run write_overrun[OF h(1,2) over(1), of d] over n32 by simp_all
    with inv over taken same[of ret] show ?thesis by (auto simp: sl)
  next
    case acc
    obtain t where t: "transport_buffer_write Z (Some p) (tb_frag_idx ?b) (Some d) len s = Some (written_ret ?n ?b, t)"
      "pool_inv Z inst t" "only_buffers s t" "tb_at t p = written_ctx (of_nat (ktime Z (kern t))) ?n ?b"
      "\<And>q. q \<noteq> p \<Longrightarrow> tb_at t q = tb_at s q"
      "bufs Z (kern t) = (bufs Z (kern s))(h \<mapsto> nb\<lparr>nb_data := nb_data nb @ take len d\<rparr>)"
      by (rule write_accept[OF laws inv p st h(1,2) _ acc(1) len(1) acc(3)])
        (use fits acc(3) small in \<open>simp_all add: pool_fits_def\<close>)
    have eq: "t = s'" "ret = written_ret ?n ?b" using run t(1) acc(2) by simp_all
    note t = t[unfolded eq(1)]
    have upd: "abs_pool Z inst s' =
        (abs_pool Z inst s)\<lparr>slots := (slots (abs_pool Z inst s))(p := slot_of (tb_at s' p) (buf_of Z s' p))\<rparr>"
      by (rule abs_update[OF inv p h(1) t(5)]) (use t(3,6) in \<open>simp_all add: only_buffers_def\<close>)
    have buf: "buf_of Z s' p = Some (nb\<lparr>nb_data := nb_data nb @ take len d\<rparr>)"
      using t(4,6) h(1) by (simp add: buf_of_def)
    show ?thesis
      by (rule conjI[OF t(2) step[OF _ upd]])
        (use acc taken st h(3) in \<open>auto simp: sl t(4) buf slot_of_def written_ctx_def eq(2) written_ret_def\<close>)
  qed
qed

lemma refs_refine:
  assumes laws: "net_buf_laws Z cnt cap" and inv: "pool_inv Z inst s"
    and p: "p \<in> set (pool_ptrs inst)" and st: "tb_state (tb_at s p) = TRANSPORT_BUFFER_STATE_REFERENCED"
  shows "transport_buffer_ref Z (Some p) s = (r, s') \<Longrightarrow>
      pool_inv Z inst s' \<and> slot_step (pool_ptrs inst) (abs_pool Z inst s) (Ref p) (abs_pool Z inst s')"
    and "transport_buffer_unref Z (Some p) s = Some s' \<Longrightarrow>
      pool_inv Z inst s' \<and> slot_step (pool_ptrs inst) (abs_pool Z inst s) (Unref p) (abs_pool Z inst s')"
proof -
  have "ctx_ok (pl_buffer_pool inst) (bufs Z (kern s)) (tb_at s p)"
    using pool_okD(2)[OF inv[unfolded pool_inv_def] p] by (simp add: tb_at_def)
  then obtain h nb where h: "tb_buffer (tb_at s p) = Some h" "bufs Z (kern s) h = Some nb" "0 < nb_ref nb"
    using st by (auto simp: ctx_ok_referenced)
  have sl: "slots (abs_pool Z inst s) p = Complete (nb_data nb) (nb_ref nb)"
    using st h by (simp add: slots_abs[OF p] slot_of_def buf_of_def)
  have upd: "abs_pool Z inst t = (abs_pool Z inst s)\<lparr>slots := (slots (abs_pool Z inst s))(p := slot_of (tb_at t p) (buf_of Z t p))\<rparr>"
    if "\<And>q. q \<noteq> p \<Longrightarrow> tb_at t q = tb_at s q" "\<And>g. g \<noteq> h \<Longrightarrow> bufs Z (kern t) g = bufs Z (kern s) g"
      "src_ids (mem t) = src_ids (mem s)" for t
    by (rule abs_update[OF inv p h(1) that])
  { assume run: "transport_buffer_ref Z (Some p) s = (r, s')"
    obtain t where t: "transport_buffer_ref Z (Some p) s = (Some p, t)" "pool_inv Z inst t" "t = s\<lparr>kern := kern t\<rparr>"
      "bufs Z (kern t) = (bufs Z (kern s))(h \<mapsto> nb\<lparr>nb_ref := nb_ref nb + 1\<rparr>)"
      by (rule ref_spec[OF laws inv p st h(1,2)]) blast
    have eq: "t = s'" using run t(1) by simp
    note t = t[unfolded eq]
    have m: "mem s' = mem s" using arg_cong[OF t(3), of mem] by simp
    have a: "abs_pool Z inst s' = (abs_pool Z inst s)\<lparr>slots := (slots (abs_pool Z inst s))(p := slot_ref (slots (abs_pool Z inst s) p))\<rparr>"
      by (subst upd) (use m t(4) h st in \<open>auto simp: tb_at_def sl slot_of_def buf_of_def\<close>)
    show "pool_inv Z inst s' \<and> slot_step (pool_ptrs inst) (abs_pool Z inst s) (Ref p) (abs_pool Z inst s')"
      unfolding a using t(2) sl_Ref by blast }
  assume run: "transport_buffer_unref Z (Some p) s = Some s'"
  show "pool_inv Z inst s' \<and> slot_step (pool_ptrs inst) (abs_pool Z inst s) (Unref p) (abs_pool Z inst s')"
  proof (cases "nb_ref nb = 1")
    case True
    obtain t where t: "transport_buffer_unref Z (Some p) s = Some t" "pool_inv Z inst t" "only_buffers s t"
      "tb_at t p = release_ctx (tb_at s p)" "\<And>q. q \<noteq> p \<Longrightarrow> tb_at t q = tb_at s q"
      "bufs Z (kern t) = (bufs Z (kern s))(h := None)"
      by (rule unref_last[OF laws inv p h(1,2) True]) blast
    have eq: "t = s'" using run t(1) by simp
    note t = t[unfolded eq]
    have a: "abs_pool Z inst s' = (abs_pool Z inst s)\<lparr>slots := (slots (abs_pool Z inst s))(p := slot_unref (slots (abs_pool Z inst s) p))\<rparr>"
      by (subst upd) (use t(3-6) True in \<open>auto simp: sl slot_of_def release_ctx_def only_buffers_def\<close>)
    show ?thesis unfolding a using t(2) sl_Unref by blast
  next
    case False
    then have ref: "1 < nb_ref nb" using h(3) by simp
    obtain t where t: "transport_buffer_unref Z (Some p) s = Some t" "pool_inv Z inst t" "t = s\<lparr>kern := kern t\<rparr>"
      "bufs Z (kern t) = (bufs Z (kern s))(h \<mapsto> nb\<lparr>nb_ref := nb_ref nb - 1\<rparr>)"
      by (rule unref_shared[OF laws inv p h(1,2) ref]) blast
    have eq: "t = s'" using run t(1) by simp
    note t = t[unfolded eq]
    have m: "mem s' = mem s" using arg_cong[OF t(3), of mem] by simp
    have a: "abs_pool Z inst s' = (abs_pool Z inst s)\<lparr>slots := (slots (abs_pool Z inst s))(p := slot_unref (slots (abs_pool Z inst s) p))\<rparr>"
      by (subst upd) (use m t(4) h st False in \<open>auto simp: tb_at_def sl slot_of_def buf_of_def\<close>)
    show ?thesis unfolding a using t(2) sl_Unref by blast
  qed
qed

text \<open>Expiry and lookup.\<close>

lemma expire_refines:
  assumes inv: "pool_inv Z inst s" "pool_inv Z inst s1" and fr: "expire_frame Z inst s s1"
    and exp: "\<And>p. p \<in> set (pool_ptrs inst) \<Longrightarrow> expire_effect Z inst s s1 p"
  defines "X \<equiv> {p \<in> set (pool_ptrs inst). tb_state (tb_at s p) = TRANSPORT_BUFFER_STATE_RECEIVING \<and>
     tb_state (tb_at s1 p) = TRANSPORT_BUFFER_STATE_FREE}"
  shows "abs_pool Z inst s1 = sl_expire X (abs_pool Z inst s)"
    and "p \<in> X \<Longrightarrow> is_collecting (slots (abs_pool Z inst s) p)"
proof -
  show "is_collecting (slots (abs_pool Z inst s) p)" if "p \<in> X" using that by (auto simp: X_def slots_abs slot_of_def)
  have "slot_of (tb_at s1 p) (buf_of Z s1 p) = (if p \<in> X then Vacant else slot_of (tb_at s p) (buf_of Z s p))"
    if p: "p \<in> set (pool_ptrs inst)" for p
  proof (cases "tb_state (tb_at s1 p) = TRANSPORT_BUFFER_STATE_FREE")
    case True
    obtain t where "tb_at s1 p = (if expired inst (of_nat t) (tb_at s p) then release_ctx (tb_at s p) else tb_at s p)"
      using exp[OF p] by (auto simp: expire_effect_def)
    with True p show ?thesis by (auto simp: X_def slot_of_def expired_def split: if_splits)
  next
    case False
    have at: "tb_at s1 p = tb_at s p" by (rule expiry_only_frees[OF exp[OF p] False])
    have "buf_of Z s1 p = buf_of Z s p"
      using expiry_keeps_buffer[OF inv(2) fr p False] by (auto simp: buf_of_def at split: Option.bind_splits)
    with at False show ?thesis by (simp add: X_def)
  qed
  moreover have "src_ids (mem s1) = src_ids (mem s)" using fr by (simp add: expire_frame_def only_buffers_def)
  ultimately show "abs_pool Z inst s1 = sl_expire X (abs_pool Z inst s)"
    by (auto simp: abs_pool_def sl_expire_def fun_eq_iff X_def)
qed

lemma matches_abs:
  assumes "src_query inst params" and "p \<in> set (pool_ptrs inst)"
  shows "sl_matches seq tot ft params (abs_pool Z inst s) p \<longleftrightarrow> matches inst seq tot ft params s p"
  unfolding matches_iff[OF assms(1)] sl_matches_def slots_abs[OF assms(2)]
  by (auto simp: slot_of_def abs_pool_def split: transport_buffer_state_t.splits option.splits)

lemma free_abs:
  assumes inv: "pool_inv Z inst s" and p: "p \<in> set (pool_ptrs inst)"
  shows "slots (abs_pool Z inst s) p = Vacant \<longleftrightarrow> tb_state (tb_at s p) = TRANSPORT_BUFFER_STATE_FREE"
proof -
  have "ctx_ok (pl_buffer_pool inst) (bufs Z (kern s)) (tb_at s p)"
    using pool_okD(2)[OF inv[unfolded pool_inv_def] p] by (simp add: tb_at_def)
  then show ?thesis
    by (cases "tb_state (tb_at s p)") (auto simp: slots_abs[OF p] slot_of_def buf_of_def ctx_ok_referenced)
qed

lemma find_cong_set: "(\<And>x. x \<in> set xs \<Longrightarrow> P x = Q x) \<Longrightarrow> find P xs = find Q xs"
  by (induction xs) auto

lemma get_refines:
  assumes laws: "clock_laws Z" "net_buf_laws Z cnt cap" and inv: "pool_inv Z inst s" and fits: "pool_fits cnt cap inst"
    and query: "src_query inst params" and tot: "tot < 2 ^ 16"
    and run: "transport_buffer_pool_get Z (Some inst) seq tot idx ft params s = Some (r, s')"
  shows "pool_inv Z inst s' \<and> slot_step (pool_ptrs inst) (abs_pool Z inst s) (Get seq tot idx ft params r) (abs_pool Z inst s')"
proof -
  let ?M = "matches inst seq tot ft params"
  obtain s1 r2 s2 where g: "transport_buffer_pool_get Z (Some inst) seq tot idx ft params s = Some (r2, s2)"
    "pool_inv Z inst s1" "expire_frame Z inst s s1" "\<And>p. p \<in> set (pool_ptrs inst) \<Longrightarrow> expire_effect Z inst s s1 p"
    "pool_inv Z inst s2" "only_buffers s s2"
    and which: "find (?M s1) (pool_ptrs inst) = r2 \<and> r2 \<noteq> None \<and> s2 = s1 \<or> find (?M s1) (pool_ptrs inst) = None \<and>
       (idx \<noteq> 0 \<and> r2 = None \<or>
        idx = 0 \<and> r2 = find (\<lambda>p. tb_state (tb_at s1 p) = TRANSPORT_BUFFER_STATE_FREE) (pool_ptrs inst))"
    and got: "\<forall>p. r2 = Some p \<longrightarrow> p \<in> set (pool_ptrs inst) \<and> (\<forall>q. q \<noteq> p \<longrightarrow> tb_at s2 q = tb_at s1 q) \<and>
       (s2 = s1 \<and> ?M s1 p \<or> tb_state (tb_at s1 p) = TRANSPORT_BUFFER_STATE_FREE \<and>
        (\<exists>h. bufs Z (kern s1) h = None \<and> tb_at s2 p = fresh_ctx seq tot ft h (of_nat (ktime Z (kern s2))) \<and>
           bufs Z (kern s2) = (bufs Z (kern s1))(h \<mapsto> \<lparr>nb_pool = pl_buffer_pool inst, nb_ref = 1, nb_data = []\<rparr>)))"
    and none: "r2 = None \<Longrightarrow> s2 = s1"
    by (rule pool_get_cases[OF laws inv fits query tot, of seq idx ft], rule that)
  have eq: "r2 = r" "s2 = s'" using run g(1) by simp_all
  note g' = g(5)[unfolded eq] and which' = which[unfolded eq] and got' = got[unfolded eq] and none' = none[unfolded eq]
  let ?X = "{p \<in> set (pool_ptrs inst). tb_state (tb_at s p) = TRANSPORT_BUFFER_STATE_RECEIVING \<and>
     tb_state (tb_at s1 p) = TRANSPORT_BUFFER_STATE_FREE}"
  let ?a1 = "abs_pool Z inst s1"
  have a1: "?a1 = sl_expire ?X (abs_pool Z inst s)" by (rule expire_refines(1)[OF inv g(2-4)])
  have coll: "is_collecting (slots (abs_pool Z inst s) p)" if "p \<in> ?X" for p
    using that by (auto simp: slots_abs slot_of_def)
  have m: "find (sl_matches seq tot ft params ?a1) (pool_ptrs inst) = find (?M s1) (pool_ptrs inst)"
    by (rule find_cong_set) (rule matches_abs[OF query])
  have f: "find (\<lambda>p. slots ?a1 p = Vacant) (pool_ptrs inst) =
      find (\<lambda>p. tb_state (tb_at s1 p) = TRANSPORT_BUFFER_STATE_FREE) (pool_ptrs inst)"
    by (rule find_cong_set) (rule free_abs[OF g(2)])
  have "sl_get (pool_ptrs inst) seq tot idx ft params ?a1 = (r, abs_pool Z inst s')"
  proof (cases "find (?M s1) (pool_ptrs inst)")
    case (Some p)
    with which' m show ?thesis by (auto simp: sl_get_def)
  next
    case None
    show ?thesis
    proof (cases r)
      case None
      with which' \<open>find (?M s1) (pool_ptrs inst) = None\<close> m f none' show ?thesis by (auto simp: sl_get_def)
    next
      case (Some p)
      have idx: "idx = 0" "find (\<lambda>p. tb_state (tb_at s1 p) = TRANSPORT_BUFFER_STATE_FREE) (pool_ptrs inst) = Some p"
        using which' None Some by auto
      have free: "tb_state (tb_at s1 p) = TRANSPORT_BUFFER_STATE_FREE" using find_SomeD[OF idx(2)] by blast
      then have "\<not> ?M s1 p" by (simp add: matches_iff[OF query])
      with got' Some obtain h where h: "p \<in> set (pool_ptrs inst)" "\<And>q. q \<noteq> p \<Longrightarrow> tb_at s' q = tb_at s1 q"
        "bufs Z (kern s1) h = None" "tb_at s' p = fresh_ctx seq tot ft h (of_nat (ktime Z (kern s')))"
        "bufs Z (kern s') = (bufs Z (kern s1))(h \<mapsto> \<lparr>nb_pool = pl_buffer_pool inst, nb_ref = 1, nb_data = []\<rparr>)" by blast
      have "slot_of (tb_at s' q) (buf_of Z s' q) = slot_of (tb_at s1 q) (buf_of Z s1 q)"
        if q: "q \<in> set (pool_ptrs inst)" "q \<noteq> p" for q
      proof (cases "tb_buffer (tb_at s1 q)")
        case None
        then show ?thesis by (simp add: h(2)[OF q(2)] buf_of_def)
      next
        case (Some g)
        have "ctx_ok (pl_buffer_pool inst) (bufs Z (kern s1)) (tb_at s1 q)"
          using pool_okD(2)[OF g(2)[unfolded pool_inv_def] q(1)] by (simp add: tb_at_def)
        then have "bufs Z (kern s1) g \<noteq> None"
          using Some by (cases "tb_state (tb_at s1 q)") (auto simp: ctx_ok_free ctx_ok_receiving ctx_ok_referenced)
        then have "g \<noteq> h" using h(3) by auto
        with Some show ?thesis by (simp add: h(2)[OF q(2)] buf_of_def h(5))
      qed
      moreover have "slot_of (tb_at s' p) (buf_of Z s' p) = Collecting seq tot ft 0 []"
        using tot by (simp add: h(4) h(5) slot_of_def buf_of_def fresh_ctx_def unat_of_nat_u16)
      moreover have "src_ids (mem s') = src_ids (mem s1)"
        using g(3,6) eq(2) by (simp add: expire_frame_def only_buffers_def)
      ultimately have "abs_pool Z inst s' = ?a1\<lparr>slots := (slots ?a1)(p := Collecting seq tot ft 0 [])\<rparr>"
        using h(1) by (auto simp: abs_pool_def fun_eq_iff)
      with Some idx None m f show ?thesis by (simp add: sl_get_def)
    qed
  qed
  from sl_Get[of ?X, OF coll this[unfolded a1]]
  have "slot_step (pool_ptrs inst) (abs_pool Z inst s) (Get seq tot idx ft params r) (abs_pool Z inst s')" by blast
  with g' show ?thesis by blast
qed

end
