(* ===== verification/Pool_Properties.thy ===== *)
theory Pool_Properties
  imports Pool_Refinement
begin

text \<open>
  What the pool of reassembly contexts promises: every run of calls is a run of the abstract
  slots and no call faults; when a write faults that is outside this contract; expiry across
  the wrap of the clock; and what two threads that drop references at the same time can do.
\<close>

section \<open>Runs of calls\<close>

inductive calls_run :: "('s \<Rightarrow> 'c \<Rightarrow> 's \<Rightarrow> bool) \<Rightarrow> 's \<Rightarrow> 'c list \<Rightarrow> 's \<Rightarrow> bool" for R where
  cr_none: "calls_run R s [] s"
| cr_call: "R s c t \<Longrightarrow> calls_run R t cs u \<Longrightarrow> calls_run R s (c # cs) u"

text \<open>The messages that are collected fit the buffers: lookups ask for no larger ones.\<close>

definition collects_at_most :: "nat \<Rightarrow> slot \<Rightarrow> bool" where
  "collects_at_most n sl \<longleftrightarrow> (\<forall>seq tot ft idx d. sl = Collecting seq tot ft idx d \<longrightarrow> tot \<le> n)"

definition asks_at_most :: "nat \<Rightarrow> pool_call \<Rightarrow> bool" where
  "asks_at_most n c \<longleftrightarrow> (\<forall>seq tot idx ft params r. c = Get seq tot idx ft params r \<longrightarrow> tot \<le> n)"

lemma slot_write_collects:
  "collects_at_most n sl \<Longrightarrow> collects_at_most n (snd (slot_write fi bs sl))"
  by (cases sl) (auto simp: collects_at_most_def)

lemma slot_count_collects [simp]:
  "collects_at_most n sl \<Longrightarrow> collects_at_most n (slot_ref sl)"
  "collects_at_most n sl \<Longrightarrow> collects_at_most n (slot_unref sl)"
  by (cases sl; auto simp: collects_at_most_def)+

lemma sl_get_collects:
  assumes "sl_get ps seq tot idx ft params a = (r, a')" and "tot \<le> n" and "\<And>p. collects_at_most n (slots a p)"
  shows "collects_at_most n (slots a' p)"
proof -
  have "slots a' p = slots a p \<or> slots a' p = Collecting seq tot ft 0 []"
    using assms(1) by (auto simp: sl_get_def split: option.splits if_splits)
  then show ?thesis
  proof
    assume "slots a' p = slots a p"
    with assms(3)[of p] show ?thesis by simp
  next
    assume "slots a' p = Collecting seq tot ft 0 []"
    with assms(2) show ?thesis by (simp add: collects_at_most_def)
  qed
qed

lemma slot_step_collects:
  assumes "slot_step ps a c a'" and "asks_at_most n c" and a: "\<And>p. collects_at_most n (slots a p)"
  shows "collects_at_most n (slots a' p)"
  using assms(1)
proof cases
  case (sl_Get X seq tot idx ft params r)
  show ?thesis
    by (rule sl_get_collects[OF sl_Get(3)])
      (use assms(2) a sl_Get(1) in \<open>auto simp: asks_at_most_def sl_expire_def collects_at_most_def\<close>)
next
  case (sl_Write fi bs q ret sl)
  with slot_write_collects[of n "slots a q" fi bs] a show ?thesis by simp
qed (use a in auto)

definition pool_bounded :: "'k zephyr \<Rightarrow> (pool_id \<Rightarrow> nat) \<Rightarrow> transport_buffer_pool_t \<Rightarrow> ('k, 'a) machine_scheme \<Rightarrow> bool" where
  "pool_bounded Z cap inst s \<longleftrightarrow> pool_inv Z inst s \<and>
     (\<forall>p. collects_at_most (cap (pl_buffer_pool inst)) (slots (abs_pool Z inst s) p))"

lemma bounded_receiving:
  assumes "pool_bounded Z cap inst s" and p: "p \<in> set (pool_ptrs inst)"
    and "tb_state (tb_at s p) = TRANSPORT_BUFFER_STATE_RECEIVING"
  shows "unat (tb_total_size_bytes (tb_at s p)) \<le> cap (pl_buffer_pool inst)"
proof -
  have "collects_at_most (cap (pl_buffer_pool inst)) (slot_of (tb_at s p) (buf_of Z s p))"
    using assms(1) slots_abs[OF p, of Z s] by (metis pool_bounded_def)
  then show ?thesis using assms(3) by (simp add: slot_of_def collects_at_most_def)
qed

lemma free_bounded:
  assumes "pool_inv Z inst s" and "\<And>p. p \<in> set (pool_ptrs inst) \<Longrightarrow> tb_state (tb_at s p) = TRANSPORT_BUFFER_STATE_FREE"
  shows "pool_bounded Z cap inst s"
  using assms by (auto simp: pool_bounded_def collects_at_most_def abs_pool_def slot_of_def)

text \<open>One call of the code is one step of the slots.\<close>

lemma pool_step_refines:
  assumes laws: "clock_laws Z" "net_buf_laws Z cnt cap" and fits: "pool_fits cnt cap inst"
    and b: "pool_bounded Z cap inst s" and step: "pool_step Z cap inst s c s'"
  shows "slot_step (pool_ptrs inst) (abs_pool Z inst s) c (abs_pool Z inst s') \<and> pool_bounded Z cap inst s'"
proof -
  have inv: "pool_inv Z inst s" using b by (simp add: pool_bounded_def)
  have "pool_inv Z inst s' \<and> slot_step (pool_ptrs inst) (abs_pool Z inst s) c (abs_pool Z inst s') \<and>
      asks_at_most (cap (pl_buffer_pool inst)) c"
    using step
  proof cases
    case (st_Get params tot seq idx ft r)
    with get_refines[OF laws inv fits st_Get(2,3,5)] show ?thesis by (simp add: asks_at_most_def)
  next
    case (st_Src p src)
    have "abs_pool Z inst s' = (abs_pool Z inst s)\<lparr>srcs := (srcs (abs_pool Z inst s))(p := src)\<rparr>"
      by (simp add: st_Src(2) abs_pool_def set_src_id_def tb_at_def buf_of_def fun_eq_iff)
    moreover have "pool_inv Z inst s'" using inv by (simp add: st_Src(2) pool_inv_def set_src_id_def)
    ultimately show ?thesis using sl_Src by (simp add: st_Src(1) asks_at_most_def)
  next
    case (st_Write p len d fi ret)
    with write_refines[OF laws inv fits st_Write(2,3) bounded_receiving[OF b st_Write(2,3)] st_Write(4-6)]
    show ?thesis by (simp add: asks_at_most_def)
  next
    case (st_Ref p)
    with refs_refine(1)[OF laws(2) inv st_Ref(2-4)] show ?thesis by (simp add: asks_at_most_def)
  next
    case (st_Unref p)
    with refs_refine(2)[OF laws(2) inv st_Unref(2-4)] show ?thesis by (simp add: asks_at_most_def)
  qed
  moreover from this b have "collects_at_most (cap (pl_buffer_pool inst)) (slots (abs_pool Z inst s') p)" for p
    by (intro slot_step_collects[of "pool_ptrs inst" "abs_pool Z inst s" c "abs_pool Z inst s'"])
      (simp_all add: pool_bounded_def)
  ultimately show ?thesis by (simp add: pool_bounded_def)
qed

lemma pool_run_refines:
  assumes laws: "clock_laws Z" "net_buf_laws Z cnt cap" and fits: "pool_fits cnt cap inst"
    and run: "calls_run (pool_step Z cap inst) s calls s'" and b: "pool_bounded Z cap inst s"
  shows "calls_run (slot_step (pool_ptrs inst)) (abs_pool Z inst s) calls (abs_pool Z inst s') \<and>
     pool_bounded Z cap inst s'"
  using run b
proof induction
  case (cr_none s)
  then show ?case by (simp add: calls_run.cr_none)
next
  case (cr_call s c t cs u)
  with pool_step_refines[OF laws fits cr_call.prems cr_call.hyps(1)] show ?case
    by (blast intro: calls_run.cr_call)
qed

section \<open>Properties\<close>

text \<open>A small pool on the reference kernel.\<close>

definition ref_pool :: transport_buffer_pool_t where
  "ref_pool = \<lparr>pl_buffer_pool = BleRxPool, pl_num_buffers = 4, pl_buffer_size_bytes = 512,
     pl_context_size_bytes = 20, pl_rx_timeout_ms = 10000, pl_contexts = BleRxPool, pl_api = None\<rparr>"

definition ref_mem :: "kworld machine" where
  "ref_mem = \<lparr>kern = rk_init, mem = boot_mem\<rparr>"

lemma ref_pool_sel [simp]: "pl_buffer_pool ref_pool = BleRxPool" "pl_num_buffers ref_pool = 4"
  "pl_context_size_bytes ref_pool = 20" "pl_rx_timeout_ms ref_pool = 10000" "pl_contexts ref_pool = BleRxPool"
  "pl_buffer_size_bytes ref_pool = 512" "query_callback ref_pool = None"
  by (simp_all add: ref_pool_def query_callback_def)

lemma ref_pool_fits: "pool_fits ref_cnt ref_cap ref_pool"
  by (simp add: pool_fits_def ref_cnt_def ref_cap_def)

lemma ref_mem_inv: "pool_inv ref_zephyr ref_pool ref_mem"
  "tb_state (tb_at ref_mem p) = TRANSPORT_BUFFER_STATE_FREE"
  by (simp_all add: pool_inv_def pool_ok_def ref_mem_def boot_mem_def tb_at_def ctx_ok_free rk_init_def)

text \<open>C6. The pool refines its slots: from a pool of free contexts, whatever sequence of lookups
  (of messages that fit the buffers), notes of a sender, writes to contexts that are being
  received and references taken and dropped the code runs, the same calls with the same results
  are a run of the abstract slots, and the pool's invariant holds at its end.\<close>

theorem pool_refines:
  assumes "clock_laws Z" "net_buf_laws Z cnt cap" "pool_fits cnt cap inst" "pool_inv Z inst s"
    and "\<And>p. p \<in> set (pool_ptrs inst) \<Longrightarrow> tb_state (tb_at s p) = TRANSPORT_BUFFER_STATE_FREE"
    and "calls_run (pool_step Z cap inst) s calls s'"
  shows "calls_run (slot_step (pool_ptrs inst)) (abs_pool Z inst s) calls (abs_pool Z inst s') \<and> pool_inv Z inst s'"
  using pool_run_refines[OF assms(1-3,6) free_bounded[OF assms(4,5)]] by (simp add: pool_bounded_def)

theorem pool_refines_witness:
  "\<exists>r (s :: kworld machine). r \<noteq> None \<and> calls_run (slot_step (pool_ptrs ref_pool)) (abs_pool ref_zephyr ref_pool ref_mem)
       [Get 3 4 0 1 None r] (abs_pool ref_zephyr ref_pool s) \<and> pool_inv ref_zephyr ref_pool s"
proof -
  have query: "src_query ref_pool None" by (simp add: src_query_def)
  have "transport_buffer_pool_get ref_zephyr (Some ref_pool) 3 4 0 1 None ref_mem =
     Some (Some (Tb_ptr BleRxPool 0), snd (the (alloc_context ref_zephyr ref_pool 3 4 1 [0..<4] ref_mem)))"
    by (simp add: transport_buffer_pool_get_def expire_context_def prv_buffer_for_index_def ref_mem_inv(2)
        upt_rec alloc_context.simps rk_alloc_def rk_live_def ref_mem_def rk_init_def tb_at_def boot_mem_def Let_def)
  then have step: "pool_step ref_zephyr ref_cap ref_pool ref_mem (Get 3 4 0 1 None (Some (Tb_ptr BleRxPool 0)))
      (snd (the (alloc_context ref_zephyr ref_pool 3 4 1 [0..<4] ref_mem)))"
    using query by (intro st_Get) (simp_all add: ref_cap_def)
  have "calls_run (pool_step ref_zephyr ref_cap ref_pool) ref_mem [Get 3 4 0 1 None (Some (Tb_ptr BleRxPool 0))]
      (snd (the (alloc_context ref_zephyr ref_pool 3 4 1 [0..<4] ref_mem)))"
    by (rule cr_call, rule step, rule cr_none)
  from pool_refines[OF ref_clock_laws ref_net_buf_laws ref_pool_fits ref_mem_inv this] show ?thesis
    by - (rule exI, rule exI, rule conjI[rotated], assumption, simp)
qed

text \<open>C33. No call of the pool faults: in every state such a run reaches, a lookup for any message
  returns; a write of at most \<open>2 ^ 16 - 1\<close> bytes from an object that holds them, to a
  receiving context, returns; and so does dropping a reference of any context.\<close>

theorem pool_calls_return:
  assumes "clock_laws Z" "net_buf_laws Z cnt cap" "pool_fits cnt cap inst" "pool_inv Z inst s"
    and "\<And>p. p \<in> set (pool_ptrs inst) \<Longrightarrow> tb_state (tb_at s p) = TRANSPORT_BUFFER_STATE_FREE"
    and "calls_run (pool_step Z cap inst) s calls s'"
  shows "(\<forall>seq tot idx ft params. src_query inst params \<longrightarrow> tot < 2 ^ 16 \<longrightarrow>
       transport_buffer_pool_get Z (Some inst) seq tot idx ft params s' \<noteq> None) \<and>
     (\<forall>p \<in> set (pool_ptrs inst). \<forall>fi d len. tb_state (tb_at s' p) = TRANSPORT_BUFFER_STATE_RECEIVING \<longrightarrow>
       len \<le> length d \<longrightarrow> len < 2 ^ 16 \<longrightarrow> transport_buffer_write Z (Some p) fi (Some d) len s' \<noteq> None) \<and>
     (\<forall>p \<in> set (pool_ptrs inst). transport_buffer_unref Z (Some p) s' \<noteq> None)"
proof (intro conjI allI ballI impI)
  have b: "pool_bounded Z cap inst s'"
    using pool_run_refines[OF assms(1-3,6) free_bounded[OF assms(4,5)]] by blast
  then have inv: "pool_inv Z inst s'" by (simp add: pool_bounded_def)
  show "transport_buffer_pool_get Z (Some inst) seq tot idx ft params s' \<noteq> None"
    if "src_query inst params" "tot < 2 ^ 16" for seq tot idx ft params
    by (rule pool_get_cases[OF assms(1,2) inv assms(3) that, of seq idx ft]) simp
  show "transport_buffer_write Z (Some p) fi (Some d) len s' \<noteq> None"
    if p: "p \<in> set (pool_ptrs inst)" "tb_state (tb_at s' p) = TRANSPORT_BUFFER_STATE_RECEIVING"
      and len: "len \<le> length d" "len < 2 ^ 16" for p fi d len
    by (rule write_safe[OF assms(1,2) inv p assms(3) bounded_receiving[OF b p] len, of fi]) simp
  show "transport_buffer_unref Z (Some p) s' \<noteq> None" if p: "p \<in> set (pool_ptrs inst)" for p
  proof (cases "tb_buffer (tb_at s' p)")
    case None
    then show ?thesis by (simp add: transport_buffer_unref_def)
  next
    case (Some h)
    have ok: "ctx_ok (pl_buffer_pool inst) (bufs Z (kern s')) (tb_at s' p)"
      using pool_okD(2)[OF inv[unfolded pool_inv_def] p] by (simp add: tb_at_def)
    then have "tb_state (tb_at s' p) \<noteq> TRANSPORT_BUFFER_STATE_FREE" using Some ctx_ok_free by fastforce
    with ok Some obtain nb where "bufs Z (kern s') h = Some nb" by (auto elim: ctx_ok_buffer)
    with Some show ?thesis
      by (simp add: transport_buffer_unref_def unref_read_last_def unref_drop_def nb_at_def Let_def)
  qed
qed

theorem pool_calls_return_witness:
  "transport_buffer_pool_get ref_zephyr (Some ref_pool) 3 4 0 1 None ref_mem \<noteq> None"
  using pool_calls_return[OF ref_clock_laws ref_net_buf_laws ref_pool_fits ref_mem_inv, OF cr_none]
  by (simp add: src_query_def)

text \<open>C34. When a write faults: a write to a context that is being received faults exactly if the
  fragment is the next one and fits the size the sender declared, but is longer than the object it
  is read from or than the room that is left in the network buffer: the declared size is the only
  limit that is checked, so a message declared larger than its buffer overruns it.\<close>

theorem write_overruns_buffer:
  assumes "clock_laws Z" "net_buf_laws Z cnt cap" "pool_inv Z inst s" "p \<in> set (pool_ptrs inst)"
    and "tb_state (tb_at s p) = TRANSPORT_BUFFER_STATE_RECEIVING"
    and "tb_buffer (tb_at s p) = Some h" "bufs Z (kern s) h = Some nb" "length (nb_data nb) + len < 2 ^ 32"
  shows "transport_buffer_write Z (Some p) fi (Some d) len s = None \<longleftrightarrow>
     0 < len \<and> fi = tb_frag_idx (tb_at s p) \<and>
     length (nb_data nb) + len \<le> unat (tb_total_size_bytes (tb_at s p)) \<and>
     (length d < len \<or> cap (pl_buffer_pool inst) < length (nb_data nb) + len)"
  by (rule write_fault_iff[OF assms])

text \<open>A pool whose first context waits for the second fragment of a message of 600 bytes.\<close>

definition ref_large :: "kworld machine" where
  "ref_large = \<lparr>kern = rk_init\<lparr>rk_bufs := [(1, \<lparr>nb_pool = BleRxPool, nb_ref = 1, nb_data = replicate 500 0\<rparr>)]\<rparr>,
     mem = boot_mem\<lparr>tbs := (tbs boot_mem)(Tb_ptr BleRxPool 0 :=
       \<lparr>tb_buffer = Some 1, tb_state = TRANSPORT_BUFFER_STATE_RECEIVING, tb_seq_id = 3, tb_total_size_bytes = 600,
        tb_frag_total = 2, tb_frag_idx = 1, tb_last_rx_time_ms = 0\<rparr>)\<rparr>\<rparr>"

lemma ref_pool_ptrs: "pool_ptrs ref_pool = [Tb_ptr BleRxPool 0, Tb_ptr BleRxPool 20, Tb_ptr BleRxPool 40, Tb_ptr BleRxPool 60]"
  by (simp add: pool_ptrs_def upt_rec)

lemma ref_large_inv: "pool_inv ref_zephyr ref_pool ref_large"
  by (auto simp: pool_inv_def pool_ok_def ref_pool_ptrs ref_large_def boot_mem_def ctx_ok_def rk_init_def
      split: if_splits)

theorem write_overruns_buffer_witness:
  "transport_buffer_write ref_zephyr (Some (Tb_ptr BleRxPool 0)) 1 (Some (replicate 14 0)) 14 ref_large = None"
  by (subst write_overruns_buffer[OF ref_clock_laws ref_net_buf_laws ref_large_inv, where h = 1 and
        nb = "\<lparr>nb_pool = BleRxPool, nb_ref = 1, nb_data = replicate 500 0\<rparr>"])
    (simp_all add: ref_pool_ptrs ref_large_def tb_at_def rk_init_def ref_cap_def)

text \<open>C35. Expiry: the loop at the start of a lookup never faults; a context that has been idle for
  less than the timeout is left alone, and one that has been idle for at least the timeout (and
  less than the \<open>2 ^ 32\<close> ms the clock can tell) is free afterwards and its network buffer is given
  back. The times are those of an unbounded clock, the code's differences are 32 bits wide: the
  wrap of the clock does not matter.\<close>

theorem expiry_across_wrap:
  assumes laws: "clock_laws Z" "net_buf_laws Z cnt cap" and inv: "pool_inv Z inst s"
    and p: "p \<in> set (pool_ptrs inst)" and st: "tb_state (tb_at s p) = TRANSPORT_BUFFER_STATE_RECEIVING"
    and t: "tb_last_rx_time_ms (tb_at s p) = of_nat t" "t \<le> ktime Z (kern s)" and h: "tb_buffer (tb_at s p) = Some h"
  shows "\<exists>s'. for_each [0..<pl_num_buffers inst] (expire_context Z inst) s = Some s' \<and> pool_inv Z inst s' \<and>
     (ktime Z (kern s') - t < unat (pl_rx_timeout_ms inst) \<longrightarrow>
        tb_at s' p = tb_at s p \<and> bufs Z (kern s') h = bufs Z (kern s) h) \<and>
     (unat (pl_rx_timeout_ms inst) \<le> ktime Z (kern s) - t \<longrightarrow> ktime Z (kern s') - t < 2 ^ 32 \<longrightarrow>
        tb_state (tb_at s' p) = TRANSPORT_BUFFER_STATE_FREE \<and> bufs Z (kern s') h = None)"
proof -
  obtain s' where s': "for_each [0..<pl_num_buffers inst] (expire_context Z inst) s = Some s'" "pool_inv Z inst s'"
    "expire_frame Z inst s s'" "\<And>q. q \<in> set (pool_ptrs inst) \<Longrightarrow> expire_effect Z inst s s' q"
    by (rule expire_all[OF laws inv]) blast
  have le: "ktime Z (kern s) \<le> ktime Z (kern s')" using s'(3) by (simp add: expire_frame_def)
  have "tb_at s' p = tb_at s p \<and> bufs Z (kern s') h = bufs Z (kern s) h"
    if "ktime Z (kern s') - t < unat (pl_rx_timeout_ms inst)"
  proof -
    have "tb_at s' p = tb_at s p" by (rule not_expired[OF s'(4)[OF p] t]) (use that t(2) le in linarith)
    with expiry_keeps_buffer[OF s'(2,3) p, of h] h st show ?thesis by simp
  qed
  moreover have "tb_state (tb_at s' p) = TRANSPORT_BUFFER_STATE_FREE \<and> bufs Z (kern s') h = None"
    if idle: "unat (pl_rx_timeout_ms inst) \<le> ktime Z (kern s) - t" "ktime Z (kern s') - t < 2 ^ 32"
  proof -
    obtain u where u: "ktime Z (kern s) \<le> u" "u \<le> ktime Z (kern s')"
      "tb_at s' p = (if expired inst (of_nat u) (tb_at s p) then release_ctx (tb_at s p) else tb_at s p)"
      using s'(4)[OF p] by (auto simp: expire_effect_def)
    have "unat (of_nat u - of_nat t :: u32) = u - t" by (rule elapsed_ms) (use u(1,2) t(2) idle(2) in linarith)+
    then have "expired inst (of_nat u) (tb_at s p)" using st t idle(1) u(1) by (simp add: expired_def word_le_nat_alt)
    with u(3) have rel: "tb_at s' p = release_ctx (tb_at s p)" by simp
    have "bufs Z (kern s') h = None"
    proof (rule ccontr)
      assume "bufs Z (kern s') h \<noteq> None"
      with s'(3) have "bufs Z (kern s') h = bufs Z (kern s) h" by (auto simp: expire_frame_def)
      moreover obtain g nb where "tb_buffer (tb_at s p) = Some g" "bufs Z (kern s) g = Some nb" "nb_pool nb = pl_buffer_pool inst"
        by (rule receiving_buffer[OF inv p st])
      ultimately obtain nb where "bufs Z (kern s') h = Some nb" "nb_pool nb = pl_buffer_pool inst" using h by auto
      from pool_okD(4)[OF s'(2)[unfolded pool_inv_def] this]
      obtain q where q: "q \<in> set (pool_ptrs inst)" "tb_buffer (tb_at s' q) = Some h" by (auto simp: tb_at_def)
      with rel have "q \<noteq> p" by (auto simp: release_ctx_def)
      have "tb_buffer (tb_at s q) = Some h"
        using s'(4)[OF q(1)] q(2) by (auto simp: expire_effect_def release_ctx_def split: if_splits)
      with pool_okD(3)[OF inv[unfolded pool_inv_def] q(1) p, of h] h \<open>q \<noteq> p\<close> show False by (simp add: tb_at_def)
    qed
    with rel show ?thesis by (simp add: release_ctx_def)
  qed
  ultimately show ?thesis using s'(1,2) by blast
qed

text \<open>The context of \<open>ref_large\<close>, last written to 5 seconds before the clock wraps; 12 seconds passed.\<close>

definition ref_idle :: "kworld machine" where
  "ref_idle = ref_large\<lparr>kern := (kern ref_large)\<lparr>rk_time := 2 ^ 32 + 7000\<rparr>,
     mem := (mem ref_large)\<lparr>tbs := (tbs (mem ref_large))(Tb_ptr BleRxPool 0 :=
       (tbs (mem ref_large) (Tb_ptr BleRxPool 0))\<lparr>tb_last_rx_time_ms := of_nat (2 ^ 32 - 5000)\<rparr>)\<rparr>\<rparr>"

lemma ref_idle_inv: "pool_inv ref_zephyr ref_pool ref_idle"
  by (auto simp: pool_inv_def pool_ok_def ref_pool_ptrs ref_idle_def ref_large_def boot_mem_def ctx_ok_def rk_init_def
      split: if_splits)

lemma ref_idle_expires:
  "for_each [0..<4] (expire_context ref_zephyr ref_pool) ref_idle = Some s' \<Longrightarrow> rk_time (kern s') = 2 ^ 32 + 7001"
  by (auto simp: upt_rec expire_context_def prv_buffer_for_index_def ref_idle_def ref_large_def boot_mem_def
      tb_at_def rk_init_def Let_def set_tb_def)

theorem expiry_across_wrap_witness:
  "\<exists>s'. for_each [0..<4] (expire_context ref_zephyr ref_pool) ref_idle = Some s' \<and>
     pool_inv ref_zephyr ref_pool s' \<and> tb_state (tb_at s' (Tb_ptr BleRxPool 0)) = TRANSPORT_BUFFER_STATE_FREE"
  using expiry_across_wrap[OF ref_clock_laws ref_net_buf_laws ref_idle_inv, of "Tb_ptr BleRxPool 0" "2 ^ 32 - 5000" 1]
    ref_idle_expires
  by (fastforce simp: ref_pool_ptrs ref_idle_def ref_large_def tb_at_def rk_init_def)

section \<open>Two threads that drop references\<close>

text \<open>
  Threads that run \<open>transport_buffer_unref\<close> on one context: a thread has not started, has read
  whether its reference is the last one, or has returned. A schedule lists the threads in the order in
  which they take their half steps.
\<close>

datatype unref_thread = Unref_called | Unref_read bool | Unref_returned

definition unref_turn ::
  "'k zephyr \<Rightarrow> tb_ptr \<Rightarrow> nat \<Rightarrow> (nat \<Rightarrow> unref_thread) \<times> ('k, 'a) machine_scheme \<Rightarrow>
   ((nat \<Rightarrow> unref_thread) \<times> ('k, 'a) machine_scheme) option" where
  "unref_turn Z p i x = (case x of (ts, s) \<Rightarrow>
     (case ts i of
        Unref_called \<Rightarrow>
          if tb_buffer (tb_at s p) = None then Some (ts(i := Unref_returned), s)
          else do { l \<leftarrow> unref_read_last Z p s; Some (ts(i := Unref_read l), s) }
      | Unref_read l \<Rightarrow> do { s' \<leftarrow> unref_drop Z p l s; Some (ts(i := Unref_returned), s') }
      | Unref_returned \<Rightarrow> Some (ts, s)))"

fun unref_schedule ::
  "'k zephyr \<Rightarrow> tb_ptr \<Rightarrow> nat list \<Rightarrow> (nat \<Rightarrow> unref_thread) \<times> ('k, 'a) machine_scheme \<Rightarrow>
   ((nat \<Rightarrow> unref_thread) \<times> ('k, 'a) machine_scheme) option" where
  "unref_schedule Z p [] x = Some x"
| "unref_schedule Z p (i # is) x = do { x' \<leftarrow> unref_turn Z p i x; unref_schedule Z p is x' }"

text \<open>A thread that is not interrupted runs the function.\<close>

lemma unref_schedule_alone:
  assumes "ts i = Unref_called" and "tb_buffer (tb_at s p) \<noteq> None"
  shows "unref_schedule Z p (i # i # is) (ts, s) =
     do { s' \<leftarrow> transport_buffer_unref Z (Some p) s; unref_schedule Z p is (ts(i := Unref_returned), s') }"
  using assms by (auto simp: unref_turn_def transport_buffer_unref_def split: Option.bind_splits)

lemma unref_serial:
  assumes laws: "net_buf_laws Z cnt cap" and inv: "pool_inv Z inst s"
    and p: "p \<in> set (pool_ptrs inst)" and h: "tb_buffer (tb_at s p) = Some h" and nb: "bufs Z (kern s) h = Some nb"
    and two: "nb_ref nb = 2" and ij: "i \<noteq> j" "ts i = Unref_called" "ts j = Unref_called"
  shows "\<exists>s'. unref_schedule Z p [i, i, j, j] (ts, s) = Some (ts(i := Unref_returned, j := Unref_returned), s') \<and>
     pool_inv Z inst s' \<and> tb_state (tb_at s' p) = TRANSPORT_BUFFER_STATE_FREE"
proof -
  obtain s1 where s1: "transport_buffer_unref Z (Some p) s = Some s1" "pool_inv Z inst s1" "s1 = s\<lparr>kern := kern s1\<rparr>"
    "bufs Z (kern s1) = (bufs Z (kern s))(h \<mapsto> nb\<lparr>nb_ref := nb_ref nb - 1\<rparr>)"
    by (rule unref_shared[OF laws inv p h nb]) (use two in auto)
  have "tb_at s1 p = tb_at s p" using arg_cong[OF s1(3), of mem] by (simp add: tb_at_def)
  then have h1: "tb_buffer (tb_at s1 p) = Some h" using h by simp
  obtain s2 where s2: "transport_buffer_unref Z (Some p) s1 = Some s2" "pool_inv Z inst s2" "tb_at s2 p = release_ctx (tb_at s1 p)"
    by (rule unref_last[OF laws s1(2) p h1, of "nb\<lparr>nb_ref := nb_ref nb - 1\<rparr>"]) (use s1(4) two in auto)
  have "unref_schedule Z p [i, i, j, j] (ts, s) = unref_schedule Z p [j, j] (ts(i := Unref_returned), s1)"
    using unref_schedule_alone[of ts i s p Z "[j, j]"] ij(2) h s1(1) by simp
  also have "\<dots> = Some (ts(i := Unref_returned, j := Unref_returned), s2)"
    using unref_schedule_alone[of "ts(i := Unref_returned)" j s1 p Z "[]"] ij h1 s2(1) by simp
  finally show ?thesis using s2(2,3) by (auto simp: release_ctx_def)
qed

text \<open>What is left when both read before either drops.\<close>

definition lost_context :: "'k zephyr \<Rightarrow> tb_ptr \<Rightarrow> nat \<Rightarrow> ('k, 'a) machine_scheme \<Rightarrow> bool" where
  "lost_context Z p h s \<longleftrightarrow> tb_state (tb_at s p) = TRANSPORT_BUFFER_STATE_REFERENCED \<and> tb_buffer (tb_at s p) = Some h"

lemma unref_interleaved:
  assumes laws: "net_buf_laws Z cnt cap" and st: "tb_state (tb_at s p) = TRANSPORT_BUFFER_STATE_REFERENCED"
    and h: "tb_buffer (tb_at s p) = Some h" and nb: "bufs Z (kern s) h = Some nb" and two: "nb_ref nb = 2"
    and ij: "i \<noteq> j" "ts i = Unref_called" "ts j = Unref_called" and drops: "{a, b} = {i, j}"
  shows "\<exists>s'. unref_schedule Z p [i, j, a, b] (ts, s) = Some (ts(i := Unref_returned, j := Unref_returned), s') \<and>
     bufs Z (kern s') h = None \<and> lost_context Z p h s'"
proof -
  let ?k1 = "net_buf_unref Z h (kern s)"
  let ?k2 = "net_buf_unref Z h ?k1"
  have v1: "bufs Z ?k1 = (bufs Z (kern s))(h \<mapsto> nb\<lparr>nb_ref := 1\<rparr>)"
    using count_view(2)[OF laws nb] two by simp
  have v2: "bufs Z ?k2 h = None" using count_view(2)[OF laws, of ?k1 h "nb\<lparr>nb_ref := 1\<rparr>"] v1 by simp
  have read: "unref_read_last Z p s = Some False" using h nb two by (simp add: unref_read_last_def nb_at_def)
  have "(a = i \<and> b = j) \<or> (a = j \<and> b = i)" using drops ij(1) by (auto simp: doubleton_eq_iff)
  then have "unref_schedule Z p [i, j, a, b] (ts, s) =
      Some (ts(i := Unref_returned, j := Unref_returned), s\<lparr>kern := ?k2\<rparr>)"
    using ij read h by (auto simp: unref_turn_def unref_drop_def fun_upd_twist Let_def)
  with st h v2 show ?thesis by (simp add: lost_context_def)
qed

text \<open>
  What can happen afterwards: the kernel does anything, and the operations of the pool are called in any
  order, with any arguments, on every context but the lost one - to which nobody has a reference any more,
  and which no lookup returns.
\<close>

inductive pool_use ::
  "'k zephyr \<Rightarrow> transport_buffer_pool_t \<Rightarrow> tb_ptr \<Rightarrow> ('k, 'a) machine_scheme \<Rightarrow> ('k, 'a) machine_scheme \<Rightarrow> bool" for Z inst p where
  pu_kernel: "pool_use Z inst p s (s\<lparr>kern := k\<rparr>)"
| pu_get: "transport_buffer_pool_get Z (Some inst) seq tot idx ft params s = Some (r, s') \<Longrightarrow> pool_use Z inst p s s'"
| pu_write: "q \<noteq> p \<Longrightarrow> transport_buffer_write Z (Some q) fi d len s = Some (ret, s') \<Longrightarrow> pool_use Z inst p s s'"
| pu_note: "pool_use Z inst p s (set_src_id q src s)"
| pu_ref: "q \<noteq> p \<Longrightarrow> transport_buffer_ref Z (Some q) s = (r, s') \<Longrightarrow> pool_use Z inst p s s'"
| pu_unref: "q \<noteq> p \<Longrightarrow> transport_buffer_unref Z (Some q) s = Some s' \<Longrightarrow> pool_use Z inst p s s'"

lemma expire_keeps_referenced:
  assumes "tb_state (tb_at s p) = TRANSPORT_BUFFER_STATE_REFERENCED" and "for_each is (expire_context Z inst) s = Some s'"
  shows "tb_at s' p = tb_at s p"
  using assms
proof (induction "is" arbitrary: s)
  case (Cons i "is")
  then obtain s1 where s1: "expire_context Z inst i s = Some s1" "for_each is (expire_context Z inst) s1 = Some s'"
    by (auto split: Option.bind_splits)
  have "tb_at s1 p = tb_at s p"
    using s1(1) Cons.prems(1) by (auto simp: expire_context_def Let_def split: Option.bind_splits if_splits prod.splits)
  with Cons.IH[OF _ s1(2)] Cons.prems(1) show ?case by simp
qed simp

lemma find_receiving_not_referenced:
  assumes "tb_state (tb_at s p) = TRANSPORT_BUFFER_STATE_REFERENCED"
    and "find_receiving inst seq tot ft params s is = Some r"
  shows "r \<noteq> Some p"
  using assms(2)
  by (induction "is") (use assms(1) in \<open>auto simp: Let_def split: Option.bind_splits if_splits option.splits\<close>)

lemma alloc_keeps_referenced:
  assumes "tb_state (tb_at s p) = TRANSPORT_BUFFER_STATE_REFERENCED"
    and "alloc_context Z inst seq tot ft is s = Some (r, s')"
  shows "tb_at s' p = tb_at s p \<and> r \<noteq> Some p"
  using assms(2)
  by (induction "is") (use assms(1) in \<open>auto simp: Let_def split: Option.bind_splits if_splits option.splits prod.splits\<close>)

lemma get_keeps_referenced:
  assumes "tb_state (tb_at s p) = TRANSPORT_BUFFER_STATE_REFERENCED"
    and "transport_buffer_pool_get Z (Some inst) seq tot idx ft params s = Some (r, s')"
  shows "tb_at s' p = tb_at s p \<and> r \<noteq> Some p"
proof (cases "params \<noteq> None \<and> query_callback inst = None")
  case False
  then obtain s1 found where s1: "for_each [0..<pl_num_buffers inst] (expire_context Z inst) s = Some s1"
    "find_receiving inst seq tot ft params s1 [0..<pl_num_buffers inst] = Some found"
    "(case found of Some q \<Rightarrow> Some (Some q, s1)
      | None \<Rightarrow> if idx \<noteq> 0 then Some (None, s1) else alloc_context Z inst seq tot ft [0..<pl_num_buffers inst] s1) = Some (r, s')"
    using assms(2) by (auto simp: transport_buffer_pool_get_def split: Option.bind_splits)
  note e = expire_keeps_referenced[OF assms(1) s1(1)]
  have ref: "tb_state (tb_at s1 p) = TRANSPORT_BUFFER_STATE_REFERENCED" using e assms(1) by simp
  show ?thesis
    using s1(3) e find_receiving_not_referenced[OF ref s1(2)] alloc_keeps_referenced[OF ref]
    by (auto split: option.splits if_splits)
qed (use assms(2) in \<open>simp add: transport_buffer_pool_get_def\<close>)

lemma pool_use_keeps_referenced:
  assumes "pool_use Z inst p s s'" and "tb_state (tb_at s p) = TRANSPORT_BUFFER_STATE_REFERENCED"
  shows "tb_at s' p = tb_at s p"
  using assms(1)
proof cases
  case (pu_get seq tot idx ft params r)
  then show ?thesis using get_keeps_referenced[OF assms(2)] by blast
next
  case (pu_write q fi d len ret)
  then show ?thesis
    by (auto simp: transport_buffer_write_def Let_def split: option.splits if_splits Option.bind_splits prod.splits)
next
  case (pu_unref q)
  then show ?thesis
    by (auto simp: transport_buffer_unref_def unref_drop_def Let_def split: if_splits Option.bind_splits)
qed (auto simp: set_src_id_def tb_at_def transport_buffer_ref_def split: option.splits)

lemma lost_for_good:
  assumes "(pool_use Z inst p)\<^sup>*\<^sup>* s s'" and "lost_context Z p h s"
  shows "lost_context Z p h s'"
  using assms
  by (induction rule: rtranclp_induct) (auto simp: lost_context_def dest: pool_use_keeps_referenced)

text \<open>C36. The race of the last two references, by schedule. Two threads drop the two references of a complete
  message. When one runs after the other, the context is free at the end and the pool in order. When both read
  the count before either drops its reference, in whichever order they drop, both return and the network buffer is
  destroyed, but the context is still marked as in use and points to the destroyed buffer, which breaks the pool's
  invariant. That is for good: whatever the kernel does and whichever operations of the pool are called on
  other contexts, the context stays like that, and no lookup ever returns it, so one of the four is lost.\<close>

theorem unref_race:
  assumes "net_buf_laws Z cnt cap" "pool_inv Z inst s" "p \<in> set (pool_ptrs inst)"
    and "tb_state (tb_at s p) = TRANSPORT_BUFFER_STATE_REFERENCED"
    and "tb_buffer (tb_at s p) = Some h" "bufs Z (kern s) h = Some nb" "nb_ref nb = 2"
    and "i \<noteq> j" "ts i = Unref_called" "ts j = Unref_called"
  defines "returned \<equiv> ts(i := Unref_returned, j := Unref_returned)"
  shows "(\<exists>s'. unref_schedule Z p [i, i, j, j] (ts, s) = Some (returned, s') \<and>
       pool_inv Z inst s' \<and> tb_state (tb_at s' p) = TRANSPORT_BUFFER_STATE_FREE) \<and>
     (\<forall>a b. {a, b} = {i, j} \<longrightarrow>
       (\<exists>s'. unref_schedule Z p [i, j, a, b] (ts, s) = Some (returned, s') \<and>
         \<not> pool_inv Z inst s' \<and> bufs Z (kern s') h = None \<and>
         (\<forall>s''. (pool_use Z inst p)\<^sup>*\<^sup>* s' s'' \<longrightarrow> lost_context Z p h s'' \<and>
            (\<forall>seq tot idx ft params r t.
               transport_buffer_pool_get Z (Some inst) seq tot idx ft params s'' = Some (r, t) \<longrightarrow> r \<noteq> Some p))))"
proof (intro conjI allI impI)
  show "\<exists>s'. unref_schedule Z p [i, i, j, j] (ts, s) = Some (returned, s') \<and>
      pool_inv Z inst s' \<and> tb_state (tb_at s' p) = TRANSPORT_BUFFER_STATE_FREE"
    using unref_serial[OF assms(1-3,5-10)] by (simp add: returned_def)
  fix a b assume "{a, b} = {i, j}"
  then obtain s' where s': "unref_schedule Z p [i, j, a, b] (ts, s) = Some (returned, s')"
    "bufs Z (kern s') h = None" "lost_context Z p h s'"
    using unref_interleaved[OF assms(1,4-10)] unfolding returned_def by blast
  have "\<not> pool_inv Z inst s'"
  proof
    assume "pool_inv Z inst s'"
    from pool_okD(2)[OF this[unfolded pool_inv_def] assms(3)] s'(2,3) show False
      by (auto simp: ctx_ok_referenced tb_at_def lost_context_def)
  qed
  moreover have "r \<noteq> Some p" if "(pool_use Z inst p)\<^sup>*\<^sup>* s' s''"
    "transport_buffer_pool_get Z (Some inst) seq tot idx ft params s'' = Some (r, t)" for s'' seq tot idx ft params r t
    using get_keeps_referenced[OF _ that(2)] lost_for_good[OF that(1) s'(3)] unfolding lost_context_def by blast
  ultimately show "\<exists>s'. unref_schedule Z p [i, j, a, b] (ts, s) = Some (returned, s') \<and> \<not> pool_inv Z inst s' \<and>
      bufs Z (kern s') h = None \<and> (\<forall>s''. (pool_use Z inst p)\<^sup>*\<^sup>* s' s'' \<longrightarrow> lost_context Z p h s'' \<and>
        (\<forall>seq tot idx ft params r t.
           transport_buffer_pool_get Z (Some inst) seq tot idx ft params s'' = Some (r, t) \<longrightarrow> r \<noteq> Some p))"
    using s' lost_for_good by blast
qed

text \<open>A complete message of one byte with two references.\<close>

definition ref_shared :: "kworld machine" where
  "ref_shared = \<lparr>kern = rk_init\<lparr>rk_bufs := [(1, \<lparr>nb_pool = BleRxPool, nb_ref = 2, nb_data = [7]\<rparr>)]\<rparr>,
     mem = boot_mem\<lparr>tbs := (tbs boot_mem)(Tb_ptr BleRxPool 0 :=
       \<lparr>tb_buffer = Some 1, tb_state = TRANSPORT_BUFFER_STATE_REFERENCED, tb_seq_id = 3, tb_total_size_bytes = 1,
        tb_frag_total = 1, tb_frag_idx = 1, tb_last_rx_time_ms = 0\<rparr>)\<rparr>\<rparr>"

lemma ref_shared_inv: "pool_inv ref_zephyr ref_pool ref_shared"
  by (auto simp: pool_inv_def pool_ok_def ref_pool_ptrs ref_shared_def boot_mem_def ctx_ok_def rk_init_def
      split: if_splits)

theorem unref_race_witness:
  "\<exists>s'. unref_schedule ref_zephyr (Tb_ptr BleRxPool 0) [0, 1, 0, 1] (\<lambda>_. Unref_called, ref_shared) =
       Some ((\<lambda>_. Unref_called)(0 := Unref_returned, 1 := Unref_returned), s') \<and>
     \<not> pool_inv ref_zephyr ref_pool s' \<and> lost_context ref_zephyr (Tb_ptr BleRxPool 0) 1 s'"
proof -
  have at: "tb_at ref_shared (Tb_ptr BleRxPool 0) =
      \<lparr>tb_buffer = Some 1, tb_state = TRANSPORT_BUFFER_STATE_REFERENCED, tb_seq_id = 3, tb_total_size_bytes = 1,
       tb_frag_total = 1, tb_frag_idx = 1, tb_last_rx_time_ms = 0\<rparr>"
    by (simp add: ref_shared_def tb_at_def)
  have buf: "bufs ref_zephyr (kern ref_shared) 1 = Some \<lparr>nb_pool = BleRxPool, nb_ref = 2, nb_data = [7]\<rparr>"
    by (simp add: ref_shared_def rk_init_def)
  have p: "Tb_ptr BleRxPool 0 \<in> set (pool_ptrs ref_pool)" by (simp add: ref_pool_ptrs)
  have st: "tb_state (tb_at ref_shared (Tb_ptr BleRxPool 0)) = TRANSPORT_BUFFER_STATE_REFERENCED"
    "tb_buffer (tb_at ref_shared (Tb_ptr BleRxPool 0)) = Some 1" by (simp_all add: at)
  have two: "nb_ref \<lparr>nb_pool = BleRxPool, nb_ref = 2, nb_data = [7]\<rparr> = 2" "0 \<noteq> (1 :: nat)" by simp_all
  note race = unref_race[where ts = "\<lambda>_. Unref_called",
      OF ref_net_buf_laws ref_shared_inv p st buf two refl refl, THEN conjunct2]
  obtain s' where s': "unref_schedule ref_zephyr (Tb_ptr BleRxPool 0) [0, 1, 0, 1] (\<lambda>_. Unref_called, ref_shared) =
       Some ((\<lambda>_. Unref_called)(0 := Unref_returned, 1 := Unref_returned), s')"
    "\<not> pool_inv ref_zephyr ref_pool s'" "lost_context ref_zephyr (Tb_ptr BleRxPool 0) 1 s'"
    using race[THEN spec, THEN spec, THEN mp, OF refl] rtranclp.rtrancl_refl by blast
  show ?thesis by (rule exI[of _ s']) (intro conjI s')
qed

end
