(* ===== verification/Gatt_Services.thy ===== *)
theory Gatt_Services
  imports Alfie_Ble_Service
begin

text \<open>
  The tables with which the firmware registers itself at the Bluetooth host: the attributes of its two
  GATT services (\<^verbatim>\<open>alfie_ble_service.c\<close>, \<^verbatim>\<open>control_ble_service.c\<close>) and the connection callbacks of
  \<^verbatim>\<open>alfie_ble_service.c\<close> and \<^verbatim>\<open>ble_core.c\<close>.

  A service is written down as a list of macros of the host, each of which stands for one or two
  attributes. What they expand to is not in the repository: \<open>expand\<close> is a parameter, and
  \<open>gatt_laws\<close> states the documented kinds of the attributes.
\<close>

section \<open>The tables\<close>

datatype gatt_chrc_prop = BT_GATT_CHRC_READ | BT_GATT_CHRC_WRITE | BT_GATT_CHRC_NOTIFY
datatype gatt_perm = BT_GATT_PERM_READ | BT_GATT_PERM_WRITE

text \<open>The functions whose addresses the tables hold.\<close>

datatype gatt_fn = Prv_on_data_write | Prv_on_data_char_config_changed | Prv_on_device_id_read

text \<open>Arguments of a characteristic: UUID, properties, permissions, read and write callback.\<close>

datatype gatt_macro =
    BT_GATT_PRIMARY_SERVICE "u8 list"
  | BT_GATT_CHARACTERISTIC "u8 list" "gatt_chrc_prop list" "gatt_perm list" "gatt_fn option" "gatt_fn option"
  | BT_GATT_CCC "gatt_fn option" "gatt_perm list"

definition ALFIE_BLE_SERVICE_DATA_CHAR_UUID_VAL :: "u8 list" where
  "ALFIE_BLE_SERVICE_DATA_CHAR_UUID_VAL = bt_uuid_128_encode 0xc1534fa4 0x5211 0x4e32 0xa176 (0xd1af, 0x04513305)"

definition CONTROL_BLE_SERVICE_UUID_VAL :: "u8 list" where
  "CONTROL_BLE_SERVICE_UUID_VAL = bt_uuid_128_encode 0x7928884e 0x01e6 0x4137 0x86d3 (0xadef, 0xd8afe21d)"

definition CONTROL_BLE_SERVICE_DEVICE_ID_CHAR_UUID_VAL :: "u8 list" where
  "CONTROL_BLE_SERVICE_DEVICE_ID_CHAR_UUID_VAL = bt_uuid_128_encode 0x7928884f 0x01e6 0x4137 0x86d3 (0xadef, 0xd8afe21d)"

definition prv_alfie_ble_service :: "gatt_macro list" where
  "prv_alfie_ble_service =
     [BT_GATT_PRIMARY_SERVICE ALFIE_BLE_SERVICE_UUID_VAL,
      BT_GATT_CHARACTERISTIC ALFIE_BLE_SERVICE_DATA_CHAR_UUID_VAL
        [BT_GATT_CHRC_WRITE, BT_GATT_CHRC_NOTIFY] [BT_GATT_PERM_WRITE] None (Some Prv_on_data_write),
      BT_GATT_CCC (Some Prv_on_data_char_config_changed) [BT_GATT_PERM_READ, BT_GATT_PERM_WRITE]]"

definition prv_control_ble_service :: "gatt_macro list" where
  "prv_control_ble_service =
     [BT_GATT_PRIMARY_SERVICE CONTROL_BLE_SERVICE_UUID_VAL,
      BT_GATT_CHARACTERISTIC CONTROL_BLE_SERVICE_DEVICE_ID_CHAR_UUID_VAL
        [BT_GATT_CHRC_READ] [BT_GATT_PERM_READ] (Some Prv_on_device_id_read) None]"

text \<open>\<open>alfie_service_gatt_attr_idx_t\<close>: the places of the attributes in the array the macros make.\<close>

definition ALFIE_BLE_SERVICE_GATT_ATTR_SERVICE :: nat where "ALFIE_BLE_SERVICE_GATT_ATTR_SERVICE = 0"
definition ALFIE_BLE_SERVICE_GATT_ATTR_DATA_CHRC :: nat where "ALFIE_BLE_SERVICE_GATT_ATTR_DATA_CHRC = 1"
definition ALFIE_BLE_SERVICE_GATT_ATTR_DATA :: nat where "ALFIE_BLE_SERVICE_GATT_ATTR_DATA = 2"
definition ALFIE_BLE_SERVICE_GATT_ATTR_DATA_CCC :: nat where "ALFIE_BLE_SERVICE_GATT_ATTR_DATA_CCC = 3"

lemmas gatt_attr_idx_defs = ALFIE_BLE_SERVICE_GATT_ATTR_SERVICE_def ALFIE_BLE_SERVICE_GATT_ATTR_DATA_CHRC_def
  ALFIE_BLE_SERVICE_GATT_ATTR_DATA_def ALFIE_BLE_SERVICE_GATT_ATTR_DATA_CCC_def

text \<open>
  \<open>BT_CONN_CB_DEFINE\<close>: the handlers each file registers for the connections. The host calls those of
  both files for every connection.
\<close>

record 's bt_conn_cb =
  cb_connected :: "nat \<Rightarrow> u8 \<Rightarrow> 's \<Rightarrow> 's"
  cb_disconnected :: "nat \<Rightarrow> u8 \<Rightarrow> 's \<Rightarrow> 's"

definition ble_core_prv_conn_callbacks :: "'k zephyr \<Rightarrow> ('k, 'a) core_machine_scheme bt_conn_cb" where
  "ble_core_prv_conn_callbacks Z =
     \<lparr>cb_connected = ble_core_prv_device_connected Z, cb_disconnected = ble_core_prv_device_disconnected Z\<rparr>"

definition alfie_service_prv_conn_callbacks :: "'k zephyr \<Rightarrow> ('k, 'a) ble_machine_scheme bt_conn_cb" where
  "alfie_service_prv_conn_callbacks Z =
     \<lparr>cb_connected = prv_device_connected Z, cb_disconnected = prv_device_disconnected Z\<rparr>"

definition on_connected :: "'s bt_conn_cb list \<Rightarrow> nat \<Rightarrow> u8 \<Rightarrow> 's \<Rightarrow> 's" where
  "on_connected cbs conn err = fold (\<lambda>c. cb_connected c conn err) cbs"

definition on_disconnected :: "'s bt_conn_cb list \<Rightarrow> nat \<Rightarrow> u8 \<Rightarrow> 's \<Rightarrow> 's" where
  "on_disconnected cbs conn reason = fold (\<lambda>c. cb_disconnected c conn reason) cbs"

lemmas conn_callback_defs = on_connected_def on_disconnected_def ble_core_prv_conn_callbacks_def
  alfie_service_prv_conn_callbacks_def ble_core_prv_device_connected_def ble_core_prv_device_disconnected_def
  prv_device_connected_def prv_device_disconnected_def

text \<open>The order in which the host calls the two files' handlers shows nowhere but in the kernel's own state.\<close>

lemma conn_callbacks_any_order:
  fixes s :: "('k, 'a) ble_machine_scheme" and Z :: "'k zephyr"
  defines "a \<equiv> alfie_service_prv_conn_callbacks Z" and "b \<equiv> ble_core_prv_conn_callbacks Z"
  shows "on_connected [a, b] conn err s = on_connected [b, a] conn err s"
    and "on_disconnected [a, b] conn reason s =
      (on_disconnected [b, a] conn reason s)\<lparr>kern := k_work_submit Z (bt_conn_unref Z conn (kern s))\<rparr>"
    and "bs_conn (bsv (on_disconnected [a, b] conn reason s)) = None"
  by (simp_all add: assms conn_callback_defs)

section \<open>The attributes\<close>

text \<open>What an attribute is to a client of the service.\<close>

datatype gatt_kind =
    Service_declaration "u8 list"
  | Characteristic_declaration "u8 list" "gatt_chrc_prop list"
  | Characteristic_value "u8 list" "gatt_perm list" "gatt_fn option" "gatt_fn option"
  | Client_configuration "gatt_fn option" "gatt_perm list"

definition gatt_laws :: "(gatt_macro \<Rightarrow> 'a list) \<Rightarrow> ('a \<Rightarrow> gatt_kind) \<Rightarrow> bool" where
  "gatt_laws expand kind \<longleftrightarrow>
     (\<forall>u. map kind (expand (BT_GATT_PRIMARY_SERVICE u)) = [Service_declaration u]) \<and>
     (\<forall>u pr pe r w. map kind (expand (BT_GATT_CHARACTERISTIC u pr pe r w)) =
        [Characteristic_declaration u pr, Characteristic_value u pe r w]) \<and>
     (\<forall>c pe. map kind (expand (BT_GATT_CCC c pe)) = [Client_configuration c pe])"

text \<open>The expansion that makes just the kinds has the laws.\<close>

fun kinds_of :: "gatt_macro \<Rightarrow> gatt_kind list" where
  "kinds_of (BT_GATT_PRIMARY_SERVICE u) = [Service_declaration u]"
| "kinds_of (BT_GATT_CHARACTERISTIC u pr pe r w) = [Characteristic_declaration u pr, Characteristic_value u pe r w]"
| "kinds_of (BT_GATT_CCC c pe) = [Client_configuration c pe]"

lemma kinds_of_laws: "gatt_laws kinds_of (\<lambda>k. k)"
  by (simp add: gatt_laws_def)

text \<open>The array \<open>attr_\<dots>\<close> of a service.\<close>

definition gatt_attrs :: "(gatt_macro \<Rightarrow> 'a list) \<Rightarrow> gatt_macro list \<Rightarrow> 'a list" where
  "gatt_attrs expand svc = concat (map expand svc)"

text \<open>
  The rules of GATT for a characteristic: its value follows its declaration and has its UUID; what the
  properties offer, the permissions allow and a callback serves, and nothing else; a client can
  subscribe exactly if there is something to subscribe to.
\<close>

definition serves :: "bool \<Rightarrow> bool \<Rightarrow> gatt_fn option \<Rightarrow> bool" where
  "serves offered allowed f \<longleftrightarrow> offered = allowed \<and> allowed = (f \<noteq> None)"

fun characteristics_ok :: "gatt_kind list \<Rightarrow> bool" where
  "characteristics_ok [] = True"
| "characteristics_ok (Characteristic_declaration u pr # Characteristic_value u' pe r w # rest) =
     (u' = u \<and> serves (BT_GATT_CHRC_READ \<in> set pr) (BT_GATT_PERM_READ \<in> set pe) r \<and>
      serves (BT_GATT_CHRC_WRITE \<in> set pr) (BT_GATT_PERM_WRITE \<in> set pe) w \<and>
      (case rest of
         Client_configuration c cpe # rest' \<Rightarrow> BT_GATT_CHRC_NOTIFY \<in> set pr \<and> BT_GATT_PERM_WRITE \<in> set cpe \<and>
           characteristics_ok rest'
       | _ \<Rightarrow> BT_GATT_CHRC_NOTIFY \<notin> set pr \<and> characteristics_ok rest))"
| "characteristics_ok _ = False"

definition service_ok :: "gatt_kind list \<Rightarrow> bool" where
  "service_ok ks \<longleftrightarrow> (case ks of Service_declaration u # rest \<Rightarrow> length u = BT_UUID_SIZE_128 \<and> characteristics_ok rest
     | _ \<Rightarrow> False)"

lemma gatt_attrs_kinds:
  assumes "gatt_laws expand kind"
  shows "map kind (gatt_attrs expand (BT_GATT_PRIMARY_SERVICE u # svc)) =
      Service_declaration u # map kind (gatt_attrs expand svc)"
    and "map kind (gatt_attrs expand (BT_GATT_CHARACTERISTIC u pr pe r w # svc)) =
      Characteristic_declaration u pr # Characteristic_value u pe r w # map kind (gatt_attrs expand svc)"
    and "map kind (gatt_attrs expand (BT_GATT_CCC c pe # svc)) = Client_configuration c pe # map kind (gatt_attrs expand svc)"
    and "map kind (gatt_attrs expand []) = []"
  using assms by (simp_all add: gatt_laws_def gatt_attrs_def)

lemma alfie_service_kinds:
  "gatt_laws expand kind \<Longrightarrow> map kind (gatt_attrs expand prv_alfie_ble_service) =
     [Service_declaration ALFIE_BLE_SERVICE_UUID_VAL,
      Characteristic_declaration ALFIE_BLE_SERVICE_DATA_CHAR_UUID_VAL [BT_GATT_CHRC_WRITE, BT_GATT_CHRC_NOTIFY],
      Characteristic_value ALFIE_BLE_SERVICE_DATA_CHAR_UUID_VAL [BT_GATT_PERM_WRITE] None (Some Prv_on_data_write),
      Client_configuration (Some Prv_on_data_char_config_changed) [BT_GATT_PERM_READ, BT_GATT_PERM_WRITE]]"
  by (simp add: prv_alfie_ble_service_def gatt_attrs_kinds)

lemma control_service_kinds:
  "gatt_laws expand kind \<Longrightarrow> map kind (gatt_attrs expand prv_control_ble_service) =
     [Service_declaration CONTROL_BLE_SERVICE_UUID_VAL,
      Characteristic_declaration CONTROL_BLE_SERVICE_DEVICE_ID_CHAR_UUID_VAL [BT_GATT_CHRC_READ],
      Characteristic_value CONTROL_BLE_SERVICE_DEVICE_ID_CHAR_UUID_VAL [BT_GATT_PERM_READ] (Some Prv_on_device_id_read) None]"
  by (simp add: prv_control_ble_service_def gatt_attrs_kinds)

text \<open>The four UUIDs, as bytes.\<close>

lemmas uuid_defs = ALFIE_BLE_SERVICE_UUID_VAL_def ALFIE_BLE_SERVICE_DATA_CHAR_UUID_VAL_def CONTROL_BLE_SERVICE_UUID_VAL_def
  CONTROL_BLE_SERVICE_DEVICE_ID_CHAR_UUID_VAL_def

lemma length_bt_uuid_128_encode [simp]: "length (bt_uuid_128_encode a b c d e) = 16"
  by (simp add: bt_uuid_128_encode_def)

lemma le32_append_eq: "le32 x @ r = le32 y @ r' \<longleftrightarrow> x = y \<and> r = r'"
proof
  assume eq: "le32 x @ r = le32 y @ r'"
  have "x = y" using arg_cong[OF eq, of u32_of_bytes] by (simp only: u32_of_le32)
  then show "x = y \<and> r = r'" using eq by simp
qed simp

lemma le16_append_eq: "le16 x @ r = le16 y @ r' \<longleftrightarrow> x = y \<and> r = r'"
proof
  assume eq: "le16 x @ r = le16 y @ r'"
  have "x = mk16 (hd (le16 x @ r)) (hd (tl (le16 x @ r)))" by (simp add: le16_def)
  also have "\<dots> = mk16 (hd (le16 y @ r')) (hd (tl (le16 y @ r')))" by (simp only: eq)
  also have "\<dots> = y" by (simp add: le16_def)
  finally show "x = y \<and> r = r'" using eq by simp
qed simp

lemma bt_uuid_128_encode_inject:
  "bt_uuid_128_encode a b c d e = bt_uuid_128_encode a' b' c' d' e' \<longleftrightarrow>
     a = a' \<and> b = b' \<and> c = c' \<and> d = d' \<and> e = e'"
  unfolding bt_uuid_128_encode_def using le32_append_eq[of _ "[]" _ "[]"]
  by (cases e; cases e') (auto simp: le32_append_eq le16_append_eq)

lemma service_uuids_distinct:
  "distinct [ALFIE_BLE_SERVICE_UUID_VAL, ALFIE_BLE_SERVICE_DATA_CHAR_UUID_VAL, CONTROL_BLE_SERVICE_UUID_VAL,
     CONTROL_BLE_SERVICE_DEVICE_ID_CHAR_UUID_VAL]"
  by (simp add: uuid_defs bt_uuid_128_encode_inject)

lemma nth_kind: "map kind xs = ks \<Longrightarrow> n < length ks \<Longrightarrow> kind (xs ! n) = ks ! n"
  by auto

text \<open>C40. The attribute tables are well typed. Both GATT services obey the rules of GATT: each is a primary
  service with a 128 bit UUID, each characteristic's value follows its declaration under the same UUID, and
  what its properties offer is exactly what its permissions allow and a callback serves; a configuration
  descriptor a client can write follows exactly the characteristic that notifies. The enumeration of the Alfie
  service names the places of its four attributes in the array the macros make, so the attribute both calls of
  \<open>bt_gatt_notify\<close> point at is the value of the characteristic that notifies, and the one whose
  writes reach \<open>prv_on_data_write\<close>. The four UUIDs are distinct.\<close>

theorem gatt_tables_well_typed:
  fixes expand :: "gatt_macro \<Rightarrow> 'a list"
  assumes laws: "gatt_laws expand kind"
  defines "attrs \<equiv> gatt_attrs expand prv_alfie_ble_service"
  shows "service_ok (map kind attrs) \<and> service_ok (map kind (gatt_attrs expand prv_control_ble_service)) \<and>
    length attrs = Suc ALFIE_BLE_SERVICE_GATT_ATTR_DATA_CCC \<and>
    kind (attrs ! ALFIE_BLE_SERVICE_GATT_ATTR_SERVICE) = Service_declaration ALFIE_BLE_SERVICE_UUID_VAL \<and>
    (\<exists>pr. kind (attrs ! ALFIE_BLE_SERVICE_GATT_ATTR_DATA_CHRC) =
       Characteristic_declaration ALFIE_BLE_SERVICE_DATA_CHAR_UUID_VAL pr \<and> BT_GATT_CHRC_NOTIFY \<in> set pr) \<and>
    (\<exists>pe. kind (attrs ! ALFIE_BLE_SERVICE_GATT_ATTR_DATA) =
       Characteristic_value ALFIE_BLE_SERVICE_DATA_CHAR_UUID_VAL pe None (Some Prv_on_data_write)) \<and>
    (\<exists>pe. kind (attrs ! ALFIE_BLE_SERVICE_GATT_ATTR_DATA_CCC) =
       Client_configuration (Some Prv_on_data_char_config_changed) pe \<and> BT_GATT_PERM_WRITE \<in> set pe) \<and>
    distinct [ALFIE_BLE_SERVICE_UUID_VAL, ALFIE_BLE_SERVICE_DATA_CHAR_UUID_VAL, CONTROL_BLE_SERVICE_UUID_VAL,
      CONTROL_BLE_SERVICE_DEVICE_ID_CHAR_UUID_VAL]"
proof -
  note ks = alfie_service_kinds[OF laws, folded attrs_def]
  note at = nth_kind[OF ks]
  have "length attrs = 4" using arg_cong[OF ks, of length] by simp
  moreover have "length ALFIE_BLE_SERVICE_UUID_VAL = BT_UUID_SIZE_128" "length CONTROL_BLE_SERVICE_UUID_VAL = BT_UUID_SIZE_128"
    by (simp_all add: uuid_defs BT_UUID_SIZE_128_def)
  ultimately show ?thesis
    using at[of 0] at[of 1] at[of 2] at[of 3] service_uuids_distinct unfolding ks control_service_kinds[OF laws]
    by (simp add: service_ok_def serves_def gatt_attr_idx_defs)
qed

theorem gatt_tables_well_typed_witness:
  "service_ok (gatt_attrs kinds_of prv_alfie_ble_service) \<and> service_ok (gatt_attrs kinds_of prv_control_ble_service)"
  using gatt_tables_well_typed[of kinds_of "\<lambda>k. k", OF kinds_of_laws] by simp

end
