(* ===== verification/Hci_Bridge.thy ===== *)
theory Hci_Bridge
  imports Alfie_Prelude
begin

text \<open>
  \<^verbatim>\<open>alfie/ble_bridge/src/main.c\<close>: the firmware of the nRF5340, which makes its Bluetooth controller
  available to the nRF9151 over a UART. Bytes from the UART are cut into packets in the H:4 format
  by the receive interrupt and passed to the controller by a thread; packets from the controller are
  written to the UART by the transmit interrupt.

  This is a program of its own, with its own machine. The UART driver, the network buffers, the
  kernel's FIFOs, the raw HCI interface and the formats of the HCI headers are the record
  \<open>'u h4_env\<close> over an unknown state \<open>'u\<close>; \<open>hview E u\<close> is what the program can see of that state, and
  \<open>hwaiting E u\<close> are the bytes in the UART.
\<close>

section \<open>What the program calls\<close>

datatype h4_queue = TxQueue | UartTxQueue | RxQueue

text \<open>A buffer of the raw HCI interface: its packet type, how much data it can hold and its data.\<close>

record h4_buf =
  hb_type :: u8
  hb_room :: nat
  hb_data :: "u8 list"

text \<open>
  What the receiver got to see, in order: the bytes it read, and what became of its requests for a
  buffer (the room of the buffer it got).
\<close>

datatype h4_event = Byte u8 | Room "nat option"

text \<open>
  Histories: \<open>hv_log\<close>, \<open>hv_passed\<close> (the packets put into the queue to the controller) and \<open>hv_sent\<close>
  (the bytes the UART accepted).
\<close>

record h4_view =
  hv_bufs :: "nat \<Rightarrow> h4_buf option"
  hv_fifo :: "h4_queue \<Rightarrow> nat list"
  hv_tx_irq :: bool
  hv_log :: "h4_event list"
  hv_passed :: "(u8 \<times> u8 list) list"
  hv_sent :: "u8 list"

record 'u h4_env =
  hview :: "'u \<Rightarrow> h4_view"
  sizeof_cmd_hdr :: nat
  sizeof_acl_hdr :: nat
  sizeof_iso_hdr :: nat
  cmd_param_len :: "u8 list \<Rightarrow> nat"
  acl_data_len :: "u8 list \<Rightarrow> nat"
  iso_data_len :: "u8 list \<Rightarrow> nat"
  bt_hci_evt_cmd_complete :: u8
  bt_op_nop :: u16
  hwaiting :: "'u \<Rightarrow> u8 list"
  uart_fifo_read :: "nat \<Rightarrow> 'u \<Rightarrow> (int \<times> u8 list) \<times> 'u"
  uart_fifo_fill :: "u8 list \<Rightarrow> 'u \<Rightarrow> int \<times> 'u"
  uart_poll_out :: "u8 \<Rightarrow> 'u \<Rightarrow> 'u"
  uart_irq_update :: "'u \<Rightarrow> bool \<times> 'u"
  uart_irq_is_pending :: "'u \<Rightarrow> bool"
  uart_irq_rx_ready :: "'u \<Rightarrow> bool"
  uart_irq_tx_ready :: "'u \<Rightarrow> bool"
  uart_irq_tx_enable :: "'u \<Rightarrow> 'u"
  uart_irq_tx_disable :: "'u \<Rightarrow> 'u"
  uart_irq_rx_enable :: "'u \<Rightarrow> 'u"
  uart_irq_rx_disable :: "'u \<Rightarrow> 'u"
  uart_irq_callback_set :: "'u \<Rightarrow> 'u"
  uart_is_ready :: bool
  usb_cdc_acm :: bool
  usb_enable :: "'u \<Rightarrow> int \<times> 'u"
  bt_buf_get_tx :: "u8 \<Rightarrow> 'u \<Rightarrow> nat option \<times> 'u"
  hbuf_add_mem :: "nat \<Rightarrow> u8 list \<Rightarrow> 'u \<Rightarrow> 'u option"
  hbuf_tailroom :: "nat \<Rightarrow> 'u \<Rightarrow> nat"
  hbuf_pull :: "nat \<Rightarrow> nat \<Rightarrow> 'u \<Rightarrow> 'u"
  hbuf_unref :: "nat \<Rightarrow> 'u \<Rightarrow> 'u"
  h_fifo_put :: "h4_queue \<Rightarrow> nat \<Rightarrow> 'u \<Rightarrow> 'u"
  h_fifo_get :: "h4_queue \<Rightarrow> 'u \<Rightarrow> nat option \<times> 'u"
  h_fifo_wait :: "h4_queue \<Rightarrow> 'u \<Rightarrow> (nat \<times> 'u) option"
  bt_send :: "nat \<Rightarrow> 'u \<Rightarrow> int \<times> 'u"
  h_yield :: "'u \<Rightarrow> 'u"
  bt_enable_raw :: "'u \<Rightarrow> 'u"
  h_thread_create :: "'u \<Rightarrow> 'u"

section \<open>The state of the program\<close>

definition H4_CMD :: u8 where "H4_CMD = 0x01"
definition H4_ACL :: u8 where "H4_ACL = 0x02"
definition H4_ISO :: u8 where "H4_ISO = 0x05"

definition ST_IDLE :: u8 where "ST_IDLE = 0"
definition ST_HDR :: u8 where "ST_HDR = 1"
definition ST_PAYLOAD :: u8 where "ST_PAYLOAD = 2"
definition ST_DISCARD :: u8 where "ST_DISCARD = 3"

definition H4_DISCARD_LEN :: nat where "H4_DISCARD_LEN = 33"

lemmas h4_consts = H4_CMD_def H4_ACL_def H4_ISO_def ST_IDLE_def ST_HDR_def ST_PAYLOAD_def ST_DISCARD_def

text \<open>The static variables of \<open>rx_isr\<close>.\<close>

record h4_rx =
  rx_buf :: "nat option"
  rx_remaining :: int
  rx_state :: u8
  rx_type :: u8
  rx_hdr_buf :: "u8 list"

text \<open>The machine: the environment, these variables and the one of \<open>tx_isr\<close>.\<close>

record 'u h4_machine =
  env :: 'u
  rxv :: h4_rx
  tx_buf :: "nat option"

definition h4_rx_init :: "'u h4_env \<Rightarrow> h4_rx" where
  "h4_rx_init E = \<lparr>rx_buf = None, rx_remaining = 0, rx_state = 0, rx_type = 0,
     rx_hdr_buf = replicate (max (sizeof_cmd_hdr E) (sizeof_acl_hdr E)) 0\<rparr>"

section \<open>Receiving\<close>

definition h4_read :: "'u h4_env \<Rightarrow> nat \<Rightarrow> 'u \<Rightarrow> (int \<times> u8 list) \<times> 'u" where
  "h4_read E len u = uart_fifo_read E len u"

definition valid_type :: "u8 \<Rightarrow> bool" where
  "valid_type type \<longleftrightarrow> type = H4_CMD \<or> type = H4_ACL \<or> type = H4_ISO"

definition get_len :: "'u h4_env \<Rightarrow> u8 list \<Rightarrow> u8 \<Rightarrow> nat" where
  "get_len E hdr_buf type =
     (if type = H4_CMD then cmd_param_len E hdr_buf
      else if type = H4_ISO then iso_data_len E hdr_buf
      else if type = H4_ACL then acl_data_len E hdr_buf
      else 0)"

definition hdr_len :: "'u h4_env \<Rightarrow> u8 \<Rightarrow> nat" where
  "hdr_len E type =
     (if type = H4_CMD then sizeof_cmd_hdr E
      else if type = H4_ISO then sizeof_iso_hdr E
      else if type = H4_ACL then sizeof_acl_hdr E
      else 0)"

text \<open>
  One turn of the loop of \<open>rx_isr\<close>, a function per state. The result says whether the loop goes on;
  \<open>None\<close> is a write past the end of an object. The assertion of the \<open>default\<close> case fails.
\<close>

definition rx_idle :: "'u h4_env \<Rightarrow> 'u h4_machine \<Rightarrow> (bool \<times> 'u h4_machine) option" where
  "rx_idle E s =
     (let ((read, bs), u) = h4_read E 1 (env s);
          type = (case bs of [] \<Rightarrow> rx_type (rxv s) | b # _ \<Rightarrow> b);
          v = (rxv s)\<lparr>rx_type := type\<rparr>
      in Some (read \<noteq> 0, s\<lparr>env := u, rxv :=
           if read \<noteq> 0 \<and> valid_type type then v\<lparr>rx_remaining := int (hdr_len E type), rx_state := ST_HDR\<rparr>
           else v\<rparr>))"

definition rx_header_done :: "'u h4_env \<Rightarrow> int \<Rightarrow> 'u h4_machine \<Rightarrow> (bool \<times> 'u h4_machine) option" where
  "rx_header_done E read s =
     (let type = rx_type (rxv s); hdr = rx_hdr_buf (rxv s) in
      case bt_buf_get_tx E type (env s) of
        (None, u) \<Rightarrow> Some (False, s\<lparr>env := u, rxv := (rxv s)\<lparr>rx_buf := None, rx_state := ST_IDLE\<rparr>\<rparr>)
      | (Some buf, u) \<Rightarrow> do {
          let remaining = int (get_len E hdr type);
          header \<leftarrow> mem_read hdr (hdr_len E type);
          u1 \<leftarrow> hbuf_add_mem E buf header u;
          let v = (rxv s)\<lparr>rx_buf := Some buf, rx_remaining := remaining\<rparr>;
          if remaining > int (hbuf_tailroom E buf u1)
          then Some (read \<noteq> 0, s\<lparr>env := hbuf_unref E buf u1, rxv := v\<lparr>rx_state := ST_DISCARD\<rparr>\<rparr>)
          else Some (read \<noteq> 0, s\<lparr>env := u1, rxv := v\<lparr>rx_state := ST_PAYLOAD\<rparr>\<rparr>) })"

definition rx_hdr :: "'u h4_env \<Rightarrow> 'u h4_machine \<Rightarrow> (bool \<times> 'u h4_machine) option" where
  "rx_hdr E s =
     (let ((read, bs), u) = h4_read E (nat (rx_remaining (rxv s))) (env s);
          off = nat (int (hdr_len E (rx_type (rxv s))) - rx_remaining (rxv s));
          s1 = s\<lparr>env := u, rxv := (rxv s)\<lparr>rx_hdr_buf := overwrite_at off bs (rx_hdr_buf (rxv s)),
                 rx_remaining := rx_remaining (rxv s) - read\<rparr>\<rparr>
      in if length (rx_hdr_buf (rxv s)) < off + length bs then None
         else if rx_remaining (rxv s1) = 0 then rx_header_done E read s1
         else Some (read \<noteq> 0, s1))"

definition rx_payload :: "'u h4_env \<Rightarrow> 'u h4_machine \<Rightarrow> (bool \<times> 'u h4_machine) option" where
  "rx_payload E s = do {
     let ((read, bs), u) = h4_read E (nat (rx_remaining (rxv s))) (env s);
     buf \<leftarrow> rx_buf (rxv s);
     u1 \<leftarrow> hbuf_add_mem E buf bs u;
     let s1 = s\<lparr>env := u1, rxv := (rxv s)\<lparr>rx_remaining := rx_remaining (rxv s) - read\<rparr>\<rparr>;
     if rx_remaining (rxv s1) = 0
     then Some (read \<noteq> 0, s1\<lparr>env := h_fifo_put E TxQueue buf u1, rxv := (rxv s1)\<lparr>rx_state := ST_IDLE\<rparr>\<rparr>)
     else Some (read \<noteq> 0, s1) }"

definition rx_discard :: "'u h4_env \<Rightarrow> 'u h4_machine \<Rightarrow> (bool \<times> 'u h4_machine) option" where
  "rx_discard E s =
     (let to_read = min (nat (rx_remaining (rxv s))) H4_DISCARD_LEN;
          ((read, bs), u) = h4_read E to_read (env s);
          remaining = rx_remaining (rxv s) - read
      in Some (read \<noteq> 0, s\<lparr>env := u, rxv := (rxv s)\<lparr>rx_remaining := remaining,
           rx_state := if remaining = 0 then ST_IDLE else rx_state (rxv s)\<rparr>\<rparr>))"

definition rx_turn :: "'u h4_env \<Rightarrow> 'u h4_machine \<Rightarrow> (bool \<times> 'u h4_machine) option" where
  "rx_turn E s =
     (if rx_state (rxv s) = ST_IDLE then rx_idle E s
      else if rx_state (rxv s) = ST_HDR then rx_hdr E s
      else if rx_state (rxv s) = ST_PAYLOAD then rx_payload E s
      else if rx_state (rxv s) = ST_DISCARD then rx_discard E s
      else None)"

text \<open>The loop, which ends when a read finds nothing.\<close>

partial_function (option) rx_isr :: "'u h4_env \<Rightarrow> 'u h4_machine \<Rightarrow> 'u h4_machine option" where
  "rx_isr E s = do {
     (again, s1) \<leftarrow> rx_turn E s;
     if again then rx_isr E s1 else Some s1 }"

section \<open>Transmitting\<close>

definition tx_isr :: "'u h4_env \<Rightarrow> 'u h4_machine \<Rightarrow> 'u h4_machine option" where
  "tx_isr E s =
     (case (case tx_buf s of Some b \<Rightarrow> (Some b, env s) | None \<Rightarrow> h_fifo_get E UartTxQueue (env s)) of
        (None, u) \<Rightarrow> Some (s\<lparr>env := uart_irq_tx_disable E u, tx_buf := None\<rparr>)
      | (Some buf, u) \<Rightarrow> do {
          b \<leftarrow> hv_bufs (hview E u) buf;
          let (len, u1) = uart_fifo_fill E (hb_data b) u;
          let u2 = hbuf_pull E buf (nat len) u1;
          b2 \<leftarrow> hv_bufs (hview E u2) buf;
          if length (hb_data b2) = 0 then Some (s\<lparr>env := hbuf_unref E buf u2, tx_buf := None\<rparr>)
          else Some (s\<lparr>env := u2, tx_buf := Some buf\<rparr>) })"

partial_function (option) bt_uart_isr :: "'u h4_env \<Rightarrow> 'u h4_machine \<Rightarrow> 'u h4_machine option" where
  "bt_uart_isr E s =
     (let (updated, u) = uart_irq_update E (env s); s1 = s\<lparr>env := u\<rparr>
      in if \<not> (updated \<and> uart_irq_is_pending E (env s1)) then Some s1
         else do {
           s2 \<leftarrow> (if uart_irq_tx_ready E (env s1) then tx_isr E s1 else Some s1);
           s3 \<leftarrow> (if uart_irq_rx_ready E (env s2) then rx_isr E s2 else Some s2);
           bt_uart_isr E s3 })"

section \<open>The threads\<close>

text \<open>A turn of the thread that feeds the controller; it waits while its queue is empty.\<close>

definition tx_thread_turn :: "'u h4_env \<Rightarrow> 'u h4_machine \<Rightarrow> 'u h4_machine option" where
  "tx_thread_turn E s = do {
     (buf, u) \<leftarrow> h_fifo_wait E TxQueue (env s);
     let (err, u1) = bt_send E buf u;
     let u2 = (if err \<noteq> 0 then hbuf_unref E buf u1 else u1);
     Some (s\<lparr>env := h_yield E u2\<rparr>) }"

definition h4_send :: "'u h4_env \<Rightarrow> nat \<Rightarrow> 'u h4_machine \<Rightarrow> int \<times> 'u h4_machine" where
  "h4_send E buf s = (0, s\<lparr>env := uart_irq_tx_enable E (h_fifo_put E UartTxQueue buf (env s))\<rparr>)"

definition hci_uart_init :: "'u h4_env \<Rightarrow> 'u h4_machine \<Rightarrow> int \<times> 'u h4_machine" where
  "hci_uart_init E s =
     (let (err, s1) = (if usb_cdc_acm E then (let (r, u) = usb_enable E (env s) in (r, s\<lparr>env := u\<rparr>)) else (0, s))
      in if err \<noteq> 0 then (- EINVAL, s1)
         else if \<not> uart_is_ready E then (- EINVAL, s1)
         else
           let u1 = uart_irq_rx_disable E (env s1);
               u2 = uart_irq_tx_disable E u1;
               u3 = uart_irq_callback_set E u2;
               u4 = uart_irq_rx_enable E u3
           in (0, s1\<lparr>env := u4\<rparr>))"

text \<open>
  The main thread: the start, and the turns of its loop. The packed \<open>cc_evt\<close> is the type, the event
  header (code, length) and the event (the number of packets, the opcode).
\<close>

definition H4_EVT :: u8 where "H4_EVT = 0x04"

definition cc_evt :: "'u h4_env \<Rightarrow> u8 list" where
  "cc_evt E = (let cc = 1 # le16 (bt_op_nop E)
     in H4_EVT # bt_hci_evt_cmd_complete E # of_nat (length cc) # cc)"

definition bridge_main_start :: "'u h4_env \<Rightarrow> 'u h4_machine \<Rightarrow> 'u h4_machine" where
  "bridge_main_start E s =
     (let u1 = bt_enable_raw E (env s);
          u2 = fold (uart_poll_out E) (cc_evt E) u1
      in s\<lparr>env := h_thread_create E u2\<rparr>)"

definition bridge_main_turn :: "'u h4_env \<Rightarrow> 'u h4_machine \<Rightarrow> 'u h4_machine option" where
  "bridge_main_turn E s = do {
     (buf, u) \<leftarrow> h_fifo_wait E RxQueue (env s);
     let (err, s1) = h4_send E buf (s\<lparr>env := u\<rparr>);
     Some s1 }"

end
