(* ===== verification/Hci_Receiver.thy ===== *)
theory Hci_Receiver
  imports Hci_Bridge
begin

text \<open>
  The receive interrupt of the HCI bridge against two specifications. The first is an automaton that
  takes one byte, or one answer to a request for a buffer, at a time: whatever the sizes of the
  reads, the state machine of the interrupt is the automaton run over what it read. The second is a
  parser of the whole byte stream: as long as no buffer was refused and no packet was too long, the
  packets passed to the controller are those of the parser.
\<close>

section \<open>What the receiver relies on\<close>

text \<open>The formats of the HCI headers in the Bluetooth specification.\<close>

definition hci_format_laws :: "'u h4_env \<Rightarrow> bool" where
  "hci_format_laws E \<longleftrightarrow> sizeof_cmd_hdr E = 3 \<and> sizeof_acl_hdr E = 4 \<and> sizeof_iso_hdr E = 4 \<and>
     (\<forall>h. 3 \<le> length h \<longrightarrow> cmd_param_len E h = unat (h ! 2)) \<and>
     (\<forall>h. 4 \<le> length h \<longrightarrow> acl_data_len E h = unat (mk16 (h ! 2) (h ! 3)) \<and>
        iso_data_len E h = unat (mk16 (h ! 2) (h ! 3)) mod 2 ^ 14)"

text \<open>A read of the UART takes at most the bytes asked for.\<close>

definition uart_read_law :: "'u h4_env \<Rightarrow> bool" where
  "uart_read_law E \<longleftrightarrow> (\<forall>len u n bs u'. uart_fifo_read E len u = ((n, bs), u') \<longrightarrow>
     n = int (length bs) \<and> length bs \<le> len \<and>
     hview E u' = (hview E u)\<lparr>hv_log := hv_log (hview E u) @ map Byte bs\<rparr>)"

text \<open>Buffers: a new one is empty and holds at least a header; data that does not fit is a fault.\<close>

definition h4_alloc_law :: "'u h4_env \<Rightarrow> bool" where
  "h4_alloc_law E \<longleftrightarrow> (\<forall>t u h u'. bt_buf_get_tx E t u = (h, u') \<longrightarrow>
     (case h of
        None \<Rightarrow> hview E u' = (hview E u)\<lparr>hv_log := hv_log (hview E u) @ [Room None]\<rparr>
      | Some b \<Rightarrow> hv_bufs (hview E u) b = None \<and> (\<exists>room \<ge> 4. hview E u' =
          (hview E u)\<lparr>hv_log := hv_log (hview E u) @ [Room (Some room)],
             hv_bufs := (hv_bufs (hview E u))(b \<mapsto> \<lparr>hb_type = t, hb_room = room, hb_data = []\<rparr>)\<rparr>)))"

definition h4_buf_laws :: "'u h4_env \<Rightarrow> bool" where
  "h4_buf_laws E \<longleftrightarrow> (\<forall>b r d u. hv_bufs (hview E u) b = Some r \<longrightarrow>
     (case hbuf_add_mem E b d u of
        None \<Rightarrow> hb_room r < length (hb_data r) + length d
      | Some u' \<Rightarrow> hview E u' =
          (hview E u)\<lparr>hv_bufs := (hv_bufs (hview E u))(b \<mapsto> r\<lparr>hb_data := hb_data r @ d\<rparr>)\<rparr>) \<and>
     hbuf_tailroom E b u = hb_room r - length (hb_data r) \<and>
     hview E (hbuf_unref E b u) = (hview E u)\<lparr>hv_bufs := (hv_bufs (hview E u))(b := None)\<rparr>)"

text \<open>Putting a packet into the queue to the controller, the first of the program's queues.\<close>

definition h4_put_law :: "'u h4_env \<Rightarrow> bool" where
  "h4_put_law E \<longleftrightarrow> (\<forall>b r u. hv_bufs (hview E u) b = Some r \<longrightarrow>
     hview E (h_fifo_put E TxQueue b u) = (hview E u)
       \<lparr>hv_fifo := (hv_fifo (hview E u))(TxQueue := hv_fifo (hview E u) TxQueue @ [b]),
        hv_passed := hv_passed (hview E u) @ [(hb_type r, hb_data r)]\<rparr>)"

definition h4_rx_laws :: "'u h4_env \<Rightarrow> bool" where
  "h4_rx_laws E \<longleftrightarrow> hci_format_laws E \<and> uart_read_law E \<and> h4_alloc_law E \<and> h4_buf_laws E \<and> h4_put_law E"

text \<open>
  For termination: a UART nothing arrives at meanwhile. A read takes a first part of what waits there,
  something if anything waits, and no other call touches it.
\<close>

definition h4_quiet_laws :: "'u h4_env \<Rightarrow> bool" where
  "h4_quiet_laws E \<longleftrightarrow> (\<forall>len u n bs u'. uart_fifo_read E len u = ((n, bs), u') \<longrightarrow>
       hwaiting E u = bs @ hwaiting E u' \<and> (0 < len \<and> hwaiting E u \<noteq> [] \<longrightarrow> bs \<noteq> [])) \<and>
     (\<forall>t u. hwaiting E (snd (bt_buf_get_tx E t u)) = hwaiting E u) \<and>
     (\<forall>b d u u'. hbuf_add_mem E b d u = Some u' \<longrightarrow> hwaiting E u' = hwaiting E u) \<and>
     (\<forall>b u. hwaiting E (hbuf_unref E b u) = hwaiting E u) \<and>
     (\<forall>q b u. hwaiting E (h_fifo_put E q b u) = hwaiting E u)"

text \<open>The laws as rules.\<close>

lemma h4_read_view:
  assumes "h4_rx_laws E" and "h4_read E len u = ((n, bs), u')"
  shows "n = int (length bs)" and "length bs \<le> len"
    and "hview E u' = (hview E u)\<lparr>hv_log := hv_log (hview E u) @ map Byte bs\<rparr>"
  using assms unfolding h4_rx_laws_def uart_read_law_def h4_read_def by blast+

lemma h4_alloc_view:
  assumes "h4_rx_laws E"
  shows "bt_buf_get_tx E t u = (None, u') \<Longrightarrow>
           hview E u' = (hview E u)\<lparr>hv_log := hv_log (hview E u) @ [Room None]\<rparr>"
    and "bt_buf_get_tx E t u = (Some b, u') \<Longrightarrow> hv_bufs (hview E u) b = None \<and> (\<exists>room \<ge> 4. hview E u' =
          (hview E u)\<lparr>hv_log := hv_log (hview E u) @ [Room (Some room)],
             hv_bufs := (hv_bufs (hview E u))(b \<mapsto> \<lparr>hb_type = t, hb_room = room, hb_data = []\<rparr>)\<rparr>)"
  using assms unfolding h4_rx_laws_def h4_alloc_law_def by fastforce+

lemma h4_add_view:
  assumes "h4_rx_laws E" and "hv_bufs (hview E u) b = Some r" and "length (hb_data r) + length d \<le> hb_room r"
  obtains u' where "hbuf_add_mem E b d u = Some u'"
    and "hview E u' = (hview E u)\<lparr>hv_bufs := (hv_bufs (hview E u))(b \<mapsto> r\<lparr>hb_data := hb_data r @ d\<rparr>)\<rparr>"
proof -
  have "case hbuf_add_mem E b d u of None \<Rightarrow> hb_room r < length (hb_data r) + length d
      | Some u' \<Rightarrow> hview E u' =
          (hview E u)\<lparr>hv_bufs := (hv_bufs (hview E u))(b \<mapsto> r\<lparr>hb_data := hb_data r @ d\<rparr>)\<rparr>"
    using assms(1,2) by (simp only: h4_rx_laws_def h4_buf_laws_def)
  with assms(3) that show ?thesis by (cases "hbuf_add_mem E b d u") auto
qed

lemma h4_buf_view:
  assumes "h4_rx_laws E" and "hv_bufs (hview E u) b = Some r"
  shows "hbuf_tailroom E b u = hb_room r - length (hb_data r)"
    and "hview E (hbuf_unref E b u) = (hview E u)\<lparr>hv_bufs := (hv_bufs (hview E u))(b := None)\<rparr>"
    and "hview E (h_fifo_put E TxQueue b u) = (hview E u)
       \<lparr>hv_fifo := (hv_fifo (hview E u))(TxQueue := hv_fifo (hview E u) TxQueue @ [b]),
        hv_passed := hv_passed (hview E u) @ [(hb_type r, hb_data r)]\<rparr>"
  using assms unfolding h4_rx_laws_def h4_buf_laws_def h4_put_law_def by blast+

lemma h4_quiet_view:
  assumes "h4_quiet_laws E"
  shows "h4_read E len u = ((n, bs), u') \<Longrightarrow>
           hwaiting E u = bs @ hwaiting E u' \<and> (0 < len \<and> hwaiting E u \<noteq> [] \<longrightarrow> bs \<noteq> [])"
    and "bt_buf_get_tx E t u = (h, u') \<Longrightarrow> hwaiting E u' = hwaiting E u"
    and "hbuf_add_mem E b d u = Some u' \<Longrightarrow> hwaiting E u' = hwaiting E u"
    and "hwaiting E (hbuf_unref E b u) = hwaiting E u" and "hwaiting E (h_fifo_put E q b u) = hwaiting E u"
  using assms unfolding h4_quiet_laws_def h4_read_def by (blast, metis snd_conv, blast+)

lemma hdr_len_bounds:
  assumes "h4_rx_laws E" and "valid_type t"
  shows "3 \<le> hdr_len E t" and "hdr_len E t \<le> 4"
  using assms by (auto simp: h4_rx_laws_def hci_format_laws_def valid_type_def hdr_len_def)

text \<open>The length field lies in the header, whatever follows it in the buffer.\<close>

lemma get_len_take:
  assumes "h4_rx_laws E" and "valid_type t" and "length h = 4"
  shows "get_len E (take (hdr_len E t) h) t = get_len E h t"
  using assms by (auto simp: h4_rx_laws_def hci_format_laws_def valid_type_def hdr_len_def get_len_def h4_consts)

section \<open>The automaton\<close>

text \<open>Inside a packet it keeps the type, the bytes so far and how many are to come.\<close>

datatype h4_phase = Idle | Header u8 "u8 list" | Payload u8 "u8 list" nat | Discard nat

type_synonym h4_state = "h4_phase \<times> (u8 \<times> u8 list) list"

text \<open>\<open>None\<close>: the event cannot happen in this phase.\<close>

fun h4_step :: "'u h4_env \<Rightarrow> h4_state \<Rightarrow> h4_event \<Rightarrow> h4_state option" where
  "h4_step E (Idle, ps) (Byte b) = Some (if valid_type b then Header b [] else Idle, ps)"
| "h4_step E (Header t h, ps) (Byte b) =
     (if length h < hdr_len E t then Some (Header t (h @ [b]), ps) else None)"
| "h4_step E (Header t h, ps) (Room room) =
     (if length h \<noteq> hdr_len E t then None
      else Some (case room of
          None \<Rightarrow> (Idle, ps)
        | Some n \<Rightarrow>
            if n - hdr_len E t < get_len E h t then (Discard (get_len E h t), ps)
            else if get_len E h t = 0 then (Idle, ps @ [(t, h)])
            else (Payload t h (get_len E h t), ps)))"
| "h4_step E (Payload t d (Suc n), ps) (Byte b) =
     Some (if n = 0 then (Idle, ps @ [(t, d @ [b])]) else (Payload t (d @ [b]) n, ps))"
| "h4_step E (Discard (Suc n), ps) (Byte b) = Some (if n = 0 then Idle else Discard n, ps)"
| "h4_step E _ _ = None"

fun h4_run :: "'u h4_env \<Rightarrow> h4_state \<Rightarrow> h4_event list \<Rightarrow> h4_state option" where
  "h4_run E st [] = Some st"
| "h4_run E st (e # es) = do { st' \<leftarrow> h4_step E st e; h4_run E st' es }"

lemma h4_run_append: "h4_run E st (es @ fs) = do { st' \<leftarrow> h4_run E st es; h4_run E st' fs }"
  by (induction es arbitrary: st) (auto split: Option.bind_splits)

text \<open>Several bytes of one kind at once.\<close>

lemma h4_run_header:
  "length h + length bs \<le> hdr_len E t \<Longrightarrow> h4_run E (Header t h, ps) (map Byte bs) = Some (Header t (h @ bs), ps)"
  by (induction bs arbitrary: h) auto

lemma h4_run_payload:
  assumes "length bs \<le> n" and "0 < n"
  shows "h4_run E (Payload t d n, ps) (map Byte bs) =
     Some (if length bs = n then (Idle, ps @ [(t, d @ bs)]) else (Payload t (d @ bs) (n - length bs), ps))"
  using assms
proof (induction bs arbitrary: d n)
  case (Cons b bs)
  then obtain m where n: "n = Suc m" by (cases n) auto
  with Cons show ?case by (cases m) auto
qed simp

lemma h4_run_discard:
  assumes "length bs \<le> n" and "0 < n"
  shows "h4_run E (Discard n, ps) (map Byte bs) =
     Some (if length bs = n then Idle else Discard (n - length bs), ps)"
  using assms
proof (induction bs arbitrary: n)
  case (Cons b bs)
  then obtain m where n: "n = Suc m" by (cases n) auto
  with Cons show ?case by (cases m) auto
qed simp

section \<open>The interrupt implements the automaton\<close>

text \<open>The phase the static variables stand for. A packet without payload counts as passed already.\<close>

definition h4_abs :: "'u h4_env \<Rightarrow> 'u h4_machine \<Rightarrow> h4_state" where
  "h4_abs E s = (let v = rxv s; ps = hv_passed (hview E (env s)) in
     if rx_state v = ST_IDLE then (Idle, ps)
     else if rx_state v = ST_HDR then
       (Header (rx_type v) (take (hdr_len E (rx_type v) - nat (rx_remaining v)) (rx_hdr_buf v)), ps)
     else if rx_state v = ST_DISCARD then (Discard (nat (rx_remaining v)), ps)
     else (case Option.bind (rx_buf v) (hv_bufs (hview E (env s))) of
         None \<Rightarrow> (Idle, ps)
       | Some r \<Rightarrow> if rx_remaining v = 0 then (Idle, ps @ [(hb_type r, hb_data r)])
                  else (Payload (hb_type r) (hb_data r) (nat (rx_remaining v)), ps)))"

text \<open>The invariant: the counters and the objects they count in agree.\<close>

definition h4_inv :: "'u h4_env \<Rightarrow> 'u h4_machine \<Rightarrow> bool" where
  "h4_inv E s \<longleftrightarrow> (let v = rxv s in length (rx_hdr_buf v) = 4 \<and>
     (rx_state v = ST_IDLE \<or>
      rx_state v = ST_HDR \<and> valid_type (rx_type v) \<and> 0 < rx_remaining v \<and>
        rx_remaining v \<le> int (hdr_len E (rx_type v)) \<or>
      rx_state v = ST_PAYLOAD \<and> 0 \<le> rx_remaining v \<and>
        (\<exists>b r. rx_buf v = Some b \<and> hv_bufs (hview E (env s)) b = Some r \<and>
           int (length (hb_data r)) + rx_remaining v \<le> int (hb_room r)) \<or>
      rx_state v = ST_DISCARD \<and> 0 < rx_remaining v))"

text \<open>Between interrupts no complete packet is left in the receiver.\<close>

definition h4_settled :: "'u h4_machine \<Rightarrow> bool" where
  "h4_settled s \<longleftrightarrow> (rx_state (rxv s) = ST_PAYLOAD \<longrightarrow> rx_remaining (rxv s) \<noteq> 0)"

text \<open>What one turn does, in terms of the automaton.\<close>

definition h4_follows :: "'u h4_env \<Rightarrow> 'u h4_machine \<Rightarrow> 'u h4_machine \<Rightarrow> bool" where
  "h4_follows E s s' \<longleftrightarrow> h4_inv E s' \<and> (\<exists>es. hv_log (hview E (env s')) = hv_log (hview E (env s)) @ es \<and>
     h4_run E (h4_abs E s) es = Some (h4_abs E s'))"

lemma h4_follows_trans:
  assumes "h4_follows E s s1" and "h4_follows E s1 s2"
  shows "h4_follows E s s2"
proof -
  obtain es fs where "hv_log (hview E (env s1)) = hv_log (hview E (env s)) @ es"
    "h4_run E (h4_abs E s) es = Some (h4_abs E s1)"
    "hv_log (hview E (env s2)) = hv_log (hview E (env s1)) @ fs"
    "h4_run E (h4_abs E s1) fs = Some (h4_abs E s2)"
    using assms by (auto simp: h4_follows_def)
  then have "hv_log (hview E (env s2)) = hv_log (hview E (env s)) @ (es @ fs)"
    "h4_run E (h4_abs E s) (es @ fs) = Some (h4_abs E s2)"
    by (simp_all add: h4_run_append)
  with assms(2) show ?thesis unfolding h4_follows_def by blast
qed

lemma rx_idle_follows:
  assumes laws: "h4_rx_laws E" and inv: "h4_inv E s" and st: "rx_state (rxv s) = ST_IDLE"
  obtains again s' where "rx_idle E s = Some (again, s')" and "h4_follows E s s'" and "h4_settled s'"
proof -
  obtain n bs u where rd: "h4_read E (Suc 0) (env s) = ((n, bs), u)" by (metis prod.collapse)
  note v = h4_read_view[OF laws rd]
  have len: "length (rx_hdr_buf (rxv s)) = 4" using inv by (simp add: h4_inv_def Let_def)
  have b: "bs = [] \<or> (\<exists>b. bs = [b])" using v(2) by (cases bs) auto
  obtain again s' where run: "rx_idle E s = Some (again, s')" by (simp add: rx_idle_def rd Let_def)
  have "h4_follows E s s'" using b
  proof
    assume "bs = []"
    then have "s' = s\<lparr>env := u\<rparr>" "hview E u = hview E (env s)"
      using run v by (auto simp: rx_idle_def rd)
    then show ?thesis using st inv by (simp add: h4_follows_def h4_inv_def h4_abs_def Let_def)
  next
    assume "\<exists>b. bs = [b]"
    then obtain b where b: "bs = [b]" by blast
    then have s': "s' = s\<lparr>env := u, rxv := (if valid_type b
        then (rxv s)\<lparr>rx_type := b, rx_remaining := int (hdr_len E b), rx_state := ST_HDR\<rparr>
        else (rxv s)\<lparr>rx_type := b\<rparr>)\<rparr>"
      using run v(1) by (simp add: rx_idle_def rd Let_def split: if_splits)
    show ?thesis
      unfolding h4_follows_def
    proof (intro conjI exI[of _ "[Byte b]"])
      show "h4_inv E s'" using len st hdr_len_bounds[OF laws, of b]
        by (auto simp: s' h4_inv_def Let_def)
      show "h4_run E (h4_abs E s) [Byte b] = Some (h4_abs E s')"
        using st v(3) by (auto simp: s' h4_abs_def Let_def ST_IDLE_def ST_HDR_def)
    qed (simp add: s' v(3) b)
  qed
  moreover have "h4_settled s'"
    using run st by (auto simp: rx_idle_def rd h4_settled_def ST_IDLE_def ST_HDR_def ST_PAYLOAD_def Let_def split: if_splits)
  ultimately show ?thesis by (rule that[OF run])
qed

text \<open>The two outcomes of a complete header.\<close>

lemma rx_header_done_shape:
  assumes laws: "h4_rx_laws E" and valid: "valid_type (rx_type (rxv s))"
    and len: "length (rx_hdr_buf (rxv s)) = 4" and read: "read \<noteq> 0"
  defines "t \<equiv> rx_type (rxv s)" and "h \<equiv> rx_hdr_buf (rxv s)"
  obtains (refused) u where "rx_header_done E read s =
        Some (False, s\<lparr>env := u, rxv := (rxv s)\<lparr>rx_buf := None, rx_state := ST_IDLE\<rparr>\<rparr>)"
      and "hview E u = (hview E (env s))\<lparr>hv_log := hv_log (hview E (env s)) @ [Room None]\<rparr>"
      and "h4_quiet_laws E \<Longrightarrow> hwaiting E u = hwaiting E (env s)"
  | (too_long) b room u where "rx_header_done E read s =
        Some (True, s\<lparr>env := u, rxv := (rxv s)\<lparr>rx_buf := Some b, rx_remaining := int (get_len E h t), rx_state := ST_DISCARD\<rparr>\<rparr>)"
      and "room - hdr_len E t < get_len E h t"
      and "hview E u = (hview E (env s))\<lparr>hv_log := hv_log (hview E (env s)) @ [Room (Some room)]\<rparr>"
      and "h4_quiet_laws E \<Longrightarrow> hwaiting E u = hwaiting E (env s)"
  | (granted) b room u where "rx_header_done E read s =
        Some (True, s\<lparr>env := u, rxv := (rxv s)\<lparr>rx_buf := Some b, rx_remaining := int (get_len E h t), rx_state := ST_PAYLOAD\<rparr>\<rparr>)"
      and "get_len E h t \<le> room - hdr_len E t" and "4 \<le> room" and "hv_bufs (hview E (env s)) b = None"
      and "hview E u = (hview E (env s))\<lparr>hv_log := hv_log (hview E (env s)) @ [Room (Some room)],
        hv_bufs := (hv_bufs (hview E (env s)))(b \<mapsto> \<lparr>hb_type = t, hb_room = room, hb_data = take (hdr_len E t) h\<rparr>)\<rparr>"
      and "h4_quiet_laws E \<Longrightarrow> hwaiting E u = hwaiting E (env s)"
proof -
  let ?hdr = "take (hdr_len E t) h"
  note hl = hdr_len_bounds[OF laws valid, folded t_def]
  have hb: "length ?hdr = hdr_len E t" "mem_read h (hdr_len E t) = Some ?hdr"
    using hl len by (simp_all add: h_def)
  obtain g u where get: "bt_buf_get_tx E t (env s) = (g, u)" by fastforce
  show ?thesis
  proof (cases g)
    case None
    show ?thesis
    proof (rule refused)
      show "rx_header_done E read s = Some (False, s\<lparr>env := u, rxv := (rxv s)\<lparr>rx_buf := None, rx_state := ST_IDLE\<rparr>\<rparr>)"
        using get None by (simp add: rx_header_done_def t_def Let_def)
      show "hview E u = (hview E (env s))\<lparr>hv_log := hv_log (hview E (env s)) @ [Room None]\<rparr>"
        using h4_alloc_view(1)[OF laws] get None by blast
    qed (rule h4_quiet_view(2)[OF _ get])
  next
    case (Some b)
    obtain room where room: "4 \<le> room" "hv_bufs (hview E (env s)) b = None" and v: "hview E u = (hview E (env s))\<lparr>
        hv_log := hv_log (hview E (env s)) @ [Room (Some room)],
        hv_bufs := (hv_bufs (hview E (env s)))(b \<mapsto> \<lparr>hb_type = t, hb_room = room, hb_data = []\<rparr>)\<rparr>"
      using h4_alloc_view(2)[OF laws] get Some by blast
    let ?r = "\<lparr>hb_type = t, hb_room = room, hb_data = ?hdr\<rparr>"
    obtain u1 where u1: "hbuf_add_mem E b ?hdr u = Some u1" and v1: "hview E u1 = (hview E u)\<lparr>hv_bufs :=
        (hv_bufs (hview E u))(b \<mapsto> \<lparr>hb_type = t, hb_room = room, hb_data = []\<rparr>\<lparr>hb_data := [] @ ?hdr\<rparr>)\<rparr>"
      by (rule h4_add_view[OF laws, of u b "\<lparr>hb_type = t, hb_room = room, hb_data = []\<rparr>" ?hdr])
        (use v room hl in simp_all)
    have b1: "hv_bufs (hview E u1) b = Some ?r" by (simp add: v1)
    have tail: "hbuf_tailroom E b u1 = room - hdr_len E t"
      using h4_buf_view(1)[OF laws b1] hb(1) by simp
    have w: "h4_quiet_laws E \<Longrightarrow> hwaiting E u1 = hwaiting E (env s)"
      using h4_quiet_view(2,3) get u1 by metis
    show ?thesis
    proof (cases "room - hdr_len E t < get_len E h t")
      case True
      show ?thesis
      proof (rule too_long[OF _ True])
        show "rx_header_done E read s = Some (True, s\<lparr>env := hbuf_unref E b u1, rxv := (rxv s)\<lparr>rx_buf := Some b,
            rx_remaining := int (get_len E h t), rx_state := ST_DISCARD\<rparr>\<rparr>)"
          using read u1 hb(2) tail get True Some by (simp add: rx_header_done_def t_def h_def Let_def)
        show "hview E (hbuf_unref E b u1) =
            (hview E (env s))\<lparr>hv_log := hv_log (hview E (env s)) @ [Room (Some room)]\<rparr>"
          using room(2) by (simp add: h4_buf_view(2)[OF laws b1] v1 v fun_upd_idem)
      qed (simp add: w h4_quiet_view(4))
    next
      case False
      show ?thesis
      proof (rule granted[OF _ _ room])
        show "rx_header_done E read s = Some (True, s\<lparr>env := u1, rxv := (rxv s)\<lparr>rx_buf := Some b,
            rx_remaining := int (get_len E h t), rx_state := ST_PAYLOAD\<rparr>\<rparr>)"
          using read u1 hb(2) tail get False Some by (simp add: rx_header_done_def t_def h_def Let_def)
      qed (use False v v1 w in simp_all)
    qed
  qed
qed

lemma rx_header_done_follows:
  assumes laws: "h4_rx_laws E" and valid: "valid_type (rx_type (rxv s))" and st: "rx_state (rxv s) = ST_HDR"
    and rem: "rx_remaining (rxv s) = 0" and len: "length (rx_hdr_buf (rxv s)) = 4" and read: "read \<noteq> 0"
    and run: "rx_header_done E read s = Some (again, s')"
  shows "h4_follows E s s' \<and> (again \<or> h4_settled s')"
proof -
  let ?t = "rx_type (rxv s)" and ?h = "rx_hdr_buf (rxv s)"
  let ?hdr = "take (hdr_len E ?t) ?h"
  note hl = hdr_len_bounds[OF laws valid]
  have gl: "get_len E ?hdr ?t = get_len E ?h ?t" by (rule get_len_take[OF laws valid len])
  have abs: "h4_abs E s = (Header ?t ?hdr, hv_passed (hview E (env s)))"
    using st rem by (simp add: h4_abs_def Let_def h4_consts)
  have hb: "length ?hdr = hdr_len E ?t" using hl len by simp
  show ?thesis
  proof (cases rule: rx_header_done_shape[OF laws valid len read])
    case (1 u)
    then have s': "\<not> again" "s' = s\<lparr>env := u, rxv := (rxv s)\<lparr>rx_buf := None, rx_state := ST_IDLE\<rparr>\<rparr>" using run by simp_all
    have "h4_abs E s' = (Idle, hv_passed (hview E (env s)))" "h4_inv E s'" "h4_settled s'"
      using len 1(2) by (simp_all add: s' h4_abs_def h4_inv_def h4_settled_def h4_consts)
    then show ?thesis using hb 1(2)
      by (auto simp: h4_follows_def abs s'(2) intro!: exI[of _ "[Room None]"])
  next
    case (2 b room u)
    then have s': "again" "s' = s\<lparr>env := u, rxv := (rxv s)\<lparr>rx_buf := Some b,
        rx_remaining := int (get_len E ?h ?t), rx_state := ST_DISCARD\<rparr>\<rparr>" using run by simp_all
    have "h4_abs E s' = (Discard (get_len E ?h ?t), hv_passed (hview E (env s)))" "h4_inv E s'"
      using len 2(2,3) by (simp_all add: s' h4_abs_def h4_inv_def h4_consts)
    then show ?thesis using hb 2(2,3) gl s'(1)
      by (auto simp: h4_follows_def abs s'(2) intro!: exI[of _ "[Room (Some room)]"])
  next
    case (3 b room u)
    then have s': "again" "s' = s\<lparr>env := u, rxv := (rxv s)\<lparr>rx_buf := Some b,
        rx_remaining := int (get_len E ?h ?t), rx_state := ST_PAYLOAD\<rparr>\<rparr>" using run by simp_all
    have "h4_abs E s' = (if get_len E ?h ?t = 0 then (Idle, hv_passed (hview E (env s)) @ [(?t, ?hdr)])
        else (Payload ?t ?hdr (get_len E ?h ?t), hv_passed (hview E (env s))))" "h4_inv E s'"
      using len hl 3(2,3,5) by (auto simp: s' h4_abs_def h4_inv_def h4_consts)
    then show ?thesis using hb 3(2,5) gl s'(1)
      by (auto simp: h4_follows_def abs s'(2) intro!: exI[of _ "[Room (Some room)]"])
  qed
qed

lemma rx_header_done_total:
  assumes "h4_rx_laws E" and "valid_type (rx_type (rxv s))" and "length (rx_hdr_buf (rxv s)) = 4" and "read \<noteq> 0"
  obtains again s' where "rx_header_done E read s = Some (again, s')"
  by (cases rule: rx_header_done_shape[OF assms]) (use that in blast)+

lemma rx_hdr_follows:
  assumes laws: "h4_rx_laws E" and inv: "h4_inv E s" and st: "rx_state (rxv s) = ST_HDR"
  obtains again s' where "rx_hdr E s = Some (again, s')" and "h4_follows E s s'" and "again \<or> h4_settled s'"
proof -
  let ?v = "rxv s"
  obtain n bs u where rd: "h4_read E (nat (rx_remaining ?v)) (env s) = ((n, bs), u)" by (metis prod.collapse)
  note v = h4_read_view[OF laws rd]
  have i: "length (rx_hdr_buf ?v) = 4" "valid_type (rx_type ?v)" "0 < rx_remaining ?v"
    "rx_remaining ?v \<le> int (hdr_len E (rx_type ?v))"
    using inv st by (auto simp: h4_inv_def Let_def ST_IDLE_def ST_HDR_def ST_PAYLOAD_def ST_DISCARD_def)
  note hl = hdr_len_bounds[OF laws i(2)]
  define off where "off = nat (int (hdr_len E (rx_type ?v)) - rx_remaining ?v)"
  have off: "off = hdr_len E (rx_type ?v) - nat (rx_remaining ?v)" "off + length bs \<le> hdr_len E (rx_type ?v)"
    using i v(2) by (simp_all add: off_def)
  define s1 where "s1 = s\<lparr>env := u, rxv := ?v\<lparr>rx_hdr_buf := overwrite_at off bs (rx_hdr_buf ?v),
      rx_remaining := rx_remaining ?v - n\<rparr>\<rparr>"
  have run: "rx_hdr E s = (if rx_remaining (rxv s1) = 0 then rx_header_done E n s1 else Some (n \<noteq> 0, s1))"
    using off(2) hl i(1) by (simp add: rx_hdr_def rd Let_def s1_def off_def)
  have s1: "length (rx_hdr_buf (rxv s1)) = 4" "rx_state (rxv s1) = ST_HDR" "rx_type (rxv s1) = rx_type ?v"
    "rx_remaining (rxv s1) = rx_remaining ?v - int (length bs)"
    "hview E (env s1) = (hview E (env s))\<lparr>hv_log := hv_log (hview E (env s)) @ map Byte bs\<rparr>"
    using off(2) hl i(1) v st by (simp_all add: s1_def)
  have fed: "h4_run E (h4_abs E s) (map Byte bs) = Some (Header (rx_type ?v) (take (off + length bs) (rx_hdr_buf (rxv s1))),
      hv_passed (hview E (env s)))"
    using st off i(1) hl
    by (simp add: h4_abs_def Let_def ST_HDR_def ST_IDLE_def h4_run_header s1_def)
  have abs1: "h4_abs E s1 = (Header (rx_type ?v) (take (off + length bs) (rx_hdr_buf (rxv s1))), hv_passed (hview E (env s)))"
  proof -
    have "hdr_len E (rx_type ?v) - nat (rx_remaining ?v - int (length bs)) = off + length bs"
      using off i v(2) by linarith
    with s1 show ?thesis by (simp add: h4_abs_def Let_def ST_HDR_def ST_IDLE_def)
  qed
  show ?thesis
  proof (cases "rx_remaining (rxv s1) = 0")
    case True
    have n: "n \<noteq> 0" using True s1(4) i(3) v(1) by simp
    have valid: "valid_type (rx_type (rxv s1))" by (simp only: s1(3) i(2))
    obtain again s' where d1: "rx_header_done E n s1 = Some (again, s')"
      by (rule rx_header_done_total[OF laws valid s1(1) n])
    then have d: "rx_header_done E n s1 = Some (again, s')" "h4_follows E s1 s'" "again \<or> h4_settled s'"
      using rx_header_done_follows[OF laws valid s1(2) True s1(1) n d1] by simp_all
    obtain es where es: "h4_inv E s'" "hv_log (hview E (env s')) = hv_log (hview E (env s1)) @ es"
      "h4_run E (h4_abs E s1) es = Some (h4_abs E s')"
      using d(2) by (auto simp: h4_follows_def)
    have "h4_run E (h4_abs E s) (map Byte bs @ es) = Some (h4_abs E s')"
      unfolding h4_run_append fed using es(3) by (simp add: abs1)
    with es(1,2) s1(5) have "h4_follows E s s'" by (auto simp: h4_follows_def intro!: exI[of _ "map Byte bs @ es"])
    with True d run that show ?thesis by simp
  next
    case False
    have "h4_inv E s1" using s1 i v(2) False by (auto simp: h4_inv_def Let_def)
    moreover have "hv_log (hview E (env s1)) = hv_log (hview E (env s)) @ map Byte bs" by (simp add: s1(5))
    moreover have "h4_run E (h4_abs E s) (map Byte bs) = Some (h4_abs E s1)" by (simp add: fed abs1)
    ultimately have "h4_follows E s s1" unfolding h4_follows_def by blast
    moreover have "h4_settled s1" by (simp add: h4_settled_def s1(2) ST_HDR_def ST_PAYLOAD_def)
    ultimately show ?thesis using False run that by simp
  qed
qed

lemma rx_payload_shape:
  assumes laws: "h4_rx_laws E" and inv: "h4_inv E s" and st: "rx_state (rxv s) = ST_PAYLOAD"
  obtains bs b r u where "length bs \<le> nat (rx_remaining (rxv s))" and "rx_buf (rxv s) = Some b"
    and "hv_bufs (hview E (env s)) b = Some r"
    and "rx_payload E s = Some (bs \<noteq> [], if rx_remaining (rxv s) = int (length bs)
           then s\<lparr>env := h_fifo_put E TxQueue b u, rxv := (rxv s)\<lparr>rx_remaining := 0, rx_state := ST_IDLE\<rparr>\<rparr>
           else s\<lparr>env := u, rxv := (rxv s)\<lparr>rx_remaining := rx_remaining (rxv s) - int (length bs)\<rparr>\<rparr>)"
    and "hview E u = (hview E (env s))\<lparr>hv_log := hv_log (hview E (env s)) @ map Byte bs,
           hv_bufs := (hv_bufs (hview E (env s)))(b \<mapsto> r\<lparr>hb_data := hb_data r @ bs\<rparr>)\<rparr>"
    and "hview E (h_fifo_put E TxQueue b u) = (hview E u)
           \<lparr>hv_fifo := (hv_fifo (hview E u))(TxQueue := hv_fifo (hview E u) TxQueue @ [b]),
            hv_passed := hv_passed (hview E u) @ [(hb_type r, hb_data r @ bs)]\<rparr>"
    and "h4_quiet_laws E \<Longrightarrow> hwaiting E (env s) = bs @ hwaiting E u \<and>
           (0 < rx_remaining (rxv s) \<and> hwaiting E (env s) \<noteq> [] \<longrightarrow> bs \<noteq> [])"
proof -
  let ?v = "rxv s"
  obtain n bs u where rd: "h4_read E (nat (rx_remaining ?v)) (env s) = ((n, bs), u)" by (metis prod.collapse)
  note v = h4_read_view[OF laws rd]
  obtain b r where i: "0 \<le> rx_remaining ?v" "rx_buf ?v = Some b"
    "hv_bufs (hview E (env s)) b = Some r" "int (length (hb_data r)) + rx_remaining ?v \<le> int (hb_room r)"
    using inv st by (auto simp: h4_inv_def Let_def h4_consts)
  let ?r = "r\<lparr>hb_data := hb_data r @ bs\<rparr>"
  obtain u1 where u1: "hbuf_add_mem E b bs u = Some u1"
    "hview E u1 = (hview E u)\<lparr>hv_bufs := (hv_bufs (hview E u))(b \<mapsto> ?r)\<rparr>"
    by (rule h4_add_view[OF laws, of u b r bs]) (use v i in simp_all)
  have b1: "hv_bufs (hview E u1) b = Some ?r" by (simp add: u1(2))
  show ?thesis
  proof (rule that[of bs b r u1])
    show "length bs \<le> nat (rx_remaining ?v)" "rx_buf ?v = Some b" "hv_bufs (hview E (env s)) b = Some r"
      using v(2) i by simp_all
    show "hview E u1 = (hview E (env s))\<lparr>hv_log := hv_log (hview E (env s)) @ map Byte bs,
           hv_bufs := (hv_bufs (hview E (env s)))(b \<mapsto> r\<lparr>hb_data := hb_data r @ bs\<rparr>)\<rparr>"
      unfolding u1(2) v(3) by simp
    show "rx_payload E s = Some (bs \<noteq> [], if rx_remaining (rxv s) = int (length bs)
           then s\<lparr>env := h_fifo_put E TxQueue b u1, rxv := ?v\<lparr>rx_remaining := 0, rx_state := ST_IDLE\<rparr>\<rparr>
           else s\<lparr>env := u1, rxv := ?v\<lparr>rx_remaining := rx_remaining (rxv s) - int (length bs)\<rparr>\<rparr>)"
      using u1(1) i(2) v(1) by (simp add: rx_payload_def rd Let_def)
    show "hview E (h_fifo_put E TxQueue b u1) = (hview E u1)
           \<lparr>hv_fifo := (hv_fifo (hview E u1))(TxQueue := hv_fifo (hview E u1) TxQueue @ [b]),
            hv_passed := hv_passed (hview E u1) @ [(hb_type r, hb_data r @ bs)]\<rparr>"
      using h4_buf_view(3)[OF laws b1] by simp
    show "hwaiting E (env s) = bs @ hwaiting E u1 \<and> (0 < rx_remaining ?v \<and> hwaiting E (env s) \<noteq> [] \<longrightarrow> bs \<noteq> [])"
      if q: "h4_quiet_laws E"
      unfolding h4_quiet_view(3)[OF q u1(1)] using h4_quiet_view(1)[OF q rd]
      unfolding zero_less_nat_eq .
  qed
qed

lemma rx_payload_follows:
  assumes laws: "h4_rx_laws E" and inv: "h4_inv E s" and st: "rx_state (rxv s) = ST_PAYLOAD"
  obtains again s' where "rx_payload E s = Some (again, s')" and "h4_follows E s s'" and "again \<or> h4_settled s'"
proof -
  let ?v = "rxv s"
  obtain bs b r u where sh: "length bs \<le> nat (rx_remaining ?v)" "rx_buf ?v = Some b"
    "hv_bufs (hview E (env s)) b = Some r"
    and run: "rx_payload E s = Some (bs \<noteq> [], if rx_remaining ?v = int (length bs)
           then s\<lparr>env := h_fifo_put E TxQueue b u, rxv := ?v\<lparr>rx_remaining := 0, rx_state := ST_IDLE\<rparr>\<rparr>
           else s\<lparr>env := u, rxv := ?v\<lparr>rx_remaining := rx_remaining ?v - int (length bs)\<rparr>\<rparr>)"
    and v: "hview E u = (hview E (env s))\<lparr>hv_log := hv_log (hview E (env s)) @ map Byte bs,
           hv_bufs := (hv_bufs (hview E (env s)))(b \<mapsto> r\<lparr>hb_data := hb_data r @ bs\<rparr>)\<rparr>"
    and put: "hview E (h_fifo_put E TxQueue b u) = (hview E u)
           \<lparr>hv_fifo := (hv_fifo (hview E u))(TxQueue := hv_fifo (hview E u) TxQueue @ [b]),
            hv_passed := hv_passed (hview E u) @ [(hb_type r, hb_data r @ bs)]\<rparr>"
    by (rule rx_payload_shape[OF laws inv st], rule that; assumption)
  let ?s = "if rx_remaining ?v = int (length bs)
           then s\<lparr>env := h_fifo_put E TxQueue b u, rxv := ?v\<lparr>rx_remaining := 0, rx_state := ST_IDLE\<rparr>\<rparr>
           else s\<lparr>env := u, rxv := ?v\<lparr>rx_remaining := rx_remaining ?v - int (length bs)\<rparr>\<rparr>"
  have i: "length (rx_hdr_buf ?v) = 4" "0 \<le> rx_remaining ?v"
    "int (length (hb_data r)) + rx_remaining ?v \<le> int (hb_room r)"
    using inv st sh(2,3) by (auto simp: h4_inv_def Let_def h4_consts)
  have abs: "h4_abs E s = (if rx_remaining ?v = 0 then (Idle, hv_passed (hview E (env s)) @ [(hb_type r, hb_data r)])
      else (Payload (hb_type r) (hb_data r) (nat (rx_remaining ?v)), hv_passed (hview E (env s))))"
    using st sh(2,3) by (simp add: h4_abs_def Let_def h4_consts)
  have abs': "h4_abs E ?s = (if rx_remaining ?v = int (length bs) then (Idle, hv_passed (hview E (env s)) @ [(hb_type r, hb_data r @ bs)])
      else (Payload (hb_type r) (hb_data r @ bs) (nat (rx_remaining ?v - int (length bs))), hv_passed (hview E (env s))))"
    using st sh(2) put v by (simp add: h4_abs_def Let_def h4_consts)
  have "h4_follows E s ?s" unfolding h4_follows_def
  proof (intro conjI exI[of _ "map Byte bs"])
    show "h4_inv E ?s" using i v st sh by (auto simp: h4_inv_def Let_def ST_IDLE_def ST_PAYLOAD_def)
    show "hv_log (hview E (env ?s)) = hv_log (hview E (env s)) @ map Byte bs"
      by (simp add: put v)
    show "h4_run E (h4_abs E s) (map Byte bs) = Some (h4_abs E ?s)"
    proof (cases "rx_remaining ?v = 0")
      case True
      then show ?thesis unfolding abs abs' using sh(1) by simp
    next
      case False
      then have "0 < nat (rx_remaining ?v)" "(length bs = nat (rx_remaining ?v)) = (rx_remaining ?v = int (length bs))"
        "nat (rx_remaining ?v) - length bs = nat (rx_remaining ?v - int (length bs))"
        using sh(1) i(2) by (simp_all add: nat_eq_iff2)
      then show ?thesis unfolding abs abs' using False sh(1) by (simp add: h4_run_payload)
    qed
  qed
  moreover have "bs \<noteq> [] \<or> h4_settled ?s" by (simp add: h4_settled_def ST_IDLE_def ST_PAYLOAD_def)
  ultimately show ?thesis by (rule that[OF run])
qed

lemma rx_discard_follows:
  assumes laws: "h4_rx_laws E" and inv: "h4_inv E s" and st: "rx_state (rxv s) = ST_DISCARD"
  obtains again s' where "rx_discard E s = Some (again, s')" and "h4_follows E s s'" and "again \<or> h4_settled s'"
proof -
  let ?v = "rxv s"
  obtain n bs u where rd: "h4_read E (min (nat (rx_remaining ?v)) H4_DISCARD_LEN) (env s) = ((n, bs), u)"
    by (metis prod.collapse)
  note v = h4_read_view[OF laws rd]
  have i: "length (rx_hdr_buf ?v) = 4" "0 < rx_remaining ?v"
    using inv st by (auto simp: h4_inv_def Let_def ST_IDLE_def ST_HDR_def ST_PAYLOAD_def ST_DISCARD_def)
  let ?rem = "rx_remaining ?v - int (length bs)"
  let ?s = "s\<lparr>env := u, rxv := ?v\<lparr>rx_remaining := ?rem, rx_state := if ?rem = 0 then ST_IDLE else ST_DISCARD\<rparr>\<rparr>"
  have run: "rx_discard E s = Some (bs \<noteq> [], ?s)"
    using v(1) st by (simp add: rx_discard_def rd Let_def)
  have abs: "h4_abs E s = (Discard (nat (rx_remaining ?v)), hv_passed (hview E (env s)))"
    "h4_abs E ?s = (if ?rem = 0 then Idle else Discard (nat ?rem), hv_passed (hview E (env s)))"
    using st v(3) by (simp_all add: h4_abs_def Let_def ST_IDLE_def ST_HDR_def ST_DISCARD_def)
  have "h4_follows E s ?s" unfolding h4_follows_def
  proof (intro conjI exI[of _ "map Byte bs"])
    show "h4_inv E ?s" using i v(2) by (auto simp: h4_inv_def Let_def ST_IDLE_def ST_DISCARD_def)
    show "hv_log (hview E (env ?s)) = hv_log (hview E (env s)) @ map Byte bs" by (simp add: v(3))
    have "length bs \<le> nat (rx_remaining ?v)" "0 < nat (rx_remaining ?v)"
      "(length bs = nat (rx_remaining ?v)) = (?rem = 0)" "nat (rx_remaining ?v) - length bs = nat ?rem"
      using v(2) i(2) by (simp_all add: nat_eq_iff2)
    then show "h4_run E (h4_abs E s) (map Byte bs) = Some (h4_abs E ?s)"
      unfolding abs by (simp add: h4_run_discard)
  qed
  moreover have "bs \<noteq> [] \<or> h4_settled ?s" by (simp add: h4_settled_def ST_IDLE_def ST_PAYLOAD_def ST_DISCARD_def)
  ultimately show ?thesis by (rule that[OF run])
qed

lemma rx_turn_follows:
  assumes "h4_rx_laws E" and "h4_inv E s"
  obtains again s' where "rx_turn E s = Some (again, s')" and "h4_follows E s s'" and "again \<or> h4_settled s'"
proof -
  consider "rx_state (rxv s) = ST_IDLE" | "rx_state (rxv s) = ST_HDR" | "rx_state (rxv s) = ST_PAYLOAD"
    | "rx_state (rxv s) = ST_DISCARD"
    using assms(2) by (auto simp: h4_inv_def Let_def)
  then show ?thesis
    by cases (insert assms that, auto simp: rx_turn_def ST_IDLE_def ST_HDR_def ST_PAYLOAD_def ST_DISCARD_def
      elim: rx_idle_follows rx_hdr_follows rx_payload_follows rx_discard_follows)
qed

lemma rx_isr_follows:
  assumes "h4_rx_laws E" and "rx_isr E s = Some s'" and "h4_inv E s"
  shows "h4_follows E s s' \<and> h4_settled s'"
proof -
  have "h4_rx_laws E \<longrightarrow> h4_inv E s \<longrightarrow> h4_follows E s s' \<and> h4_settled s'"
  proof (rule rx_isr.raw_induct[OF _ assms(2)], intro impI)
    fix isr E s s'
    assume ih: "\<And>E s s'. isr E s = Some s' \<Longrightarrow> h4_rx_laws E \<longrightarrow> h4_inv E s \<longrightarrow> h4_follows E s s' \<and> h4_settled s'"
      and run: "do { (again, s1) \<leftarrow> rx_turn E s; if again then isr E s1 else Some s1 } = Some s'"
      and laws: "h4_rx_laws E" and inv: "h4_inv E s"
    obtain again s1 where t: "rx_turn E s = Some (again, s1)" "h4_follows E s s1" "again \<or> h4_settled s1"
      by (rule rx_turn_follows[OF laws inv])
    show "h4_follows E s s' \<and> h4_settled s'"
    proof (cases again)
      case True
      have "h4_inv E s1" using t(2) by (simp add: h4_follows_def)
      with ih[of E s1 s'] run t(1) True laws have "h4_follows E s1 s' \<and> h4_settled s'" by simp
      with t(2) h4_follows_trans show ?thesis by blast
    next
      case False
      with run t show ?thesis by simp
    qed
  qed
  with assms show ?thesis by blast
qed

text \<open>What every turn does and composes, the interrupt does.\<close>

lemma rx_isr_turns:
  assumes "h4_rx_laws E" and "rx_isr E s = Some s'" and "h4_inv E s"
    and turn: "\<And>s again s'. h4_inv E s \<Longrightarrow> rx_turn E s = Some (again, s') \<Longrightarrow> R s s'"
    and trans: "\<And>s s1 s2. R s s1 \<Longrightarrow> R s1 s2 \<Longrightarrow> R s s2"
  shows "R s s'"
proof -
  have "h4_rx_laws E \<longrightarrow> h4_inv E s \<longrightarrow> (\<forall>s again s'. h4_inv E s \<longrightarrow> rx_turn E s = Some (again, s') \<longrightarrow> R s s') \<longrightarrow> R s s'"
  proof (rule rx_isr.raw_induct[OF _ assms(2)], intro impI)
    fix isr E s s'
    assume ih: "\<And>E s s'. isr E s = Some s' \<Longrightarrow> h4_rx_laws E \<longrightarrow> h4_inv E s \<longrightarrow>
        (\<forall>s again s'. h4_inv E s \<longrightarrow> rx_turn E s = Some (again, s') \<longrightarrow> R s s') \<longrightarrow> R s s'"
      and run: "do { (again, s1) \<leftarrow> rx_turn E s; if again then isr E s1 else Some s1 } = Some s'"
      and laws: "h4_rx_laws E" and inv: "h4_inv E s"
      and t: "\<forall>s again s'. h4_inv E s \<longrightarrow> rx_turn E s = Some (again, s') \<longrightarrow> R s s'"
    obtain again s1 where s1: "rx_turn E s = Some (again, s1)" "h4_follows E s s1"
      by (rule rx_turn_follows[OF laws inv])
    have r: "R s s1" using t inv s1(1) by blast
    show "R s s'"
    proof (cases again)
      case True
      have "h4_inv E s1" using s1(2) by (simp add: h4_follows_def)
      with ih[of E s1 s'] run s1(1) True laws t have "R s1 s'" by simp
      with r show ?thesis by (rule trans)
    next
      case False
      with run s1 r show ?thesis by simp
    qed
  qed
  with assms(1,3) turn show ?thesis by blast
qed

end
