(* ===== verification/Hci_Stream.thy ===== *)
theory Hci_Stream
  imports Hci_Receiver
begin

text \<open>
  The byte stream the HCI bridge receives: it is parsed by \<open>h4_parse\<close>, \<open>h4_encode\<close> is its inverse, and
  between two interrupts the packets passed on are those of the parser.
\<close>

section \<open>The parser of the stream\<close>

text \<open>The packets of a byte stream, and what is left of an incomplete one. Bytes that are no packet
  type are skipped.\<close>

fun h4_parse :: "'u h4_env \<Rightarrow> u8 list \<Rightarrow> (u8 \<times> u8 list) list \<times> u8 list" where
  "h4_parse E [] = ([], [])"
| "h4_parse E (t # bs) =
     (if \<not> valid_type t then h4_parse E bs
      else if length bs < hdr_len E t then ([], t # bs)
      else let n = hdr_len E t + get_len E (take (hdr_len E t) bs) t
           in if length bs < n then ([], t # bs)
              else let (ps, rest) = h4_parse E (drop n bs) in ((t, take n bs) # ps, rest))"

text \<open>A packet: its type, and a header followed by as many bytes as it says.\<close>

definition h4_packet :: "'u h4_env \<Rightarrow> u8 \<times> u8 list \<Rightarrow> bool" where
  "h4_packet E p \<longleftrightarrow> valid_type (fst p) \<and> hdr_len E (fst p) \<le> length (snd p) \<and>
     length (snd p) = hdr_len E (fst p) + get_len E (take (hdr_len E (fst p)) (snd p)) (fst p)"

definition h4_encode :: "u8 \<times> u8 list \<Rightarrow> u8 list" where
  "h4_encode p = fst p # snd p"

lemma h4_parse_skip: "\<not> valid_type t \<Longrightarrow> h4_parse E (t # bs) = h4_parse E bs"
  by simp

lemma h4_parse_packet:
  assumes "h4_packet E (t, d)"
  shows "h4_parse E (t # d @ rest) = ((t, d) # fst (h4_parse E rest), snd (h4_parse E rest))"
  using assms by (simp add: h4_packet_def Let_def split: prod.split)

lemma h4_parse_encode:
  assumes "\<And>p. p \<in> set ps \<Longrightarrow> h4_packet E p"
  shows "h4_parse E (concat (map h4_encode ps) @ rest) = (ps @ fst (h4_parse E rest), snd (h4_parse E rest))"
  using assms
proof (induction ps)
  case (Cons p ps)
  obtain t d where p: "p = (t, d)" by fastforce
  have "h4_packet E (t, d)" using Cons.prems[of p] p by simp
  from h4_parse_packet[OF this, of "concat (map h4_encode ps) @ rest"] Cons
  show ?case by (simp add: p h4_encode_def[of "(t, d)"] del: h4_parse.simps)
qed simp

section \<open>The automaton parses\<close>

fun h4_bytes :: "h4_event list \<Rightarrow> u8 list" where
  "h4_bytes [] = []"
| "h4_bytes (Byte b # es) = b # h4_bytes es"
| "h4_bytes (Room r # es) = h4_bytes es"

lemma h4_bytes_append [simp]: "h4_bytes (es @ fs) = h4_bytes es @ h4_bytes fs"
  by (induction es rule: h4_bytes.induct) simp_all

text \<open>No request for a buffer was refused, and no packet was longer than its buffer.\<close>

fun h4_fits :: "'u h4_env \<Rightarrow> h4_phase \<Rightarrow> h4_event \<Rightarrow> bool" where
  "h4_fits E (Header t h) (Room r) = (case r of None \<Rightarrow> False | Some n \<Rightarrow> get_len E h t \<le> n - hdr_len E t)"
| "h4_fits E _ _ = True"

fun h4_ample :: "'u h4_env \<Rightarrow> h4_state \<Rightarrow> h4_event list \<Rightarrow> bool" where
  "h4_ample E st [] = True"
| "h4_ample E st (e # es) = (h4_fits E (fst st) e \<and>
     (case h4_step E st e of None \<Rightarrow> False | Some st' \<Rightarrow> h4_ample E st' es))"

text \<open>The bytes of the packet a phase is in.\<close>

fun h4_open :: "h4_phase \<Rightarrow> u8 list" where
  "h4_open Idle = []"
| "h4_open (Header t h) = t # h"
| "h4_open (Payload t d n) = t # d"
| "h4_open (Discard n) = []"

fun h4_phase_ok :: "'u h4_env \<Rightarrow> h4_phase \<Rightarrow> bool" where
  "h4_phase_ok E Idle = True"
| "h4_phase_ok E (Header t h) = (valid_type t \<and> length h \<le> hdr_len E t)"
| "h4_phase_ok E (Payload t d n) = (valid_type t \<and> 0 < n \<and> hdr_len E t \<le> length d \<and>
     length d + n = hdr_len E t + get_len E (take (hdr_len E t) d) t)"
| "h4_phase_ok E (Discard n) = False"

text \<open>What the parser makes of the packets so far and the bytes to come.\<close>

definition h4_result :: "'u h4_env \<Rightarrow> h4_state \<Rightarrow> u8 list \<Rightarrow> (u8 \<times> u8 list) list \<times> u8 list" where
  "h4_result E st bs = (snd st @ fst (h4_parse E (h4_open (fst st) @ bs)), snd (h4_parse E (h4_open (fst st) @ bs)))"

lemma h4_step_parses:
  assumes laws: "h4_rx_laws E" and ok: "h4_phase_ok E ph" and fits: "h4_fits E ph e"
    and step: "h4_step E (ph, ps) e = Some (ph', ps')"
  shows "h4_phase_ok E ph' \<and> h4_result E (ph, ps) (h4_bytes [e] @ rest) = h4_result E (ph', ps') rest"
proof (cases ph)
  case Idle
  then obtain b where e: "e = Byte b" using step by (cases e) simp_all
  show ?thesis
    using step hdr_len_bounds(1)[OF laws, of b]
    by (cases "valid_type b") (auto simp: Idle e h4_result_def)
next
  case (Header t h)
  show ?thesis
  proof (cases e)
    case (Byte b)
    then show ?thesis using step ok by (auto simp: Header h4_result_def split: if_splits)
  next
    case (Room r)
    then obtain n where r: "r = Some n" "get_len E h t \<le> n - hdr_len E t"
      using fits by (auto simp: Header split: option.splits)
    have h: "length h = hdr_len E t" "valid_type t" using step ok Room by (auto simp: Header split: if_splits)
    have "h4_packet E (t, h)" if "get_len E h t = 0" using that h by (simp add: h4_packet_def)
    from h4_parse_packet[OF this, of rest] r step show ?thesis
      using h by (auto simp: Header Room h4_result_def simp del: h4_parse.simps split: if_splits)
  qed
next
  case (Payload t d n)
  then obtain m where n: "n = Suc m" using ok by (cases n) simp_all
  obtain b where e: "e = Byte b" using step by (cases e) (simp_all add: Payload n)
  have d: "valid_type t" "hdr_len E t \<le> length d" "take (hdr_len E t) (d @ [b]) = take (hdr_len E t) d"
    "length d + Suc m = hdr_len E t + get_len E (take (hdr_len E t) d) t"
    using ok by (simp_all add: Payload n)
  have "h4_packet E (t, d @ [b])" if "m = 0" using that d by (simp add: h4_packet_def)
  from h4_parse_packet[OF this, of rest] step d show ?thesis
    by (auto simp: Payload n e h4_result_def simp del: h4_parse.simps split: if_splits)
next
  case (Discard n)
  with ok show ?thesis by simp
qed

lemma h4_run_parses:
  assumes laws: "h4_rx_laws E" and "h4_phase_ok E (fst st)" and "h4_ample E st es"
    and "h4_run E st es = Some st'"
  shows "h4_phase_ok E (fst st') \<and> h4_result E st (h4_bytes es @ rest) = h4_result E st' rest"
  using assms(2-)
proof (induction es arbitrary: st)
  case (Cons e es)
  obtain ph ps where st: "st = (ph, ps)" by fastforce
  obtain ph1 ps1 where st1: "h4_step E st e = Some (ph1, ps1)" "h4_run E (ph1, ps1) es = Some st'"
    using Cons.prems(3) by (auto simp: bind_Some_iff)
  have f: "h4_fits E ph e" "h4_ample E (ph1, ps1) es" using Cons.prems(2) st1(1) st by simp_all
  have one: "h4_phase_ok E ph1 \<and>
      h4_result E (ph, ps) (h4_bytes [e] @ (h4_bytes es @ rest)) = h4_result E (ph1, ps1) (h4_bytes es @ rest)"
    by (rule h4_step_parses[OF laws _ f(1)]) (use Cons.prems(1) st st1(1) in simp_all)
  have "h4_bytes (e # es) = h4_bytes [e] @ h4_bytes es" using h4_bytes_append[of "[e]" es] by simp
  with one Cons.IH[of "(ph1, ps1)"] f(2) st1(2) st show ?case by simp
qed simp

text \<open>An incomplete packet is all the parser leaves.\<close>

lemma h4_parse_open:
  assumes "h4_phase_ok E ph" and "\<And>t h. ph = Header t h \<Longrightarrow> length h < hdr_len E t"
  shows "h4_parse E (h4_open ph) = ([], h4_open ph)"
  using assms by (cases ph) (auto simp: Let_def)

section \<open>Between interrupts\<close>

text \<open>What other code does while the receiver is between two interrupts: nothing to its variables, its
  buffer and the histories.\<close>

definition rx_undisturbed :: "'u h4_env \<Rightarrow> 'u h4_machine \<Rightarrow> 'u h4_machine \<Rightarrow> bool" where
  "rx_undisturbed E s s' \<longleftrightarrow> rxv s' = rxv s \<and> hv_log (hview E (env s')) = hv_log (hview E (env s)) \<and>
     hv_passed (hview E (env s')) = hv_passed (hview E (env s)) \<and>
     (\<forall>b. rx_buf (rxv s) = Some b \<longrightarrow> rx_state (rxv s) = ST_PAYLOAD \<longrightarrow>
        hv_bufs (hview E (env s')) b = hv_bufs (hview E (env s)) b)"

definition h4_booted :: "'u h4_env \<Rightarrow> 'u h4_machine \<Rightarrow> bool" where
  "h4_booted E s \<longleftrightarrow> rxv s = h4_rx_init E \<and> hv_log (hview E (env s)) = [] \<and> hv_passed (hview E (env s)) = []"

text \<open>What holds between interrupts.\<close>

definition h4_between :: "'u h4_env \<Rightarrow> 'u h4_machine \<Rightarrow> bool" where
  "h4_between E s \<longleftrightarrow> h4_inv E s \<and> h4_settled s \<and>
     h4_run E (Idle, []) (hv_log (hview E (env s))) = Some (h4_abs E s)"

lemma h4_booted_between:
  assumes "h4_rx_laws E" and "h4_booted E s"
  shows "h4_between E s"
  using assms by (simp add: h4_between_def h4_booted_def h4_inv_def h4_settled_def h4_abs_def h4_rx_init_def
      h4_rx_laws_def hci_format_laws_def h4_consts Let_def)

lemma h4_between_isr:
  assumes "h4_rx_laws E" and "h4_between E s" and "rx_isr E s = Some s'"
  shows "h4_between E s'"
proof -
  have "h4_follows E s s'" "h4_settled s'"
    using rx_isr_follows[OF assms(1,3)] assms(2) by (simp_all add: h4_between_def)
  with assms(2) show ?thesis by (auto simp: h4_between_def h4_follows_def h4_run_append)
qed

lemma h4_between_undisturbed:
  assumes b: "h4_between E s" and u: "rx_undisturbed E s s'"
  shows "h4_between E s'"
proof -
  have same: "rxv s' = rxv s" "hv_log (hview E (env s')) = hv_log (hview E (env s))"
    "hv_passed (hview E (env s')) = hv_passed (hview E (env s))"
    using u by (simp_all add: rx_undisturbed_def)
  have own: "\<And>b. rx_buf (rxv s) = Some b \<Longrightarrow> rx_state (rxv s) = ST_PAYLOAD \<Longrightarrow>
      hv_bufs (hview E (env s')) b = hv_bufs (hview E (env s)) b"
    using u by (simp add: rx_undisturbed_def)
  have inv: "h4_inv E s" using b by (simp add: h4_between_def)
  then have inv': "h4_inv E s'" using own by (auto simp: h4_inv_def Let_def same)
  have "h4_abs E s' = h4_abs E s"
  proof (cases "rx_state (rxv s) = ST_PAYLOAD")
    case True
    then show ?thesis using inv own by (auto simp: h4_abs_def h4_inv_def Let_def same h4_consts)
  next
    case False
    then show ?thesis using inv by (auto simp: h4_abs_def h4_inv_def Let_def same)
  qed
  with b inv' show ?thesis by (simp add: h4_between_def h4_settled_def same)
qed

lemma h4_abs_settled:
  assumes "h4_inv E s" and "h4_settled s"
  shows "snd (h4_abs E s) = hv_passed (hview E (env s))"
    and "fst (h4_abs E s) = Header t h \<Longrightarrow> length h < hdr_len E t"
  using assms by (auto simp: h4_inv_def h4_settled_def h4_abs_def Let_def h4_consts)

lemma h4_between_parses:
  assumes laws: "h4_rx_laws E" and b: "h4_between E s"
    and ample: "h4_ample E (Idle, []) (hv_log (hview E (env s)))"
  shows "h4_parse E (h4_bytes (hv_log (hview E (env s)))) =
     (hv_passed (hview E (env s)), h4_open (fst (h4_abs E s)))"
proof -
  have run: "h4_run E (Idle, []) (hv_log (hview E (env s))) = Some (h4_abs E s)" "h4_inv E s" "h4_settled s"
    using b by (simp_all add: h4_between_def)
  note sn = h4_abs_settled[OF run(2,3)]
  have ok: "h4_phase_ok E (fst (h4_abs E s))" and
    res: "h4_result E (Idle, []) (h4_bytes (hv_log (hview E (env s))) @ []) = h4_result E (h4_abs E s) []"
    using h4_run_parses[OF laws _ ample run(1), of "[]"] by simp_all
  have "h4_parse E (h4_open (fst (h4_abs E s))) = ([], h4_open (fst (h4_abs E s)))"
    by (rule h4_parse_open[OF ok]) (rule sn(2))
  with res sn(1) show ?thesis by (simp add: h4_result_def prod_eq_iff)
qed

end
