(* ===== verification/Hci_Interrupt.thy ===== *)
theory Hci_Interrupt
  imports Hci_Stream
begin

text \<open>
  The UART interrupt of the HCI bridge as a whole: what the receiver and the transmitter leave alone
  of each other, the order of the bytes sent, and the end of the interrupt.
\<close>

section \<open>The receiver's side\<close>

text \<open>The buffer the receiver is filling.\<close>

definition rx_owns :: "'u h4_machine \<Rightarrow> nat \<Rightarrow> bool" where
  "rx_owns s b \<longleftrightarrow> rx_state (rxv s) = ST_PAYLOAD \<and> rx_buf (rxv s) = Some b"

text \<open>What the receiver leaves alone: the transmitter and every allocated buffer but its own.\<close>

definition rx_frame :: "'u h4_env \<Rightarrow> 'u h4_machine \<Rightarrow> 'u h4_machine \<Rightarrow> bool" where
  "rx_frame E s s' \<longleftrightarrow> tx_buf s' = tx_buf s \<and> hv_sent (hview E (env s')) = hv_sent (hview E (env s)) \<and>
     hv_tx_irq (hview E (env s')) = hv_tx_irq (hview E (env s)) \<and>
     hv_fifo (hview E (env s')) UartTxQueue = hv_fifo (hview E (env s)) UartTxQueue \<and>
     (\<forall>b r. hv_bufs (hview E (env s)) b = Some r \<and> \<not> rx_owns s b \<longrightarrow>
        hv_bufs (hview E (env s')) b = Some r \<and> \<not> rx_owns s' b)"

lemma rx_frame_refl: "rx_frame E s s"
  by (simp add: rx_frame_def)

lemma rx_frame_trans: "rx_frame E s s1 \<Longrightarrow> rx_frame E s1 s2 \<Longrightarrow> rx_frame E s s2"
  by (auto simp: rx_frame_def)

text \<open>In a quiet environment a turn that goes on has consumed something, and one that does not finds
  nothing or ends between two packets.\<close>

definition rx_progress :: "'u h4_env \<Rightarrow> 'u h4_machine \<Rightarrow> bool \<Rightarrow> 'u h4_machine \<Rightarrow> bool" where
  "rx_progress E s again s' \<longleftrightarrow> (h4_quiet_laws E \<longrightarrow>
     length (hwaiting E (env s')) \<le> length (hwaiting E (env s)) \<and>
     (again \<or> h4_settled s \<and> hwaiting E (env s) \<noteq> [] \<longrightarrow>
        length (hwaiting E (env s')) < length (hwaiting E (env s))) \<and>
     (\<not> again \<longrightarrow> hwaiting E (env s') = [] \<or> rx_state (rxv s') = ST_IDLE))"

lemma rx_progressI:
  assumes "\<And>q. h4_quiet_laws E \<Longrightarrow> q = h4_settled s \<Longrightarrow> hwaiting E (env s) = bs @ hwaiting E (env s') \<and>
      (q \<and> hwaiting E (env s) \<noteq> [] \<longrightarrow> bs \<noteq> [])"
    and "bs \<noteq> [] \<Longrightarrow> again \<or> rx_state (rxv s') = ST_IDLE" and "again \<Longrightarrow> bs \<noteq> []"
    and "bs = [] \<Longrightarrow> h4_settled s \<or> rx_state (rxv s') = ST_IDLE"
  shows "rx_progress E s again s'"
  unfolding rx_progress_def
proof (intro impI)
  assume q: "h4_quiet_laws E"
  have w: "hwaiting E (env s) = bs @ hwaiting E (env s')"
    "h4_settled s \<Longrightarrow> hwaiting E (env s) \<noteq> [] \<Longrightarrow> bs \<noteq> []" using assms(1)[OF q refl] by blast+
  have "length (hwaiting E (env s)) = length bs + length (hwaiting E (env s'))" unfolding w(1) by simp
  moreover have "bs = [] \<Longrightarrow> hwaiting E (env s') = hwaiting E (env s)" using w(1) by simp
  ultimately show "length (hwaiting E (env s')) \<le> length (hwaiting E (env s)) \<and>
     (again \<or> h4_settled s \<and> hwaiting E (env s) \<noteq> [] \<longrightarrow>
        length (hwaiting E (env s')) < length (hwaiting E (env s))) \<and>
     (\<not> again \<longrightarrow> hwaiting E (env s') = [] \<or> rx_state (rxv s') = ST_IDLE)"
    using w(2) assms(2-4) by (cases "bs = []") auto
qed

lemma rx_idle_frame:
  assumes laws: "h4_rx_laws E" and st: "rx_state (rxv s) = ST_IDLE" and run: "rx_idle E s = Some (again, s')"
  shows "rx_frame E s s' \<and> rx_progress E s again s'"
proof -
  obtain n bs u where rd: "h4_read E (Suc 0) (env s) = ((n, bs), u)" by (metis prod.collapse)
  note v = h4_read_view[OF laws rd]
  have s': "again = (bs \<noteq> [])" "env s' = u" "tx_buf s' = tx_buf s" "rx_state (rxv s') = ST_IDLE \<or> rx_state (rxv s') = ST_HDR"
    "bs = [] \<Longrightarrow> rx_state (rxv s') = ST_IDLE"
    using run v(1) st by (auto simp: rx_idle_def rd Let_def split: if_splits)
  have q: "hwaiting E (env s) = bs @ hwaiting E u \<and> (hwaiting E (env s) \<noteq> [] \<longrightarrow> bs \<noteq> [])" if "h4_quiet_laws E"
    using h4_quiet_view(1)[OF that rd] zero_less_Suc[of 0] by blast
  show ?thesis
  proof
    show "rx_frame E s s'" using s' v(3) by (auto simp: rx_frame_def rx_owns_def h4_consts)
    show "rx_progress E s again s'"
      by (rule rx_progressI[of _ _ bs], use q s'(2) in blast)
        (use s' st in \<open>simp_all add: h4_settled_def h4_consts\<close>)
  qed
qed

lemma rx_header_done_frame:
  assumes laws: "h4_rx_laws E" and valid: "valid_type (rx_type (rxv s))"
    and len: "length (rx_hdr_buf (rxv s)) = 4" and read: "read \<noteq> 0"
    and run: "rx_header_done E read s = Some (again, s')" and st: "rx_state (rxv s) = ST_HDR"
  shows "rx_frame E s s' \<and> (again \<or> rx_state (rxv s') = ST_IDLE) \<and>
     (h4_quiet_laws E \<longrightarrow> hwaiting E (env s') = hwaiting E (env s))"
  using run st by (cases rule: rx_header_done_shape[OF laws valid len read]) (auto simp: rx_frame_def rx_owns_def h4_consts)

lemma rx_hdr_frame:
  assumes laws: "h4_rx_laws E" and inv: "h4_inv E s" and st: "rx_state (rxv s) = ST_HDR"
    and run: "rx_hdr E s = Some (again, s')"
  shows "rx_frame E s s' \<and> rx_progress E s again s'"
proof -
  let ?v = "rxv s"
  obtain n bs u where rd: "h4_read E (nat (rx_remaining ?v)) (env s) = ((n, bs), u)" by (metis prod.collapse)
  note v = h4_read_view[OF laws rd]
  have i: "length (rx_hdr_buf ?v) = 4" "valid_type (rx_type ?v)" "0 < rx_remaining ?v"
    "rx_remaining ?v \<le> int (hdr_len E (rx_type ?v))"
    using inv st by (auto simp: h4_inv_def Let_def h4_consts)
  define off where "off = nat (int (hdr_len E (rx_type ?v)) - rx_remaining ?v)"
  have off: "off + length bs \<le> 4" using i v(2) hdr_len_bounds[OF laws i(2)] by (simp add: off_def)
  define s1 where "s1 = s\<lparr>env := u, rxv := ?v\<lparr>rx_hdr_buf := overwrite_at off bs (rx_hdr_buf ?v),
      rx_remaining := rx_remaining ?v - n\<rparr>\<rparr>"
  have run1: "(if rx_remaining (rxv s1) = 0 then rx_header_done E n s1 else Some (n \<noteq> 0, s1)) = Some (again, s')"
    using run off i(1) by (simp add: rx_hdr_def rd Let_def s1_def off_def split: if_splits)
  have s1: "length (rx_hdr_buf (rxv s1)) = 4" "rx_state (rxv s1) = ST_HDR" "valid_type (rx_type (rxv s1))"
    "rx_remaining (rxv s1) = rx_remaining ?v - int (length bs)" "env s1 = u"
    using off i v st by (simp_all add: s1_def)
  have f1: "rx_frame E s s1" using v(3) st by (auto simp: rx_frame_def rx_owns_def s1_def h4_consts)
  have q: "hwaiting E (env s) = bs @ hwaiting E u \<and> (hwaiting E (env s) \<noteq> [] \<longrightarrow> bs \<noteq> [])" if "h4_quiet_laws E"
    using h4_quiet_view(1)[OF that rd] i(3)[folded zero_less_nat_eq] by blast
  show ?thesis
  proof (cases "rx_remaining (rxv s1) = 0")
    case True
    have n: "n \<noteq> 0" and bs: "bs \<noteq> []" using True s1(4) i(3) v(1) by auto
    have d: "rx_header_done E n s1 = Some (again, s')" using run1 True by simp
    from rx_header_done_frame[OF laws s1(3,1) n d s1(2)]
    have f2: "rx_frame E s1 s'" "again \<or> rx_state (rxv s') = ST_IDLE"
      "h4_quiet_laws E \<Longrightarrow> hwaiting E (env s') = hwaiting E u" using s1(5) by auto
    have "rx_progress E s again s'"
      by (rule rx_progressI[of _ _ bs]) (metis q f2(3), use f2(2) bs in simp_all)
    with rx_frame_trans[OF f1 f2(1)] show ?thesis by blast
  next
    case False
    then have s': "again = (bs \<noteq> [])" "s' = s1" using run1 v(1) by auto
    have "rx_progress E s again s'"
      by (rule rx_progressI[of _ _ bs], use q s' s1(5) in blast)
        (use s' s1(2,5) st in \<open>simp_all add: h4_settled_def h4_consts\<close>)
    with f1 s'(2) show ?thesis by simp
  qed
qed

lemma rx_payload_frame:
  assumes laws: "h4_rx_laws E" and inv: "h4_inv E s" and st: "rx_state (rxv s) = ST_PAYLOAD"
    and run: "rx_payload E s = Some (again, s')"
  shows "rx_frame E s s' \<and> rx_progress E s again s'"
proof -
  obtain bs b r u where sh: "length bs \<le> nat (rx_remaining (rxv s))" "rx_buf (rxv s) = Some b"
    "hv_bufs (hview E (env s)) b = Some r"
    and run': "rx_payload E s = Some (bs \<noteq> [], if rx_remaining (rxv s) = int (length bs)
           then s\<lparr>env := h_fifo_put E TxQueue b u, rxv := (rxv s)\<lparr>rx_remaining := 0, rx_state := ST_IDLE\<rparr>\<rparr>
           else s\<lparr>env := u, rxv := (rxv s)\<lparr>rx_remaining := rx_remaining (rxv s) - int (length bs)\<rparr>\<rparr>)"
    and v: "hview E u = (hview E (env s))\<lparr>hv_log := hv_log (hview E (env s)) @ map Byte bs,
           hv_bufs := (hv_bufs (hview E (env s)))(b \<mapsto> r\<lparr>hb_data := hb_data r @ bs\<rparr>)\<rparr>"
    and put: "hview E (h_fifo_put E TxQueue b u) = (hview E u)
           \<lparr>hv_fifo := (hv_fifo (hview E u))(TxQueue := hv_fifo (hview E u) TxQueue @ [b]),
            hv_passed := hv_passed (hview E u) @ [(hb_type r, hb_data r @ bs)]\<rparr>"
    and q: "h4_quiet_laws E \<Longrightarrow> hwaiting E (env s) = bs @ hwaiting E u \<and>
           (0 < rx_remaining (rxv s) \<and> hwaiting E (env s) \<noteq> [] \<longrightarrow> bs \<noteq> [])"
    by (rule rx_payload_shape[OF laws inv st], rule that; assumption)
  have pos: "0 \<le> rx_remaining (rxv s)" using inv st by (auto simp: h4_inv_def Let_def h4_consts)
  have s': "again = (bs \<noteq> [])" "s' = (if rx_remaining (rxv s) = int (length bs)
           then s\<lparr>env := h_fifo_put E TxQueue b u, rxv := (rxv s)\<lparr>rx_remaining := 0, rx_state := ST_IDLE\<rparr>\<rparr>
           else s\<lparr>env := u, rxv := (rxv s)\<lparr>rx_remaining := rx_remaining (rxv s) - int (length bs)\<rparr>\<rparr>)"
    using run unfolding run' by simp_all
  show ?thesis
  proof
    show "rx_frame E s s'"
      unfolding s'(2) rx_frame_def using v put sh(2,3) st by (auto simp: rx_owns_def h4_consts)
    have w: "hwaiting E (env s') = hwaiting E u" if "h4_quiet_laws E"
      unfolding s'(2) using h4_quiet_view(5)[OF that] by simp
    have st': "rx_state (rxv s') = (if rx_remaining (rxv s) = int (length bs) then ST_IDLE else ST_PAYLOAD)"
      unfolding s'(2) using st by simp
    have todo: "h4_settled s \<Longrightarrow> 0 < rx_remaining (rxv s)" using pos st by (simp add: h4_settled_def)
    show "rx_progress E s again s'"
    proof (rule rx_progressI[of _ _ bs])
      show "hwaiting E (env s) = bs @ hwaiting E (env s') \<and> (settled \<and> hwaiting E (env s) \<noteq> [] \<longrightarrow> bs \<noteq> [])"
        if "h4_quiet_laws E" and "settled = h4_settled s" for settled
        unfolding w[OF that(1)] using q[OF that(1)] todo that(2) by blast
    qed (use s'(1) st st' in \<open>auto simp: h4_settled_def\<close>)
  qed
qed

lemma rx_discard_frame:
  assumes laws: "h4_rx_laws E" and inv: "h4_inv E s" and st: "rx_state (rxv s) = ST_DISCARD"
    and run: "rx_discard E s = Some (again, s')"
  shows "rx_frame E s s' \<and> rx_progress E s again s'"
proof -
  let ?v = "rxv s"
  obtain n bs u where rd: "h4_read E (min (nat (rx_remaining ?v)) H4_DISCARD_LEN) (env s) = ((n, bs), u)"
    by (metis prod.collapse)
  note v = h4_read_view[OF laws rd]
  have i: "0 < rx_remaining ?v" using inv st by (auto simp: h4_inv_def Let_def h4_consts)
  then have pos: "0 < min (nat (rx_remaining ?v)) H4_DISCARD_LEN" by (simp add: H4_DISCARD_LEN_def)
  have s': "again = (bs \<noteq> [])" "env s' = u" "tx_buf s' = tx_buf s" "rx_state (rxv s') \<noteq> ST_PAYLOAD"
    using run v(1) st by (auto simp: rx_discard_def rd Let_def h4_consts split: if_splits)
  have q: "hwaiting E (env s) = bs @ hwaiting E u \<and> (hwaiting E (env s) \<noteq> [] \<longrightarrow> bs \<noteq> [])" if "h4_quiet_laws E"
    using h4_quiet_view(1)[OF that rd] pos by blast
  show ?thesis
  proof
    show "rx_frame E s s'" using s' v(3) by (auto simp: rx_frame_def rx_owns_def)
    show "rx_progress E s again s'"
      by (rule rx_progressI[of _ _ bs], use q s'(2) in blast)
        (use s' st in \<open>simp_all add: h4_settled_def h4_consts\<close>)
  qed
qed

lemma rx_turn_frame:
  assumes "h4_rx_laws E" and "h4_inv E s" and "rx_turn E s = Some (again, s')"
  shows "rx_frame E s s' \<and> rx_progress E s again s'"
proof -
  consider "rx_state (rxv s) = ST_IDLE" | "rx_state (rxv s) = ST_HDR" | "rx_state (rxv s) = ST_PAYLOAD"
    | "rx_state (rxv s) = ST_DISCARD"
    using assms(2) by (auto simp: h4_inv_def Let_def)
  then show ?thesis
    by cases (use assms rx_idle_frame rx_hdr_frame rx_payload_frame rx_discard_frame in
      \<open>simp_all add: rx_turn_def ST_IDLE_def ST_HDR_def ST_PAYLOAD_def ST_DISCARD_def\<close>)
qed

text \<open>The interrupt's part of receiving returns.\<close>

lemma rx_isr_returns_lemma:
  assumes laws: "h4_rx_laws E" "h4_quiet_laws E" and inv: "h4_inv E s"
  shows "\<exists>s'. rx_isr E s = Some s' \<and> rx_frame E s s' \<and>
     length (hwaiting E (env s')) \<le> length (hwaiting E (env s)) \<and>
     (h4_settled s \<and> hwaiting E (env s) \<noteq> [] \<longrightarrow> length (hwaiting E (env s')) < length (hwaiting E (env s))) \<and>
     (hwaiting E (env s') = [] \<or> rx_state (rxv s') = ST_IDLE)"
  using inv
proof (induction "length (hwaiting E (env s))" arbitrary: s rule: less_induct)
  case less
  obtain again s1 where t: "rx_turn E s = Some (again, s1)" "h4_follows E s s1"
    by (rule rx_turn_follows[OF laws(1) less.prems])
  from rx_turn_frame[OF laws(1) less.prems t(1)] laws(2)
  have f: "rx_frame E s s1" and p: "length (hwaiting E (env s1)) \<le> length (hwaiting E (env s))"
    "again \<or> h4_settled s \<and> hwaiting E (env s) \<noteq> [] \<Longrightarrow> length (hwaiting E (env s1)) < length (hwaiting E (env s))"
    "\<not> again \<Longrightarrow> hwaiting E (env s1) = [] \<or> rx_state (rxv s1) = ST_IDLE"
    unfolding rx_progress_def by blast+
  show ?case
  proof (cases again)
    case False
    with t(1) have "rx_isr E s = Some s1" by (simp add: rx_isr.simps)
    with f p(1,2) p(3)[OF False] show ?thesis by blast
  next
    case True
    have lt: "length (hwaiting E (env s1)) < length (hwaiting E (env s))" using p(2) True by blast
    have "h4_inv E s1" using t(2) by (simp add: h4_follows_def)
    from less.hyps[OF lt this] obtain s' where s': "rx_isr E s1 = Some s'" "rx_frame E s1 s'"
      "length (hwaiting E (env s')) \<le> length (hwaiting E (env s1))"
      "hwaiting E (env s') = [] \<or> rx_state (rxv s') = ST_IDLE" by blast
    have "rx_isr E s = Some s'" using t(1) True s'(1) by (simp add: rx_isr.simps[of E s])
    with rx_frame_trans[OF f s'(2)] s'(3,4) lt show ?thesis by (intro exI[of _ s']) simp
  qed
qed

lemma rx_isr_frame:
  assumes "h4_rx_laws E" and "h4_inv E s" and "rx_isr E s = Some s'"
  shows "rx_frame E s s'"
  by (rule rx_isr_turns[OF assms(1,3,2)]) (use rx_turn_frame[OF assms(1)] rx_frame_trans in blast)+

end
