(* ===== verification/Hci_Transmit.thy ===== *)
theory Hci_Transmit
  imports Hci_Interrupt
begin

text \<open>
  The other direction of the HCI bridge: buffers from the controller are queued by \<open>h4_send\<close> and
  written to the UART by \<open>tx_isr\<close>, as many bytes at a time as the UART takes. Then the two directions
  together: runs of the bridge, and the end of its interrupt.
\<close>

section \<open>What the transmitter relies on\<close>

definition h4_tx_laws :: "'u h4_env \<Rightarrow> bool" where
  "h4_tx_laws E \<longleftrightarrow>
     (\<forall>q u r u'. h_fifo_get E q u = (r, u') \<longrightarrow> (case hv_fifo (hview E u) q of
        [] \<Rightarrow> r = None \<and> hview E u' = hview E u
      | b # bs \<Rightarrow> r = Some b \<and> hview E u' = (hview E u)\<lparr>hv_fifo := (hv_fifo (hview E u))(q := bs)\<rparr>)) \<and>
     (\<forall>b u. hview E (h_fifo_put E UartTxQueue b u) = (hview E u)\<lparr>hv_fifo :=
        (hv_fifo (hview E u))(UartTxQueue := hv_fifo (hview E u) UartTxQueue @ [b])\<rparr>) \<and>
     (\<forall>d u n u'. uart_fifo_fill E d u = (n, u') \<longrightarrow> 0 \<le> n \<and> n \<le> int (length d) \<and>
        hview E u' = (hview E u)\<lparr>hv_sent := hv_sent (hview E u) @ take (nat n) d\<rparr>) \<and>
     (\<forall>b r n u. hv_bufs (hview E u) b = Some r \<longrightarrow> n \<le> length (hb_data r) \<longrightarrow>
        hview E (hbuf_pull E b n u) = (hview E u)
          \<lparr>hv_bufs := (hv_bufs (hview E u))(b \<mapsto> r\<lparr>hb_data := drop n (hb_data r)\<rparr>)\<rparr>) \<and>
     (\<forall>b r u. hv_bufs (hview E u) b = Some r \<longrightarrow>
        hview E (hbuf_unref E b u) = (hview E u)\<lparr>hv_bufs := (hv_bufs (hview E u))(b := None)\<rparr>) \<and>
     (\<forall>u. hview E (uart_irq_tx_enable E u) = (hview E u)\<lparr>hv_tx_irq := True\<rparr>) \<and>
     (\<forall>u. hview E (uart_irq_tx_disable E u) = (hview E u)\<lparr>hv_tx_irq := False\<rparr>)"

lemma h4_tx_view:
  assumes "h4_tx_laws E"
  shows "hview E (h_fifo_put E UartTxQueue b u) = (hview E u)\<lparr>hv_fifo :=
        (hv_fifo (hview E u))(UartTxQueue := hv_fifo (hview E u) UartTxQueue @ [b])\<rparr>"
    and "hv_bufs (hview E u) b = Some r \<Longrightarrow> n \<le> length (hb_data r) \<Longrightarrow> hview E (hbuf_pull E b n u) =
        (hview E u)\<lparr>hv_bufs := (hv_bufs (hview E u))(b \<mapsto> r\<lparr>hb_data := drop n (hb_data r)\<rparr>)\<rparr>"
    and "hv_bufs (hview E u) b = Some r \<Longrightarrow>
        hview E (hbuf_unref E b u) = (hview E u)\<lparr>hv_bufs := (hv_bufs (hview E u))(b := None)\<rparr>"
    and "hview E (uart_irq_tx_enable E u) = (hview E u)\<lparr>hv_tx_irq := True\<rparr>"
    and "hview E (uart_irq_tx_disable E u) = (hview E u)\<lparr>hv_tx_irq := False\<rparr>"
  using assms unfolding h4_tx_laws_def by blast+

lemma h4_fill_view:
  assumes "h4_tx_laws E" and "uart_fifo_fill E d u = (n, u')"
  shows "0 \<le> n" and "n \<le> int (length d)"
    and "hview E u' = (hview E u)\<lparr>hv_sent := hv_sent (hview E u) @ take (nat n) d\<rparr>"
  using assms unfolding h4_tx_laws_def by blast+

lemma h4_get_view:
  assumes "h4_tx_laws E" and "h_fifo_get E q u = (r, u')"
  shows "hv_fifo (hview E u) q = [] \<Longrightarrow> r = None \<and> hview E u' = hview E u"
    and "hv_fifo (hview E u) q = b # bs \<Longrightarrow>
           r = Some b \<and> hview E u' = (hview E u)\<lparr>hv_fifo := (hv_fifo (hview E u))(q := bs)\<rparr>"
  using assms unfolding h4_tx_laws_def by fastforce+

section \<open>What is waiting to be sent\<close>

text \<open>The buffers, and their bytes.\<close>

definition tx_pending :: "'u h4_env \<Rightarrow> 'u h4_machine \<Rightarrow> nat list" where
  "tx_pending E s = (case tx_buf s of None \<Rightarrow> [] | Some b \<Rightarrow> [b]) @ hv_fifo (hview E (env s)) UartTxQueue"

definition buf_bytes :: "'u h4_env \<Rightarrow> 'u h4_machine \<Rightarrow> nat \<Rightarrow> u8 list" where
  "buf_bytes E s b = (case hv_bufs (hview E (env s)) b of None \<Rightarrow> [] | Some r \<Rightarrow> hb_data r)"

definition tx_bytes :: "'u h4_env \<Rightarrow> 'u h4_machine \<Rightarrow> u8 list" where
  "tx_bytes E s = concat (map (buf_bytes E s) (tx_pending E s))"

text \<open>Every buffer is queued once, is allocated and not the receiver's; and the interrupt is enabled
  when there is something to send.\<close>

definition tx_inv :: "'u h4_env \<Rightarrow> 'u h4_machine \<Rightarrow> bool" where
  "tx_inv E s \<longleftrightarrow> distinct (tx_pending E s) \<and>
     (\<forall>b \<in> set (tx_pending E s). hv_bufs (hview E (env s)) b \<noteq> None \<and> \<not> rx_owns s b) \<and>
     (tx_pending E s \<noteq> [] \<longrightarrow> hv_tx_irq (hview E (env s)))"

definition tx_undisturbed :: "'u h4_env \<Rightarrow> 'u h4_machine \<Rightarrow> 'u h4_machine \<Rightarrow> bool" where
  "tx_undisturbed E s s' \<longleftrightarrow> tx_buf s' = tx_buf s \<and> hv_sent (hview E (env s')) = hv_sent (hview E (env s)) \<and>
     hv_tx_irq (hview E (env s')) = hv_tx_irq (hview E (env s)) \<and>
     hv_fifo (hview E (env s')) UartTxQueue = hv_fifo (hview E (env s)) UartTxQueue \<and>
     (\<forall>b \<in> set (tx_pending E s). hv_bufs (hview E (env s')) b = hv_bufs (hview E (env s)) b \<and> \<not> rx_owns s' b)"

lemma tx_undisturbed_keeps:
  assumes "tx_undisturbed E s s'" and "tx_inv E s"
  shows "tx_inv E s'" and "tx_bytes E s' = tx_bytes E s" and "tx_pending E s' = tx_pending E s"
    and "hv_sent (hview E (env s')) = hv_sent (hview E (env s))"
proof -
  show p: "tx_pending E s' = tx_pending E s" and "hv_sent (hview E (env s')) = hv_sent (hview E (env s))"
    using assms(1) by (simp_all add: tx_undisturbed_def tx_pending_def)
  show "tx_inv E s'" using assms p by (simp add: tx_inv_def tx_undisturbed_def)
  have "map (buf_bytes E s') (tx_pending E s) = map (buf_bytes E s) (tx_pending E s)"
    using assms(1) by (simp add: tx_undisturbed_def buf_bytes_def)
  then show "tx_bytes E s' = tx_bytes E s" by (simp only: tx_bytes_def p)
qed

lemma rx_frame_tx_undisturbed:
  assumes "rx_frame E s s'" and "tx_inv E s"
  shows "tx_undisturbed E s s'"
  using assms by (fastforce simp: rx_frame_def tx_undisturbed_def tx_inv_def)

section \<open>The transmit interrupt\<close>

text \<open>In a quiet environment it makes progress when the UART is ready for it.\<close>

definition h4_line_laws :: "'u h4_env \<Rightarrow> bool" where
  "h4_line_laws E \<longleftrightarrow>
     (\<forall>d u. d \<noteq> [] \<longrightarrow> uart_irq_tx_ready E u \<longrightarrow> 0 < fst (uart_fifo_fill E d u)) \<and>
     (\<forall>q u. uart_irq_tx_ready E (snd (h_fifo_get E q u)) = uart_irq_tx_ready E u) \<and>
     (\<forall>d u. hwaiting E (snd (uart_fifo_fill E d u)) = hwaiting E u) \<and>
     (\<forall>q u. hwaiting E (snd (h_fifo_get E q u)) = hwaiting E u) \<and>
     (\<forall>b n u. hwaiting E (hbuf_pull E b n u) = hwaiting E u) \<and>
     (\<forall>u. hwaiting E (uart_irq_tx_disable E u) = hwaiting E u)"

definition tx_work :: "'u h4_env \<Rightarrow> 'u h4_machine \<Rightarrow> nat" where
  "tx_work E s = length (tx_bytes E s) + length (tx_pending E s) + (if hv_tx_irq (hview E (env s)) then 1 else 0)"

text \<open>The buffer it serves, and the state before it is served.\<close>

lemma tx_isr_spec:
  assumes laws: "h4_tx_laws E" and inv: "tx_inv E s"
  shows "\<exists>s'. tx_isr E s = Some s' \<and> tx_inv E s' \<and> rx_undisturbed E s s' \<and> rxv s' = rxv s \<and>
     hv_sent (hview E (env s')) @ tx_bytes E s' = hv_sent (hview E (env s)) @ tx_bytes E s \<and>
     (h4_quiet_laws E \<and> h4_line_laws E \<longrightarrow> hwaiting E (env s') = hwaiting E (env s) \<and>
        (uart_irq_tx_ready E (env s) \<and> hv_tx_irq (hview E (env s)) \<longrightarrow> tx_work E s' < tx_work E s))"
proof (cases "tx_pending E s")
  case Nil
  then have none: "tx_buf s = None" "hv_fifo (hview E (env s)) UartTxQueue = []"
    by (auto simp: tx_pending_def split: option.splits)
  obtain r u where g: "h_fifo_get E UartTxQueue (env s) = (r, u)" by fastforce
  from h4_get_view(1)[OF laws g none(2)] have r: "r = None" "hview E u = hview E (env s)" by simp_all
  let ?s = "s\<lparr>env := uart_irq_tx_disable E u, tx_buf := None\<rparr>"
  have run: "tx_isr E s = Some ?s" by (simp add: tx_isr_def none(1) g r(1))
  have v: "hview E (env ?s) = (hview E (env s))\<lparr>hv_tx_irq := False\<rparr>"
    by (simp add: h4_tx_view(5)[OF laws] r(2))
  have p: "tx_pending E ?s = []" by (simp add: tx_pending_def h4_tx_view(5)[OF laws] r(2) none(2))
  have "hwaiting E (env ?s) = hwaiting E (env s)" if "h4_line_laws E"
    using that arg_cong[OF g, of snd] unfolding h4_line_laws_def by (simp, metis)
  moreover have "tx_work E ?s < tx_work E s" if "hv_tx_irq (hview E (env s))"
    using that by (simp add: tx_work_def tx_bytes_def p Nil h4_tx_view(5)[OF laws])
  moreover have "tx_inv E ?s" by (simp add: tx_inv_def p)
  moreover have "rx_undisturbed E s ?s" unfolding rx_undisturbed_def v by simp
  moreover have "hv_sent (hview E (env ?s)) @ tx_bytes E ?s = hv_sent (hview E (env s)) @ tx_bytes E s"
    unfolding v by (simp add: tx_bytes_def p Nil)
  ultimately show ?thesis using run by (intro exI[of _ ?s]) simp
next
  case (Cons b bs)
  define u where "u = (case tx_buf s of Some b \<Rightarrow> env s | None \<Rightarrow> snd (h_fifo_get E UartTxQueue (env s)))"
  have u: "(case tx_buf s of Some b \<Rightarrow> (Some b, env s) | None \<Rightarrow> h_fifo_get E UartTxQueue (env s)) = (Some b, u)"
    "hview E u = (hview E (env s))\<lparr>hv_fifo := (hv_fifo (hview E (env s)))(UartTxQueue := bs)\<rparr>"
    "h4_line_laws E \<Longrightarrow> hwaiting E u = hwaiting E (env s) \<and> uart_irq_tx_ready E u = uart_irq_tx_ready E (env s)"
  proof -
    have "(case tx_buf s of Some b \<Rightarrow> (Some b, env s) | None \<Rightarrow> h_fifo_get E UartTxQueue (env s)) = (Some b, u) \<and>
      hview E u = (hview E (env s))\<lparr>hv_fifo := (hv_fifo (hview E (env s)))(UartTxQueue := bs)\<rparr>"
    proof (cases "tx_buf s")
      case None
      then have "hv_fifo (hview E (env s)) UartTxQueue = b # bs" using Cons by (simp add: tx_pending_def)
      moreover obtain r u' where "h_fifo_get E UartTxQueue (env s) = (r, u')" by fastforce
      ultimately show ?thesis using None h4_get_view(2)[OF laws] by (auto simp: u_def)
    next
      case (Some b')
      then show ?thesis using Cons by (simp add: tx_pending_def u_def fun_upd_idem)
    qed
    then show "(case tx_buf s of Some b \<Rightarrow> (Some b, env s) | None \<Rightarrow> h_fifo_get E UartTxQueue (env s)) = (Some b, u)"
      "hview E u = (hview E (env s))\<lparr>hv_fifo := (hv_fifo (hview E (env s)))(UartTxQueue := bs)\<rparr>" by blast+
    show "h4_line_laws E \<Longrightarrow> hwaiting E u = hwaiting E (env s) \<and> uart_irq_tx_ready E u = uart_irq_tx_ready E (env s)"
      by (auto simp: u_def h4_line_laws_def split: option.splits)
  qed
  have i: "distinct (b # bs)" "\<And>x. x \<in> set (b # bs) \<Longrightarrow> hv_bufs (hview E (env s)) x \<noteq> None \<and> \<not> rx_owns s x"
    "hv_tx_irq (hview E (env s))"
    using inv by (auto simp: tx_inv_def Cons)
  then obtain r where r: "hv_bufs (hview E (env s)) b = Some r" by fastforce
  obtain n u1 where f: "uart_fifo_fill E (hb_data r) u = (n, u1)" by fastforce
  note fv = h4_fill_view[OF laws f]
  let ?d = "drop (nat n) (hb_data r)"
  let ?u2 = "hbuf_pull E b (nat n) u1"
  have v2: "hview E ?u2 = (hview E (env s))\<lparr>hv_fifo := (hv_fifo (hview E (env s)))(UartTxQueue := bs),
      hv_sent := hv_sent (hview E (env s)) @ take (nat n) (hb_data r),
      hv_bufs := (hv_bufs (hview E (env s)))(b \<mapsto> r\<lparr>hb_data := ?d\<rparr>)\<rparr>"
    using h4_tx_view(2)[OF laws, of u1 b r "nat n"] fv u(2) r by simp
  define s' where "s' = (if ?d = [] then s\<lparr>env := hbuf_unref E b ?u2, tx_buf := None\<rparr> else s\<lparr>env := ?u2, tx_buf := Some b\<rparr>)"
  have run: "tx_isr E s = Some s'"
    using f v2 by (simp add: tx_isr_def u(1) u(2) r s'_def)
  have un: "hview E (hbuf_unref E b ?u2) = (hview E ?u2)\<lparr>hv_bufs := (hv_bufs (hview E ?u2))(b := None)\<rparr>"
    by (rule h4_tx_view(3)[OF laws, of _ _ "r\<lparr>hb_data := ?d\<rparr>"]) (simp add: v2)
  have p: "tx_pending E s' = (if ?d = [] then bs else b # bs)"
    by (simp add: s'_def tx_pending_def un v2)
  have same: "rxv s' = rxv s" "hv_sent (hview E (env s')) = hv_sent (hview E (env s)) @ take (nat n) (hb_data r)"
    "hv_tx_irq (hview E (env s')) = True" "hv_log (hview E (env s')) = hv_log (hview E (env s))"
    "hv_passed (hview E (env s')) = hv_passed (hview E (env s))"
    using i(3) by (simp_all add: s'_def un v2)
  have others: "\<And>x. x \<noteq> b \<Longrightarrow> hv_bufs (hview E (env s')) x = hv_bufs (hview E (env s)) x"
    and own: "?d \<noteq> [] \<Longrightarrow> hv_bufs (hview E (env s')) b = Some (r\<lparr>hb_data := ?d\<rparr>)"
    by (simp_all add: s'_def un v2)
  have owns: "\<And>x. rx_owns s' x = rx_owns s x" by (simp add: rx_owns_def same(1))
  have "x \<in> set bs \<Longrightarrow> buf_bytes E s' x = buf_bytes E s x" for x
    using i(1) others[of x] by (cases "x = b") (simp_all add: buf_bytes_def)
  then have rest: "map (buf_bytes E s') bs = map (buf_bytes E s) bs" by (rule map_cong[OF refl])
  have "?d \<noteq> [] \<Longrightarrow> buf_bytes E s' b = ?d" using own by (simp add: buf_bytes_def)
  then have "tx_bytes E s' = ?d @ concat (map (buf_bytes E s') bs)" by (simp add: tx_bytes_def p)
  then have bytes: "tx_bytes E s' = ?d @ concat (map (buf_bytes E s) bs)" by (simp only: rest)
  have bytes0: "tx_bytes E s = hb_data r @ concat (map (buf_bytes E s) bs)"
    by (simp add: tx_bytes_def Cons buf_bytes_def r)
  have "hv_bufs (hview E (env s')) x \<noteq> None" if "x \<in> set (tx_pending E s')" for x
    using that i(1,2) others[of x] own by (cases "x = b") (auto simp: p split: if_splits)
  then have "tx_inv E s'" using i(1,2) by (auto simp: tx_inv_def p same(3) owns split: if_splits)
  moreover have "rx_undisturbed E s s'"
    using others i(2)[of b] by (auto simp: rx_undisturbed_def same rx_owns_def)
  moreover have "hv_sent (hview E (env s')) @ tx_bytes E s' = hv_sent (hview E (env s)) @ tx_bytes E s"
    by (simp add: same(2) bytes bytes0)
  moreover have "hwaiting E (env s') = hwaiting E (env s) \<and> (uart_irq_tx_ready E (env s) \<longrightarrow> tx_work E s' < tx_work E s)"
    if q: "h4_quiet_laws E" "h4_line_laws E"
  proof
    have "hwaiting E u1 = hwaiting E u" using q(2) arg_cong[OF f, of snd] unfolding h4_line_laws_def by (metis snd_conv)
    with q u(3) show "hwaiting E (env s') = hwaiting E (env s)"
      by (simp add: s'_def h4_line_laws_def h4_quiet_view(4))
    show "uart_irq_tx_ready E (env s) \<longrightarrow> tx_work E s' < tx_work E s"
    proof
      assume "uart_irq_tx_ready E (env s)"
      then have "hb_data r \<noteq> [] \<Longrightarrow> 0 < n"
        using q(2) u(3)[OF q(2)] f unfolding h4_line_laws_def by (metis fst_conv)
      then have "?d \<noteq> [] \<Longrightarrow> length ?d < length (hb_data r)" by fastforce
      then show "tx_work E s' < tx_work E s"
        by (cases "?d = []") (simp_all add: tx_work_def p Cons bytes bytes0 same(3) i(3) del: length_drop)
    qed
  qed
  ultimately show ?thesis using run same(1) by (intro exI[of _ s']) blast
qed

section \<open>Runs of the bridge\<close>

text \<open>
  Both parts of the interrupt, \<open>h4_send\<close> for a buffer of the controller, and steps of other code that
  leave the bridge's objects alone. The run records the contents of the buffers sent.
\<close>

inductive bridge_runs :: "'u h4_env \<Rightarrow> 'u h4_machine \<Rightarrow> u8 list list \<Rightarrow> 'u h4_machine \<Rightarrow> bool" for E s where
  begins: "bridge_runs E s [] s"
| receives: "bridge_runs E s ds s1 \<Longrightarrow> rx_isr E s1 = Some s2 \<Longrightarrow> bridge_runs E s ds s2"
| transmits: "bridge_runs E s ds s1 \<Longrightarrow> tx_isr E s1 = Some s2 \<Longrightarrow> bridge_runs E s ds s2"
| sends: "bridge_runs E s ds s1 \<Longrightarrow> hv_bufs (hview E (env s1)) b = Some r \<Longrightarrow> b \<notin> set (tx_pending E s1) \<Longrightarrow>
    \<not> rx_owns s1 b \<Longrightarrow> h4_send E b s1 = (err, s2) \<Longrightarrow> bridge_runs E s (ds @ [hb_data r]) s2"
| elsewhere: "bridge_runs E s ds s1 \<Longrightarrow> rx_undisturbed E s1 s2 \<Longrightarrow> tx_undisturbed E s1 s2 \<Longrightarrow>
    bridge_runs E s ds s2"

inductive_cases bridge_runs_endE: "bridge_runs E s ds s'"

definition bridge_booted :: "'u h4_env \<Rightarrow> 'u h4_machine \<Rightarrow> bool" where
  "bridge_booted E s \<longleftrightarrow> h4_booted E s \<and> tx_pending E s = [] \<and> hv_sent (hview E (env s)) = []"

definition bridge_ok :: "'u h4_env \<Rightarrow> u8 list list \<Rightarrow> 'u h4_machine \<Rightarrow> bool" where
  "bridge_ok E ds s \<longleftrightarrow> h4_between E s \<and> tx_inv E s \<and>
     hv_sent (hview E (env s)) @ tx_bytes E s = concat ds"

lemma h4_send_spec:
  assumes laws: "h4_tx_laws E" and ok: "bridge_ok E ds s"
    and b: "hv_bufs (hview E (env s)) b = Some r" "b \<notin> set (tx_pending E s)" "\<not> rx_owns s b"
    and run: "h4_send E b s = (err, s')"
  shows "err = 0 \<and> bridge_ok E (ds @ [hb_data r]) s'"
proof -
  have s': "err = 0" "s' = s\<lparr>env := uart_irq_tx_enable E (h_fifo_put E UartTxQueue b (env s))\<rparr>"
    using run by (simp_all add: h4_send_def)
  have v: "hview E (env s') = (hview E (env s))\<lparr>hv_fifo :=
      (hv_fifo (hview E (env s)))(UartTxQueue := hv_fifo (hview E (env s)) UartTxQueue @ [b]), hv_tx_irq := True\<rparr>"
    by (simp add: s'(2) h4_tx_view(1,4)[OF laws])
  have p: "tx_pending E s' = tx_pending E s @ [b]" by (simp add: tx_pending_def v) (simp add: s'(2))
  have same: "rxv s' = rxv s" "\<And>x. rx_owns s' x = rx_owns s x" by (simp_all add: s'(2) rx_owns_def)
  have "tx_inv E s'" using ok b by (auto simp: bridge_ok_def tx_inv_def p v same)
  moreover have "rx_undisturbed E s s'" by (simp add: rx_undisturbed_def same v)
  moreover have "tx_bytes E s' = tx_bytes E s @ hb_data r"
    using b(1) by (simp add: tx_bytes_def p buf_bytes_def v cong: map_cong)
  ultimately show ?thesis
    using ok h4_between_undisturbed[of E s s'] s'(1) by (simp add: bridge_ok_def v)
qed

lemma bridge_runs_ok:
  assumes "bridge_runs E s ds s'" and laws: "h4_rx_laws E" "h4_tx_laws E" and "bridge_booted E s"
  shows "bridge_ok E ds s'"
  using assms(1)
proof induction
  case begins
  have b: "h4_booted E s" "tx_pending E s = []" "hv_sent (hview E (env s)) = []"
    using assms(4) by (simp_all add: bridge_booted_def)
  with h4_booted_between[OF laws(1) b(1)] show ?case by (simp add: bridge_ok_def tx_inv_def tx_bytes_def)
next
  case (receives ds s1 s2)
  have ok: "h4_between E s1" "h4_inv E s1" "tx_inv E s1"
    using receives.IH by (simp_all add: bridge_ok_def h4_between_def)
  note t = rx_frame_tx_undisturbed[OF rx_isr_frame[OF laws(1) ok(2) receives.hyps(2)] ok(3)]
  from h4_between_isr[OF laws(1) ok(1) receives.hyps(2)] tx_undisturbed_keeps[OF t ok(3)] receives.IH
  show ?case by (simp add: bridge_ok_def)
next
  case (transmits ds s1 s2)
  then show ?case
    using tx_isr_spec[OF laws(2), of s1] h4_between_undisturbed by (fastforce simp: bridge_ok_def)
next
  case (sends ds s1 b r err s2)
  then show ?case using h4_send_spec[OF laws(2)] by blast
next
  case (elsewhere ds s1 s2)
  then have "h4_between E s1" "tx_inv E s1" by (simp_all add: bridge_ok_def)
  with h4_between_undisturbed tx_undisturbed_keeps[OF elsewhere.hyps(3)] elsewhere show ?case
    by (simp add: bridge_ok_def)
qed

section \<open>The end of the interrupt\<close>

text \<open>In a quiet environment: the interrupt is pending exactly as long as a byte waits or the
  transmitter's interrupt is enabled, and the transmitter is ready when it is enabled.\<close>

definition h4_irq_laws :: "'u h4_env \<Rightarrow> bool" where
  "h4_irq_laws E \<longleftrightarrow> h4_quiet_laws E \<and> h4_line_laws E \<and>
     (\<forall>u. fst (uart_irq_update E u) \<and> hview E (snd (uart_irq_update E u)) = hview E u \<and>
        hwaiting E (snd (uart_irq_update E u)) = hwaiting E u) \<and>
     (\<forall>u. uart_irq_rx_ready E u = (hwaiting E u \<noteq> [])) \<and>
     (\<forall>u. uart_irq_tx_ready E u = hv_tx_irq (hview E u)) \<and>
     (\<forall>u. uart_irq_is_pending E u = (uart_irq_rx_ready E u \<or> uart_irq_tx_ready E u))"

lemma bt_uart_isr_drains:
  assumes laws: "h4_rx_laws E" "h4_tx_laws E" "h4_irq_laws E" and ok: "bridge_ok E ds s"
  shows "\<exists>s'. bt_uart_isr E s = Some s' \<and> bridge_ok E ds s' \<and> hwaiting E (env s') = [] \<and> tx_pending E s' = []"
  using ok
proof (induction "length (hwaiting E (env s)) + tx_work E s" arbitrary: s rule: less_induct)
  case less
  have q: "h4_quiet_laws E" "h4_line_laws E" using laws(3) by (simp_all add: h4_irq_laws_def)
  obtain upd u where up: "uart_irq_update E (env s) = (upd, u)" by fastforce
  have u: "upd" "hview E u = hview E (env s)" "hwaiting E u = hwaiting E (env s)"
    using laws(3) up unfolding h4_irq_laws_def by (metis fst_conv snd_conv)+
  let ?s = "s\<lparr>env := u\<rparr>"
  have irq: "\<And>u. uart_irq_rx_ready E u = (hwaiting E u \<noteq> [])" "\<And>u. uart_irq_tx_ready E u = hv_tx_irq (hview E u)"
    "\<And>u. uart_irq_is_pending E u = (uart_irq_rx_ready E u \<or> uart_irq_tx_ready E u)"
    using laws(3) unfolding h4_irq_laws_def by blast+
  have "buf_bytes E ?s = buf_bytes E s" by (simp add: fun_eq_iff buf_bytes_def u(2))
  then have same: "tx_pending E ?s = tx_pending E s" "tx_bytes E ?s = tx_bytes E s" "tx_work E ?s = tx_work E s"
    by (simp_all add: tx_pending_def tx_bytes_def tx_work_def u(2))
  have ok1: "bridge_ok E ds ?s"
  proof -
    have "rx_undisturbed E s ?s" by (simp add: rx_undisturbed_def u(2))
    moreover have "tx_inv E ?s" using less.prems by (simp add: bridge_ok_def tx_inv_def same(1) u(2) rx_owns_def)
    ultimately show ?thesis
      using less.prems h4_between_undisturbed[of E s ?s] by (simp add: bridge_ok_def same(2) u(2))
  qed
  show ?case
  proof (cases "uart_irq_is_pending E u")
    case False
    then have "hwaiting E u = []" "\<not> hv_tx_irq (hview E u)" by (simp_all add: irq)
    moreover have "tx_pending E ?s = []" using ok1 \<open>\<not> hv_tx_irq (hview E u)\<close> by (simp add: bridge_ok_def tx_inv_def)
    moreover have "bt_uart_isr E s = Some ?s" by (simp add: bt_uart_isr.simps[of E s] up False)
    ultimately show ?thesis using ok1 by (intro exI[of _ ?s]) simp
  next
    case True
    obtain s2 where s2: "(if uart_irq_tx_ready E u then tx_isr E ?s else Some ?s) = Some s2" "bridge_ok E ds s2"
      "hwaiting E (env s2) = hwaiting E (env s)" "uart_irq_tx_ready E u \<Longrightarrow> tx_work E s2 < tx_work E s"
      "tx_work E s2 \<le> tx_work E s"
    proof (cases "uart_irq_tx_ready E u")
      case True
      have i: "tx_inv E ?s" "h4_between E ?s" using ok1 by (simp_all add: bridge_ok_def)
      from tx_isr_spec[OF laws(2) i(1)] q obtain s2 where s2: "tx_isr E ?s = Some s2" "tx_inv E s2"
        "rx_undisturbed E ?s s2"
        "hv_sent (hview E (env s2)) @ tx_bytes E s2 = hv_sent (hview E (env ?s)) @ tx_bytes E ?s"
        "hwaiting E (env s2) = hwaiting E (env ?s)"
        "uart_irq_tx_ready E (env ?s) \<and> hv_tx_irq (hview E (env ?s)) \<longrightarrow> tx_work E s2 < tx_work E ?s" by blast
      have lt: "tx_work E s2 < tx_work E s" using s2(6) True irq(2)[of u] same(3) by simp
      have "bridge_ok E ds s2" using s2(2,4) h4_between_undisturbed[OF i(2) s2(3)] ok1 by (simp add: bridge_ok_def)
      with lt s2(1,5) True u(3) show ?thesis by (intro that[of s2]) simp_all
    next
      case False
      with ok1 same(3) u(3) show ?thesis by (intro that[of ?s]) simp_all
    qed
    have i2: "h4_between E s2" "h4_inv E s2" "h4_settled s2" "tx_inv E s2"
      using s2(2) by (simp_all add: bridge_ok_def h4_between_def)
    obtain s3 where s3: "(if uart_irq_rx_ready E (env s2) then rx_isr E s2 else Some s2) = Some s3" "bridge_ok E ds s3"
      "tx_work E s3 = tx_work E s2" "length (hwaiting E (env s3)) \<le> length (hwaiting E (env s))"
      "hwaiting E (env s) \<noteq> [] \<Longrightarrow> length (hwaiting E (env s3)) < length (hwaiting E (env s))"
    proof (cases "uart_irq_rx_ready E (env s2)")
      case True
      from rx_isr_returns_lemma[OF laws(1) q(1) i2(2)] obtain s3 where s3: "rx_isr E s2 = Some s3" "rx_frame E s2 s3"
        "length (hwaiting E (env s3)) \<le> length (hwaiting E (env s2))"
        "h4_settled s2 \<and> hwaiting E (env s2) \<noteq> [] \<longrightarrow> length (hwaiting E (env s3)) < length (hwaiting E (env s2))"
        by blast
      note t = rx_frame_tx_undisturbed[OF s3(2) i2(4)]
      note k = tx_undisturbed_keeps[OF t i2(4)]
      have "bridge_ok E ds s3" using h4_between_isr[OF laws(1) i2(1) s3(1)] k s2(2) by (simp add: bridge_ok_def)
      moreover have "tx_work E s3 = tx_work E s2"
        using k t by (simp add: tx_work_def tx_undisturbed_def)
      ultimately show ?thesis using True s3(1,3,4) i2(3) s2(3) by (intro that[of s3]) simp_all
    next
      case False
      then have "hwaiting E (env s) = []" using s2(3) by (simp add: irq(1))
      with False s2 show ?thesis by (intro that[of s2]) simp_all
    qed
    have lt: "length (hwaiting E (env s3)) + tx_work E s3 < length (hwaiting E (env s)) + tx_work E s"
      using True irq u(3) s2(4,5) s3(3-5) by fastforce
    from less.hyps[OF lt s3(2)] obtain s' where s': "bt_uart_isr E s3 = Some s'" "bridge_ok E ds s'"
      "hwaiting E (env s') = []" "tx_pending E s' = []" by blast
    have "bt_uart_isr E s = Some s'"
      using True u(1) s2(1) s3(1) s'(1) by (simp add: bt_uart_isr.simps[of E s] up)
    with s' show ?thesis by blast
  qed
qed

end
