(* ===== verification/Hci_Properties.thy ===== *)
theory Hci_Properties
  imports Hci_Transmit
begin

text \<open>
  What is proved of the HCI bridge, and an environment to run it in: a UART whose bytes are given, and
  a pool with a given number of buffers.
\<close>

section \<open>A reference environment\<close>

record hworld =
  hw_bufs :: "nat \<Rightarrow> h4_buf option"
  hw_next :: nat
  hw_free :: nat
  hw_fifo :: "h4_queue \<Rightarrow> nat list"
  hw_wait :: "u8 list"
  hw_irq :: bool
  hw_log :: "h4_event list"
  hw_passed :: "(u8 \<times> u8 list) list"
  hw_sent :: "u8 list"

definition hw_set :: "nat \<Rightarrow> h4_buf option \<Rightarrow> hworld \<Rightarrow> hworld" where
  "hw_set b r u = u\<lparr>hw_bufs := (hw_bufs u)(b := r)\<rparr>"

definition hw_read :: "nat \<Rightarrow> hworld \<Rightarrow> (int \<times> u8 list) \<times> hworld" where
  "hw_read len u = (let bs = take len (hw_wait u) in
     ((int (length bs), bs), u\<lparr>hw_wait := drop len (hw_wait u), hw_log := hw_log u @ map Byte bs\<rparr>))"

definition hw_alloc :: "u8 \<Rightarrow> hworld \<Rightarrow> nat option \<times> hworld" where
  "hw_alloc t u = (if hw_free u = 0 \<or> hw_bufs u (hw_next u) \<noteq> None then (None, u\<lparr>hw_log := hw_log u @ [Room None]\<rparr>)
     else (Some (hw_next u), (hw_set (hw_next u) (Some \<lparr>hb_type = t, hb_room = 260, hb_data = []\<rparr>) u)
       \<lparr>hw_next := hw_next u + 1, hw_free := hw_free u - 1, hw_log := hw_log u @ [Room (Some 260)]\<rparr>))"

definition hw_add :: "nat \<Rightarrow> u8 list \<Rightarrow> hworld \<Rightarrow> hworld option" where
  "hw_add b d u = (case hw_bufs u b of None \<Rightarrow> None
     | Some r \<Rightarrow> if length (hb_data r) + length d \<le> hb_room r
                then Some (hw_set b (Some (r\<lparr>hb_data := hb_data r @ d\<rparr>)) u) else None)"

definition hw_room :: "nat \<Rightarrow> hworld \<Rightarrow> nat" where
  "hw_room b u = (case hw_bufs u b of None \<Rightarrow> 0 | Some r \<Rightarrow> hb_room r - length (hb_data r))"

definition hw_pull :: "nat \<Rightarrow> nat \<Rightarrow> hworld \<Rightarrow> hworld" where
  "hw_pull b n u = (case hw_bufs u b of None \<Rightarrow> u | Some r \<Rightarrow> hw_set b (Some (r\<lparr>hb_data := drop n (hb_data r)\<rparr>)) u)"

definition hw_put :: "h4_queue \<Rightarrow> nat \<Rightarrow> hworld \<Rightarrow> hworld" where
  "hw_put q b u = u\<lparr>hw_fifo := (hw_fifo u)(q := hw_fifo u q @ [b]),
     hw_passed := hw_passed u @ (if q = TxQueue
       then (case hw_bufs u b of None \<Rightarrow> [] | Some r \<Rightarrow> [(hb_type r, hb_data r)]) else [])\<rparr>"

definition hw_get :: "h4_queue \<Rightarrow> hworld \<Rightarrow> nat option \<times> hworld" where
  "hw_get q u = (case hw_fifo u q of [] \<Rightarrow> (None, u) | b # bs \<Rightarrow> (Some b, u\<lparr>hw_fifo := (hw_fifo u)(q := bs)\<rparr>))"

definition hw_fill :: "u8 list \<Rightarrow> hworld \<Rightarrow> int \<times> hworld" where
  "hw_fill d u = (int (min 2 (length d)), u\<lparr>hw_sent := hw_sent u @ take 2 d\<rparr>)"

definition hw_view :: "hworld \<Rightarrow> h4_view" where
  "hw_view u = \<lparr>hv_bufs = hw_bufs u, hv_fifo = hw_fifo u, hv_tx_irq = hw_irq u, hv_log = hw_log u,
     hv_passed = hw_passed u, hv_sent = hw_sent u\<rparr>"

definition ref_h4 :: "hworld h4_env" where
  "ref_h4 = \<lparr>hview = hw_view,
     sizeof_cmd_hdr = 3, sizeof_acl_hdr = 4, sizeof_iso_hdr = 4,
     cmd_param_len = (\<lambda>h. unat (h ! 2)), acl_data_len = (\<lambda>h. unat (mk16 (h ! 2) (h ! 3))),
     iso_data_len = (\<lambda>h. unat (mk16 (h ! 2) (h ! 3)) mod 2 ^ 14),
     bt_hci_evt_cmd_complete = 0x0E, bt_op_nop = 0, hwaiting = hw_wait,
     uart_fifo_read = hw_read, uart_fifo_fill = hw_fill,
     uart_poll_out = (\<lambda>b u. u\<lparr>hw_sent := hw_sent u @ [b]\<rparr>),
     uart_irq_update = (\<lambda>u. (True, u)), uart_irq_is_pending = (\<lambda>u. hw_wait u \<noteq> [] \<or> hw_irq u),
     uart_irq_rx_ready = (\<lambda>u. hw_wait u \<noteq> []), uart_irq_tx_ready = hw_irq,
     uart_irq_tx_enable = (\<lambda>u. u\<lparr>hw_irq := True\<rparr>), uart_irq_tx_disable = (\<lambda>u. u\<lparr>hw_irq := False\<rparr>),
     uart_irq_rx_enable = (\<lambda>u. u), uart_irq_rx_disable = (\<lambda>u. u), uart_irq_callback_set = (\<lambda>u. u),
     uart_is_ready = True, usb_cdc_acm = False, usb_enable = (\<lambda>u. (0, u)),
     bt_buf_get_tx = hw_alloc, hbuf_add_mem = hw_add, hbuf_tailroom = hw_room, hbuf_pull = hw_pull,
     hbuf_unref = (\<lambda>b. hw_set b None), h_fifo_put = hw_put, h_fifo_get = hw_get,
     h_fifo_wait = (\<lambda>q u. case hw_get q u of (None, _) \<Rightarrow> None | (Some b, u1) \<Rightarrow> Some (b, u1)),
     bt_send = (\<lambda>b u. (0, hw_set b None u)), h_yield = (\<lambda>u. u), bt_enable_raw = (\<lambda>u. u),
     h_thread_create = (\<lambda>u. u)\<rparr>"

definition ref_bridge :: "u8 list \<Rightarrow> nat \<Rightarrow> hworld h4_machine" where
  "ref_bridge bytes free = \<lparr>env = \<lparr>hw_bufs = (\<lambda>_. None), hw_next = 0, hw_free = free, hw_fifo = (\<lambda>_. []), hw_wait = bytes,
       hw_irq = False, hw_log = [], hw_passed = [], hw_sent = []\<rparr>,
     rxv = h4_rx_init ref_h4, tx_buf = None\<rparr>"

lemma ref_h4_view_simps [simp]:
  "hview ref_h4 = hw_view" "hwaiting ref_h4 = hw_wait"
  "hv_bufs (hw_view u) = hw_bufs u" "hv_fifo (hw_view u) = hw_fifo u" "hv_tx_irq (hw_view u) = hw_irq u"
  "hv_log (hw_view u) = hw_log u" "hv_passed (hw_view u) = hw_passed u" "hv_sent (hw_view u) = hw_sent u"
  by (simp_all add: ref_h4_def hw_view_def)

lemma ref_h4_rx_laws: "h4_rx_laws ref_h4"
  unfolding h4_rx_laws_def
proof (intro conjI)
  show "hci_format_laws ref_h4" by (simp add: hci_format_laws_def ref_h4_def)
  show "uart_read_law ref_h4"
    by (auto simp: uart_read_law_def ref_h4_def hw_read_def hw_view_def Let_def)
  show "h4_alloc_law ref_h4"
    by (auto simp: h4_alloc_law_def ref_h4_def hw_alloc_def hw_view_def hw_set_def split: if_splits)
  show "h4_buf_laws ref_h4"
    by (auto simp: h4_buf_laws_def ref_h4_def hw_add_def hw_room_def hw_view_def hw_set_def)
  show "h4_put_law ref_h4"
    by (auto simp: h4_put_law_def ref_h4_def hw_put_def hw_view_def)
qed

lemma ref_h4_tx_laws: "h4_tx_laws ref_h4"
  by (auto simp: h4_tx_laws_def ref_h4_def hw_get_def hw_put_def hw_fill_def hw_pull_def hw_set_def hw_view_def
      min_def split: list.splits)

lemma ref_h4_irq_laws: "h4_irq_laws ref_h4"
proof -
  have "h4_quiet_laws ref_h4"
    by (auto simp: h4_quiet_laws_def ref_h4_def hw_read_def hw_alloc_def hw_add_def hw_set_def hw_put_def Let_def
        split: option.splits if_splits)
  moreover have "h4_line_laws ref_h4"
    by (auto simp: h4_line_laws_def ref_h4_def hw_get_def hw_fill_def hw_pull_def hw_set_def min_def
        split: option.splits list.splits)
  ultimately show ?thesis by (auto simp: h4_irq_laws_def) (auto simp: ref_h4_def)
qed

lemma ref_bridge_booted: "bridge_booted ref_h4 (ref_bridge bytes free)"
  by (simp add: bridge_booted_def h4_booted_def tx_pending_def ref_bridge_def)

text \<open>Two packets, a command without parameters and ACL data.\<close>

definition ref_packets :: "(u8 \<times> u8 list) list" where
  "ref_packets = [(0x01, [0x03, 0x0C, 0x00]), (0x02, [0x40, 0x00, 0x02, 0x00, 0xAA, 0xBB])]"

text \<open>Running the interrupt: the second operation of a bind waits for the first.\<close>

lemma bind_weak_cong: "m = m' \<Longrightarrow> Option.bind m f = Option.bind m' f"
  by simp

lemmas hw_run = rx_isr.simps rx_turn_def rx_idle_def rx_hdr_def rx_payload_def rx_discard_def rx_header_done_def
  h4_read_def hw_read_def hw_alloc_def hw_add_def hw_room_def hw_set_def hw_put_def
  h4_rx_init_def valid_type_def hdr_len_def get_len_def overwrite_at_def overwrite_def mem_read_def h4_consts

lemma ref_h4_sel [simp]:
  "sizeof_cmd_hdr ref_h4 = 3" "sizeof_acl_hdr ref_h4 = 4" "sizeof_iso_hdr ref_h4 = 4"
  "cmd_param_len ref_h4 = (\<lambda>h. unat (h ! 2))" "acl_data_len ref_h4 = (\<lambda>h. unat (mk16 (h ! 2) (h ! 3)))"
  "uart_fifo_read ref_h4 = hw_read" "bt_buf_get_tx ref_h4 = hw_alloc" "hbuf_add_mem ref_h4 = hw_add"
  "hbuf_tailroom ref_h4 = hw_room" "h_fifo_put ref_h4 = hw_put"
  by (simp_all add: ref_h4_def)

lemmas hw_states = ref_bridge_def hw_view_def Let_def

lemma h4_step_payload:
  "0 < n \<Longrightarrow> h4_step E (Payload t d n, ps) (Byte b) =
     Some (if n = 1 then (Idle, ps @ [(t, d @ [b])]) else (Payload t (d @ [b]) (n - 1), ps))"
  by (cases n) auto

text \<open>A run that receives the two packets, in two interrupts.\<close>

lemma ref_bridge_receives:
  obtains s' where "bridge_runs ref_h4 (ref_bridge (concat (map h4_encode ref_packets)) 2) [] s'"
    and "hv_log (hview ref_h4 (env s')) = [Byte 0x01, Byte 0x03, Byte 0x0C, Byte 0x00, Room (Some 260),
      Byte 0x02, Byte 0x40, Byte 0x00, Byte 0x02, Byte 0x00, Room (Some 260), Byte 0xAA, Byte 0xBB]"
proof -
  let ?s = "ref_bridge (concat (map h4_encode ref_packets)) 2"
  have "\<exists>s'. Option.bind (rx_isr ref_h4 ?s) (rx_isr ref_h4) = Some s' \<and> hv_log (hview ref_h4 (env s')) =
      [Byte 0x01, Byte 0x03, Byte 0x0C, Byte 0x00, Room (Some 260),
       Byte 0x02, Byte 0x40, Byte 0x00, Byte 0x02, Byte 0x00, Room (Some 260), Byte 0xAA, Byte 0xBB]"
    by (simp add: hw_run hw_states ref_packets_def h4_encode_def mk16_def cong: bind_weak_cong)
  then obtain s1 s' where "rx_isr ref_h4 ?s = Some s1" "rx_isr ref_h4 s1 = Some s'" and
    l: "hv_log (hview ref_h4 (env s')) = [Byte 0x01, Byte 0x03, Byte 0x0C, Byte 0x00, Room (Some 260),
      Byte 0x02, Byte 0x40, Byte 0x00, Byte 0x02, Byte 0x00, Room (Some 260), Byte 0xAA, Byte 0xBB]"
    by (auto simp: bind_Some_iff)
  then have "bridge_runs ref_h4 ?s [] s'"
    by (blast intro: bridge_runs.intros)
  then show ?thesis using l by (rule that)
qed

text \<open>A run in which the buffer for an ACL packet is refused, a buffer comes back, and the payload
  follows.\<close>

lemma ref_bridge_refuses:
  obtains s' where "bridge_runs ref_h4 (ref_bridge [0x02, 0x40, 0x00, 0x04, 0x00, 0x01, 0x03, 0x0C, 0x00] 0) [] s'"
    and "hv_log (hview ref_h4 (env s')) = map Byte (0x02 # [0x40, 0x00, 0x04, 0x00]) @ [Room None] @
      [Byte 0x01, Byte 0x03, Byte 0x0C, Byte 0x00, Room (Some 260)]"
proof -
  let ?s = "ref_bridge [0x02, 0x40, 0x00, 0x04, 0x00, 0x01, 0x03, 0x0C, 0x00] 0"
  let ?free = "\<lambda>s. s\<lparr>env := (env s)\<lparr>hw_free := 1\<rparr>\<rparr> :: hworld h4_machine"
  have "\<exists>s'. Option.bind (rx_isr ref_h4 ?s) (\<lambda>s. rx_isr ref_h4 (?free s)) = Some s' \<and> hv_log (hview ref_h4 (env s')) =
      map Byte (0x02 # [0x40, 0x00, 0x04, 0x00]) @ [Room None] @
      [Byte 0x01, Byte 0x03, Byte 0x0C, Byte 0x00, Room (Some 260)]"
    by (simp add: hw_run hw_states mk16_def cong: bind_weak_cong)
  then obtain s1 s' where r: "rx_isr ref_h4 ?s = Some s1" "rx_isr ref_h4 (?free s1) = Some s'" and
    l: "hv_log (hview ref_h4 (env s')) = map Byte (0x02 # [0x40, 0x00, 0x04, 0x00]) @ [Room None] @
      [Byte 0x01, Byte 0x03, Byte 0x0C, Byte 0x00, Room (Some 260)]"
    by (auto simp: bind_Some_iff)
  have ok: "bridge_ok ref_h4 [] s1"
    using bridge_runs_ok[OF bridge_runs.receives[OF bridge_runs.begins r(1)] ref_h4_rx_laws ref_h4_tx_laws ref_bridge_booted] .
  have u: "rx_undisturbed ref_h4 s1 (?free s1)" by (simp add: rx_undisturbed_def)
  have "tx_undisturbed ref_h4 s1 (?free s1)"
    using ok by (auto simp: tx_undisturbed_def bridge_ok_def tx_inv_def rx_owns_def)
  then have "bridge_runs ref_h4 ?s [] (?free s1)"
    by (rule bridge_runs.elsewhere[OF bridge_runs.receives[OF bridge_runs.begins r(1)] u])
  then have "bridge_runs ref_h4 ?s [] s'" using r(2) by (rule bridge_runs.receives)
  then show ?thesis using l by (rule that)
qed

section \<open>Properties\<close>

text \<open>C11. The packets are those of the byte stream: whatever the sizes of the reads and the interleaving with
  the transmitter and other code, as long as no buffer was refused and no packet was longer than its
  buffer, the packets queued for the controller are exactly the packets that a parser finds in all the
  bytes read so far, in order, and what the parser leaves is the packet the receiver is in.\<close>

theorem hci_packets_of_stream:
  assumes "h4_rx_laws E" and "h4_tx_laws E" and "bridge_booted E s" and "bridge_runs E s ds s'"
    and "h4_ample E (Idle, []) (hv_log (hview E (env s')))"
  shows "h4_parse E (h4_bytes (hv_log (hview E (env s')))) =
     (hv_passed (hview E (env s')), h4_open (fst (h4_abs E s')))"
proof (rule h4_between_parses[OF assms(1) _ assms(5)])
  show "h4_between E s'" using bridge_runs_ok[OF assms(4,1,2,3)] by (simp add: bridge_ok_def)
qed

theorem hci_packets_of_stream_witness:
  "\<exists>s'. bridge_runs ref_h4 (ref_bridge (concat (map h4_encode ref_packets)) 2) [] s' \<and>
     h4_parse ref_h4 (h4_bytes (hv_log (hview ref_h4 (env s')))) =
       (hv_passed (hview ref_h4 (env s')), h4_open (fst (h4_abs ref_h4 s')))"
proof -
  obtain s' where s': "bridge_runs ref_h4 (ref_bridge (concat (map h4_encode ref_packets)) 2) [] s'"
    "hv_log (hview ref_h4 (env s')) = [Byte 0x01, Byte 0x03, Byte 0x0C, Byte 0x00, Room (Some 260),
      Byte 0x02, Byte 0x40, Byte 0x00, Byte 0x02, Byte 0x00, Room (Some 260), Byte 0xAA, Byte 0xBB]"
    by (rule ref_bridge_receives)
  have "h4_ample ref_h4 (Idle, []) (hv_log (hview ref_h4 (env s')))"
    unfolding s'(2) by (simp add: valid_type_def hdr_len_def get_len_def h4_consts mk16_def h4_step_payload)
  from hci_packets_of_stream[OF ref_h4_rx_laws ref_h4_tx_laws ref_bridge_booted s'(1) this] s'(1)
  show ?thesis by blast
qed

text \<open>C26. A stream of packets arrives as these packets: if the bytes read are the encodings of a list of
  packets, each type followed by header and payload, that list is what was queued for the controller.\<close>

theorem hci_roundtrip:
  assumes "h4_rx_laws E" and "h4_tx_laws E" and "bridge_booted E s" and "bridge_runs E s ds s'"
    and "h4_ample E (Idle, []) (hv_log (hview E (env s')))"
    and "\<And>p. p \<in> set pkts \<Longrightarrow> h4_packet E p"
    and "h4_bytes (hv_log (hview E (env s'))) = concat (map h4_encode pkts)"
  shows "hv_passed (hview E (env s')) = pkts"
proof -
  have "h4_between E s'" using bridge_runs_ok[OF assms(4,1,2,3)] by (simp add: bridge_ok_def)
  from h4_between_parses[OF assms(1) this assms(5)] h4_parse_encode[of pkts E "[]", OF assms(6)]
  show ?thesis by (simp add: assms(7))
qed

theorem hci_roundtrip_witness:
  "\<exists>s'. bridge_runs ref_h4 (ref_bridge (concat (map h4_encode ref_packets)) 2) [] s' \<and>
     hv_passed (hview ref_h4 (env s')) = ref_packets"
proof -
  obtain s' where s': "bridge_runs ref_h4 (ref_bridge (concat (map h4_encode ref_packets)) 2) [] s'"
    "hv_log (hview ref_h4 (env s')) = [Byte 0x01, Byte 0x03, Byte 0x0C, Byte 0x00, Room (Some 260),
      Byte 0x02, Byte 0x40, Byte 0x00, Byte 0x02, Byte 0x00, Room (Some 260), Byte 0xAA, Byte 0xBB]"
    by (rule ref_bridge_receives)
  note eval = valid_type_def hdr_len_def get_len_def h4_consts mk16_def
  have "h4_ample ref_h4 (Idle, []) (hv_log (hview ref_h4 (env s')))"
    unfolding s'(2) by (simp add: eval h4_step_payload)
  moreover have "\<And>p. p \<in> set ref_packets \<Longrightarrow> h4_packet ref_h4 p"
    by (auto simp: ref_packets_def h4_packet_def eval)
  moreover have "h4_bytes (hv_log (hview ref_h4 (env s'))) = concat (map h4_encode ref_packets)"
    unfolding s'(2) by (simp add: ref_packets_def h4_encode_def)
  ultimately have "hv_passed (hview ref_h4 (env s')) = ref_packets"
    by (rule hci_roundtrip[OF ref_h4_rx_laws ref_h4_tx_laws ref_bridge_booted s'(1)])
  with s'(1) show ?thesis by blast
qed

text \<open>C12. The receive state machine refines the automaton: at every point between interrupts what it
  read and was granted is a trace of the automaton, its static variables stand for the phase the
  automaton is in then, and the packets queued are those the automaton put out.\<close>

theorem hci_receiver_refines:
  assumes "h4_rx_laws E" and "h4_tx_laws E" and "bridge_booted E s" and "bridge_runs E s ds s'"
  shows "h4_run E (Idle, []) (hv_log (hview E (env s'))) = Some (h4_abs E s') \<and>
     snd (h4_abs E s') = hv_passed (hview E (env s'))"
proof -
  have "h4_between E s'" using bridge_runs_ok[OF assms(4,1,2,3)] by (simp add: bridge_ok_def)
  with h4_abs_settled(1)[of E s'] show ?thesis by (simp add: h4_between_def)
qed

theorem hci_receiver_refines_witness:
  "\<exists>s'. bridge_runs ref_h4 (ref_bridge (concat (map h4_encode ref_packets)) 2) [] s' \<and>
     h4_run ref_h4 (Idle, []) (hv_log (hview ref_h4 (env s'))) = Some (h4_abs ref_h4 s') \<and>
     snd (h4_abs ref_h4 s') = hv_passed (hview ref_h4 (env s'))"
proof -
  obtain s' where s': "bridge_runs ref_h4 (ref_bridge (concat (map h4_encode ref_packets)) 2) [] s'"
    by (rule ref_bridge_receives)
  from hci_receiver_refines[OF ref_h4_rx_laws ref_h4_tx_laws ref_bridge_booted this] this show ?thesis by blast
qed

text \<open>The states of the receive loop after some of its turns.\<close>

inductive rx_within :: "'u h4_env \<Rightarrow> 'u h4_machine \<Rightarrow> 'u h4_machine \<Rightarrow> bool" for E s where
  here: "rx_within E s s"
| turn: "rx_within E s s1 \<Longrightarrow> rx_turn E s1 = Some (again, s2) \<Longrightarrow> rx_within E s s2"

inductive_simps rx_within_iff: "rx_within E s s'"

text \<open>C27. The receiver stays in its buffers: whatever bytes come and whichever requests for buffers are
  refused, in every turn of the loop the header buffer and the packet buffer have room for what is still
  to be read into them, and no turn writes past an object or reaches the failing assertion.\<close>

theorem hci_receiver_in_bounds:
  assumes "h4_rx_laws E" and "h4_tx_laws E" and "bridge_booted E s" and "bridge_runs E s ds s1"
    and "rx_within E s1 s2"
  shows "h4_inv E s2 \<and> (\<exists>again s3. rx_turn E s2 = Some (again, s3))"
proof -
  have "h4_inv E s1" using bridge_runs_ok[OF assms(4,1,2,3)] by (simp add: bridge_ok_def h4_between_def)
  with assms(5) have "h4_inv E s2"
  proof induction
    case (turn s1 again s2)
    then show ?case using rx_turn_follows[OF assms(1), of s1] by (auto simp: h4_follows_def)
  qed
  then show ?thesis using rx_turn_follows[OF assms(1)] by metis
qed

theorem hci_receiver_in_bounds_witness:
  "\<exists>s1. bridge_runs ref_h4 (ref_bridge (concat (map h4_encode ref_packets)) 2) [] s1 \<and> h4_inv ref_h4 s1 \<and>
     (\<exists>again s3. rx_turn ref_h4 s1 = Some (again, s3))"
proof -
  obtain s' where s': "bridge_runs ref_h4 (ref_bridge (concat (map h4_encode ref_packets)) 2) [] s'"
    by (rule ref_bridge_receives)
  from hci_receiver_in_bounds[OF ref_h4_rx_laws ref_h4_tx_laws ref_bridge_booted this rx_within.here] this
  show ?thesis by blast
qed

text \<open>C28. A refused buffer puts the receiver out of step: after the header of a packet for which there was
  no buffer, the bytes of its payload are taken for packets of their own. If the payload looks like a
  list of packets, the controller is given these, although the stream is a single packet.\<close>

theorem hci_refused_packet_injects:
  assumes "h4_rx_laws E" and "h4_tx_laws E" and "bridge_booted E s" and "bridge_runs E s ds s'"
    and "hv_log (hview E (env s')) = map Byte (t # hdr) @ [Room None] @ es"
    and "h4_ample E (Idle, []) es" and "h4_bytes es = concat (map h4_encode inner)"
    and "\<And>p. p \<in> set inner \<Longrightarrow> h4_packet E p"
    and "length hdr = hdr_len E t" and "h4_packet E (t, hdr @ h4_bytes es)"
  shows "h4_parse E (h4_bytes (hv_log (hview E (env s')))) = ([(t, hdr @ concat (map h4_encode inner))], []) \<and>
     hv_passed (hview E (env s')) = inner"
proof
  have t: "valid_type t" using assms(10) by (simp add: h4_packet_def)
  have b: "h4_bytes (map Byte bs @ fs) = bs @ h4_bytes fs" for bs fs by (induction bs) simp_all
  have "h4_bytes (hv_log (hview E (env s'))) = t # (hdr @ concat (map h4_encode inner)) @ []"
    unfolding assms(5) b by (simp add: assms(7))
  with h4_parse_packet[OF assms(10), of "[]"]
  show "h4_parse E (h4_bytes (hv_log (hview E (env s')))) = ([(t, hdr @ concat (map h4_encode inner))], [])"
    by (simp add: assms(7) del: h4_parse.simps(2))
  have ok: "h4_between E s'" using bridge_runs_ok[OF assms(4,1,2,3)] by (simp add: bridge_ok_def)
  then have run: "h4_run E (Idle, []) (hv_log (hview E (env s'))) = Some (h4_abs E s')" "h4_inv E s'" "h4_settled s'"
    by (simp_all add: h4_between_def)
  have "h4_run E (Idle, []) (map Byte (t # hdr) @ [Room None]) = Some (Idle, [])"
    using t assms(9) h4_run_header[of "[]" hdr E t "[]"] by (simp add: h4_run_append)
  with run(1) have "h4_run E (Idle, []) es = Some (h4_abs E s')"
    unfolding assms(5) append_assoc[symmetric] by (simp only: h4_run_append[of _ _ _ es] Option.bind.bind_lunit)
  from h4_run_parses[OF assms(1) _ assms(6) this, of "[]"]
  have ph: "h4_phase_ok E (fst (h4_abs E s'))" and
    res: "h4_result E (Idle, []) (h4_bytes es) = h4_result E (h4_abs E s') []" by simp_all
  note sn = h4_abs_settled[OF run(2,3)]
  have "h4_parse E (h4_open (fst (h4_abs E s'))) = ([], h4_open (fst (h4_abs E s')))"
    by (rule h4_parse_open[OF ph]) (rule sn(2))
  with res sn(1) h4_parse_encode[of inner E "[]", OF assms(8)] show "hv_passed (hview E (env s')) = inner"
    by (simp add: h4_result_def assms(7))
qed

theorem hci_refused_packet_injects_witness:
  "\<exists>s'. bridge_runs ref_h4 (ref_bridge [0x02, 0x40, 0x00, 0x04, 0x00, 0x01, 0x03, 0x0C, 0x00] 0) [] s' \<and>
     hv_passed (hview ref_h4 (env s')) = [(0x01, [0x03, 0x0C, 0x00])]"
proof -
  let ?es = "[Byte 0x01, Byte 0x03, Byte 0x0C, Byte 0x00, Room (Some 260)]"
  obtain s' where s': "bridge_runs ref_h4 (ref_bridge [0x02, 0x40, 0x00, 0x04, 0x00, 0x01, 0x03, 0x0C, 0x00] 0) [] s'"
    "hv_log (hview ref_h4 (env s')) = map Byte (0x02 # [0x40, 0x00, 0x04, 0x00]) @ [Room None] @ ?es"
    by (rule ref_bridge_refuses)
  note eval = valid_type_def hdr_len_def get_len_def h4_consts mk16_def
  have "hv_passed (hview ref_h4 (env s')) = [(0x01, [0x03, 0x0C, 0x00])]"
    by (rule hci_refused_packet_injects[OF ref_h4_rx_laws ref_h4_tx_laws ref_bridge_booted s', THEN conjunct2])
      (auto simp: eval h4_encode_def h4_packet_def)
  with s'(1) show ?thesis by blast
qed

text \<open>C29. The UART gets what the controller sent, in order: at every point the bytes the UART accepted are
  a first part of the contents of the buffers given to \<open>h4_send\<close>, one after the other; the rest is what
  is still queued, the transmit interrupt is enabled as long as there is such a rest, and the transmit
  interrupt never touches a released buffer.\<close>

theorem hci_sends_in_order:
  assumes "h4_rx_laws E" and "h4_tx_laws E" and "bridge_booted E s" and "bridge_runs E s ds s'"
  shows "hv_sent (hview E (env s')) @ tx_bytes E s' = concat ds \<and>
     (tx_pending E s' \<noteq> [] \<longrightarrow> hv_tx_irq (hview E (env s'))) \<and> (\<exists>s''. tx_isr E s' = Some s'')"
proof -
  have "bridge_ok E ds s'" by (rule bridge_runs_ok[OF assms(4,1,2,3)])
  with tx_isr_spec[OF assms(2), of s'] show ?thesis by (auto simp: bridge_ok_def tx_inv_def)
qed

text \<open>A bridge with one buffer of the controller.\<close>

definition ref_event :: "hworld h4_machine" where
  "ref_event = (ref_bridge [] 0)\<lparr>env := (env (ref_bridge [] 0))\<lparr>
     hw_bufs := [7 \<mapsto> \<lparr>hb_type = 0x04, hb_room = 260, hb_data = [0x04, 0x0E, 0x01, 0x00]\<rparr>]\<rparr>\<rparr>"

lemma ref_event_booted: "bridge_booted ref_h4 ref_event"
  by (simp add: bridge_booted_def h4_booted_def tx_pending_def ref_bridge_def ref_event_def)

lemma ref_event_sent:
  "bridge_runs ref_h4 ref_event [[0x04, 0x0E, 0x01, 0x00]] (snd (h4_send ref_h4 7 ref_event))"
proof -
  have "bridge_runs ref_h4 ref_event ([] @ [hb_data \<lparr>hb_type = 0x04, hb_room = 260, hb_data = [0x04, 0x0E, 0x01, 0x00]\<rparr>])
      (snd (h4_send ref_h4 7 ref_event))"
    by (rule bridge_runs.sends[OF bridge_runs.begins, where b = 7])
      (simp_all add: ref_event_def ref_bridge_def tx_pending_def rx_owns_def h4_rx_init_def h4_consts h4_send_def)
  then show ?thesis by simp
qed

theorem hci_sends_in_order_witness:
  "\<exists>s'. bridge_runs ref_h4 ref_event [[0x04, 0x0E, 0x01, 0x00]] s' \<and>
     hv_sent (hview ref_h4 (env s')) @ tx_bytes ref_h4 s' = concat [[0x04, 0x0E, 0x01, 0x00]]"
  using hci_sends_in_order[OF ref_h4_rx_laws ref_h4_tx_laws ref_event_booted ref_event_sent] ref_event_sent by blast

text \<open>C30. The UART interrupt returns: when nothing arrives while it runs, it ends, after it has read every
  waiting byte and the UART has taken all that was queued.\<close>

theorem hci_interrupt_returns:
  assumes "h4_rx_laws E" and "h4_tx_laws E" and "h4_irq_laws E" and "bridge_booted E s" and "bridge_runs E s ds s1"
  shows "\<exists>s'. bt_uart_isr E s1 = Some s' \<and> hwaiting E (env s') = [] \<and> tx_pending E s' = [] \<and>
     hv_sent (hview E (env s')) = concat ds"
proof -
  have "bridge_ok E ds s1" by (rule bridge_runs_ok[OF assms(5,1,2,4)])
  from bt_uart_isr_drains[OF assms(1-3) this] show ?thesis by (auto simp: bridge_ok_def tx_bytes_def)
qed

theorem hci_interrupt_returns_witness:
  "\<exists>s'. bt_uart_isr ref_h4 (snd (h4_send ref_h4 7 ref_event)) = Some s' \<and> hwaiting ref_h4 (env s') = [] \<and>
     tx_pending ref_h4 s' = [] \<and> hv_sent (hview ref_h4 (env s')) = concat [[0x04, 0x0E, 0x01, 0x00]]"
  by (rule hci_interrupt_returns[OF ref_h4_rx_laws ref_h4_tx_laws ref_h4_irq_laws ref_event_booted ref_event_sent])

end
