(* ===== verification/Uart_Bridge.thy ===== *)
theory Uart_Bridge
  imports Alfie_Prelude "HOL-Library.Sublist"
begin

text \<open>
  \<^verbatim>\<open>alfie/ble_bridge/src/uart_bridge.c\<close>: the bridge between the nRF9151's console UART and a USB serial
  port, a ring buffer for each direction. The program has no variables of its own besides the rings,
  so its state is that of the drivers and the ring buffers, the unknown \<open>'w\<close> of the record \<open>'w ub_env\<close>,
  and \<open>uview E w\<close> is what can be seen of it.

  The two interrupt handlers are one loop, of which a turn has three steps: reception, the claim of the
  bytes to send, and their transmission. The handler of the UART can interrupt the one of the USB port
  (which the USB stack calls from a thread), so the runs of the bridge interleave these steps.
\<close>

section \<open>What the program calls\<close>

datatype ub_dev = Uart0 | CdcAcm1
datatype ub_ring = UartToCdc | CdcToUart

text \<open>The contents of the rings and the bytes claimed from them, whether the transmit interrupt of a device
  is enabled, and as histories the bytes read from a device and the bytes it accepted.\<close>

record ub_view =
  uv_ring :: "ub_ring \<Rightarrow> u8 list"
  uv_claimed :: "ub_ring \<Rightarrow> nat"
  uv_tx_irq :: "ub_dev \<Rightarrow> bool"
  uv_read :: "ub_dev \<Rightarrow> u8 list"
  uv_sent :: "ub_dev \<Rightarrow> u8 list"

record 'w ub_env =
  uview :: "'w \<Rightarrow> ub_view"
  ub_fifo_read :: "ub_dev \<Rightarrow> nat \<Rightarrow> 'w \<Rightarrow> (int \<times> u8 list) \<times> 'w"
  ub_fifo_fill :: "ub_dev \<Rightarrow> u8 list \<Rightarrow> 'w \<Rightarrow> int \<times> 'w"
  ring_buf_put :: "ub_ring \<Rightarrow> u8 list \<Rightarrow> 'w \<Rightarrow> nat \<times> 'w"
  ring_buf_get_claim :: "ub_ring \<Rightarrow> nat \<Rightarrow> 'w \<Rightarrow> u8 list \<times> 'w"
  ring_buf_get_finish :: "ub_ring \<Rightarrow> nat \<Rightarrow> 'w \<Rightarrow> 'w"
  ub_irq_update :: "ub_dev \<Rightarrow> 'w \<Rightarrow> bool \<times> 'w"
  ub_irq_is_pending :: "ub_dev \<Rightarrow> 'w \<Rightarrow> bool"
  ub_irq_rx_ready :: "ub_dev \<Rightarrow> 'w \<Rightarrow> bool"
  ub_irq_tx_ready :: "ub_dev \<Rightarrow> 'w \<Rightarrow> bool"
  ub_irq_tx_enable :: "ub_dev \<Rightarrow> 'w \<Rightarrow> 'w"
  ub_irq_tx_disable :: "ub_dev \<Rightarrow> 'w \<Rightarrow> 'w"
  ub_irq_rx_enable :: "ub_dev \<Rightarrow> 'w \<Rightarrow> 'w"
  ub_irq_callback_set :: "ub_dev \<Rightarrow> 'w \<Rightarrow> 'w"
  ub_device_is_ready :: "ub_dev \<Rightarrow> bool"

section \<open>The handlers\<close>

definition BRIDGE_BUF_SIZE :: nat where "BRIDGE_BUF_SIZE = 512"

text \<open>\<open>if (uart_irq_rx_ready(dev)) \<dots>\<close>: the bytes read go into the ring, what does not fit is lost (\<open>ring_buf_put\<close>
  says how many it took; the result is not used).\<close>

definition ub_receive :: "'w ub_env \<Rightarrow> ub_dev \<Rightarrow> ub_dev \<Rightarrow> ub_ring \<Rightarrow> 'w \<Rightarrow> 'w" where
  "ub_receive E dev peer into w =
     (if ub_irq_rx_ready E dev w then
        (let ((len, buf), w1) = ub_fifo_read E dev 64 w
         in if len > 0 then (let (n, w2) = ring_buf_put E into buf w1 in ub_irq_tx_enable E peer w2) else w1)
      else w)"

text \<open>The rest of \<open>if (uart_irq_tx_ready(dev)) \<dots>\<close> after the claim.\<close>

definition ub_transmit :: "'w ub_env \<Rightarrow> ub_dev \<Rightarrow> ub_ring \<Rightarrow> u8 list \<Rightarrow> 'w \<Rightarrow> 'w" where
  "ub_transmit E dev from data w =
     (if length data > 0
      then (let (sent, w1) = ub_fifo_fill E dev data w in ring_buf_get_finish E from (nat sent) w1)
      else ub_irq_tx_disable E dev w)"

definition ub_turn :: "'w ub_env \<Rightarrow> ub_dev \<Rightarrow> ub_dev \<Rightarrow> ub_ring \<Rightarrow> ub_ring \<Rightarrow> 'w \<Rightarrow> 'w" where
  "ub_turn E dev peer into from w =
     (let w1 = ub_receive E dev peer into w in
      if ub_irq_tx_ready E dev w1
      then (let (data, w2) = ring_buf_get_claim E from 64 w1 in ub_transmit E dev from data w2)
      else w1)"

partial_function (option) ub_isr :: "'w ub_env \<Rightarrow> ub_dev \<Rightarrow> ub_dev \<Rightarrow> ub_ring \<Rightarrow> ub_ring \<Rightarrow> 'w \<Rightarrow> 'w option" where
  "ub_isr E dev peer into from w =
     (let (updated, w1) = ub_irq_update E dev w in
      if updated \<and> ub_irq_is_pending E dev w1 then ub_isr E dev peer into from (ub_turn E dev peer into from w1)
      else Some w1)"

definition uart_isr :: "'w ub_env \<Rightarrow> 'w \<Rightarrow> 'w option" where
  "uart_isr E w = ub_isr E Uart0 CdcAcm1 UartToCdc CdcToUart w"

definition cdc_isr :: "'w ub_env \<Rightarrow> 'w \<Rightarrow> 'w option" where
  "cdc_isr E w = ub_isr E CdcAcm1 Uart0 CdcToUart UartToCdc w"

definition uart_bridge_init :: "'w ub_env \<Rightarrow> 'w \<Rightarrow> int \<times> 'w" where
  "uart_bridge_init E w =
     (if \<not> ub_device_is_ready E Uart0 then (- ENODEV, w)
      else if \<not> ub_device_is_ready E CdcAcm1 then (- ENODEV, w)
      else
        let w1 = ub_irq_callback_set E Uart0 w;
            w2 = ub_irq_callback_set E CdcAcm1 w1;
            w3 = ub_irq_rx_enable E Uart0 w2;
            w4 = ub_irq_rx_enable E CdcAcm1 w3
        in (0, w4))"

text \<open>The rings of a device: the one it fills and the one it sends from.\<close>

fun ub_peer :: "ub_dev \<Rightarrow> ub_dev" where
  "ub_peer Uart0 = CdcAcm1"
| "ub_peer CdcAcm1 = Uart0"

fun ub_out :: "ub_dev \<Rightarrow> ub_ring" where
  "ub_out Uart0 = CdcToUart"
| "ub_out CdcAcm1 = UartToCdc"

lemma ub_peer_peer [simp]: "ub_peer (ub_peer d) = d" "ub_peer d \<noteq> d" "d \<noteq> ub_peer d"
  by (cases d; simp)+

lemma ub_out_eq [simp]: "ub_out d = ub_out d' \<longleftrightarrow> d = d'"
  by (cases d; cases d'; simp)

lemma ub_isr_sides:
  "uart_isr E = ub_isr E Uart0 (ub_peer Uart0) (ub_out (ub_peer Uart0)) (ub_out Uart0)"
  "cdc_isr E = ub_isr E CdcAcm1 (ub_peer CdcAcm1) (ub_out (ub_peer CdcAcm1)) (ub_out CdcAcm1)"
  by (simp_all add: fun_eq_iff uart_isr_def cdc_isr_def)

section \<open>What the program relies on\<close>

text \<open>
  Reading and filling say how many bytes they took; a ring buffer takes what fits, a claim is a first
  part of the ring (possibly not all of it, but something if there is something), and finishing up to
  the claimed number of bytes removes them.
\<close>

definition ub_laws :: "'w ub_env \<Rightarrow> bool" where
  "ub_laws E \<longleftrightarrow>
     (\<forall>d len w n bs w'. ub_fifo_read E d len w = ((n, bs), w') \<longrightarrow> n = int (length bs) \<and> length bs \<le> len \<and>
        uview E w' = (uview E w)\<lparr>uv_read := (uv_read (uview E w))(d := uv_read (uview E w) d @ bs)\<rparr>) \<and>
     (\<forall>d bs w n w'. ub_fifo_fill E d bs w = (n, w') \<longrightarrow> 0 \<le> n \<and> n \<le> int (length bs) \<and>
        uview E w' = (uview E w)\<lparr>uv_sent := (uv_sent (uview E w))(d := uv_sent (uview E w) d @ take (nat n) bs)\<rparr>) \<and>
     (\<forall>r bs w n w'. ring_buf_put E r bs w = (n, w') \<longrightarrow>
        n = min (length bs) (BRIDGE_BUF_SIZE - length (uv_ring (uview E w) r)) \<and>
        uview E w' = (uview E w)\<lparr>uv_ring := (uv_ring (uview E w))(r := uv_ring (uview E w) r @ take n bs)\<rparr>) \<and>
     (\<forall>r m w bs w'. ring_buf_get_claim E r m w = (bs, w') \<longrightarrow>
        length bs \<le> m \<and> prefix bs (uv_ring (uview E w) r) \<and>
        (0 < m \<and> uv_ring (uview E w) r \<noteq> [] \<longrightarrow> bs \<noteq> []) \<and>
        uview E w' = (uview E w)\<lparr>uv_claimed := (uv_claimed (uview E w))(r := length bs)\<rparr>) \<and>
     (\<forall>r n w. n \<le> uv_claimed (uview E w) r \<longrightarrow> uview E (ring_buf_get_finish E r n w) =
        (uview E w)\<lparr>uv_ring := (uv_ring (uview E w))(r := drop n (uv_ring (uview E w) r)),
           uv_claimed := (uv_claimed (uview E w))(r := 0)\<rparr>) \<and>
     (\<forall>d w. uview E (ub_irq_tx_enable E d w) = (uview E w)\<lparr>uv_tx_irq := (uv_tx_irq (uview E w))(d := True)\<rparr>) \<and>
     (\<forall>d w. uview E (ub_irq_tx_disable E d w) = (uview E w)\<lparr>uv_tx_irq := (uv_tx_irq (uview E w))(d := False)\<rparr>)"

lemma ub_view:
  assumes "ub_laws E"
  shows "ub_fifo_read E d len w = ((n, bs), w') \<Longrightarrow> n = int (length bs) \<and> length bs \<le> len \<and>
        uview E w' = (uview E w)\<lparr>uv_read := (uv_read (uview E w))(d := uv_read (uview E w) d @ bs)\<rparr>"
    and "ub_fifo_fill E d bs w = (n, w') \<Longrightarrow> 0 \<le> n \<and> n \<le> int (length bs) \<and>
        uview E w' = (uview E w)\<lparr>uv_sent := (uv_sent (uview E w))(d := uv_sent (uview E w) d @ take (nat n) bs)\<rparr>"
    and "ring_buf_put E r bs w = (m, w') \<Longrightarrow>
        m = min (length bs) (BRIDGE_BUF_SIZE - length (uv_ring (uview E w) r)) \<and>
        uview E w' = (uview E w)\<lparr>uv_ring := (uv_ring (uview E w))(r := uv_ring (uview E w) r @ take m bs)\<rparr>"
    and "ring_buf_get_claim E r k w = (bs, w') \<Longrightarrow>
        length bs \<le> k \<and> prefix bs (uv_ring (uview E w) r) \<and>
        (0 < k \<and> uv_ring (uview E w) r \<noteq> [] \<longrightarrow> bs \<noteq> []) \<and>
        uview E w' = (uview E w)\<lparr>uv_claimed := (uv_claimed (uview E w))(r := length bs)\<rparr>"
    and "k \<le> uv_claimed (uview E w) r \<Longrightarrow> uview E (ring_buf_get_finish E r k w) =
        (uview E w)\<lparr>uv_ring := (uv_ring (uview E w))(r := drop k (uv_ring (uview E w) r)),
           uv_claimed := (uv_claimed (uview E w))(r := 0)\<rparr>"
    and "uview E (ub_irq_tx_enable E d w) = (uview E w)\<lparr>uv_tx_irq := (uv_tx_irq (uview E w))(d := True)\<rparr>"
    and "uview E (ub_irq_tx_disable E d w) = (uview E w)\<lparr>uv_tx_irq := (uv_tx_irq (uview E w))(d := False)\<rparr>"
proof -
  note laws = assms[unfolded ub_laws_def]
  show "ub_fifo_read E d len w = ((n, bs), w') \<Longrightarrow> n = int (length bs) \<and> length bs \<le> len \<and>
        uview E w' = (uview E w)\<lparr>uv_read := (uv_read (uview E w))(d := uv_read (uview E w) d @ bs)\<rparr>"
    by (rule laws[THEN conjunct1, rule_format])
  show "ub_fifo_fill E d bs w = (n, w') \<Longrightarrow> 0 \<le> n \<and> n \<le> int (length bs) \<and>
        uview E w' = (uview E w)\<lparr>uv_sent := (uv_sent (uview E w))(d := uv_sent (uview E w) d @ take (nat n) bs)\<rparr>"
    by (rule laws[THEN conjunct2, THEN conjunct1, rule_format])
  show "ring_buf_put E r bs w = (m, w') \<Longrightarrow>
        m = min (length bs) (BRIDGE_BUF_SIZE - length (uv_ring (uview E w) r)) \<and>
        uview E w' = (uview E w)\<lparr>uv_ring := (uv_ring (uview E w))(r := uv_ring (uview E w) r @ take m bs)\<rparr>"
    by (rule laws[THEN conjunct2, THEN conjunct2, THEN conjunct1, rule_format])
  show "ring_buf_get_claim E r k w = (bs, w') \<Longrightarrow>
        length bs \<le> k \<and> prefix bs (uv_ring (uview E w) r) \<and>
        (0 < k \<and> uv_ring (uview E w) r \<noteq> [] \<longrightarrow> bs \<noteq> []) \<and>
        uview E w' = (uview E w)\<lparr>uv_claimed := (uv_claimed (uview E w))(r := length bs)\<rparr>"
    by (rule laws[THEN conjunct2, THEN conjunct2, THEN conjunct2, THEN conjunct1, rule_format])
qed (use assms in \<open>simp_all add: ub_laws_def\<close>)

section \<open>The steps\<close>

text \<open>Reception in terms of what is seen: either nothing was read, or the bytes were put into the ring.\<close>

lemma ub_receive_view:
  assumes laws: "ub_laws E"
  obtains bs where "length bs \<le> 64" and "bs = [] \<Longrightarrow> uview E (ub_receive E d (ub_peer d) r w) = uview E w"
    and "bs \<noteq> [] \<Longrightarrow> uview E (ub_receive E d (ub_peer d) r w) = (uview E w)
        \<lparr>uv_read := (uv_read (uview E w))(d := uv_read (uview E w) d @ bs),
         uv_ring := (uv_ring (uview E w))(r := uv_ring (uview E w) r @
            take (BRIDGE_BUF_SIZE - length (uv_ring (uview E w) r)) bs),
         uv_tx_irq := (uv_tx_irq (uview E w))(ub_peer d := True)\<rparr>"
proof (cases "ub_irq_rx_ready E d w")
  case False
  then show ?thesis by (intro that[of "[]"]) (simp_all add: ub_receive_def)
next
  case True
  obtain n bs w1 where rd: "ub_fifo_read E d 64 w = ((n, bs), w1)" by (metis prod.collapse)
  obtain m w2 where pt: "ring_buf_put E r bs w1 = (m, w2)" by fastforce
  note v = ub_view(1)[OF laws rd] and p = ub_view(3)[OF laws pt]
  show ?thesis
  proof (rule that[of bs])
    show "length bs \<le> 64" using v by simp
    show "uview E (ub_receive E d (ub_peer d) r w) = uview E w" if "bs = []"
      using that v True by (simp add: ub_receive_def rd)
    have mins: "take m bs = take (BRIDGE_BUF_SIZE - length (uv_ring (uview E w) r)) bs"
      using p v by (simp add: min_def)
    show "uview E (ub_receive E d (ub_peer d) r w) = (uview E w)
        \<lparr>uv_read := (uv_read (uview E w))(d := uv_read (uview E w) d @ bs),
         uv_ring := (uv_ring (uview E w))(r := uv_ring (uview E w) r @
            take (BRIDGE_BUF_SIZE - length (uv_ring (uview E w) r)) bs),
         uv_tx_irq := (uv_tx_irq (uview E w))(ub_peer d := True)\<rparr>" if "bs \<noteq> []"
    proof -
      have "uview E (ub_receive E d (ub_peer d) r w) = (uview E w2)\<lparr>uv_tx_irq := (uv_tx_irq (uview E w2))(ub_peer d := True)\<rparr>"
        using that v True pt by (simp add: ub_receive_def rd ub_view(6)[OF laws])
      also have "uview E w2 = (uview E w)\<lparr>uv_read := (uv_read (uview E w))(d := uv_read (uview E w) d @ bs),
          uv_ring := (uv_ring (uview E w))(r := uv_ring (uview E w) r @ take m bs)\<rparr>"
        using p v by simp
      finally show ?thesis by (simp add: mins fun_upd_def)
    qed
  qed
qed

text \<open>Transmission of claimed bytes.\<close>

lemma ub_transmit_view:
  assumes laws: "ub_laws E" and claim: "uv_claimed (uview E w) r = length data"
  obtains n where "n \<le> length data"
    and "data \<noteq> [] \<Longrightarrow> uview E (ub_transmit E d r data w) = (uview E w)
        \<lparr>uv_sent := (uv_sent (uview E w))(d := uv_sent (uview E w) d @ take n data),
         uv_ring := (uv_ring (uview E w))(r := drop n (uv_ring (uview E w) r)),
         uv_claimed := (uv_claimed (uview E w))(r := 0)\<rparr>"
    and "data = [] \<Longrightarrow> uview E (ub_transmit E d r data w) =
        (uview E w)\<lparr>uv_tx_irq := (uv_tx_irq (uview E w))(d := False)\<rparr>"
proof -
  obtain n w1 where f: "ub_fifo_fill E d data w = (n, w1)" by fastforce
  note v = ub_view(2)[OF laws f]
  have k: "nat n \<le> length data" using v by linarith
  show ?thesis
  proof (rule that[OF k])
    show "uview E (ub_transmit E d r data w) = (uview E w)
        \<lparr>uv_sent := (uv_sent (uview E w))(d := uv_sent (uview E w) d @ take (nat n) data),
         uv_ring := (uv_ring (uview E w))(r := drop (nat n) (uv_ring (uview E w) r)),
         uv_claimed := (uv_claimed (uview E w))(r := 0)\<rparr>" if "data \<noteq> []"
    proof -
      have "nat n \<le> uv_claimed (uview E w1) r" using k v claim by simp
      from ub_view(5)[OF laws this] that v show ?thesis by (simp add: ub_transmit_def f)
    qed
    show "uview E (ub_transmit E d r data w) = (uview E w)\<lparr>uv_tx_irq := (uv_tx_irq (uview E w))(d := False)\<rparr>"
      if "data = []" using that by (simp add: ub_transmit_def ub_view(7)[OF laws])
  qed
qed

section \<open>Runs with preemption\<close>

text \<open>
  The state of a run: the world, and for each handler the bytes it has claimed and not yet sent. A third
  component counts the bytes of a device that found no room in the ring.
\<close>

record 'w ub_state =
  ub_world :: 'w
  ub_claim :: "ub_dev \<Rightarrow> u8 list option"
  ub_lost :: "ub_dev \<Rightarrow> nat"

definition ub_lost_by :: "'w ub_env \<Rightarrow> ub_dev \<Rightarrow> 'w \<Rightarrow> 'w \<Rightarrow> nat" where
  "ub_lost_by E d w w' = (let r = ub_out (ub_peer d) in
     length (uv_read (uview E w') d) - length (uv_read (uview E w) d) -
     (length (uv_ring (uview E w') r) - length (uv_ring (uview E w) r)))"

inductive ub_step :: "'w ub_env \<Rightarrow> 'w ub_state \<Rightarrow> 'w ub_state \<Rightarrow> bool" for E where
  receive: "ub_claim s d = None \<Longrightarrow> w' = ub_receive E d (ub_peer d) (ub_out (ub_peer d)) (ub_world s) \<Longrightarrow>
    ub_step E s (s\<lparr>ub_world := w', ub_lost := (ub_lost s)(d := ub_lost s d + ub_lost_by E d (ub_world s) w')\<rparr>)"
| claim: "ub_claim s d = None \<Longrightarrow> ub_irq_tx_ready E d (ub_world s) \<Longrightarrow>
    ring_buf_get_claim E (ub_out d) 64 (ub_world s) = (data, w') \<Longrightarrow>
    ub_step E s (s\<lparr>ub_world := w', ub_claim := (ub_claim s)(d \<mapsto> data)\<rparr>)"
| transmit: "ub_claim s d = Some data \<Longrightarrow> w' = ub_transmit E d (ub_out d) data (ub_world s) \<Longrightarrow>
    ub_step E s (s\<lparr>ub_world := w', ub_claim := (ub_claim s)(d := None)\<rparr>)"

lemma ub_step_cases [consumes 1, case_names receive claim transmit]:
  assumes "ub_step E s s'"
  obtains d w' where "w' = ub_receive E d (ub_peer d) (ub_out (ub_peer d)) (ub_world s)" and "ub_claim s d = None"
      and "s' = s\<lparr>ub_world := w', ub_lost := (ub_lost s)(d := ub_lost s d + ub_lost_by E d (ub_world s) w')\<rparr>"
  | d data w' where "ring_buf_get_claim E (ub_out d) 64 (ub_world s) = (data, w')" and "ub_claim s d = None"
      and "ub_irq_tx_ready E d (ub_world s)" and "s' = s\<lparr>ub_world := w', ub_claim := (ub_claim s)(d \<mapsto> data)\<rparr>"
  | d data w' where "w' = ub_transmit E d (ub_out d) data (ub_world s)" and "ub_claim s d = Some data"
      and "s' = s\<lparr>ub_world := w', ub_claim := (ub_claim s)(d := None)\<rparr>"
  using assms by cases (use that in blast)+

inductive ub_steps :: "'w ub_env \<Rightarrow> 'w ub_state \<Rightarrow> 'w ub_state \<Rightarrow> bool" for E s where
  stays: "ub_steps E s s"
| steps: "ub_steps E s s1 \<Longrightarrow> ub_step E s1 s2 \<Longrightarrow> ub_steps E s s2"

definition ub_start :: "'w ub_env \<Rightarrow> 'w ub_state \<Rightarrow> bool" where
  "ub_start E s \<longleftrightarrow> ub_claim s = (\<lambda>_. None) \<and> ub_lost s = (\<lambda>_. 0) \<and>
     (\<forall>r. uv_ring (uview E (ub_world s)) r = []) \<and>
     (\<forall>d. uv_read (uview E (ub_world s)) d = [] \<and> uv_sent (uview E (ub_world s)) d = [])"

text \<open>A turn of a handler that is not interrupted is a sequence of these steps.\<close>

lemma ub_turn_steps:
  assumes "ub_claim s d = None"
  shows "\<exists>lost. ub_steps E s (s\<lparr>ub_lost := lost,
     ub_world := ub_turn E d (ub_peer d) (ub_out (ub_peer d)) (ub_out d) (ub_world s)\<rparr>)"
proof -
  let ?w1 = "ub_receive E d (ub_peer d) (ub_out (ub_peer d)) (ub_world s)"
  obtain l1 where "ub_step E s (s\<lparr>ub_world := ?w1, ub_lost := l1\<rparr>)"
    using ub_step.receive[OF assms refl, of E] by blast
  moreover have "s\<lparr>ub_world := ?w1, ub_lost := l1\<rparr> = s\<lparr>ub_lost := l1, ub_world := ?w1\<rparr>" by simp
  ultimately have s1: "ub_steps E s (s\<lparr>ub_lost := l1, ub_world := ?w1\<rparr>)"
    by (metis ub_steps.steps ub_steps.stays)
  let ?s1 = "s\<lparr>ub_lost := l1, ub_world := ?w1\<rparr>"
  show ?thesis
  proof (cases "ub_irq_tx_ready E d ?w1")
    case False
    then show ?thesis using s1 by (intro exI[of _ l1]) (simp add: ub_turn_def)
  next
    case True
    obtain data w2 where c: "ring_buf_get_claim E (ub_out d) 64 ?w1 = (data, w2)" by fastforce
    let ?s2 = "?s1\<lparr>ub_world := w2, ub_claim := (ub_claim s)(d \<mapsto> data)\<rparr>"
    have "ub_step E ?s1 ?s2"
      using ub_step.claim[of ?s1 d E data w2] assms True c by simp
    moreover have "ub_step E ?s2 (?s2\<lparr>ub_world := ub_transmit E d (ub_out d) data w2, ub_claim := (ub_claim ?s2)(d := None)\<rparr>)"
      by (rule ub_step.transmit) simp_all
    ultimately have "ub_steps E s (?s2\<lparr>ub_world := ub_transmit E d (ub_out d) data w2, ub_claim := (ub_claim ?s2)(d := None)\<rparr>)"
      using s1 by (blast intro: ub_steps.steps)
    moreover have "(ub_claim ?s2)(d := None) = ub_claim s" using assms by (simp add: fun_upd_idem)
    ultimately show ?thesis using True c by (intro exI[of _ l1]) (simp add: ub_turn_def)
  qed
qed

section \<open>The invariant\<close>

text \<open>For each direction, to device \<open>d\<close>: what was sent and what is in the ring is a subsequence of what was
  read on the other side, short of it by the bytes lost; and a claim is a first part of the ring.\<close>

definition ub_inv :: "'w ub_env \<Rightarrow> 'w ub_state \<Rightarrow> bool" where
  "ub_inv E s \<longleftrightarrow> (\<forall>d. let v = uview E (ub_world s); out = uv_sent v d @ uv_ring v (ub_out d) in
     subseq out (uv_read v (ub_peer d)) \<and>
     length (uv_read v (ub_peer d)) = length out + ub_lost s (ub_peer d) \<and>
     length (uv_ring v (ub_out d)) \<le> BRIDGE_BUF_SIZE \<and>
     (\<forall>data. ub_claim s d = Some data \<longrightarrow> uv_claimed v (ub_out d) = length data \<and>
        prefix data (uv_ring v (ub_out d))))"

lemma ub_start_inv: "ub_start E s \<Longrightarrow> ub_inv E s"
  by (simp add: ub_start_def ub_inv_def Let_def)

text \<open>Parts of the invariant for one direction.\<close>

lemma ub_invD:
  assumes "ub_inv E s"
  defines "v \<equiv> uview E (ub_world s)"
  shows "subseq (uv_sent v d @ uv_ring v (ub_out d)) (uv_read v (ub_peer d))"
    and "length (uv_read v (ub_peer d)) = length (uv_sent v d @ uv_ring v (ub_out d)) + ub_lost s (ub_peer d)"
    and "length (uv_ring v (ub_out d)) \<le> BRIDGE_BUF_SIZE"
    and "ub_claim s d = Some data \<Longrightarrow> uv_claimed v (ub_out d) = length data \<and> prefix data (uv_ring v (ub_out d))"
  using assms(1) unfolding ub_inv_def Let_def v_def by blast+

lemma ub_step_inv:
  assumes laws: "ub_laws E" and step: "ub_step E s s'" and inv: "ub_inv E s"
  shows "ub_inv E s'"
  using step
proof (cases rule: ub_step_cases)
  case (receive d w')
  note w' = receive(1) and s' = receive(3)
  let ?n = "ub_lost_by E d (ub_world s) w'"
  let ?v = "uview E (ub_world s)" and ?r = "ub_out (ub_peer d)"
  obtain bs where bs: "bs = [] \<Longrightarrow> uview E w' = ?v" "bs \<noteq> [] \<Longrightarrow> uview E w' = ?v
        \<lparr>uv_read := (uv_read ?v)(d := uv_read ?v d @ bs),
         uv_ring := (uv_ring ?v)(?r := uv_ring ?v ?r @ take (BRIDGE_BUF_SIZE - length (uv_ring ?v ?r)) bs),
         uv_tx_irq := (uv_tx_irq ?v)(ub_peer d := True)\<rparr>"
    by (rule ub_receive_view[OF laws, of d ?r "ub_world s", folded w']) blast
  show ?thesis
  proof (cases "bs = []")
    case True
    then show ?thesis using inv s' bs(1) by (simp add: ub_inv_def Let_def ub_lost_by_def)
  next
    case False
    note v' = bs(2)[OF False]
    let ?put = "take (BRIDGE_BUF_SIZE - length (uv_ring ?v ?r)) bs"
    have n: "?n = length bs - length ?put" using v' by (simp add: ub_lost_by_def Let_def)
    show ?thesis
      unfolding ub_inv_def Let_def
    proof (intro allI)
      fix e
      show "subseq (uv_sent (uview E (ub_world s')) e @ uv_ring (uview E (ub_world s')) (ub_out e))
           (uv_read (uview E (ub_world s')) (ub_peer e)) \<and>
         length (uv_read (uview E (ub_world s')) (ub_peer e)) =
         length (uv_sent (uview E (ub_world s')) e @ uv_ring (uview E (ub_world s')) (ub_out e)) + ub_lost s' (ub_peer e) \<and>
         length (uv_ring (uview E (ub_world s')) (ub_out e)) \<le> BRIDGE_BUF_SIZE \<and>
         (\<forall>data. ub_claim s' e = Some data \<longrightarrow> uv_claimed (uview E (ub_world s')) (ub_out e) = length data \<and>
            prefix data (uv_ring (uview E (ub_world s')) (ub_out e)))"
      proof (cases "e = ub_peer d")
        case True
        have sub: "subseq ((uv_sent ?v e @ uv_ring ?v ?r) @ ?put) (uv_read ?v d @ bs)"
          by (rule list_emb_append_mono) (use ub_invD(1)[OF inv, of e] True in \<open>simp_all add: prefix_imp_subseq take_is_prefix\<close>)
        have len: "length (uv_read ?v d) = length (uv_sent ?v e @ uv_ring ?v ?r) + ub_lost s d"
          "length (uv_ring ?v ?r) \<le> BRIDGE_BUF_SIZE"
          using ub_invD(2,3)[OF inv, of e] True by simp_all
        show ?thesis
          using sub len n ub_invD(4)[OF inv, of e] True s' v'
          by (auto simp: prefix_def)
      next
        case False
        then have "ub_peer e \<noteq> d" "ub_out e \<noteq> ?r" by auto
        with ub_invD[OF inv, of e] s' v' show ?thesis by simp
      qed
    qed
  qed
next
  case (claim d data w')
  note c = ub_view(4)[OF laws claim(1)]
  show ?thesis
    unfolding ub_inv_def Let_def
    using ub_invD[OF inv] c claim(4) by (auto split: if_splits)
next
  case (transmit d data w')
  note w' = transmit(1) and s' = transmit(3)
  let ?v = "uview E (ub_world s)"
  have cl: "uv_claimed ?v (ub_out d) = length data" "prefix data (uv_ring ?v (ub_out d))"
    using ub_invD(4)[OF inv transmit(2)] by simp_all
  obtain n where n: "n \<le> length data" "data \<noteq> [] \<Longrightarrow> uview E w' = ?v
        \<lparr>uv_sent := (uv_sent ?v)(d := uv_sent ?v d @ take n data),
         uv_ring := (uv_ring ?v)(ub_out d := drop n (uv_ring ?v (ub_out d))),
         uv_claimed := (uv_claimed ?v)(ub_out d := 0)\<rparr>"
    "data = [] \<Longrightarrow> uview E w' = ?v\<lparr>uv_tx_irq := (uv_tx_irq ?v)(d := False)\<rparr>"
    by (rule ub_transmit_view[OF laws cl(1), of d, folded w'], rule that; blast)
  have parts: "uv_sent (uview E w') e @ uv_ring (uview E w') (ub_out e) = uv_sent ?v e @ uv_ring ?v (ub_out e)"
    "uv_read (uview E w') = uv_read ?v" "length (uv_ring (uview E w') (ub_out e)) \<le> BRIDGE_BUF_SIZE"
    "e \<noteq> d \<Longrightarrow> uv_ring (uview E w') (ub_out e) = uv_ring ?v (ub_out e) \<and>
       uv_claimed (uview E w') (ub_out e) = uv_claimed ?v (ub_out e)" for e
  proof -
    have "take n data = take n (uv_ring ?v (ub_out d))" using cl(2) n(1) by (auto simp: prefix_def)
    then show "uv_sent (uview E w') e @ uv_ring (uview E w') (ub_out e) = uv_sent ?v e @ uv_ring ?v (ub_out e)"
      using n(2,3) by (cases "data = []") auto
  qed (use n(2,3) ub_invD(3)[OF inv, of e] in \<open>cases "data = []"; auto\<close>)+
  show ?thesis
    unfolding ub_inv_def Let_def
  proof (intro allI conjI impI)
    fix e
    note i = ub_invD[OF inv, of e]
    show "subseq (uv_sent (uview E (ub_world s')) e @ uv_ring (uview E (ub_world s')) (ub_out e))
        (uv_read (uview E (ub_world s')) (ub_peer e))" using i(1) parts(1,2) s' by simp
    show "length (uv_read (uview E (ub_world s')) (ub_peer e)) =
         length (uv_sent (uview E (ub_world s')) e @ uv_ring (uview E (ub_world s')) (ub_out e)) + ub_lost s' (ub_peer e)"
      using i(2) parts(1)[of e] parts(2) s' by (metis ub_state.select_convs(1,3) ub_state.surjective ub_state.update_convs(1,2))
    show "length (uv_ring (uview E (ub_world s')) (ub_out e)) \<le> BRIDGE_BUF_SIZE"
      using parts(3) s' by simp
    fix data'
    assume "ub_claim s' e = Some data'"
    then have "e \<noteq> d" "ub_claim s e = Some data'" using s' by (auto split: if_splits)
    then show "uv_claimed (uview E (ub_world s')) (ub_out e) = length data'"
      and "prefix data' (uv_ring (uview E (ub_world s')) (ub_out e))"
      using i(4) parts(4)[of e] s' by simp_all
  qed
qed

lemma ub_steps_inv:
  assumes "ub_steps E s s'" and "ub_laws E" and "ub_start E s"
  shows "ub_inv E s'"
  using assms(1) by induction (use assms(2,3) ub_start_inv ub_step_inv in blast)+

end
