(* ===== verification/Uart_Bridge_Properties.thy ===== *)
theory Uart_Bridge_Properties
  imports Uart_Bridge
begin

text \<open>
  What is proved of the UART bridge: the bytes keep their order, what is lost is counted, and whether a
  filled ring is always served depends on the handlers not interrupting each other.
\<close>

section \<open>A reference environment\<close>

record uworld =
  uw_ring :: "ub_ring \<Rightarrow> u8 list"
  uw_claimed :: "ub_ring \<Rightarrow> nat"
  uw_irq :: "ub_dev \<Rightarrow> bool"
  uw_read :: "ub_dev \<Rightarrow> u8 list"
  uw_sent :: "ub_dev \<Rightarrow> u8 list"
  uw_wait :: "ub_dev \<Rightarrow> u8 list"

definition uw_view :: "uworld \<Rightarrow> ub_view" where
  "uw_view w = \<lparr>uv_ring = uw_ring w, uv_claimed = uw_claimed w, uv_tx_irq = uw_irq w, uv_read = uw_read w,
     uv_sent = uw_sent w\<rparr>"

definition ref_ub :: "uworld ub_env" where
  "ref_ub = \<lparr>uview = uw_view,
     ub_fifo_read = (\<lambda>d n w. let bs = take n (uw_wait w d) in ((int (length bs), bs),
       w\<lparr>uw_wait := (uw_wait w)(d := drop n (uw_wait w d)), uw_read := (uw_read w)(d := uw_read w d @ bs)\<rparr>)),
     ub_fifo_fill = (\<lambda>d bs w. (int (length bs), w\<lparr>uw_sent := (uw_sent w)(d := uw_sent w d @ bs)\<rparr>)),
     ring_buf_put = (\<lambda>r bs w. let n = min (length bs) (BRIDGE_BUF_SIZE - length (uw_ring w r)) in
       (n, w\<lparr>uw_ring := (uw_ring w)(r := uw_ring w r @ take n bs)\<rparr>)),
     ring_buf_get_claim = (\<lambda>r n w. let bs = take n (uw_ring w r) in
       (bs, w\<lparr>uw_claimed := (uw_claimed w)(r := length bs)\<rparr>)),
     ring_buf_get_finish = (\<lambda>r n w. w\<lparr>uw_ring := (uw_ring w)(r := drop n (uw_ring w r)),
       uw_claimed := (uw_claimed w)(r := 0)\<rparr>),
     ub_irq_update = (\<lambda>d w. (True, w)),
     ub_irq_is_pending = (\<lambda>d w. uw_wait w d \<noteq> [] \<or> uw_irq w d),
     ub_irq_rx_ready = (\<lambda>d w. uw_wait w d \<noteq> []), ub_irq_tx_ready = (\<lambda>d w. uw_irq w d),
     ub_irq_tx_enable = (\<lambda>d w. w\<lparr>uw_irq := (uw_irq w)(d := True)\<rparr>),
     ub_irq_tx_disable = (\<lambda>d w. w\<lparr>uw_irq := (uw_irq w)(d := False)\<rparr>),
     ub_irq_rx_enable = (\<lambda>d w. w), ub_irq_callback_set = (\<lambda>d w. w), ub_device_is_ready = (\<lambda>d. True)\<rparr>"

definition ref_uworld :: uworld where
  "ref_uworld = \<lparr>uw_ring = (\<lambda>_. []), uw_claimed = (\<lambda>_. 0), uw_irq = (\<lambda>_. True), uw_read = (\<lambda>_. []),
     uw_sent = (\<lambda>_. []), uw_wait = (\<lambda>d. case d of Uart0 \<Rightarrow> [0x68, 0x69] | CdcAcm1 \<Rightarrow> [])\<rparr>"

definition ref_ub_state :: "uworld ub_state" where
  "ref_ub_state = \<lparr>ub_world = ref_uworld, ub_claim = (\<lambda>_. None), ub_lost = (\<lambda>_. 0)\<rparr>"

lemma ref_ub_sel [simp]:
  "uview ref_ub = uw_view"
  "ub_fifo_read ref_ub d n w = (let bs = take n (uw_wait w d) in ((int (length bs), bs),
       w\<lparr>uw_wait := (uw_wait w)(d := drop n (uw_wait w d)), uw_read := (uw_read w)(d := uw_read w d @ bs)\<rparr>))"
  "ring_buf_put ref_ub r bs w = (let n = min (length bs) (BRIDGE_BUF_SIZE - length (uw_ring w r)) in
       (n, w\<lparr>uw_ring := (uw_ring w)(r := uw_ring w r @ take n bs)\<rparr>))"
  "ring_buf_get_claim ref_ub r n w = (let bs = take n (uw_ring w r) in
       (bs, w\<lparr>uw_claimed := (uw_claimed w)(r := length bs)\<rparr>))"
  "ub_irq_rx_ready ref_ub d w = (uw_wait w d \<noteq> [])" "ub_irq_tx_ready ref_ub d w = uw_irq w d"
  "ub_irq_tx_enable ref_ub d w = w\<lparr>uw_irq := (uw_irq w)(d := True)\<rparr>"
  "ub_irq_tx_disable ref_ub d w = w\<lparr>uw_irq := (uw_irq w)(d := False)\<rparr>"
  by (simp_all add: ref_ub_def)

lemma ref_ub_laws: "ub_laws ref_ub"
  by (simp add: ub_laws_def ref_ub_def uw_view_def Let_def take_is_prefix min_def)

lemma ref_ub_start: "ub_start ref_ub ref_ub_state"
  by (simp add: ub_start_def ref_ub_state_def ref_uworld_def ref_ub_def uw_view_def)

lemma ref_ub_receives:
  "ub_steps ref_ub ref_ub_state (ref_ub_state\<lparr>
     ub_world := ub_receive ref_ub Uart0 CdcAcm1 UartToCdc ref_uworld, ub_lost := (\<lambda>_. 0)\<rparr>)"
proof -
  have "ub_lost_by ref_ub Uart0 ref_uworld (ub_receive ref_ub Uart0 CdcAcm1 UartToCdc ref_uworld) = 0"
    by (simp add: ub_lost_by_def ub_receive_def ref_ub_def uw_view_def ref_uworld_def Let_def BRIDGE_BUF_SIZE_def)
  then have "ub_step ref_ub ref_ub_state (ref_ub_state\<lparr>
     ub_world := ub_receive ref_ub Uart0 CdcAcm1 UartToCdc ref_uworld, ub_lost := (\<lambda>_. 0)\<rparr>)"
    using ub_step.receive[of ref_ub_state Uart0 _ ref_ub, OF _ refl] by (simp add: ref_ub_state_def fun_upd_idem)
  then show ?thesis by (rule ub_steps.steps[OF ub_steps.stays])
qed

section \<open>Properties\<close>

text \<open>C13. The UART bridge keeps the order: however the handlers interrupt each other, what a device was given
  followed by what its ring holds is a subsequence of what was read from the other device, shorter by
  exactly the bytes for which the ring had no room, and equal to it if there were none; a ring never
  holds more than 512 bytes.\<close>

theorem uart_bridge_keeps_order:
  assumes "ub_laws E" and "ub_start E s" and "ub_steps E s s'"
  defines "v \<equiv> uview E (ub_world s')"
  shows "subseq (uv_sent v d @ uv_ring v (ub_out d)) (uv_read v (ub_peer d)) \<and>
     length (uv_read v (ub_peer d)) = length (uv_sent v d @ uv_ring v (ub_out d)) + ub_lost s' (ub_peer d) \<and>
     (ub_lost s' (ub_peer d) = 0 \<longrightarrow> uv_sent v d @ uv_ring v (ub_out d) = uv_read v (ub_peer d)) \<and>
     length (uv_ring v (ub_out d)) \<le> BRIDGE_BUF_SIZE"
proof -
  have "ub_inv E s'" by (rule ub_steps_inv[OF assms(3,1,2)])
  note i = ub_invD[OF this, of d, folded v_def]
  have "uv_sent v d @ uv_ring v (ub_out d) = uv_read v (ub_peer d)" if "ub_lost s' (ub_peer d) = 0"
    by (rule subseq_same_length[OF i(1)]) (use i(2) that in simp)
  with i(1-3) show ?thesis by blast
qed

theorem uart_bridge_keeps_order_witness:
  "\<exists>s'. ub_steps ref_ub ref_ub_state s' \<and>
     uv_sent (uview ref_ub (ub_world s')) CdcAcm1 @ uv_ring (uview ref_ub (ub_world s')) (ub_out CdcAcm1) =
       uv_read (uview ref_ub (ub_world s')) (ub_peer CdcAcm1)"
  using uart_bridge_keeps_order[OF ref_ub_laws ref_ub_start ref_ub_receives, of CdcAcm1] ref_ub_receives
  by (intro exI[of _ "ref_ub_state\<lparr>ub_world := ub_receive ref_ub Uart0 CdcAcm1 UartToCdc ref_uworld, ub_lost := (\<lambda>_. 0)\<rparr>"])
    simp

text \<open>C31. A wake-up can be lost: when the handler of the USB port has found its ring empty and the UART's
  handler interrupts it there with new bytes, the USB handler goes on to disable the interrupt the other
  has just enabled. The bridge is then at rest with bytes in the ring that nothing will send.\<close>

theorem uart_bridge_lost_wakeup:
  assumes "ub_laws E" and "ub_steps E s s1" and "ub_claim s1 = (\<lambda>_. None)"
    and "uv_ring (uview E (ub_world s1)) UartToCdc = []" and "ub_irq_tx_ready E CdcAcm1 (ub_world s1)"
    and "ring_buf_get_claim E UartToCdc 64 (ub_world s1) = (data, w)"
    and "ub_irq_rx_ready E Uart0 w" and "fst (ub_fifo_read E Uart0 64 w) = (n, b # bs)"
  shows "\<exists>s'. ub_steps E s s' \<and> ub_claim s' = (\<lambda>_. None) \<and>
     uv_ring (uview E (ub_world s')) UartToCdc = b # bs \<and> \<not> uv_tx_irq (uview E (ub_world s')) CdcAcm1"
proof -
  note laws = assms(1)
  have data: "data = []" "uv_ring (uview E w) UartToCdc = []"
    using ub_view(4)[OF laws assms(6)] assms(4) by simp_all
  let ?s2 = "s1\<lparr>ub_world := w, ub_claim := (ub_claim s1)(CdcAcm1 \<mapsto> data)\<rparr>"
  let ?w3 = "ub_receive E Uart0 (ub_peer Uart0) (ub_out (ub_peer Uart0)) w"
  let ?s3 = "?s2\<lparr>ub_world := ?w3, ub_lost := (ub_lost ?s2)(Uart0 := ub_lost ?s2 Uart0 + ub_lost_by E Uart0 (ub_world ?s2) ?w3)\<rparr>"
  let ?w4 = "ub_transmit E CdcAcm1 (ub_out CdcAcm1) data (ub_world ?s3)"
  let ?s4 = "?s3\<lparr>ub_world := ?w4, ub_claim := (ub_claim ?s3)(CdcAcm1 := None)\<rparr>"
  have s2: "ub_step E s1 ?s2" by (rule ub_step.claim) (use assms in simp_all)
  have s3: "ub_step E ?s2 ?s3" by (rule ub_step.receive) (use assms(3) in simp_all)
  have s4: "ub_step E ?s3 ?s4" by (rule ub_step.transmit) simp_all
  obtain w2 where rd: "ub_fifo_read E Uart0 64 w = ((n, b # bs), w2)" using assms(8) by (metis prod.collapse)
  note v = ub_view(1)[OF laws rd]
  obtain m w3 where pt: "ring_buf_put E UartToCdc (b # bs) w2 = (m, w3)" by fastforce
  note p = ub_view(3)[OF laws pt]
  have m: "m = length (b # bs)" using p v data(2) by (simp add: BRIDGE_BUF_SIZE_def)
  have "uv_ring (uview E ?w3) UartToCdc = b # bs"
    using v p data(2) assms(7) m by (simp add: ub_receive_def rd pt ub_view(6)[OF laws])
  then have "uv_ring (uview E (ub_world ?s4)) UartToCdc = b # bs" "\<not> uv_tx_irq (uview E (ub_world ?s4)) CdcAcm1"
    by (simp_all add: ub_transmit_def data(1) ub_view(7)[OF laws])
  moreover have "ub_claim ?s4 = (\<lambda>_. None)" using assms(3) by (simp add: fun_eq_iff)
  moreover have "ub_steps E s ?s4" using ub_steps.steps[OF ub_steps.steps[OF ub_steps.steps[OF assms(2) s2] s3] s4] .
  ultimately show ?thesis by blast
qed

theorem uart_bridge_lost_wakeup_witness:
  "\<exists>s'. ub_steps ref_ub ref_ub_state s' \<and> ub_claim s' = (\<lambda>_. None) \<and>
     uv_ring (uview ref_ub (ub_world s')) UartToCdc = 0x68 # [0x69] \<and> \<not> uv_tx_irq (uview ref_ub (ub_world s')) CdcAcm1"
proof (rule uart_bridge_lost_wakeup[OF ref_ub_laws ub_steps.stays])
  have w: "ub_world ref_ub_state = ref_uworld" by (simp add: ref_ub_state_def)
  show "ub_claim ref_ub_state = (\<lambda>_. None)" by (simp add: ref_ub_state_def)
  show "uv_ring (uview ref_ub (ub_world ref_ub_state)) UartToCdc = []" by (simp add: w uw_view_def ref_uworld_def)
  show "ub_irq_tx_ready ref_ub CdcAcm1 (ub_world ref_ub_state)" by (simp add: w ref_uworld_def)
  show "ring_buf_get_claim ref_ub UartToCdc 64 (ub_world ref_ub_state) = ([], ref_uworld)"
    unfolding w by (simp add: ref_uworld_def Let_def fun_eq_iff)
  show "ub_irq_rx_ready ref_ub Uart0 ref_uworld" by (simp add: ref_uworld_def)
  show "fst (ub_fifo_read ref_ub Uart0 64 ref_uworld) = (2, 0x68 # [0x69])" by (simp add: ref_uworld_def Let_def)
qed

text \<open>Runs of the handlers without preemption: whole turns.\<close>

inductive ub_turns :: "'w ub_env \<Rightarrow> 'w \<Rightarrow> 'w \<Rightarrow> bool" for E w where
  none: "ub_turns E w w"
| turn: "ub_turns E w w1 \<Longrightarrow> w2 = ub_turn E d (ub_peer d) (ub_out (ub_peer d)) (ub_out d) w1 \<Longrightarrow> ub_turns E w w2"

lemma ub_turn_serves:
  assumes laws: "ub_laws E" and inv: "\<And>d. uv_ring (uview E w) (ub_out d) \<noteq> [] \<Longrightarrow> uv_tx_irq (uview E w) d"
    and full: "uv_ring (uview E (ub_turn E e (ub_peer e) (ub_out (ub_peer e)) (ub_out e) w)) (ub_out d) \<noteq> []"
  shows "uv_tx_irq (uview E (ub_turn E e (ub_peer e) (ub_out (ub_peer e)) (ub_out e) w)) d"
proof -
  let ?w1 = "ub_receive E e (ub_peer e) (ub_out (ub_peer e)) w"
  obtain bs where bs: "bs = [] \<Longrightarrow> uview E ?w1 = uview E w"
    "bs \<noteq> [] \<Longrightarrow> uview E ?w1 = (uview E w)
        \<lparr>uv_read := (uv_read (uview E w))(e := uv_read (uview E w) e @ bs),
         uv_ring := (uv_ring (uview E w))(ub_out (ub_peer e) := uv_ring (uview E w) (ub_out (ub_peer e)) @
            take (BRIDGE_BUF_SIZE - length (uv_ring (uview E w) (ub_out (ub_peer e)))) bs),
         uv_tx_irq := (uv_tx_irq (uview E w))(ub_peer e := True)\<rparr>"
    by (rule ub_receive_view[OF laws, of e "ub_out (ub_peer e)" w]) blast
  have inv1: "uv_tx_irq (uview E ?w1) d" if "uv_ring (uview E ?w1) (ub_out d) \<noteq> []" for d
    using that inv[of d] bs by (cases "bs = []") (auto split: if_splits)
  show ?thesis
  proof (cases "ub_irq_tx_ready E e ?w1")
    case False
    then show ?thesis using inv1 full by (simp add: ub_turn_def)
  next
    case True
    obtain data w2 where c: "ring_buf_get_claim E (ub_out e) 64 ?w1 = (data, w2)" by fastforce
    note cv = ub_view(4)[OF laws c]
    have turn: "ub_turn E e (ub_peer e) (ub_out (ub_peer e)) (ub_out e) w = ub_transmit E e (ub_out e) data w2"
      using True c by (simp add: ub_turn_def)
    have claimed: "uv_claimed (uview E w2) (ub_out e) = length data" using cv by simp
    obtain n where n: "data \<noteq> [] \<Longrightarrow> uview E (ub_transmit E e (ub_out e) data w2) = (uview E w2)
        \<lparr>uv_sent := (uv_sent (uview E w2))(e := uv_sent (uview E w2) e @ take n data),
         uv_ring := (uv_ring (uview E w2))(ub_out e := drop n (uv_ring (uview E w2) (ub_out e))),
         uv_claimed := (uv_claimed (uview E w2))(ub_out e := 0)\<rparr>"
      "data = [] \<Longrightarrow> uview E (ub_transmit E e (ub_out e) data w2) =
        (uview E w2)\<lparr>uv_tx_irq := (uv_tx_irq (uview E w2))(e := False)\<rparr>"
      by (rule ub_transmit_view[OF laws claimed, of e], rule that; blast)
    show ?thesis
    proof (cases "data = []")
      case True
      then have "uv_ring (uview E ?w1) (ub_out e) = []" using cv by auto
      with full n(2)[OF True] cv inv1 show ?thesis unfolding turn by auto
    next
      case False
      have "uv_ring (uview E ?w1) (ub_out d) \<noteq> []"
        using full n(1)[OF False] cv unfolding turn by (auto split: if_splits)
      with inv1[of d] n(1)[OF False] cv show ?thesis unfolding turn by simp
    qed
  qed
qed

text \<open>C32. Without preemption no wake-up is lost: if every turn of a handler runs to its end before another
  begins, then at every point a device whose ring holds bytes has its transmit interrupt enabled.\<close>

theorem uart_bridge_serves_rings:
  assumes "ub_laws E" and "\<And>r. uv_ring (uview E w) r = []" and "ub_turns E w w'"
    and "uv_ring (uview E w') (ub_out d) \<noteq> []"
  shows "uv_tx_irq (uview E w') d"
proof -
  have "\<forall>d. uv_ring (uview E w') (ub_out d) \<noteq> [] \<longrightarrow> uv_tx_irq (uview E w') d"
    using assms(3)
  proof induction
    case (turn w1 w2 e)
    show ?case using ub_turn_serves[OF assms(1), of w1 e] turn.IH unfolding turn.hyps(2) by simp
  qed (simp add: assms(2))
  with assms(4) show ?thesis by blast
qed

theorem uart_bridge_serves_rings_witness:
  "uv_tx_irq (uview ref_ub (ub_turn ref_ub Uart0 CdcAcm1 UartToCdc CdcToUart ref_uworld)) CdcAcm1"
proof (rule uart_bridge_serves_rings[OF ref_ub_laws, of ref_uworld])
  show "ub_turns ref_ub ref_uworld (ub_turn ref_ub Uart0 CdcAcm1 UartToCdc CdcToUart ref_uworld)"
    using ub_turns.turn[OF ub_turns.none, of _ ref_ub Uart0] by simp
  show "uv_ring (uview ref_ub ref_uworld) r = []" for r by (simp add: ref_uworld_def uw_view_def)
  let ?w1 = "ub_receive ref_ub Uart0 CdcAcm1 UartToCdc ref_uworld"
  have w1: "uw_ring ?w1 UartToCdc = [0x68, 0x69]" "uw_ring ?w1 CdcToUart = []" "uw_irq ?w1 Uart0"
    by (simp_all add: ub_receive_def ref_uworld_def BRIDGE_BUF_SIZE_def Let_def)
  then show "uv_ring (uview ref_ub (ub_turn ref_ub Uart0 CdcAcm1 UartToCdc CdcToUart ref_uworld)) (ub_out CdcAcm1) \<noteq> []"
    by (simp add: ub_turn_def ub_transmit_def uw_view_def Let_def)
qed

end
