(* ===== verification/Board_Support.thy ===== *)
theory Board_Support
  imports Alfie_Prelude
begin

text \<open>
  \<^verbatim>\<open>alfie/boards/custom/dectcomm/\<close>: \<^verbatim>\<open>nrf70_support.c\<close>, which powers the radio front end of the
  Wi-Fi chip, and \<^verbatim>\<open>bmm350_init_minimal.c\<close>, which runs at start-up. The drivers they call are a
  record of functions over an unknown state; the only state of their own is the static
  \<open>boot_power_disabled\<close>. The theorem shows that starts and stops keep the regulator's references
  balanced, the reference of the boot configuration included.
\<close>

section \<open>Drivers\<close>

text \<open>
  The functions are the driver calls with the arguments the files give them: \<open>regulator_enable\<close>,
  \<open>regulator_disable\<close> and \<open>regulator_set_mode\<close> (to \<open>NPM6001_MODE_PWM\<close>) on the Wi-Fi regulator,
  \<open>regulator_is_enabled\<close> on the load switch of the sensors. \<open>bd_boot_on\<close> is the flag
  \<open>REGULATOR_BOOT_ON\<close>; \<open>bd_refs\<close> is the number of references of the Wi-Fi regulator, which is on
  while there are any.
\<close>

record 'w board =
  bd_refs :: "'w \<Rightarrow> nat"
  bd_boot_on :: bool
  regulator_is_enabled :: "'w \<Rightarrow> bool"
  regulator_enable :: "'w \<Rightarrow> int \<times> 'w"
  regulator_disable :: "'w \<Rightarrow> int \<times> 'w"
  regulator_set_mode :: "'w \<Rightarrow> int \<times> 'w"
  bd_gpio_set :: "int \<Rightarrow> 'w \<Rightarrow> int \<times> 'w"
  i2c_reg_write_byte :: "u8 \<Rightarrow> u8 \<Rightarrow> u8 \<Rightarrow> 'w \<Rightarrow> int \<times> 'w"
  bd_sleep_us :: "nat \<Rightarrow> 'w \<Rightarrow> 'w"

definition board_laws :: "'w board \<Rightarrow> bool" where
  "board_laws E \<longleftrightarrow>
     (\<forall>w w'. regulator_enable E w = (0, w') \<longrightarrow> bd_refs E w' = bd_refs E w + 1) \<and>
     (\<forall>w w'. 0 < bd_refs E w \<longrightarrow> regulator_disable E w = (0, w') \<longrightarrow> bd_refs E w' = bd_refs E w - 1) \<and>
     (\<forall>w. bd_refs E (snd (regulator_set_mode E w)) = bd_refs E w) \<and>
     (\<forall>n w. bd_refs E (snd (bd_gpio_set E n w)) = bd_refs E w) \<and>
     (\<forall>n w. bd_refs E (bd_sleep_us E n w) = bd_refs E w)"

lemma board_lawsD:
  assumes "board_laws E"
  shows "regulator_enable E w = (0, w') \<Longrightarrow> bd_refs E w' = bd_refs E w + 1"
    and "0 < bd_refs E w \<Longrightarrow> regulator_disable E w = (0, w') \<Longrightarrow> bd_refs E w' = bd_refs E w - 1"
    and "regulator_set_mode E w = (r, w') \<Longrightarrow> bd_refs E w' = bd_refs E w"
    and "bd_gpio_set E i w = (r, w') \<Longrightarrow> bd_refs E w' = bd_refs E w"
    and "bd_refs E (bd_sleep_us E n w) = bd_refs E w"
  using assms unfolding board_laws_def by (blast, blast, metis snd_conv, metis snd_conv, blast)

section \<open>Operations\<close>

record 'w board_machine =
  bd_world :: 'w
  boot_power_disabled :: bool

definition nrf_wifi_if_zep_start_board :: "'w board \<Rightarrow> 'w board_machine \<Rightarrow> int \<times> 'w board_machine" where
  "nrf_wifi_if_zep_start_board E s =
     (let (ret, w1) = regulator_enable E (bd_world s) in
      if ret \<noteq> 0 then (ret, s\<lparr>bd_world := w1\<rparr>)
      else let (ret, w2) = regulator_set_mode E w1 in
      if ret \<noteq> 0 then (ret, s\<lparr>bd_world := w2\<rparr>)
      else let (ret, w3) = bd_gpio_set E 1 w2 in
      if ret \<noteq> 0 then (ret, s\<lparr>bd_world := w3\<rparr>)
      else (0, s\<lparr>bd_world := bd_sleep_us E 300 w3\<rparr>))"

text \<open>The second \<open>regulator_disable\<close>, once after boot: the result and the state.\<close>

definition drop_boot_power :: "'w board \<Rightarrow> 'w board_machine \<Rightarrow> int \<times> 'w board_machine" where
  "drop_boot_power E s =
     (if bd_boot_on E \<and> \<not> boot_power_disabled s
      then let (ret, w) = regulator_disable E (bd_world s) in (ret, s\<lparr>bd_world := w, boot_power_disabled := True\<rparr>)
      else (0, s))"

definition nrf_wifi_if_zep_stop_board :: "'w board \<Rightarrow> 'w board_machine \<Rightarrow> int \<times> 'w board_machine" where
  "nrf_wifi_if_zep_stop_board E s =
     (let (ret, w1) = regulator_disable E (bd_world s) in
      if ret \<noteq> 0 then (ret, s\<lparr>bd_world := w1\<rparr>)
      else let (ret, s2) = drop_boot_power E (s\<lparr>bd_world := w1\<rparr>) in
      if ret \<noteq> 0 then (ret, s2)
      else let (ret, w3) = bd_gpio_set E 0 (bd_world s2) in
      if ret \<noteq> 0 then (ret, s2\<lparr>bd_world := w3\<rparr>)
      else (0, s2\<lparr>bd_world := w3\<rparr>))"

definition BMM350_I2C_ADDRESS :: u8 where "BMM350_I2C_ADDRESS = 0x14"
definition BMM350_REG_OTP_CMD_REG :: u8 where "BMM350_REG_OTP_CMD_REG = 0x50"
definition BMM350_OTP_CMD_PWR_OFF_OTP :: u8 where "BMM350_OTP_CMD_PWR_OFF_OTP = 0x80"
definition BMM350_START_UP_TIME_FROM_POR :: nat where "BMM350_START_UP_TIME_FROM_POR = 3000"

definition bmm350_init_minimal :: "'w board \<Rightarrow> 'w \<Rightarrow> int \<times> 'w" where
  "bmm350_init_minimal E w =
     (if regulator_is_enabled E w
      then let w1 = bd_sleep_us E BMM350_START_UP_TIME_FROM_POR w
           in i2c_reg_write_byte E BMM350_I2C_ADDRESS BMM350_REG_OTP_CMD_REG BMM350_OTP_CMD_PWR_OFF_OTP w1
      else (0, w))"

section \<open>Balance of the regulator's references\<close>

definition boot_refs :: "'w board \<Rightarrow> 'w board_machine \<Rightarrow> nat" where
  "boot_refs E s = (if bd_boot_on E \<and> \<not> boot_power_disabled s then 1 else 0)"

lemma start_refs:
  assumes "board_laws E" and "nrf_wifi_if_zep_start_board E s = (0, s')"
  shows "bd_refs E (bd_world s') = bd_refs E (bd_world s) + 1" and "boot_power_disabled s' = boot_power_disabled s"
proof -
  obtain r1 w1 where e: "regulator_enable E (bd_world s) = (r1, w1)" by fastforce
  obtain r2 w2 where m: "regulator_set_mode E w1 = (r2, w2)" by fastforce
  obtain r3 w3 where g: "bd_gpio_set E 1 w2 = (r3, w3)" by fastforce
  have r: "r1 = 0" "s' = s\<lparr>bd_world := bd_sleep_us E 300 w3\<rparr>"
    using assms(2) by (auto simp: nrf_wifi_if_zep_start_board_def e m g split: if_splits)
  show "bd_refs E (bd_world s') = bd_refs E (bd_world s) + 1"
    using board_lawsD(1)[OF assms(1) e[unfolded r(1)]] board_lawsD(3)[OF assms(1) m] board_lawsD(4)[OF assms(1) g]
    by (simp add: r(2) board_lawsD(5)[OF assms(1)])
  show "boot_power_disabled s' = boot_power_disabled s" by (simp add: r(2))
qed

lemma stop_refs:
  assumes laws: "board_laws E" and run: "nrf_wifi_if_zep_stop_board E s = (0, s')"
    and refs: "bd_refs E (bd_world s) = Suc n + boot_refs E s"
  shows "bd_refs E (bd_world s') = n" and "boot_refs E s' = 0"
proof -
  obtain r1 w1 where d: "regulator_disable E (bd_world s) = (r1, w1)" by fastforce
  obtain r2 s2 where b: "drop_boot_power E (s\<lparr>bd_world := w1\<rparr>) = (r2, s2)" by fastforce
  obtain r3 w3 where g: "bd_gpio_set E 0 (bd_world s2) = (r3, w3)" by fastforce
  have r: "r1 = 0" "r2 = 0" "s' = s2\<lparr>bd_world := w3\<rparr>"
    using run by (auto simp: nrf_wifi_if_zep_stop_board_def d b g split: if_splits)
  have w1: "bd_refs E w1 = n + boot_refs E s" using board_lawsD(2)[OF laws _ d[unfolded r(1)]] refs by simp
  have s2: "bd_refs E (bd_world s2) = n \<and> boot_refs E s2 = 0"
  proof (cases "bd_boot_on E \<and> \<not> boot_power_disabled s")
    case True
    obtain w where "regulator_disable E w1 = (0, w)" "s2 = s\<lparr>bd_world := w, boot_power_disabled := True\<rparr>"
      using b r(2) True by (auto simp: drop_boot_power_def split: prod.splits)
    with board_lawsD(2)[OF laws, of w1 w] w1 True show ?thesis by (simp add: boot_refs_def)
  next
    case False
    then have "s2 = s\<lparr>bd_world := w1\<rparr>" using b by (auto simp: drop_boot_power_def)
    with w1 False show ?thesis by (auto simp: boot_refs_def)
  qed
  have "bd_refs E w3 = bd_refs E (bd_world s2)" by (rule board_lawsD(4)[OF laws g])
  with s2 r(3) show "bd_refs E (bd_world s') = n" "boot_refs E s' = 0" by (simp_all add: boot_refs_def)
qed

text \<open>A run of calls that succeed, starts (\<open>True\<close>) and stops (\<open>False\<close>), and the starts that are left.\<close>

inductive board_run :: "'w board \<Rightarrow> 'w board_machine \<Rightarrow> bool list \<Rightarrow> 'w board_machine \<Rightarrow> bool" for E where
  br_none: "board_run E s [] s"
| br_start: "nrf_wifi_if_zep_start_board E s = (0, t) \<Longrightarrow> board_run E t cs u \<Longrightarrow> board_run E s (True # cs) u"
| br_stop: "nrf_wifi_if_zep_stop_board E s = (0, t) \<Longrightarrow> board_run E t cs u \<Longrightarrow> board_run E s (False # cs) u"

fun started :: "nat \<Rightarrow> bool list \<Rightarrow> nat option" where
  "started n [] = Some n"
| "started n (True # cs) = started (Suc n) cs"
| "started 0 (False # cs) = None"
| "started (Suc n) (False # cs) = started n cs"

lemma board_run_refs:
  assumes "board_run E s cs s'" and "board_laws E" and "started n cs = Some m"
    and "bd_refs E (bd_world s) = n + boot_refs E s"
  shows "bd_refs E (bd_world s') = m + (if False \<in> set cs then 0 else boot_refs E s)"
  using assms
proof (induction arbitrary: n)
  case (br_start s t cs u)
  have "boot_refs E t = boot_refs E s" using start_refs(2)[OF br_start.prems(1) br_start.hyps(1)] by (simp add: boot_refs_def)
  with br_start start_refs(1)[OF br_start.prems(1) br_start.hyps(1)] show ?case by simp
next
  case (br_stop s t cs u)
  then obtain k where k: "n = Suc k" by (cases n) auto
  with br_stop.prems(3) stop_refs[OF br_stop.prems(1) br_stop.hyps(1), of k]
  have "bd_refs E (bd_world t) = k" "boot_refs E t = 0" by simp_all
  with br_stop.IH[OF br_stop.prems(1), of k] br_stop.prems(2) k show ?case by (simp split: if_splits)
qed simp

section \<open>Properties\<close>

text \<open>C39. Power of the Wi-Fi front end: after boot and any run of successful starts and stops in which
  no stop lacks its start, the regulator has one reference for each start that has not been stopped,
  plus, until the first stop, the one the boot configuration took: after the last stop it is off.\<close>

theorem wifi_power_balanced:
  assumes "board_laws E" and "\<not> boot_power_disabled s"
    and "bd_refs E (bd_world s) = (if bd_boot_on E then 1 else 0)"
    and "board_run E s cs s'" and "started 0 cs = Some m"
  shows "bd_refs E (bd_world s') = m + (if bd_boot_on E \<and> False \<notin> set cs then 1 else 0)"
  using board_run_refs[OF assms(4,1,5)] assms(2,3) by (auto simp: boot_refs_def)

definition ref_board :: "nat board" where
  "ref_board = \<lparr>bd_refs = (\<lambda>w. w), bd_boot_on = True, regulator_is_enabled = (\<lambda>w. True),
     regulator_enable = (\<lambda>w. (0, w + 1)), regulator_disable = (\<lambda>w. (0, w - 1)), regulator_set_mode = (\<lambda>w. (0, w)),
     bd_gpio_set = (\<lambda>n w. (0, w)), i2c_reg_write_byte = (\<lambda>a r v w. (0, w)), bd_sleep_us = (\<lambda>n w. w)\<rparr>"

theorem wifi_power_balanced_witness:
  "\<exists>s'. board_run ref_board \<lparr>bd_world = 1, boot_power_disabled = False\<rparr> [True, False, True, False] s' \<and>
     bd_refs ref_board (bd_world s') = 0"
proof -
  have laws: "board_laws ref_board" by (simp add: board_laws_def ref_board_def)
  have run: "board_run ref_board \<lparr>bd_world = 1, boot_power_disabled = False\<rparr> [True, False, True, False]
      \<lparr>bd_world = 0, boot_power_disabled = True\<rparr>"
    by (rule br_start[where t = "\<lparr>bd_world = 2, boot_power_disabled = False\<rparr>"],
        simp add: nrf_wifi_if_zep_start_board_def ref_board_def,
        rule br_stop[where t = "\<lparr>bd_world = 0, boot_power_disabled = True\<rparr>"],
        simp add: nrf_wifi_if_zep_stop_board_def drop_boot_power_def ref_board_def,
        rule br_start[where t = "\<lparr>bd_world = 1, boot_power_disabled = True\<rparr>"],
        simp add: nrf_wifi_if_zep_start_board_def ref_board_def,
        rule br_stop[where t = "\<lparr>bd_world = 0, boot_power_disabled = True\<rparr>"],
        simp add: nrf_wifi_if_zep_stop_board_def drop_boot_power_def ref_board_def, rule br_none)
  have "bd_refs ref_board (bd_world \<lparr>bd_world = 0, boot_power_disabled = True\<rparr>) = 0"
    using wifi_power_balanced[OF laws _ _ run, of 0] by (simp add: ref_board_def)
  with run show ?thesis by blast
qed

text \<open>A start that fails after the regulator is on keeps its reference.\<close>

lemma failed_start_keeps_power:
  assumes laws: "board_laws E" and e: "regulator_enable E (bd_world s) = (0, w1)"
    and m: "regulator_set_mode E w1 = (r, w2)" "r \<noteq> 0"
  shows "nrf_wifi_if_zep_start_board E s = (r, s\<lparr>bd_world := w2\<rparr>)" and "bd_refs E w2 = bd_refs E (bd_world s) + 1"
  using board_lawsD(1)[OF laws e] board_lawsD(3)[OF laws m(1)] m(2)
  by (simp_all add: nrf_wifi_if_zep_start_board_def e m(1))

end
