(* ===== verification/Spec2Isabelle.thy ===== *)
theory Spec2Isabelle
  imports Router_Run Over_The_Air Radio_Limits Pool_Properties Gatt_Services Hci_Properties Uart_Bridge_Properties
    Board_Support
begin

text \<open>
  Verification of the DECT communicator firmware (\<^verbatim>\<open>src/alfie\<close>).

  \<^bold>\<open>The program.\<close> The device has two processors. The nRF9151 runs the application
  (\<^verbatim>\<open>alfie/app/src\<close>): it exchanges text messages with a phone over Bluetooth Low Energy and with
  other devices over a DECT NR+ radio. The nRF5340 runs the bridge (\<^verbatim>\<open>alfie/ble_bridge/src\<close>): it
  makes its Bluetooth controller available to the application over a UART, and passes the console
  on to USB. \<^verbatim>\<open>alfie/boards/custom/dectcomm\<close> holds two start-up routines of the board.

  In the application, a message that arrives in frames is put together in a context of a pool
  (\<^verbatim>\<open>utils/transport_buffer.c\<close>), one pool for each transport: \<^verbatim>\<open>dect/dect_transport_layer.c\<close> over the
  frames of \<^verbatim>\<open>dect/dect_link_layer.c\<close>, and \<^verbatim>\<open>ble/services/alfie_service/alfie_ble_service.c\<close>. A complete
  message is handed to the callback the router registered, which takes a reference and queues the
  context; the thread of \<^verbatim>\<open>alfie/alfie_router.c\<close> writes it to the transports of the other side, shows
  it to the endpoint its header names (\<^verbatim>\<open>alfie/endpoints/messaging\<close>) and drops the reference. Both
  transports cut a message into fragments and send each until it is acknowledged, four times at most.

  \<^bold>\<open>How the code is modelled.\<close> The static variables of each file are a record that extends the
  record of the files it uses: \<open>machine\<close> (kernel and buffer memory), \<open>dev_machine\<close>, \<open>link_machine\<close>,
  \<open>dect_machine\<close>, \<open>ble_machine\<close>, \<open>router_machine\<close>, \<open>app_machine\<close>; an operation takes and returns such
  a state. C integers are words of their width. A result of type \<open>option\<close> is \<open>None\<close> where the code would
  read or write out of bounds, follow a null pointer, fail a kernel assertion, or wait for itself for
  ever. Packed structs are records with their bytes (\<open>put_\<dots>\<close>, \<open>get_\<dots>\<close>). Loops are structural
  recursions over the indices or the list they visit; the loops of the bridge's interrupt handlers, which
  may run for ever in a busy environment, are \<open>partial_function (option)\<close> (\<open>rx_isr\<close>, \<open>bt_uart_isr\<close>,
  \<open>ub_isr\<close>), and \<open>hci_interrupt_returns\<close> says when the HCI interrupt returns. The threads never end; the theorems are about their turns, and
  \<open>prv_router_thread\<close> runs a given number of them. There is no other fuel.

  Code that is not in the repository is a record of functions over an unknown state, and what its
  documentation promises is a predicate on that record: \<open>zephyr\<close> with \<open>clock_laws\<close>, \<open>net_buf_laws\<close>,
  \<open>sem_laws\<close> and so on for the application, \<open>h4_env\<close> and \<open>ub_env\<close> for the bridge, \<open>board\<close> for the board
  support. Each has a concrete instance that satisfies its predicates (\<open>ref_zephyr\<close>, \<open>ref_h4\<close>, \<dots>); the
  witnesses of the theorems run on these. Function pointers are names; the definitions that call
  through them take the meaning of the names as an argument, which \<open>App_Main\<close> supplies.
  What other threads do while one waits is an argument too (\<open>others\<close>); \<open>Router_Run\<close> replaces it by the
  events of the firmware itself.

  \<^bold>\<open>The theories, and what they show.\<close>
  \<^item> \<open>Alfie_Prelude\<close>, \<open>Wire_Formats\<close>, \<open>Zephyr\<close>, \<open>Reference_Kernel\<close>: integers, memory access,
    little-endian coding and chunks; the packed structs with their round trips; the kernel's interface
    and its laws; the reference instance.
  \<^item> \<open>Transport_Buffer\<close> (\<^verbatim>\<open>utils/transport_buffer.c\<close>): the operations on a pool, its invariant \<open>pool_inv\<close>
    (what the state of a context says of its buffer, no buffer is shared or lost), and a lemma for each
    branch of each operation. \<open>Pool_Refinement\<close> and \<open>Pool_Properties\<close>: the pool refines a pool of
    abstract slots under every sequence of calls, no call faults, expiry is right across the wrap of
    the clock; when a write overruns its buffer, and what two threads can do that drop references, by
    schedule of their steps (\<open>unref_schedule\<close>), with what no later operation can repair (\<open>pool_use\<close>).
  \<^item> \<open>Reassembly\<close>: one received fragment, from lookup to write (\<open>rx_step\<close>), and transfers: fragments in
    order with repetitions and with other traffic in between give the message. Its locale
    \<open>fragment_receiver\<close> is the contract by which repetitions do no harm.
  \<^item> \<open>Alfie_Transport\<close> (\<^verbatim>\<open>alfie/alfie_transport.h\<close>): the transport interface; what a transport relies on
    when it hands a message up (\<open>consumes\<close>). \<open>Receive_Path\<close>: the locales \<open>message_handler\<close>,
    \<open>message_transfer\<close> and \<open>message_receiver\<close>, the shape both receive paths have, and \<open>steady_receiver\<close>: what a
    caller knows of the rest of the device stays true while fragments of one message arrive. \<open>Send_Path\<close>: the
    locale \<open>acked_sender\<close>, the retry and fragment loops both transmit paths have. A frame is sent when it is
    put into the radio's queue, or when the Bluetooth host is asked to notify it; the kernel's view keeps the
    history of both, of the latter with the host's answers.
  \<^item> \<open>Device_Id\<close>, \<open>Dect_Link_Layer\<close> (\<^verbatim>\<open>utils/device_id.c\<close>, \<^verbatim>\<open>dect/dect_link_layer.c\<close>): the radio's operations
    and their completion events, the filter of received frames, a turn of the thread, start-up; frames
    round trip. \<open>Dect_Transport_Layer\<close>, \<open>Dect_Sending\<close> (\<^verbatim>\<open>dect/dect_transport_layer.c\<close>): start-up,
    reception and acknowledged transmission, as interpretations of the locales.
    \<open>Link_Turns\<close>: a turn of the link thread in a world that ends every operation of the modem, with the
    queued frame sent and at most one frame heard. \<open>Over_The_Air\<close>: two devices; what one writes is
    delivered at the other, through both threads of the stack, if the air lets a copy of each frame through
    in order (an interpretation of \<open>message_transfer\<close> on whole turns).
    \<open>Radio_Limits\<close>: duplicates of short messages, and the frame whose claimed length is trusted.
  \<^item> \<open>Ble_Core\<close>, \<open>Alfie_Ble_Service\<close>, \<open>Ble_Sending\<close> (\<^verbatim>\<open>ble/ble_core.c\<close>, \<^verbatim>\<open>ble/services\<close>): advertising,
    connections, and the same properties of the transport to the phone. \<open>Gatt_Services\<close>: the tables that
    declare the two services and the connection callbacks to the Bluetooth host, and that they are well typed.
  \<^item> \<open>Alfie_Router\<close>, \<open>Alfie_Messaging_Endpoint\<close>, \<open>App_Main\<close> (\<^verbatim>\<open>alfie/alfie_router.c\<close>,
    \<^verbatim>\<open>alfie/endpoints\<close>, \<^verbatim>\<open>main.c\<close>): the router, the endpoint and the entry point. \<open>Start_Up\<close>: after \<open>main\<close>
    everything is as the other theorems need it. \<open>Message_Relay\<close> (locale \<open>relay_side\<close>),
    \<open>Steady_Reception\<close> (\<open>steady_receiver\<close> on both transports) and \<open>End_To_End\<close>:
    a queued message is sent on by one turn of the thread, and a message that arrives in fragments on
    one side of a firmware with empty queues is written to the other.
  \<^item> \<open>Accounting\<close>, \<open>Firmware_Run\<close>, \<open>Router_Run\<close>: the running firmware as a step relation, from the end of
    \<open>main\<close>, with radio frames and phone writes between and during the turns of the router. In every state
    it reaches the next step does not fault, and each complete message has one owner, so that none is
    leaked, lost between two owners or queued twice.
  \<^item> \<open>Hci_Bridge\<close>, \<open>Hci_Receiver\<close>, \<open>Hci_Stream\<close>, \<open>Hci_Interrupt\<close>, \<open>Hci_Transmit\<close>, \<open>Hci_Properties\<close>
    (\<^verbatim>\<open>ble_bridge/src/main.c\<close>): the UART interrupt, the threads and start-up. The receive state machine
    refines an automaton that takes one byte at a time, and what it queues is what a parser finds in the
    stream; sending keeps the order; the interrupt stays within its buffers and returns.
  \<^item> \<open>Uart_Bridge\<close>, \<open>Uart_Bridge_Properties\<close> (\<^verbatim>\<open>ble_bridge/src/uart_bridge.c\<close>): both directions keep the
    order under every interleaving of the two handlers, and when a filled ring is served.
  \<^item> \<open>Board_Support\<close> (\<^verbatim>\<open>boards/custom/dectcomm\<close>): starts and stops of the Wi-Fi front end are balanced.

  \<^bold>\<open>Limits of the theorems.\<close> A received frame is assumed to hold as many bytes as its header claims and to
  declare a message of at most 512 bytes; \<open>claimed_length_trusted\<close> and \<open>write_overruns_buffer\<close> show what
  happens otherwise. The pools have four contexts of 512 bytes, the transmit queue eight frames, as
  configured. The links drain their queue before they listen again.
  The air of \<open>message_crosses_the_air\<close> may lose and repeat frames and add silence and other traffic, but it keeps
  the order of a sender's frames and does not forge its messages; every operation of the modem completes, with any
  error code. Interleaving is that of whole steps,
  except in \<open>unref_race\<close>, \<open>uart_bridge_keeps_order\<close> and \<open>uart_bridge_lost_wakeup\<close>, which split the steps.

  \<^bold>\<open>Not modelled.\<close> Log messages (but for the received texts of the messaging endpoint, which are a history
  of its state), thread stacks and priorities, what the macros of the kernel and the Bluetooth host expand to
  (their documented effect is a hypothesis), devicetree and build configuration.

  \<^bold>\<open>What modelling showed.\<close> Beside the two limits above: a message of one fragment can be delivered twice
  (\<open>dect_delivers_twice\<close>); an ACK is counted whatever it acknowledges; a notification is three bytes shorter
  than the frames the Bluetooth service fills (\<open>ble_long_message_never_sent\<close>); two threads that drop
  references at once can lose a context (\<open>unref_race\<close>); after a packet for which the bridge has no buffer it
  reads the payload as packets (\<open>hci_refused_packet_injects\<close>); and the UART bridge can go to rest with bytes
  in its ring (\<open>uart_bridge_lost_wakeup\<close>).
\<close>

end
